(* ===== verification/Prelude.thy ===== *)
theory Prelude
  imports Main "HOL-Library.Word"
begin

unbundle bit_operations_syntax

text \<open>
  Shared vocabulary of the development: the machine integer types of
  \<^verbatim>\<open>src/inc/param.h\<close>, the kernel operations as state transformers that may
  return, panic, fault or give up the processor, the loops of the C code as
  recursion over index ranges, and the generic lemmas the component theories
  use through the collections \<open>kop_simps\<close>, \<open>preserves_intros\<close> and \<open>runs_intros\<close>.
\<close>

section \<open>Machine integers\<close>

type_synonym uchar = "8 word"
type_synonym ushort = "16 word"
type_synonym uint = "32 word"

text \<open>
  A C \<^verbatim>\<open>char\<close> is a signed byte on the target: \<open>schar\<close> reads a byte the way
  the code compares it (\<^verbatim>\<open>ch >= 0\<close>).
\<close>

definition schar :: "uchar \<Rightarrow> int" where
  "schar c = sint c"

text \<open>
  \<^verbatim>\<open>1 << n\<close> on a 32-bit operand as the x86 \<^verbatim>\<open>shl\<close> instruction computes it: only
  the low five bits of the count are used.
\<close>

definition shl1 :: "uint \<Rightarrow> uint" where
  "shl1 n = push_bit (unat (n AND 31)) 1"

lemma unat_ucast_up:
  assumes "LENGTH('a) \<le> LENGTH('b)"
  shows "unat (ucast (x :: 'a::len word) :: 'b::len word) = unat x"
proof -
  have "unat x < 2 ^ LENGTH('a)" by simp
  also have "(2 :: nat) ^ LENGTH('a) \<le> 2 ^ LENGTH('b)" using assms by (intro power_increasing) auto
  finally show ?thesis by (simp add: unsigned_ucast_eq take_bit_nat_eq_self)
qed

section \<open>Kernel operations\<close>

named_theorems kop_simps
named_theorems preserves_intros
named_theorems runs_intros

text \<open>
  How an operation can fail to return: \<open>Panic\<close> is the macro \<^verbatim>\<open>panic\<close> of
  \<^verbatim>\<open>src/inc/proto.h\<close> (it prints the message, disables the interrupts and
  spins); \<open>Fault\<close> is an access the C code makes through a null pointer or
  outside an array; \<open>Slept\<close> says that the calling process gave up the
  processor in \<^verbatim>\<open>swtch()\<close> and its kernel thread is suspended there;
  \<open>Ret_user\<close> is the \<^verbatim>\<open>iret\<close> of \<^verbatim>\<open>_retu\<close> to the given user program counter and
  stack pointer, after which the kernel thread does not continue;
  \<open>Spin\<close> is an endless loop of the source.
\<close>

datatype stop = Panic string | Fault string | Slept | Ret_user uint uint | Spin

datatype ('a, 's) res = Ok 'a 's | Stop stop 's

text \<open>The state in which an operation leaves the kernel, however it ends.\<close>

primrec final :: "('a, 's) res \<Rightarrow> 's" where
  "final (Ok a s) = s"
| "final (Stop x s) = s"

definition kret :: "'a \<Rightarrow> 's \<Rightarrow> ('a, 's) res" where
  "kret a s = Ok a s"

definition kbind :: "('s \<Rightarrow> ('a, 's) res) \<Rightarrow> ('a \<Rightarrow> 's \<Rightarrow> ('b, 's) res) \<Rightarrow> 's \<Rightarrow> ('b, 's) res" where
  "kbind m f s = (case m s of Ok a s' \<Rightarrow> f a s' | Stop x s' \<Rightarrow> Stop x s')"

definition kthen :: "('s \<Rightarrow> ('a, 's) res) \<Rightarrow> ('s \<Rightarrow> ('b, 's) res) \<Rightarrow> 's \<Rightarrow> ('b, 's) res" where
  "kthen m n = kbind m (\<lambda>_. n)"

definition kget :: "('s \<Rightarrow> 'a) \<Rightarrow> 's \<Rightarrow> ('a, 's) res" where
  "kget f s = Ok (f s) s"

definition kmod :: "('s \<Rightarrow> 's) \<Rightarrow> 's \<Rightarrow> (unit, 's) res" where
  "kmod f s = Ok () (f s)"

definition kstop :: "stop \<Rightarrow> 's \<Rightarrow> ('a, 's) res" where
  "kstop x s = Stop x s"

abbreviation panic :: "string \<Rightarrow> 's \<Rightarrow> ('a, 's) res" where
  "panic msg \<equiv> kstop (Panic msg)"

definition kwhen :: "bool \<Rightarrow> ('s \<Rightarrow> (unit, 's) res) \<Rightarrow> 's \<Rightarrow> (unit, 's) res" where
  "kwhen b m = (if b then m else kret ())"

text \<open>\<^verbatim>\<open>for (i in is) body\<close>, stopping where the body stops.\<close>

primrec kfor :: "'i list \<Rightarrow> ('i \<Rightarrow> 's \<Rightarrow> (unit, 's) res) \<Rightarrow> 's \<Rightarrow> (unit, 's) res" where
  "kfor [] f = kret ()"
| "kfor (i # is) f = kthen (f i) (kfor is f)"

text \<open>A null pointer dereference is a fault, any other pointer is used.\<close>

definition kderef :: "string \<Rightarrow> 'p option \<Rightarrow> ('p \<Rightarrow> 's \<Rightarrow> ('a, 's) res) \<Rightarrow> 's \<Rightarrow> ('a, 's) res" where
  "kderef what p f = (case p of None \<Rightarrow> kstop (Fault what) | Some q \<Rightarrow> f q)"

lemma kbind_simps [kop_simps]:
  "kbind (kret a) f1 s = f1 a s"
  "kbind (kget g) f2 s = f2 (g s) s"
  "kbind (kmod h) f3 s = f3 () (h s)"
  "kbind (kstop x) f4 s = Stop x s"
  by (simp_all add: kbind_def kret_def kget_def kmod_def kstop_def)

lemma kthen_simps [kop_simps]:
  "kthen (kret a) n s = n s"
  "kthen (kget g) n s = n s"
  "kthen (kmod h) n s = n (h s)"
  "kthen (kstop x) n s = Stop x s"
  by (simp_all add: kthen_def kbind_simps)

lemma kop_apply [kop_simps]:
  "kret a s = Ok a s"
  "kget g s = Ok (g s) s"
  "kmod h s = Ok () (h s)"
  "kstop x s = Stop x s"
  by (simp_all add: kret_def kget_def kmod_def kstop_def)

lemma kbind_Ok [kop_simps]: "m s = Ok a s' \<Longrightarrow> kbind m f s = f a s'"
  by (simp add: kbind_def)

lemma kbind_Stop [kop_simps]: "m s = Stop x s' \<Longrightarrow> kbind m f s = Stop x s'"
  by (simp add: kbind_def)

lemma kthen_Ok [kop_simps]: "m s = Ok a s' \<Longrightarrow> kthen m n s = n s'"
  by (simp add: kthen_def kop_simps)

lemma kthen_Stop [kop_simps]: "m s = Stop x s' \<Longrightarrow> kthen m n s = Stop x s'"
  by (simp add: kthen_def kop_simps)

lemma kwhen_simps [kop_simps]:
  "kwhen True m = m"
  "kwhen False m = kret ()"
  by (simp_all add: kwhen_def)

lemma kderef_simps [kop_simps]:
  "kderef w None f = kstop (Fault w)"
  "kderef w (Some q) f = f q"
  by (simp_all add: kderef_def)

lemma kbind_assoc: "kbind (kbind m f) g = kbind m (\<lambda>a. kbind (f a) g)"
  by (rule ext) (simp add: kbind_def split: res.splits)

lemma kbind_eq_Ok: "kbind m f s = Ok b t \<longleftrightarrow> (\<exists>a s'. m s = Ok a s' \<and> f a s' = Ok b t)"
  by (auto simp: kbind_def split: res.splits)

lemma kthen_eq_Ok: "kthen m n s = Ok b t \<longleftrightarrow> (\<exists>a s'. m s = Ok a s' \<and> n s' = Ok b t)"
  by (simp add: kthen_def kbind_eq_Ok)

lemma kthen_kret [simp]: "kthen m (kret ()) = m"
  by (rule ext) (simp add: kthen_def kbind_def kret_def split: res.splits)

lemma kret_kthen [simp]: "kthen (kret a) n = n"
  by (rule ext) (simp add: kop_simps)

lemma kthen_assoc: "kthen (kthen m n) k = kthen m (kthen n k)"
  by (simp add: kthen_def kbind_assoc)

lemma kfor_append: "kfor (xs @ ys) f = kthen (kfor xs f) (kfor ys f)"
  by (induction xs) (simp_all add: kthen_assoc)

lemma kfor_snoc: "kfor (xs @ [x]) f = kthen (kfor xs f) (f x)"
  by (simp add: kfor_append)

section \<open>Invariants and total specifications\<close>

text \<open>
  \<open>preserves I m\<close>: wherever the operation ends (return, panic, suspension), the
  invariant holds if it held before. \<open>runs P m Q\<close>: from every state in \<open>P\<close> the
  operation returns, with its result and state in \<open>Q\<close>.
\<close>

definition preserves :: "('s \<Rightarrow> bool) \<Rightarrow> ('s \<Rightarrow> ('a, 's) res) \<Rightarrow> bool" where
  "preserves I m \<longleftrightarrow> (\<forall>s. I s \<longrightarrow> I (final (m s)))"

definition runs :: "('s \<Rightarrow> bool) \<Rightarrow> ('s \<Rightarrow> ('a, 's) res) \<Rightarrow> ('a \<Rightarrow> 's \<Rightarrow> bool) \<Rightarrow> bool" where
  "runs P m Q \<longleftrightarrow> (\<forall>s. P s \<longrightarrow> (\<exists>a s'. m s = Ok a s' \<and> Q a s'))"

lemma preservesI: "(\<And>s. I s \<Longrightarrow> I (final (m s))) \<Longrightarrow> preserves I m"
  by (simp add: preserves_def)

lemma preservesD: "preserves I m \<Longrightarrow> I s \<Longrightarrow> I (final (m s))"
  by (simp add: preserves_def)

lemma preserves_Ok: "preserves I m \<Longrightarrow> I s \<Longrightarrow> m s = Ok a s' \<Longrightarrow> I s'"
  by (metis final.simps(1) preserves_def)

lemma preserves_basic [preserves_intros]:
  "preserves I (kret a)" "preserves I (kget f)" "preserves I (kstop x)"
  by (simp_all add: preserves_def kop_simps)

lemma preserves_kmod [preserves_intros]: "(\<And>s. I s \<Longrightarrow> I (f s)) \<Longrightarrow> preserves I (kmod f)"
  by (simp add: preserves_def kop_simps)

lemma preserves_kbind [preserves_intros]:
  "preserves I m \<Longrightarrow> (\<And>a. preserves I (f a)) \<Longrightarrow> preserves I (kbind m f)"
  by (fastforce simp: preserves_def kbind_def split: res.splits)

lemma preserves_kthen [preserves_intros]:
  "preserves I m \<Longrightarrow> preserves I n \<Longrightarrow> preserves I (kthen m n)"
  by (simp add: kthen_def preserves_kbind)

lemma preserves_kwhen [preserves_intros]: "(b \<Longrightarrow> preserves I m) \<Longrightarrow> preserves I (kwhen b m)"
  by (simp add: kwhen_def preserves_basic)

lemma preserves_if [preserves_intros]:
  "(b \<Longrightarrow> preserves I m) \<Longrightarrow> (\<not> b \<Longrightarrow> preserves I n) \<Longrightarrow> preserves I (if b then m else n)"
  by simp

lemma preserves_kfor [preserves_intros]:
  "(\<And>i. i \<in> set is \<Longrightarrow> preserves I (f i)) \<Longrightarrow> preserves I (kfor is f)"
  by (induction "is") (simp_all add: preserves_basic preserves_kthen)

lemma preserves_kderef [preserves_intros]:
  "(\<And>q. p = Some q \<Longrightarrow> preserves I (f q)) \<Longrightarrow> preserves I (kderef w p f)"
  by (cases p) (simp_all add: kop_simps preserves_basic)

lemma preserves_case_option [preserves_intros]:
  "(p = None \<Longrightarrow> preserves I m) \<Longrightarrow> (\<And>q. p = Some q \<Longrightarrow> preserves I (f q)) \<Longrightarrow>
    preserves I (case p of None \<Rightarrow> m | Some q \<Rightarrow> f q)"
  by (cases p) simp_all

lemma runs_kret [runs_intros]: "(\<And>s. P s \<Longrightarrow> Q a s) \<Longrightarrow> runs P (kret a) Q"
  by (simp add: runs_def kop_simps)

lemma runs_kthen [runs_intros]:
  "runs P m (\<lambda>_. R) \<Longrightarrow> runs R n Q \<Longrightarrow> runs P (kthen m n) Q"
  by (fastforce simp: runs_def kthen_eq_Ok)

lemma runs_if [runs_intros]:
  "(b \<Longrightarrow> runs P m Q) \<Longrightarrow> (\<not> b \<Longrightarrow> runs P n Q) \<Longrightarrow> runs P (if b then m else n) Q"
  by simp

lemma runs_kfor:
  assumes "\<And>i. i \<in> set is \<Longrightarrow> runs I (f i) (\<lambda>_. I)"
  shows "runs I (kfor is f) (\<lambda>_. I)"
  using assms
proof (induction "is")
  case Nil
  then show ?case by (simp add: runs_def kop_simps)
next
  case (Cons i "is")
  then show ?case
    by (fastforce simp: runs_def kthen_eq_Ok)
qed

section \<open>Searching a table\<close>

text \<open>
  The loops \<^verbatim>\<open>for (i = lo; i < hi; i++) if (p(i)) return i;\<close> of the kernel's tables:
  the first index with the property, or none.
\<close>

function scan :: "(nat \<Rightarrow> bool) \<Rightarrow> nat \<Rightarrow> nat \<Rightarrow> nat option" where
  "scan p lo hi = (if lo < hi then if p lo then Some lo else scan p (Suc lo) hi else None)"
  by pat_completeness auto
termination
  by (relation "measure (\<lambda>(p, lo, hi). hi - lo)") auto

declare scan.simps [simp del]

lemma scan_step:
  "lo < hi \<Longrightarrow> p lo \<Longrightarrow> scan p lo hi = Some lo"
  "lo < hi \<Longrightarrow> \<not> p lo \<Longrightarrow> scan p lo hi = scan p (Suc lo) hi"
  "hi \<le> lo \<Longrightarrow> scan p lo hi = None"
  by (subst scan.simps, simp)+

lemma scan_Some_iff:
  "scan p lo hi = Some i \<longleftrightarrow> lo \<le> i \<and> i < hi \<and> p i \<and> (\<forall>j. lo \<le> j \<longrightarrow> j < i \<longrightarrow> \<not> p j)"
proof (induction p lo hi rule: scan.induct)
  case (1 p lo hi)
  consider "lo < hi" "p lo" | "lo < hi" "\<not> p lo" | "hi \<le> lo" by linarith
  then show ?case
  proof cases
    case 1
    then show ?thesis by (auto simp: scan_step le_eq_less_or_eq)
  next
    case 2
    have le: "lo \<le> j \<longleftrightarrow> j = lo \<or> Suc lo \<le> j" for j by auto
    have "scan p lo hi = scan p (Suc lo) hi" using 2 by (rule scan_step(2))
    then show ?thesis using "1.IH"[OF 2] 2 unfolding le by auto
  next
    case 3
    then show ?thesis by (auto simp: scan_step)
  qed
qed

lemma scan_None_iff: "scan p lo hi = None \<longleftrightarrow> (\<forall>i. lo \<le> i \<longrightarrow> i < hi \<longrightarrow> \<not> p i)"
proof (induction p lo hi rule: scan.induct)
  case (1 p lo hi)
  consider "lo < hi" "p lo" | "lo < hi" "\<not> p lo" | "hi \<le> lo" by linarith
  then show ?case
  proof cases
    case 2
    have le: "lo \<le> j \<longleftrightarrow> j = lo \<or> Suc lo \<le> j" for j by auto
    have "scan p lo hi = scan p (Suc lo) hi" using 2 by (rule scan_step(2))
    then show ?thesis using "1.IH"[OF 2] 2 unfolding le by auto
  qed (auto simp: scan_step)
qed

lemma scan_cong: "(\<And>i. lo \<le> i \<Longrightarrow> i < hi \<Longrightarrow> p i = q i) \<Longrightarrow> scan p lo hi = scan q lo hi"
proof (induction p lo hi rule: scan.induct)
  case (1 p lo hi)
  then show ?case by (subst (1 2) scan.simps) auto
qed

section \<open>Singly linked chains\<close>

text \<open>
  \<open>chain next h xs\<close>: the pointers from \<open>h\<close> on run through the nodes \<open>xs\<close> and end in the null
  pointer.
\<close>

fun chain :: "('p \<Rightarrow> 'p option) \<Rightarrow> 'p option \<Rightarrow> 'p list \<Rightarrow> bool" where
  "chain nxt h [] \<longleftrightarrow> h = None"
| "chain nxt h (x # xs) \<longleftrightarrow> h = Some x \<and> chain nxt (nxt x) xs"

lemma chain_None [simp]: "chain nxt None xs \<longleftrightarrow> xs = []"
  by (cases xs) simp_all

lemma chain_Some: "chain nxt (Some x) xs \<longleftrightarrow> (\<exists>ys. xs = x # ys \<and> chain nxt (nxt x) ys)"
  by (cases xs) auto

lemma chain_cong: "(\<And>x. x \<in> set xs \<Longrightarrow> nxt x = nxt' x) \<Longrightarrow> chain nxt h xs = chain nxt' h xs"
  by (induction xs arbitrary: h) auto

lemma chain_upd [simp]: "x \<notin> set xs \<Longrightarrow> chain (nxt(x := y)) h xs = chain nxt h xs"
  by (rule chain_cong) auto

lemma chain_unique: "chain nxt h xs \<Longrightarrow> chain nxt h ys \<Longrightarrow> xs = ys"
proof (induction xs arbitrary: h ys)
  case Nil
  then show ?case by simp
next
  case (Cons x xs)
  then show ?case by (cases ys) auto
qed

lemma chain_suffix: "chain nxt h (xs @ x # ys) \<Longrightarrow> chain nxt (nxt x) ys"
  by (induction xs arbitrary: h) auto

lemma chain_distinct: "chain nxt h xs \<Longrightarrow> distinct xs"
proof (induction xs arbitrary: h)
  case Nil
  then show ?case by simp
next
  case (Cons x xs)
  have "x \<notin> set xs"
  proof
    assume "x \<in> set xs"
    then obtain ys zs where xs: "xs = ys @ x # zs" by (auto simp: in_set_conv_decomp)
    with Cons.prems have "chain nxt (nxt x) zs" by (auto dest: chain_suffix)
    with Cons.prems have "xs = zs" using chain_unique [of nxt "nxt x"] by simp
    with xs show False by simp
  qed
  with Cons show ?case by auto
qed

text \<open>Appending a node behind the last one.\<close>

lemma chain_snoc:
  "chain nxt h (xs @ [x]) \<Longrightarrow> y \<notin> set (xs @ [x]) \<Longrightarrow>
    chain (nxt(x := Some y, y := None)) h (xs @ [x, y])"
proof (induction xs arbitrary: h)
  case Nil
  then show ?case by auto
next
  case (Cons z xs)
  then have "z \<noteq> x" using chain_distinct [OF Cons.prems(1)] by auto
  with Cons show ?case by auto
qed

section \<open>Bits of flag words\<close>

definition has :: "'a::len word \<Rightarrow> 'a word \<Rightarrow> bool" where
  "has w m \<longleftrightarrow> w AND m \<noteq> 0"

lemma has_code: "has w m = (w AND m \<noteq> 0)"
  by (simp add: has_def)

end
