(* ===== verification/Kernel.thy ===== *)
theory Kernel
  imports Prelude
begin

text \<open>
  The data of the kernel: the structures of the header files under
  \<^verbatim>\<open>src/inc\<close> as records, the constants as abbreviations, and the record
  \<open>kernel\<close> of the global variables the C files share. A pointer into a static table
  (\<^verbatim>\<open>struct inode *\<close>, \<^verbatim>\<open>struct file *\<close>, \<^verbatim>\<open>struct super *\<close>) is the index of
  the entry, a pointer that may be null an \<open>option\<close>; the tables are functions of the
  index. Objects the C code places in whole pages (page tables, page directories,
  process structures) are kept per page number in a typed store.
\<close>

section \<open>Sizes (param.h)\<close>

abbreviation (input) BLK :: nat where "BLK \<equiv> 1024"
abbreviation (input) PBLK :: nat where "PBLK \<equiv> 512"
abbreviation (input) PAGE :: uint where "PAGE \<equiv> 0x1000"
abbreviation (input) PMEM :: uint where "PMEM \<equiv> 0x8000000"
abbreviation (input) KMEM_END :: uint where "KMEM_END \<equiv> 0x8000000"
abbreviation (input) ROOTINO :: uint where "ROOTINO \<equiv> 1"
abbreviation (input) NPROC :: nat where "NPROC \<equiv> 64"
abbreviation (input) NBUF :: nat where "NBUF \<equiv> 2048"
abbreviation (input) NBLKDEV :: nat where "NBLKDEV \<equiv> 2"
abbreviation (input) NINODE :: nat where "NINODE \<equiv> 128"
abbreviation (input) NFILE :: nat where "NFILE \<equiv> 128"
abbreviation (input) NOFILE :: nat where "NOFILE \<equiv> 16"
abbreviation (input) NMOUNT :: nat where "NMOUNT \<equiv> 16"
abbreviation (input) NTTY :: nat where "NTTY \<equiv> 8"
abbreviation (input) NSIG :: nat where "NSIG \<equiv> 32"
abbreviation (input) NVMA :: nat where "NVMA \<equiv> 5"
abbreviation (input) NPAGE :: nat where "NPAGE \<equiv> 0x8000"
abbreviation (input) NINDBLK :: nat where "NINDBLK \<equiv> 512"
abbreviation (input) MAX_FILESIZ :: uint where "MAX_FILESIZ \<equiv> (7 + 512 + 512 * 512) * 1024"

section \<open>Wait channels\<close>

text \<open>
  The code sleeps on the address of the object it waits for, and 0 means that a
  process waits for nothing. Distinct objects have distinct non-zero addresses, so a
  channel is the name of the object.
\<close>

datatype chan = Ch0 | Ch_buf nat | Ch_bfreelist | Ch_inode nat | Ch_super nat
  | Ch_tty nat | Ch_proc nat | Ch_pause | Ch_hdtab

section \<open>Device numbers (conf.h)\<close>

definition MAJOR :: "ushort \<Rightarrow> uchar" where
  "MAJOR num = ucast ((drop_bit 8 num) AND 0xFF)"

definition MINOR :: "ushort \<Rightarrow> uchar" where
  "MINOR num = ucast (num AND 0xFF)"

definition DEVNO :: "uchar \<Rightarrow> uchar \<Rightarrow> ushort" where
  "DEVNO major minor = push_bit 8 (ucast major) + ucast minor"

abbreviation (input) NODEV :: ushort where "NODEV \<equiv> 0"
abbreviation (input) rootdev :: ushort where "rootdev \<equiv> 0x100"

section \<open>Buffers (buf.h)\<close>

text \<open>
  The nodes of the intrusive lists of the buffer cache. The head of a device's list is
  its \<^verbatim>\<open>struct devtab\<close>, which the code casts to \<^verbatim>\<open>struct buf *\<close>: the five leading
  fields of the two structures coincide (\<^verbatim>\<open>d_active\<close> lies where \<^verbatim>\<open>b_flag\<close> does), so
  both kinds of node are entries of one table of type \<open>buf\<close>. \<open>Bnull\<close> is the null pointer of
  the links before \<^verbatim>\<open>buf_init\<close>.
\<close>

datatype bnode = Bnull | Buff nat | Bfreelist | Hdtab

type_synonym block = "nat \<Rightarrow> uchar"

record buf =
  b_flag :: uint
  b_next :: bnode
  b_prev :: bnode
  av_next :: bnode
  av_prev :: bnode
  b_dev :: ushort
  b_blkno :: uint
  b_data :: block

abbreviation (input) B_READ :: uint where "B_READ \<equiv> 0x1"
abbreviation (input) B_DONE :: uint where "B_DONE \<equiv> 0x2"
abbreviation (input) B_ERROR :: uint where "B_ERROR \<equiv> 0x4"
abbreviation (input) B_BUSY :: uint where "B_BUSY \<equiv> 0x8"
abbreviation (input) B_WANTED :: uint where "B_WANTED \<equiv> 0x10"
abbreviation (input) B_DIRTY :: uint where "B_DIRTY \<equiv> 0x20"
abbreviation (input) B_ASYNC :: uint where "B_ASYNC \<equiv> 0x40"

text \<open>
  The registers of the disk controller that \<^verbatim>\<open>hd_cmd\<close> of \<^verbatim>\<open>src/blk/hd.c\<close> loads.
\<close>

record hdc =
  hd_drive :: uint
  hd_command :: uint
  hd_lba :: uint
  hd_nsect :: uchar

section \<open>Super blocks, inodes, files (super.h, inode.h, file.h)\<close>

record super =
  s_max_inode :: ushort
  s_max_zone :: ushort
  s_nimap_blk :: ushort
  s_nzmap_blk :: ushort
  s_data_zone0 :: ushort
  s_log_bz :: ushort
  s_max_size :: uint
  s_magic :: ushort
  s_padding :: ushort
  s_dev :: ushort
  s_imnt :: "nat option"
  s_flag :: uint

abbreviation (input) S_MAGIC :: ushort where "S_MAGIC \<equiv> 0x138F"
abbreviation (input) S_LOCK :: uint where "S_LOCK \<equiv> 0x1"
abbreviation (input) S_WANTED :: uint where "S_WANTED \<equiv> 0x2"
abbreviation (input) S_RDONLY :: uint where "S_RDONLY \<equiv> 0x4"

record inode =
  i_mode :: ushort
  i_uid :: ushort
  i_size :: uint
  i_mtime :: uint
  i_gid :: uchar
  i_nlink :: uchar
  i_zone :: "nat \<Rightarrow> ushort"
  i_atime :: ushort
  i_ctime :: ushort
  i_count :: ushort
  i_dev :: ushort
  i_num :: uint
  i_flag :: uint

abbreviation (input) I_LOCK :: uint where "I_LOCK \<equiv> 0x1"
abbreviation (input) I_WANTED :: uint where "I_WANTED \<equiv> 0x2"
abbreviation (input) I_DIRTY :: uint where "I_DIRTY \<equiv> 0x4"
abbreviation (input) I_MOUNT :: uint where "I_MOUNT \<equiv> 0x8"
abbreviation (input) I_TEXT :: uint where "I_TEXT \<equiv> 0x10"

abbreviation (input) S_IFMT :: ushort where "S_IFMT \<equiv> 0xF000"
abbreviation (input) S_IFREG :: ushort where "S_IFREG \<equiv> 0x8000"
abbreviation (input) S_IFBLK :: ushort where "S_IFBLK \<equiv> 0x6000"
abbreviation (input) S_IFDIR :: ushort where "S_IFDIR \<equiv> 0x4000"
abbreviation (input) S_IFCHR :: ushort where "S_IFCHR \<equiv> 0x2000"
abbreviation (input) S_IFIFO :: ushort where "S_IFIFO \<equiv> 0x1000"

record kfile =
  f_oflag :: uchar
  f_count :: uchar
  f_offset :: uint
  f_ino :: "nat option"

section \<open>Address spaces (vm.h, mmu.h, page.h)\<close>

record vma =
  v_flag :: uint
  v_base :: uint
  v_size :: uint
  v_ino :: "nat option"
  v_ioff :: uint

abbreviation (input) VMA_RDONLY :: uint where "VMA_RDONLY \<equiv> 0x1"
abbreviation (input) VMA_STACK :: uint where "VMA_STACK \<equiv> 0x2"
abbreviation (input) VMA_ZERO :: uint where "VMA_ZERO \<equiv> 0x4"
abbreviation (input) VMA_MMAP :: uint where "VMA_MMAP \<equiv> 0x8"
abbreviation (input) VMA_PRIVATE :: uint where "VMA_PRIVATE \<equiv> 0x10"
abbreviation (input) VM_STACK :: uint where "VM_STACK \<equiv> 0x80000000"

text \<open>
  The array \<^verbatim>\<open>vm_area[0]\<close> of \<^verbatim>\<open>struct vm\<close> overlays the five areas that follow it:
  text, data, bss, heap and stack are its entries 0 to 4. A page directory is named by
  its page number.
\<close>

record vm =
  vm_pgd :: nat
  vm_entry :: uint
  vm_area :: "nat \<Rightarrow> vma"

abbreviation (input) vm_text :: nat where "vm_text \<equiv> 0"
abbreviation (input) vm_data :: nat where "vm_data \<equiv> 1"
abbreviation (input) vm_bss :: nat where "vm_bss \<equiv> 2"
abbreviation (input) vm_heap :: nat where "vm_heap \<equiv> 3"
abbreviation (input) vm_stack :: nat where "vm_stack \<equiv> 4"

record pde =
  pd_flag :: "9 word"
  pd_avl :: "3 word"
  pd_off :: "20 word"

record pte =
  pt_flag :: "9 word"
  pt_avl :: "3 word"
  pt_off :: "20 word"

abbreviation (input) PTE_P :: "9 word" where "PTE_P \<equiv> 0x001"
abbreviation (input) PTE_W :: "9 word" where "PTE_W \<equiv> 0x002"
abbreviation (input) PTE_U :: "9 word" where "PTE_U \<equiv> 0x004"
abbreviation (input) PTE_PS :: "9 word" where "PTE_PS \<equiv> 0x080"

definition PDX :: "uint \<Rightarrow> nat" where "PDX la = unat ((drop_bit 22 la) AND 0x3FF)"
definition PTX :: "uint \<Rightarrow> nat" where "PTX la = unat ((drop_bit 12 la) AND 0x3FF)"
definition POFF :: "uint \<Rightarrow> nat" where "POFF la = unat (la AND 0xFFF)"
definition PPN :: "uint \<Rightarrow> uint" where "PPN la = drop_bit 12 la"
definition PG_ADDR :: "uint \<Rightarrow> uint" where "PG_ADDR addr = addr AND (NOT 0xFFF)"

record page =
  pg_flag :: uchar
  pg_count :: uchar
  pg_num :: ushort
  pg_next :: "nat option"

abbreviation (input) PG_RSVD :: uchar where "PG_RSVD \<equiv> 0x2"

section \<open>The kernel allocator (malloc.h)\<close>

text \<open>
  Buckets live in the static table \<^verbatim>\<open>bktab\<close>, in the static head \<^verbatim>\<open>bkfreelist\<close>, or
  at an address inside a page carved up by \<^verbatim>\<open>bkalloc\<close>. A free entry is its address.
\<close>

datatype bkptr = Bktab nat | Bkfreelist | Bk_at uint

record bucket =
  bk_size :: uint
  bk_page :: uint
  bk_next :: "bkptr option"
  bk_entry :: "uint option"

section \<open>Terminals (tty.h)\<close>

abbreviation (input) QBUFSIZ :: uint where "QBUFSIZ \<equiv> 1024"

record qbuf =
  q_start :: uint
  q_end :: uint
  q_count :: uint
  q_char :: "nat \<Rightarrow> uchar"

text \<open>The output routine of a terminal: not set yet, or \<^verbatim>\<open>putch\<close> of \<^verbatim>\<open>src/chr/vga.c\<close>.\<close>

datatype putc_fn = Putc_null | Putch

record tty =
  t_flag :: uint
  t_pgrp :: uint
  t_dev :: int
  t_col :: int
  t_row :: int
  t_putc :: putc_fn
  t_rawq :: qbuf
  t_canq :: qbuf
  t_outq :: qbuf

abbreviation (input) TTY_RAW :: uint where "TTY_RAW \<equiv> 0x1"
abbreviation (input) TTY_ECHO :: uint where "TTY_ECHO \<equiv> 0x2"
abbreviation (input) CINTR :: uchar where "CINTR \<equiv> 28"
abbreviation (input) CQUIT :: uchar where "CQUIT \<equiv> 0x1C"
abbreviation (input) CERASE :: uchar where "CERASE \<equiv> 8"
abbreviation (input) CKILL :: uchar where "CKILL \<equiv> 0x15"
abbreviation (input) CEOF :: uchar where "CEOF \<equiv> 4"
abbreviation (input) CSTART :: uchar where "CSTART \<equiv> 0x11"
abbreviation (input) CSTOP :: uchar where "CSTOP \<equiv> 0x13"
abbreviation (input) CSUSP :: uchar where "CSUSP \<equiv> 0x1A"

section \<open>Processes (proc.h, signal.h, idt.h, setjmp.h)\<close>

record sigaction =
  sa_handler :: uint
  sa_mask :: uint
  sa_flags :: uint
  sa_restorer :: uint

abbreviation (input) SIG_DFL :: uint where "SIG_DFL \<equiv> 0"
abbreviation (input) SIG_IGN :: uint where "SIG_IGN \<equiv> 1"
abbreviation (input) SA_NOMASK :: uint where "SA_NOMASK \<equiv> 0x40000000"
abbreviation (input) SA_ONESHOT :: uint where "SA_ONESHOT \<equiv> 0x80000000"
abbreviation (input) SIGINT :: uint where "SIGINT \<equiv> 2"
abbreviation (input) SIGTRAP :: uint where "SIGTRAP \<equiv> 5"
abbreviation (input) SIGKILL :: uint where "SIGKILL \<equiv> 9"
abbreviation (input) SIGSEGV :: uint where "SIGSEGV \<equiv> 11"
abbreviation (input) SIGCHLD :: uint where "SIGCHLD \<equiv> 17"
abbreviation (input) SIGCONT :: uint where "SIGCONT \<equiv> 18"

record trap =
  tf_gs :: uint tf_fs :: uint tf_es :: uint tf_ds :: uint
  tf_edi :: uint tf_esi :: uint tf_ebp :: uint tf__esp :: uint
  tf_ebx :: uint tf_edx :: uint tf_ecx :: uint tf_eax :: uint
  tf_int_no :: uint tf_err_code :: uint
  tf_eip :: uint tf_cs :: uint tf_eflags :: uint tf_esp :: uint tf_ss :: uint

record jmp_buf =
  jb_eip :: uint jb_esp :: uint jb_ebx :: uint jb_ecx :: uint jb_edx :: uint
  jb_esi :: uint jb_edi :: uint jb_ebp :: uint jb_sigmask :: uint

datatype pstat = SNONE | SSLEEP | SWAIT | SRUN | SZOMB | SSTOP

text \<open>
  \<open>p_addr\<close> is the page number of the page that holds the structure and the kernel
  stack of the process (the pointer value \<^verbatim>\<open>proc[nr]\<close>); the other fields are those of
  \<^verbatim>\<open>struct proc\<close>.
\<close>

record proc =
  p_addr :: nat
  p_stat :: pstat
  p_flag :: uchar
  p_chan :: chan
  p_pri :: int
  p_cpu :: int
  p_nice :: int
  p_time :: int
  p_pid :: uint
  p_ppid :: uint
  p_pgrp :: uint
  p_euid :: uint
  p_egid :: uint
  p_ruid :: uint
  p_rgid :: uint
  p_umask :: uint
  p_sig :: uint
  p_sigmask :: uint
  p_cursig :: uint
  p_ret :: uchar
  p_error :: uint
  p_sigact :: "nat \<Rightarrow> sigaction"
  p_wdir :: "nat option"
  p_iroot :: "nat option"
  p_ofile :: "nat \<Rightarrow> nat option"
  p_fdflag :: "nat \<Rightarrow> uint"
  p_vm :: vm
  p_contxt :: jmp_buf
  p_trap :: "trap option"

abbreviation (input) PINOD :: int where "PINOD \<equiv> -90"
abbreviation (input) PRIBIO :: int where "PRIBIO \<equiv> -50"
abbreviation (input) PRITTY :: int where "PRITTY \<equiv> 10"
abbreviation (input) PWAIT :: int where "PWAIT \<equiv> 40"
abbreviation (input) PUSER :: int where "PUSER \<equiv> 100"

abbreviation (input) EPERM :: uint where "EPERM \<equiv> 1"
abbreviation (input) ENOENT :: uint where "ENOENT \<equiv> 2"
abbreviation (input) E2BIG :: uint where "E2BIG \<equiv> 7"
abbreviation (input) EBADF :: uint where "EBADF \<equiv> 9"
abbreviation (input) EACCES :: uint where "EACCES \<equiv> 13"
abbreviation (input) EFAULT :: uint where "EFAULT \<equiv> 14"
abbreviation (input) EBUSY :: uint where "EBUSY \<equiv> 16"
abbreviation (input) EEXIST :: uint where "EEXIST \<equiv> 17"
abbreviation (input) ENODEV :: uint where "ENODEV \<equiv> 19"
abbreviation (input) ENOTDIR :: uint where "ENOTDIR \<equiv> 20"
abbreviation (input) EISDIR :: uint where "EISDIR \<equiv> 21"
abbreviation (input) EINVAL :: uint where "EINVAL \<equiv> 22"
abbreviation (input) ENFILE :: uint where "ENFILE \<equiv> 23"
abbreviation (input) EMFILE :: uint where "EMFILE \<equiv> 24"
abbreviation (input) ESPIPE :: uint where "ESPIPE \<equiv> 29"
abbreviation (input) EROFS :: uint where "EROFS \<equiv> 30"
abbreviation (input) ENAMETOOLONG :: uint where "ENAMETOOLONG \<equiv> 36"
abbreviation (input) ENOSYS :: uint where "ENOSYS \<equiv> 38"

section \<open>The screen (vga.c)\<close>

record vchar =
  vc_char :: uchar
  vc_attr :: uchar

section \<open>The global variables\<close>

text \<open>
  \<^item> \<open>k_proc\<close>, \<open>k_cu\<close>, \<open>k_runrun\<close>: \<^verbatim>\<open>proc[NPROC]\<close>, \<^verbatim>\<open>cu\<close>, \<^verbatim>\<open>runrun\<close>;
  \<^item> \<open>k_coremap\<close>, \<open>k_pgfree\<close>: \<^verbatim>\<open>coremap[NPAGE]\<close> and \<^verbatim>\<open>pgfreelist.pg_next\<close>;
  \<^item> \<open>k_bk\<close>, \<open>k_bke\<close>: the buckets and the free-entry links \<^verbatim>\<open>bke_next\<close> by address;
  \<^item> \<open>k_pgd\<close>, \<open>k_pt\<close>, \<open>k_mem\<close>: page directories, page tables and page contents by
    page number; \<open>k_pgd0\<close>: the page number of \<^verbatim>\<open>pgd0\<close>; \<open>k_cr3\<close>: the loaded directory;
  \<^item> \<open>k_buf\<close>: the nodes of the buffer cache; \<open>k_nblkdev\<close>: \<^verbatim>\<open>nblkdev\<close>;
    \<open>k_hdc\<close>, \<open>k_disk\<close>: the disk controller and the sectors of the disk;
  \<^item> \<open>k_mnt\<close>, \<open>k_rootsp\<close>, \<open>k_inode\<close>, \<open>k_file\<close>: the file system's tables;
  \<^item> \<open>k_tty\<close>, \<open>k_vga\<close>, \<open>k_csr\<close>, \<open>k_keymode\<close>: terminals, screen memory, the
    cursor position last sent to the screen, and the keyboard's shift state;
  \<^item> \<open>k_tick\<close>, \<open>k_time\<close>: \<^verbatim>\<open>tick\<close> and \<^verbatim>\<open>timestamp\<close> of \<^verbatim>\<open>src/kern/timer.c\<close>.
\<close>

record kernel =
  k_proc :: "nat \<Rightarrow> proc option"
  k_cu :: nat
  k_runrun :: uint
  k_coremap :: "nat \<Rightarrow> page"
  k_pgfree :: "nat option"
  k_bk :: "bkptr \<Rightarrow> bucket"
  k_bke :: "uint \<Rightarrow> uint option"
  k_pgd :: "nat \<Rightarrow> nat \<Rightarrow> pde"
  k_pt :: "nat \<Rightarrow> nat \<Rightarrow> pte"
  k_mem :: "nat \<Rightarrow> nat \<Rightarrow> uchar"
  k_pgd0 :: nat
  k_cr3 :: nat
  k_buf :: "bnode \<Rightarrow> buf"
  k_nblkdev :: nat
  k_hdc :: hdc
  k_disk :: "uint \<Rightarrow> nat \<Rightarrow> uchar"
  k_mnt :: "nat \<Rightarrow> super"
  k_rootsp :: "nat option"
  k_inode :: "nat \<Rightarrow> inode"
  k_file :: "nat \<Rightarrow> kfile"
  k_tty :: "nat \<Rightarrow> tty"
  k_vga :: "nat \<Rightarrow> nat \<Rightarrow> vchar"
  k_csr :: uint
  k_keymode :: uint
  k_tick :: uint
  k_time :: uint

type_synonym 'a kop = "kernel \<Rightarrow> ('a, kernel) res"

section \<open>The current process\<close>

text \<open>
  \<^verbatim>\<open>cu\<close> points at an entry of \<^verbatim>\<open>proc\<close>. Reading or writing a field through it faults
  when the slot is empty.
\<close>

definition cu_get :: "(proc \<Rightarrow> 'a) \<Rightarrow> 'a kop" where
  "cu_get f s = (case k_proc s (k_cu s) of None \<Rightarrow> Stop (Fault ''cu'') s | Some p \<Rightarrow> Ok (f p) s)"

definition cu_mod :: "(proc \<Rightarrow> proc) \<Rightarrow> unit kop" where
  "cu_mod f s = (case k_proc s (k_cu s) of None \<Rightarrow> Stop (Fault ''cu'') s
     | Some p \<Rightarrow> Ok () (s\<lparr>k_proc := (k_proc s)(k_cu s \<mapsto> f p)\<rparr>))"

lemma cu_get_Some [kop_simps]: "k_proc s (k_cu s) = Some p \<Longrightarrow> cu_get f s = Ok (f p) s"
  by (simp add: cu_get_def)

lemma cu_mod_Some [kop_simps]:
  "k_proc s (k_cu s) = Some p \<Longrightarrow> cu_mod f s = Ok () (s\<lparr>k_proc := (k_proc s)(k_cu s \<mapsto> f p)\<rparr>)"
  by (simp add: cu_mod_def)

lemma preserves_cu_get [preserves_intros]: "preserves I (cu_get f)"
  by (simp add: preserves_def cu_get_def split: option.splits)

lemma preserves_cu_mod [preserves_intros]:
  "(\<And>s p. I s \<Longrightarrow> k_proc s (k_cu s) = Some p \<Longrightarrow>
      I (s\<lparr>k_proc := (k_proc s)(k_cu s \<mapsto> f p)\<rparr>)) \<Longrightarrow> preserves I (cu_mod f)"
  by (auto simp: preserves_def cu_mod_def split: option.splits)

section \<open>Error codes and privilege (sysent.c)\<close>

definition syserr :: "uint \<Rightarrow> int kop" where
  "syserr err = kthen (cu_mod (\<lambda>p. p\<lparr>p_error := err\<rparr>)) (kret (-1))"

definition suser :: "uint kop" where
  "suser = kbind (cu_get p_euid) (\<lambda>e. if e = 0 then kret 1 else kret 0)"

lemma suser_Some [kop_simps]:
  "k_proc s (k_cu s) = Some c \<Longrightarrow> suser s = Ok (if p_euid c = 0 then 1 else 0) s"
  by (simp add: suser_def kop_simps)

lemma syserr_Some [kop_simps]:
  "k_proc s (k_cu s) = Some c \<Longrightarrow>
    syserr e s = Ok (-1) (s\<lparr>k_proc := (k_proc s)(k_cu s \<mapsto> c\<lparr>p_error := e\<rparr>)\<rparr>)"
  by (simp add: syserr_def kop_simps)

section \<open>Static storage at boot\<close>

text \<open>
  Static C objects start as zero bytes; \<open>boot_kernel\<close> is the state in which
  \<^verbatim>\<open>kmain()\<close> starts, with an empty disk. Only \<^verbatim>\<open>bktab\<close> (\<^verbatim>\<open>src/mm/malloc.c\<close>) has an
  initialiser.
\<close>

definition zero_buf :: buf where
  "zero_buf = \<lparr>b_flag = 0, b_next = Bnull, b_prev = Bnull, av_next = Bnull, av_prev = Bnull,
     b_dev = 0, b_blkno = 0, b_data = (\<lambda>_. 0)\<rparr>"

definition zero_super :: super where
  "zero_super = \<lparr>s_max_inode = 0, s_max_zone = 0, s_nimap_blk = 0, s_nzmap_blk = 0,
     s_data_zone0 = 0, s_log_bz = 0, s_max_size = 0, s_magic = 0, s_padding = 0, s_dev = 0,
     s_imnt = None, s_flag = 0\<rparr>"

definition zero_inode :: inode where
  "zero_inode = \<lparr>i_mode = 0, i_uid = 0, i_size = 0, i_mtime = 0, i_gid = 0, i_nlink = 0,
     i_zone = (\<lambda>_. 0), i_atime = 0, i_ctime = 0, i_count = 0, i_dev = 0, i_num = 0, i_flag = 0\<rparr>"

definition zero_file :: kfile where
  "zero_file = \<lparr>f_oflag = 0, f_count = 0, f_offset = 0, f_ino = None\<rparr>"

definition zero_vma :: vma where
  "zero_vma = \<lparr>v_flag = 0, v_base = 0, v_size = 0, v_ino = None, v_ioff = 0\<rparr>"

definition zero_pde :: pde where
  "zero_pde = \<lparr>pd_flag = 0, pd_avl = 0, pd_off = 0\<rparr>"

definition zero_pte :: pte where
  "zero_pte = \<lparr>pt_flag = 0, pt_avl = 0, pt_off = 0\<rparr>"

definition zero_page :: page where
  "zero_page = \<lparr>pg_flag = 0, pg_count = 0, pg_num = 0, pg_next = None\<rparr>"

definition bktab0 :: "bkptr \<Rightarrow> bucket" where
  "bktab0 b = \<lparr>bk_size = (case b of Bktab i \<Rightarrow> if i < 8 then push_bit i 32 else 0 | _ \<Rightarrow> 0),
     bk_page = 0, bk_next = None, bk_entry = None\<rparr>"

definition zero_qbuf :: qbuf where
  "zero_qbuf = \<lparr>q_start = 0, q_end = 0, q_count = 0, q_char = (\<lambda>_. 0)\<rparr>"

definition zero_tty :: tty where
  "zero_tty = \<lparr>t_flag = 0, t_pgrp = 0, t_dev = 0, t_col = 0, t_row = 0, t_putc = Putc_null,
     t_rawq = zero_qbuf, t_canq = zero_qbuf, t_outq = zero_qbuf\<rparr>"

definition zero_sigaction :: sigaction where
  "zero_sigaction = \<lparr>sa_handler = 0, sa_mask = 0, sa_flags = 0, sa_restorer = 0\<rparr>"

definition zero_jmp_buf :: jmp_buf where
  "zero_jmp_buf = \<lparr>jb_eip = 0, jb_esp = 0, jb_ebx = 0, jb_ecx = 0, jb_edx = 0, jb_esi = 0,
     jb_edi = 0, jb_ebp = 0, jb_sigmask = 0\<rparr>"

definition zero_proc :: proc where
  "zero_proc = \<lparr>p_addr = 0, p_stat = SNONE, p_flag = 0, p_chan = Ch0, p_pri = 0, p_cpu = 0,
     p_nice = 0, p_time = 0, p_pid = 0, p_ppid = 0, p_pgrp = 0, p_euid = 0, p_egid = 0,
     p_ruid = 0, p_rgid = 0, p_umask = 0, p_sig = 0, p_sigmask = 0, p_cursig = 0, p_ret = 0,
     p_error = 0, p_sigact = (\<lambda>_. zero_sigaction), p_wdir = None, p_iroot = None,
     p_ofile = (\<lambda>_. None), p_fdflag = (\<lambda>_. 0),
     p_vm = \<lparr>vm_pgd = 0, vm_entry = 0, vm_area = (\<lambda>_. zero_vma)\<rparr>,
     p_contxt = zero_jmp_buf, p_trap = None\<rparr>"

definition boot_kernel :: kernel where
  "boot_kernel = \<lparr>k_proc = (\<lambda>_. None), k_cu = 0, k_runrun = 0, k_coremap = (\<lambda>_. zero_page),
     k_pgfree = None, k_bk = bktab0, k_bke = (\<lambda>_. None), k_pgd = (\<lambda>_ _. zero_pde),
     k_pt = (\<lambda>_ _. zero_pte), k_mem = (\<lambda>_ _. 0), k_pgd0 = 0, k_cr3 = 0,
     k_buf = (\<lambda>_. zero_buf), k_nblkdev = 0,
     k_hdc = \<lparr>hd_drive = 0, hd_command = 0, hd_lba = 0, hd_nsect = 0\<rparr>, k_disk = (\<lambda>_ _. 0),
     k_mnt = (\<lambda>_. zero_super), k_rootsp = None, k_inode = (\<lambda>_. zero_inode),
     k_file = (\<lambda>_. zero_file), k_tty = (\<lambda>_. zero_tty),
     k_vga = (\<lambda>_ _. \<lparr>vc_char = 0, vc_attr = 0\<rparr>), k_csr = 0, k_keymode = 0, k_tick = 0,
     k_time = 0\<rparr>"

end
