(* ===== verification/Dlist_Ring.thy ===== *)
theory Dlist_Ring
  imports Kernel
begin

text \<open>
  The circular doubly linked lists with a head node that the buffer cache threads through its
  buffers, over any pair of link fields: the locale \<open>links\<close> fixes the reading and
  writing of a \<open>next\<close> and a \<open>prev\<close> link, and proves once what removing a node and inserting
  one behind the head or in front of it do to the list.
\<close>

section \<open>Rings\<close>

text \<open>\<open>seg nx pv a xs b\<close>: the links lead from \<open>a\<close> through \<open>xs\<close> to \<open>b\<close> and back.\<close>

fun seg :: "('n \<Rightarrow> 'n) \<Rightarrow> ('n \<Rightarrow> 'n) \<Rightarrow> 'n \<Rightarrow> 'n list \<Rightarrow> 'n \<Rightarrow> bool" where
  "seg nx pv a [] b \<longleftrightarrow> nx a = b \<and> pv b = a"
| "seg nx pv a (x # xs) b \<longleftrightarrow> nx a = x \<and> pv x = a \<and> seg nx pv x xs b"

definition ring :: "('n \<Rightarrow> 'n) \<Rightarrow> ('n \<Rightarrow> 'n) \<Rightarrow> 'n \<Rightarrow> 'n list \<Rightarrow> bool" where
  "ring nx pv h xs \<longleftrightarrow> seg nx pv h xs h \<and> distinct (h # xs)"

lemma seg_append:
  "seg nx pv a (xs @ x # ys) b \<longleftrightarrow> seg nx pv a xs x \<and> seg nx pv x ys b"
  by (induction xs arbitrary: a) auto

lemma seg_cong:
  assumes "\<And>x. x \<in> set (a # xs) \<Longrightarrow> nx x = nx' x" "\<And>x. x \<in> set (xs @ [b]) \<Longrightarrow> pv x = pv' x"
  shows "seg nx pv a xs b = seg nx' pv' a xs b"
  using assms by (induction xs arbitrary: a) auto

lemma seg_upd [simp]:
  "c \<notin> set (a # xs) \<Longrightarrow> seg (nx(c := y)) pv a xs b = seg nx pv a xs b"
  "c \<notin> set (xs @ [b]) \<Longrightarrow> seg nx (pv(c := y)) a xs b = seg nx pv a xs b"
  by (rule seg_cong; auto)+

lemma seg_ends: "seg nx pv a xs b \<Longrightarrow> nx a = (case xs of [] \<Rightarrow> b | x # _ \<Rightarrow> x) \<and> pv b = last (a # xs)"
  by (induction xs arbitrary: a) auto

lemma ring_empty: "ring nx pv h [] \<longleftrightarrow> nx h = h \<and> pv h = h"
  by (auto simp: ring_def)

lemma ring_nx_h: "ring nx pv h xs \<Longrightarrow> nx h = h \<longleftrightarrow> xs = []"
  using seg_ends [of nx pv h xs h] by (auto simp: ring_def split: list.splits)

lemma ring_remove:
  assumes "ring nx pv h (xs @ x # ys)"
  shows "ring (nx(pv x := nx x)) (pv(nx x := pv x)) h (xs @ ys)"
proof -
  let ?a = "last (h # xs)" and ?b = "hd (ys @ [h])"
  have s: "seg nx pv h xs x" "seg nx pv x ys h" and d: "distinct (h # xs @ x # ys)"
    using assms by (auto simp: ring_def seg_append)
  have a: "pv x = ?a" using seg_ends [OF s(1)] by simp
  have b: "nx x = ?b" using seg_ends [OF s(2)] by (cases ys) auto
  have "seg (nx(?a := ?b)) (pv(?b := ?a)) h (xs @ ys) h"
  proof (cases ys)
    case Nil
    show ?thesis
    proof (cases xs rule: rev_cases)
      case Nil
      with s d \<open>ys = []\<close> show ?thesis by auto
    next
      case (snoc us u)
      then have "seg nx pv h us u" using s(1) by (simp add: seg_append)
      with snoc d \<open>ys = []\<close> show ?thesis by (auto simp: seg_append)
    qed
  next
    case (Cons y zs)
    then have y: "seg nx pv y zs h" using s(2) by simp
    show ?thesis
    proof (cases xs rule: rev_cases)
      case Nil
      with y d Cons show ?thesis by auto
    next
      case (snoc us u)
      then have "seg nx pv h us u" using s(1) by (simp add: seg_append)
      with snoc y d Cons show ?thesis by (auto simp: seg_append)
    qed
  qed
  then show ?thesis using d a b by (auto simp: ring_def)
qed

lemma ring_push_front:
  assumes "ring nx pv h xs" "x \<notin> set (h # xs)"
  shows "ring (nx(x := nx h, h := x)) (pv(x := h, nx h := x)) h (x # xs)"
proof (cases xs)
  case Nil
  with assms show ?thesis by (auto simp: ring_def)
next
  case (Cons y ys)
  with assms show ?thesis by (auto simp: ring_def)
qed

lemma ring_push_back:
  assumes "ring nx pv h xs" "x \<notin> set (h # xs)"
  shows "ring (nx(x := h, pv h := x)) (pv(x := pv h, h := x)) h (xs @ [x])"
proof (cases xs rule: rev_cases)
  case Nil
  with assms show ?thesis by (auto simp: ring_def)
next
  case (snoc us u)
  then have "seg nx pv h us u" "nx u = h" "pv h = u" using assms(1) by (auto simp: ring_def seg_append)
  with assms snoc show ?thesis by (auto simp: ring_def seg_append)
qed

section \<open>Link fields of a state\<close>

locale links =
  fixes nx pv :: "'s \<Rightarrow> 'n \<Rightarrow> 'n" and set_nx set_pv :: "'n \<Rightarrow> 'n \<Rightarrow> 's \<Rightarrow> 's"
  assumes nx_set_nx: "nx (set_nx a b s) = (nx s)(a := b)"
    and pv_set_nx: "pv (set_nx a b s) = pv s"
    and nx_set_pv: "nx (set_pv a b s) = nx s"
    and pv_set_pv: "pv (set_pv a b s) = (pv s)(a := b)"
begin

lemmas link_simps = nx_set_nx pv_set_nx nx_set_pv pv_set_pv

text \<open>\<^verbatim>\<open>x->prev->next = x->next; x->next->prev = x->prev;\<close>\<close>

lemma unlink:
  assumes "ring (nx s) (pv s) h (xs @ x # ys)"
  shows "ring (nx (set_pv (nx s x) (pv s x) (set_nx (pv s x) (nx s x) s)))
    (pv (set_pv (nx s x) (pv s x) (set_nx (pv s x) (nx s x) s))) h (xs @ ys)"
  using ring_remove [OF assms] by (simp add: link_simps)

text \<open>\<^verbatim>\<open>x->prev = h; x->next = h->next; h->next->prev = x; h->next = x;\<close>\<close>

lemma push_front:
  assumes "ring (nx s) (pv s) h xs" "x \<notin> set (h # xs)"
    and "s' = set_nx h x (set_pv (nx s h) x (set_nx x (nx s h) (set_pv x h s)))"
  shows "ring (nx s') (pv s') h (x # xs)"
  using ring_push_front [OF assms(1,2)] unfolding assms(3) by (simp add: link_simps)

text \<open>\<^verbatim>\<open>x->next = h; x->prev = h->prev; x->prev->next = x; x->next->prev = x;\<close>\<close>

lemma push_back:
  assumes "ring (nx s) (pv s) h xs" "x \<notin> set (h # xs)"
    and "s' = set_pv h x (set_nx (pv s h) x (set_pv x (pv s h) (set_nx x h s)))"
  shows "ring (nx s') (pv s') h (xs @ [x])"
  using ring_push_back [OF assms(1,2)] unfolding assms(3) by (simp add: link_simps)

text \<open>A list that does not contain the touched nodes is unaffected.\<close>

lemma unlink_other:
  assumes "ring (nx s) (pv s) h xs" "ring (nx s) (pv s) g (ys @ x # zs)"
    "set (h # xs) \<inter> set (g # ys @ x # zs) = {}"
  shows "ring (nx (set_pv (nx s x) (pv s x) (set_nx (pv s x) (nx s x) s)))
    (pv (set_pv (nx s x) (pv s x) (set_nx (pv s x) (nx s x) s))) h xs"
proof -
  have "seg (nx s) (pv s) g ys x" "seg (nx s) (pv s) x zs g" using assms(2) by (auto simp: ring_def seg_append)
  then have "pv s x \<in> set (g # ys)" "nx s x \<in> set (zs @ [g])"
    using seg_ends by (fastforce split: list.splits)+
  then have "pv s x \<notin> set (h # xs)" "nx s x \<notin> set (xs @ [h])" using assms(3) by auto
  then show ?thesis using assms(1) by (simp add: ring_def link_simps)
qed

end

end
