(* ===== verification/Sched.thy ===== *)
theory Sched
  imports Kernel "HOL-Library.Signed_Division"
begin

text \<open>
  Scheduling, \<^verbatim>\<open>src/kern/sched.c\<close>: the choice of the next process, priorities, and
  sleeping and waking. A call of \<^verbatim>\<open>swtch()\<close> that switches suspends the calling kernel
  thread, which the model reports as \<open>Slept\<close> with the kernel state in which the chosen
  process goes on. The register save and restore of \<^verbatim>\<open>_do_swtch\<close> (assembly) and
  \<^verbatim>\<open>tss.esp0\<close> are not represented.
\<close>

section \<open>Definitions\<close>

definition proc_mod :: "nat \<Rightarrow> (proc \<Rightarrow> proc) \<Rightarrow> kernel \<Rightarrow> kernel" where
  "proc_mod nr f s = s\<lparr>k_proc := (k_proc s)(nr := map_option f (k_proc s nr))\<rparr>"

definition setrun :: "nat \<Rightarrow> unit kop" where
  "setrun nr = kmod (proc_mod nr (\<lambda>p. p\<lparr>p_chan := Ch0, p_stat := SRUN\<rparr>))"

definition wakeup :: "chan \<Rightarrow> unit kop" where
  "wakeup chan = kfor [0..<NPROC] (\<lambda>i. kbind (kget (\<lambda>s. k_proc s i)) (\<lambda>q.
     case q of None \<Rightarrow> kret ()
     | Some p \<Rightarrow> kwhen (p_chan p = chan) (setrun i)))"

definition setpri :: "nat \<Rightarrow> unit kop" where
  "setpri nr = kbind (kget (\<lambda>s. k_proc s nr)) (\<lambda>q. kderef ''setpri'' q (\<lambda>p.
     let n0 = p_cpu p sdiv 16 + PUSER + p_nice p;
         n1 = (if n0 \<ge> 127 then 127 else n0);
         n = (if n1 \<le> -126 then -126 else n1) in
     kbind (kget k_cu) (\<lambda>cu.
     kthen (if nr \<noteq> cu then kbind (cu_get p_pri) (\<lambda>cpri.
              kwhen (p_pri p < cpri) (kmod (\<lambda>s. s\<lparr>k_runrun := 1\<rparr>)))
            else kret ())
       (kmod (proc_mod nr (\<lambda>p. p\<lparr>p_pri := n\<rparr>))))))"

definition sched_cpu :: "unit kop" where
  "sched_cpu = kfor [0..<NPROC] (\<lambda>i. kbind (kget (\<lambda>s. k_proc s i)) (\<lambda>q.
     case q of None \<Rightarrow> kret ()
     | Some p \<Rightarrow> kthen (kmod (proc_mod i (\<lambda>p. p\<lparr>p_cpu := p_cpu p sdiv 2\<rparr>)))
                   (kwhen (p_pri p > PUSER) (setpri i))))"

text \<open>\<^verbatim>\<open>char n = pri\<close> keeps the low eight bits, signed.\<close>

definition to_char :: "int \<Rightarrow> int" where
  "to_char x = sint (word_of_int x :: uchar)"

text \<open>One round of the search loop of \<^verbatim>\<open>swtch\<close>, on the loop variables \<^verbatim>\<open>n\<close> and \<^verbatim>\<open>np\<close>.\<close>

definition pick :: "(nat \<Rightarrow> proc option) \<Rightarrow> nat \<Rightarrow> int \<times> nat option \<Rightarrow> int \<times> nat option" where
  "pick tab i = (\<lambda>(n, np). case tab i of None \<Rightarrow> (n, np)
     | Some p \<Rightarrow> if (p_stat p = SRUN \<or> p_pid p = 0) \<and> p_pri p \<le> n
                 then (to_char (p_pri p), Some i) else (n, np))"

definition swtch_to :: "nat \<Rightarrow> 'a kop" where
  "swtch_to to' = kthen (kmod (\<lambda>s. s\<lparr>k_cu := to'\<rparr>))
     (kbind (cu_get (\<lambda>p. vm_pgd (p_vm p))) (\<lambda>pgd.
      kthen (kmod (\<lambda>s. s\<lparr>k_cr3 := pgd\<rparr>)) (kstop Slept)))"

definition swtch :: "unit kop" where
  "swtch = kthen (kmod (\<lambda>s. s\<lparr>k_runrun := 0\<rparr>))
     (kbind (kget (\<lambda>s. fold (pick (k_proc s)) [0..<NPROC] (127, None))) (\<lambda>(n, np).
      kbind (case np of Some i \<Rightarrow> kret i
             | None \<Rightarrow> kbind (kget (\<lambda>s. k_proc s 0)) (\<lambda>q. kderef ''proc[0]'' q (\<lambda>_. kret 0)))
       (\<lambda>np. kbind (kget k_cu) (\<lambda>cu. if np \<noteq> cu then swtch_to np else kret ()))))"

text \<open>
  \<^verbatim>\<open>sleep()\<close> with a negative priority, the uninterruptible sleep of the block and file
  layers. The interruptible branch, which delivers signals, needs \<^verbatim>\<open>psig()\<close>.
\<close>

definition sleep_unint :: "chan \<Rightarrow> int \<Rightarrow> unit kop" where
  "sleep_unint chan pri =
     kthen (cu_mod (\<lambda>p. p\<lparr>p_chan := chan, p_pri := pri, p_stat := SSLEEP\<rparr>)) swtch"

section \<open>Waking\<close>

lemma k_proc_proc_mod [simp]:
  "k_proc (proc_mod nr f s) = (k_proc s)(nr := map_option f (k_proc s nr))"
  by (simp add: proc_mod_def)

lemma k_cu_proc_mod [simp]: "k_cu (proc_mod nr f s) = k_cu s"
  by (simp add: proc_mod_def)

text \<open>A loop that treats every entry of the table by itself is one table update.\<close>

lemma kfor_table:
  assumes step: "\<And>i s. f i s = Ok () (s\<lparr>k_proc := (k_proc s)(i := g i (k_proc s i))\<rparr>)"
  shows "distinct is \<Longrightarrow>
    kfor is f s = Ok () (s\<lparr>k_proc := (\<lambda>i. if i \<in> set is then g i (k_proc s i) else k_proc s i)\<rparr>)"
proof (induction "is" arbitrary: s)
  case Nil
  then show ?case by (simp add: kop_simps)
next
  case (Cons i "is")
  then show ?case
    by (simp add: kthen_def kbind_def step) (auto simp: fun_eq_iff intro!: arg_cong[of _ _ "\<lambda>t. s\<lparr>k_proc := t\<rparr>"])
qed

lemma wakeup_eq:
  "wakeup chan s = Ok () (s\<lparr>k_proc := (\<lambda>i. if i < NPROC then
     map_option (\<lambda>p. if p_chan p = chan then p\<lparr>p_chan := Ch0, p_stat := SRUN\<rparr> else p) (k_proc s i)
     else k_proc s i)\<rparr>)"
proof -
  let ?g = "map_option (\<lambda>p. if p_chan p = chan then p\<lparr>p_chan := Ch0, p_stat := SRUN\<rparr> else p)"
  have "kbind (kget (\<lambda>s. k_proc s i)) (\<lambda>q. case q of None \<Rightarrow> kret ()
     | Some p \<Rightarrow> kwhen (p_chan p = chan) (setrun i)) s =
     Ok () (s\<lparr>k_proc := (k_proc s)(i := ?g (k_proc s i))\<rparr>)" for i s
    by (cases "k_proc s i")
      (auto simp: kop_simps setrun_def kwhen_def proc_mod_def fun_upd_idem)
  from kfor_table[of _ "\<lambda>_. ?g", OF this, of "[0..<NPROC]"] show ?thesis
    by (simp add: wakeup_def)
qed

section \<open>The choice of the next process\<close>

definition eligible :: "proc \<Rightarrow> bool" where
  "eligible p \<longleftrightarrow> p_stat p = SRUN \<or> p_pid p = 0"

text \<open>
  What the process table keeps: a process's pid is its slot, slot 0 holds the idle
  process, the current process exists, and priorities fit the range \<^verbatim>\<open>setpri\<close> and the
  sleep priorities give them.
\<close>

definition proc_wf :: "kernel \<Rightarrow> bool" where
  "proc_wf s \<longleftrightarrow>
     (\<forall>i p. k_proc s i = Some p \<longrightarrow> i < NPROC \<and> unat (p_pid p) = i \<and> -128 \<le> p_pri p \<and> p_pri p \<le> 127) \<and>
     k_proc s 0 \<noteq> None \<and> k_proc s (k_cu s) \<noteq> None"

lemma proc_wfD:
  assumes "proc_wf s" and "k_proc s i = Some p"
  shows "i < NPROC" "unat (p_pid p) = i" "p_pid p = 0 \<longleftrightarrow> i = 0" "-128 \<le> p_pri p" "p_pri p \<le> 127"
proof -
  show u: "unat (p_pid p) = i" and "i < NPROC" "-128 \<le> p_pri p" "p_pri p \<le> 127"
    using assms by (auto simp: proc_wf_def)
  then show "p_pid p = 0 \<longleftrightarrow> i = 0" by (metis unat_eq_zero)
qed

lemma proc_wf_None: "proc_wf s \<Longrightarrow> NPROC \<le> i \<Longrightarrow> k_proc s i = None"
  by (meson not_less option.exhaust proc_wfD(1))

lemma to_char_id: "-128 \<le> x \<Longrightarrow> x \<le> 127 \<Longrightarrow> to_char x = x"
  by (simp add: to_char_def sint_word_ariths signed_of_int signed_take_bit_int_eq_self)

definition best :: "(nat \<Rightarrow> proc option) \<Rightarrow> nat \<Rightarrow> int \<times> nat option \<Rightarrow> bool" where
  "best tab k = (\<lambda>(n, np). case np of
     None \<Rightarrow> n = 127 \<and> (\<forall>j<k. \<forall>q. tab j = Some q \<longrightarrow> \<not> eligible q)
   | Some i \<Rightarrow> i < k \<and> (\<exists>p. tab i = Some p \<and> eligible p \<and> n = p_pri p) \<and>
       (\<forall>j<k. \<forall>q. tab j = Some q \<longrightarrow> eligible q \<longrightarrow> n \<le> p_pri q \<and> (i < j \<longrightarrow> n < p_pri q)))"

lemma best_step:
  assumes "best tab k x" and "\<And>p. tab k = Some p \<Longrightarrow> -128 \<le> p_pri p \<and> p_pri p \<le> 127"
  shows "best tab (Suc k) (pick tab k x)"
proof -
  obtain n np where x: "x = (n, np)" by (cases x)
  show ?thesis
  proof (cases "tab k")
    case None
    with assms x show ?thesis
      by (cases np) (auto simp: best_def pick_def less_Suc_eq)
  next
    case (Some p)
    note r = assms(2)[OF Some]
    with assms(1) x Some show ?thesis
      by (cases np) (fastforce simp: best_def pick_def less_Suc_eq eligible_def to_char_id)+
  qed
qed

lemma best_fold:
  "(\<And>i p. tab i = Some p \<Longrightarrow> -128 \<le> p_pri p \<and> p_pri p \<le> 127) \<Longrightarrow>
    best tab k (fold (pick tab) [0..<k] (127, None))"
  by (induction k) (simp_all add: best_def[of _ 0] best_step)

lemma swtch_best:
  assumes wf: "proc_wf s"
  shows "\<exists>i p. k_proc s i = Some p \<and> eligible p \<and>
    (\<forall>j q. k_proc s j = Some q \<longrightarrow> eligible q \<longrightarrow> p_pri p \<le> p_pri q \<and> (i < j \<longrightarrow> p_pri p < p_pri q)) \<and>
    swtch s = (if i = k_cu s then Ok () (s\<lparr>k_runrun := 0\<rparr>)
       else Stop Slept (s\<lparr>k_runrun := 0, k_cu := i, k_cr3 := vm_pgd (p_vm p)\<rparr>))"
proof -
  obtain n np where x: "fold (pick (k_proc s)) [0..<NPROC] (127, None) = (n, np)"
    by (cases "fold (pick (k_proc s)) [0..<NPROC] (127, None)")
  have b: "best (k_proc s) NPROC (n, np)"
    using best_fold[of "k_proc s" NPROC] wf x by (auto simp: proc_wf_def)
  obtain p0 where p0: "k_proc s 0 = Some p0"
    using wf by (auto simp: proc_wf_def)
  then have "unat (p_pid p0) = 0" using wf by (auto simp: proc_wf_def)
  then have "eligible p0" by (simp add: eligible_def unat_eq_zero)
  with p0 obtain i where i: "np = Some i"
    using b by (cases np) (fastforce simp: best_def)+
  then obtain p where p: "k_proc s i = Some p" "eligible p" "n = p_pri p"
    using b by (auto simp: best_def)
  have "p_pri p \<le> p_pri q \<and> (i < j \<longrightarrow> p_pri p < p_pri q)"
    if "k_proc s j = Some q" "eligible q" for j q
    using b i p that wf by (auto simp: best_def proc_wf_def)
  moreover have "swtch s = (if i = k_cu s then Ok () (s\<lparr>k_runrun := 0\<rparr>)
       else Stop Slept (s\<lparr>k_runrun := 0, k_cu := i, k_cr3 := vm_pgd (p_vm p)\<rparr>))"
    using p x i by (simp add: swtch_def swtch_to_def kop_simps)
  ultimately show ?thesis using p(1,2) by blast
qed


lemma proc_wf_swtch: "preserves proc_wf swtch"
proof (rule preservesI)
  fix s assume wf: "proc_wf s"
  obtain i p where "k_proc s i = Some p"
    "swtch s = (if i = k_cu s then Ok () (s\<lparr>k_runrun := 0\<rparr>)
       else Stop Slept (s\<lparr>k_runrun := 0, k_cu := i, k_cr3 := vm_pgd (p_vm p)\<rparr>))"
    using swtch_best[OF wf] by blast
  with wf show "proc_wf (final (swtch s))" by (auto simp: proc_wf_def)
qed

lemma proc_wf_proc_mod:
  "(\<And>p. p_pid (f p) = p_pid p) \<Longrightarrow>
    (\<And>p. k_proc s nr = Some p \<Longrightarrow> -128 \<le> p_pri (f p) \<and> p_pri (f p) \<le> 127) \<Longrightarrow>
    proc_wf s \<Longrightarrow> proc_wf (proc_mod nr f s)"
  by (auto simp: proc_wf_def proc_mod_def split: if_splits)

lemma proc_wf_wakeup: "preserves proc_wf (wakeup chan)"
proof (rule preservesI)
  fix s assume wf: "proc_wf s"
  then have "k_proc s i = None" if "\<not> i < NPROC" for i
    using that by (simp add: proc_wf_None)
  with wf show "proc_wf (final (wakeup chan s))"
    by (auto simp: wakeup_eq proc_wf_def split: if_splits)
qed

lemma proc_wf_sleep_unint:
  "-128 \<le> pri \<Longrightarrow> pri \<le> 127 \<Longrightarrow> preserves proc_wf (sleep_unint chan pri)"
  unfolding sleep_unint_def
  by (intro preserves_intros proc_wf_swtch) (auto simp: proc_wf_def split: if_splits)

lemma proc_wf_setpri: "preserves proc_wf (setpri nr)"
  unfolding setpri_def Let_def
  by (intro preserves_intros proc_wf_proc_mod)
    (auto simp: proc_wf_def split: if_splits)

lemma proc_wf_sched_cpu: "preserves proc_wf sched_cpu"
  unfolding sched_cpu_def
  by (intro preserves_intros proc_wf_proc_mod proc_wf_setpri) (auto simp: proc_wf_def)

text \<open>Any process but the idle one is off the processor when it sleeps.\<close>

lemma sleep_unint_Slept:
  assumes "proc_wf s" "k_proc s (k_cu s) = Some p" "k_cu s \<noteq> 0" "-128 \<le> pri" "pri \<le> 127"
  shows "\<exists>i q. i \<noteq> k_cu s \<and> sleep_unint ch pri s = Stop Slept
    (s\<lparr>k_proc := (k_proc s)(k_cu s \<mapsto> p\<lparr>p_chan := ch, p_pri := pri, p_stat := SSLEEP\<rparr>),
       k_runrun := 0, k_cu := i, k_cr3 := q\<rparr>)"
proof -
  let ?p = "p\<lparr>p_chan := ch, p_pri := pri, p_stat := SSLEEP\<rparr>"
  let ?s = "s\<lparr>k_proc := (k_proc s)(k_cu s \<mapsto> ?p)\<rparr>"
  have "proc_wf ?s" using assms by (auto simp: proc_wf_def)
  then obtain i q where i: "k_proc ?s i = Some q" "eligible q"
    and sw: "swtch ?s = (if i = k_cu ?s then Ok () (?s\<lparr>k_runrun := 0\<rparr>)
       else Stop Slept (?s\<lparr>k_runrun := 0, k_cu := i, k_cr3 := vm_pgd (p_vm q)\<rparr>))"
    using swtch_best by blast
  have pid: "p_pid p \<noteq> 0" using proc_wfD(3)[OF assms(1,2)] assms(3) by simp
  with i have "i \<noteq> k_cu s" by (auto simp: eligible_def split: if_splits)
  then show ?thesis using assms(2) sw by (auto simp: sleep_unint_def kop_simps)
qed

section \<open>Properties\<close>

text \<open>
  C31: the scheduler's choice. From a well-formed process table, \<^verbatim>\<open>swtch()\<close> continues
  with a process that is runnable (or the idle process), whose priority value is the
  least among all runnable processes, and which among equals has the highest slot; if it
  is the caller, \<^verbatim>\<open>swtch()\<close> returns, otherwise the caller is suspended and the chosen
  process runs on its own page directory. The process table itself is unchanged.
\<close>

theorem swtch_runs_best_process:
  assumes "proc_wf s"
  shows "\<exists>i p. k_proc s i = Some p \<and> (p_stat p = SRUN \<or> i = 0) \<and>
    (\<forall>j q. k_proc s j = Some q \<and> p_stat q = SRUN \<longrightarrow>
       p_pri p \<le> p_pri q \<and> (i < j \<longrightarrow> p_pri p < p_pri q)) \<and>
    swtch s = (if i = k_cu s then Ok () (s\<lparr>k_runrun := 0\<rparr>)
      else Stop Slept (s\<lparr>k_runrun := 0, k_cu := i, k_cr3 := vm_pgd (p_vm p)\<rparr>))"
proof -
  obtain i p where *: "k_proc s i = Some p" "eligible p"
    "\<forall>j q. k_proc s j = Some q \<longrightarrow> eligible q \<longrightarrow> p_pri p \<le> p_pri q \<and> (i < j \<longrightarrow> p_pri p < p_pri q)"
    "swtch s = (if i = k_cu s then Ok () (s\<lparr>k_runrun := 0\<rparr>)
       else Stop Slept (s\<lparr>k_runrun := 0, k_cu := i, k_cr3 := vm_pgd (p_vm p)\<rparr>))"
    using swtch_best[OF assms] by blast
  moreover have "p_stat p = SRUN \<or> i = 0"
    using *(1,2) proc_wfD(3)[OF assms] by (auto simp: eligible_def)
  ultimately show ?thesis by (auto simp: eligible_def)
qed

text \<open>
  Sleeping and waking. A process that sleeps on a channel is taken off the
  processor with that channel recorded; \<^verbatim>\<open>wakeup()\<close> on the channel makes it runnable
  again and waiting for nothing, and leaves every process that waits for another channel
  exactly as it was.
\<close>

theorem sleep_then_wakeup:
  assumes "proc_wf s" and "k_proc s me = Some p" and "me = k_cu s" and "me \<noteq> 0"
    and "-128 \<le> pri" and "pri < 0"
  shows "\<exists>t u. sleep_unint ch pri s = Stop Slept t \<and> k_cu t \<noteq> me \<and>
    k_proc t me = Some (p\<lparr>p_chan := ch, p_pri := pri, p_stat := SSLEEP\<rparr>) \<and>
    wakeup ch t = Ok () u \<and>
    k_proc u me = Some (p\<lparr>p_chan := Ch0, p_pri := pri, p_stat := SRUN\<rparr>) \<and>
    (\<forall>j q. j \<noteq> me \<and> k_proc s j = Some q \<and> p_chan q \<noteq> ch \<longrightarrow> k_proc u j = Some q)"
proof -
  obtain i q where "i \<noteq> me" "sleep_unint ch pri s = Stop Slept
    (s\<lparr>k_proc := (k_proc s)(me \<mapsto> p\<lparr>p_chan := ch, p_pri := pri, p_stat := SSLEEP\<rparr>),
       k_runrun := 0, k_cu := i, k_cr3 := q\<rparr>)"
    using sleep_unint_Slept [of s p pri ch] assms by auto
  moreover have "me < NPROC" using assms(1,2) by (auto simp: proc_wf_def)
  ultimately show ?thesis using assms(1,3) by (auto simp: wakeup_eq proc_wf_def)
qed

section \<open>Witnesses\<close>

text \<open>Two processes: the idle process and a user process in slot 1 that is running.\<close>

definition two_procs :: kernel where
  "two_procs = boot_kernel\<lparr>k_proc := [0 \<mapsto> zero_proc\<lparr>p_stat := SRUN, p_pri := 120\<rparr>,
     1 \<mapsto> zero_proc\<lparr>p_stat := SRUN, p_pid := 1, p_pri := 100\<rparr>], k_cu := 1\<rparr>"

lemma proc_wf_two_procs: "proc_wf two_procs"
  by (auto simp: proc_wf_def two_procs_def zero_proc_def split: if_splits)

theorem swtch_runs_best_process_witness:
  "proc_wf two_procs \<and> (\<exists>i p. k_proc two_procs i = Some p \<and> (p_stat p = SRUN \<or> i = 0) \<and>
    (\<forall>j q. k_proc two_procs j = Some q \<and> p_stat q = SRUN \<longrightarrow>
       p_pri p \<le> p_pri q \<and> (i < j \<longrightarrow> p_pri p < p_pri q)) \<and>
    swtch two_procs = (if i = k_cu two_procs then Ok () (two_procs\<lparr>k_runrun := 0\<rparr>)
      else Stop Slept (two_procs\<lparr>k_runrun := 0, k_cu := i, k_cr3 := vm_pgd (p_vm p)\<rparr>)))"
  using proc_wf_two_procs swtch_runs_best_process[OF proc_wf_two_procs] by (rule conjI)

theorem sleep_then_wakeup_witness:
  "\<exists>t u. sleep_unint (Ch_buf 3) PRIBIO two_procs = Stop Slept t \<and> k_cu t \<noteq> 1 \<and>
    wakeup (Ch_buf 3) t = Ok () u \<and> map_option p_stat (k_proc u 1) = Some SRUN"
  using sleep_then_wakeup[OF proc_wf_two_procs, of 1 _ PRIBIO "Ch_buf 3"]
  by (fastforce simp: two_procs_def)

end
