(* ===== verification/Hd.thy ===== *)
theory Hd
  imports Dlist_Ring Sched
begin

unbundle bit_operations_syntax

text \<open>
  The disk driver, \<^verbatim>\<open>src/blk/hd.c\<close>, with \<^verbatim>\<open>iodone\<close> and \<^verbatim>\<open>iowait\<close> of \<^verbatim>\<open>src/blk/buf.c\<close>. The
  controller is its registers and the sectors of the disk: a write command stores the
  two sectors when the data is sent, a read delivers them when the interrupt handler
  fetches them. The polling of the status port in \<^verbatim>\<open>hd_wait_ready\<close> and the interrupt
  controller are not represented.

  The null pointer is a node like the others, because page 0 is mapped memory of the
  kernel: \<^verbatim>\<open>buf_init\<close> writes through it.
\<close>

section \<open>Definitions\<close>

definition b_mod :: "bnode \<Rightarrow> (buf \<Rightarrow> buf) \<Rightarrow> kernel \<Rightarrow> kernel" where
  "b_mod n f s = s\<lparr>k_buf := (k_buf s)(n := f (k_buf s n))\<rparr>"

definition set_av_next :: "bnode \<Rightarrow> bnode \<Rightarrow> kernel \<Rightarrow> kernel" where
  "set_av_next n m = b_mod n (\<lambda>b. b\<lparr>av_next := m\<rparr>)"

definition set_av_prev :: "bnode \<Rightarrow> bnode \<Rightarrow> kernel \<Rightarrow> kernel" where
  "set_av_prev n m = b_mod n (\<lambda>b. b\<lparr>av_prev := m\<rparr>)"

definition set_b_next :: "bnode \<Rightarrow> bnode \<Rightarrow> kernel \<Rightarrow> kernel" where
  "set_b_next n m = b_mod n (\<lambda>b. b\<lparr>b_next := m\<rparr>)"

definition set_b_prev :: "bnode \<Rightarrow> bnode \<Rightarrow> kernel \<Rightarrow> kernel" where
  "set_b_prev n m = b_mod n (\<lambda>b. b\<lparr>b_prev := m\<rparr>)"

text \<open>The address of a buffer as a wait channel.\<close>

definition bchan :: "bnode \<Rightarrow> chan" where
  "bchan n = (case n of Bnull \<Rightarrow> Ch0 | Buff i \<Rightarrow> Ch_buf i | Bfreelist \<Rightarrow> Ch_bfreelist | Hdtab \<Rightarrow> Ch_hdtab)"

text \<open>\<^verbatim>\<open>bp->av_prev->av_next = bp->av_next; bp->av_next->av_prev = bp->av_prev;\<close>\<close>

definition av_unlink :: "bnode \<Rightarrow> kernel \<Rightarrow> kernel" where
  "av_unlink bp s = (let s1 = set_av_next (av_prev (k_buf s bp)) (av_next (k_buf s bp)) s
     in set_av_prev (av_next (k_buf s1 bp)) (av_prev (k_buf s1 bp)) s1)"

definition iodone :: "bnode \<Rightarrow> unit kop" where
  "iodone bp = kthen (kmod (b_mod bp (\<lambda>b. b\<lparr>b_flag := b_flag b OR B_DONE\<rparr>)))
     (kthen (kmod (b_mod bp (\<lambda>b. b\<lparr>b_flag := b_flag b AND NOT B_WANTED\<rparr>)))
      (wakeup (bchan bp)))"

abbreviation (input) HD_CMD_READ :: uint where "HD_CMD_READ \<equiv> 0x20"
abbreviation (input) HD_CMD_WRITE :: uint where "HD_CMD_WRITE \<equiv> 0x30"

text \<open>
  The wait for the drive, \<open>st k\<close> being the status that the \<open>k\<close>-th read of the port gives. The loop may run for ever, so it has
  fuel; the counter goes down through 0 and wraps.
\<close>

fun hd_wait_loop :: "nat \<Rightarrow> (nat \<Rightarrow> uchar) \<Rightarrow> nat \<Rightarrow> uint \<Rightarrow> uint option" where
  "hd_wait_loop 0 st k i = None"
| "hd_wait_loop (Suc f) st k i =
     (if i - 1 \<noteq> 0 then hd_wait_loop f st k (i - 1)
      else if st k AND 0x80 \<noteq> 0 then hd_wait_loop f st (Suc k) (i - 1) else Some (i - 1))"

definition hd_wait_ready :: "nat \<Rightarrow> (nat \<Rightarrow> uchar) \<Rightarrow> uint option" where
  "hd_wait_ready f st = hd_wait_loop f st 0 10000"

text \<open>
  The status is read only when the counter is 0: after ten thousand rounds, whatever the drive does, and when the drive is busy then,
  again after all values of the counter.
\<close>

lemma hd_wait_loop_eq:
  assumes "r = (if i = 0 then 2 ^ 32 else unat i)"
  shows "hd_wait_loop f st k i =
    (if f < r then None else if st k AND 0x80 \<noteq> 0 then hd_wait_loop (f - r) st (Suc k) 0 else Some 0)"
  using assms
proof (induction f arbitrary: i r)
  case 0
  then show ?case by (auto simp: unat_gt_0)
next
  case (Suc f)
  show ?case
  proof (cases "i = 1")
    case False
    then have "i - 1 \<noteq> 0" by simp
    moreover have "r = Suc (unat (i - 1))"
    proof (cases "i = 0")
      case True
      then show ?thesis using Suc.prems by (simp add: unat_arith_simps)
    next
      case False
      then show ?thesis using Suc.prems by (simp add: unat_minus_one unat_gt_0)
    qed
    ultimately show ?thesis using Suc.IH [OF refl, of "i - 1"] by auto
  qed (use Suc.prems in simp)
qed

lemma hd_wait_ready_polls_once:
  "st 0 AND 0x80 = 0 \<Longrightarrow> hd_wait_ready f st = (if f < 10000 then None else Some 0)"
  "st 0 AND 0x80 \<noteq> 0 \<Longrightarrow> f < 10000 + 2 ^ 32 \<Longrightarrow> hd_wait_ready f st = None"
  unfolding hd_wait_ready_def by (auto simp: hd_wait_loop_eq [OF refl])

text \<open>The registers after a command; the drive is ready, so that the wait at the beginning has ended.\<close>

definition hd_cmd :: "uint \<Rightarrow> uint \<Rightarrow> uint \<Rightarrow> uchar \<Rightarrow> int kop" where
  "hd_cmd drive cmd lba ns = kthen (kmod (\<lambda>s. s\<lparr>k_hdc := \<lparr>hd_drive = drive AND 1, hd_command = cmd,
     hd_lba = lba AND 0xFFFFFFF, hd_nsect = ns\<rparr>\<rparr>)) (kret 0)"

text \<open>\<^verbatim>\<open>outsl(0x1F0, data, BLK/4)\<close> and \<^verbatim>\<open>insl(0x1F0, data, BLK/4)\<close> on the disk: two sectors.\<close>

definition outsl :: "block \<Rightarrow> kernel \<Rightarrow> kernel" where
  "outsl dat s = (let lba = hd_lba (k_hdc s) in
     s\<lparr>k_disk := (k_disk s)(lba := (\<lambda>j. dat j), lba + 1 := (\<lambda>j. dat (PBLK + j)))\<rparr>)"

definition insl :: "block \<Rightarrow> kernel \<Rightarrow> block" where
  "insl dat s = (\<lambda>j. if j < PBLK then k_disk s (hd_lba (k_hdc s)) j
     else if j < BLK then k_disk s (hd_lba (k_hdc s) + 1) (j - PBLK) else dat j)"

definition hd_start :: "unit kop" where
  "hd_start = kbind (kget (\<lambda>s. av_next (k_buf s Hdtab))) (\<lambda>nx.
     if nx = Hdtab then kret () else
     kbind (kget (\<lambda>s. av_prev (k_buf s Hdtab))) (\<lambda>bp.
     kthen (kmod (b_mod Hdtab (\<lambda>b. b\<lparr>b_flag := 1\<rparr>)))
     (kbind (kget (\<lambda>s. k_buf s bp)) (\<lambda>b.
      if b_flag b AND B_READ \<noteq> 0 then
        kthen (hd_cmd 0 HD_CMD_READ (b_blkno b * 1024 div 512) 2) (kret ())
      else
        kthen (hd_cmd 0 HD_CMD_WRITE (b_blkno b * 1024 div 512) 2)
          (kmod (outsl (b_data b)))))))"

definition hd_request :: "bnode \<Rightarrow> int kop" where
  "hd_request bp =
     kthen (kmod (set_av_prev bp Hdtab))
     (kthen (kmod (\<lambda>s. set_av_next bp (av_next (k_buf s Hdtab)) s))
     (kthen (kmod (\<lambda>s. set_av_prev (av_next (k_buf s Hdtab)) bp s))
     (kthen (kmod (set_av_next Hdtab bp))
     (kbind (kget (\<lambda>s. b_flag (k_buf s Hdtab))) (\<lambda>active.
      kthen (kwhen (active = 0) hd_start) (kret 0))))))"

definition do_hd_intr :: "int kop" where
  "do_hd_intr = kbind (kget (\<lambda>s. b_flag (k_buf s Hdtab))) (\<lambda>active.
     if active = 0 then kret 0 else
     kthen (kmod (b_mod Hdtab (\<lambda>b. b\<lparr>b_flag := 0\<rparr>)))
     (kbind (kget (\<lambda>s. av_prev (k_buf s Hdtab))) (\<lambda>bp.
      kthen (kmod (av_unlink bp))
      (kbind (kget (\<lambda>s. b_flag (k_buf s bp))) (\<lambda>fl.
       kthen (kwhen (fl AND B_READ \<noteq> 0) (kmod (\<lambda>s. b_mod bp (\<lambda>b. b\<lparr>b_data := insl (b_data b) s\<rparr>) s)))
       (kthen (iodone bp) (kthen hd_start (kret 0))))))))"

definition nulldev :: "int kop" where
  "nulldev = kret 0"

definition nodev :: "int kop" where
  "nodev = kthen (syserr ENODEV) (kret 0)"

text \<open>
  Waiting for the disk. The process goes to sleep on the buffer and the processor is given
  away; the disk interrupts of the requests in the queue follow, and the interrupt of
  this buffer wakes the process. The model takes the schedule in which nothing but the
  disk interrupts happens until then. Every interrupt finishes one request, so more than
  \<^verbatim>\<open>NBUF\<close> of them cannot be needed; without an active request the process sleeps on.
\<close>

primrec iowait_intr :: "nat \<Rightarrow> bnode \<Rightarrow> unit kop" where
  "iowait_intr 0 bp = kstop Slept"
| "iowait_intr (Suc k) bp = kbind (kget (\<lambda>s. b_flag (k_buf s bp))) (\<lambda>fl.
     if fl AND B_DONE \<noteq> 0 then kret ()
     else kthen (cu_mod (\<lambda>p. p\<lparr>p_chan := bchan bp, p_pri := PRIBIO, p_stat := SSLEEP\<rparr>))
       (kthen do_hd_intr (iowait_intr k bp)))"

definition iowait :: "bnode \<Rightarrow> unit kop" where
  "iowait bp = iowait_intr (Suc (Suc NBUF)) bp"

end
