(* ===== verification/Bio.thy ===== *)
theory Bio
  imports Hd
begin

unbundle bit_operations_syntax

text \<open>
  The buffer cache, \<^verbatim>\<open>src/blk/buf.c\<close>, over the block device switch of \<^verbatim>\<open>src/blk/conf.c\<close>. Every
  buffer is on the list of its device (links \<^verbatim>\<open>b_next\<close>, \<^verbatim>\<open>b_prev\<close>) and, while no process
  holds it, on the free list (links \<^verbatim>\<open>av_next\<close>, \<^verbatim>\<open>av_prev\<close>), from whose head it is
  recycled. The locale \<open>block_cache\<close> states what the file system relies on.
\<close>

section \<open>Definitions\<close>

text \<open>\<^verbatim>\<open>bdevsw[].d_tab\<close> and \<^verbatim>\<open>bdevsw[].d_request\<close>; entry 0 is empty.\<close>

definition bdev_tab :: "uchar \<Rightarrow> bnode" where
  "bdev_tab major = (if major = 1 then Hdtab else Bnull)"

definition bdev_request :: "uchar \<Rightarrow> bnode \<Rightarrow> int kop" where
  "bdev_request major bp = (if major = 1 then hd_request bp else kstop (Fault ''d_request''))"

text \<open>The list of a device has at most \<^verbatim>\<open>NBUF\<close> buffers, so that many rounds are enough.\<close>

primrec incore_loop :: "nat \<Rightarrow> bnode \<Rightarrow> ushort \<Rightarrow> uint \<Rightarrow> bnode \<Rightarrow> bnode option kop" where
  "incore_loop 0 dtp dev blkno bp = kstop Spin"
| "incore_loop (Suc k) dtp dev blkno bp =
     (if bp = dtp then kret None
      else kbind (kget (\<lambda>s. k_buf s bp)) (\<lambda>b.
        if b_dev b = dev \<and> b_blkno b = blkno then kret (Some bp)
        else incore_loop k dtp dev blkno (b_next b)))"

definition incore :: "ushort \<Rightarrow> uint \<Rightarrow> bnode option kop" where
  "incore dev blkno = (let dtp = bdev_tab (MAJOR dev) in
     kbind (kget (\<lambda>s. b_next (k_buf s dtp))) (incore_loop (Suc NBUF) dtp dev blkno))"

definition notavail :: "bnode \<Rightarrow> unit kop" where
  "notavail bp = kthen (kmod (av_unlink bp)) (kmod (b_mod bp (\<lambda>b. b\<lparr>b_flag := b_flag b OR B_BUSY\<rparr>)))"

definition b_unlink :: "bnode \<Rightarrow> kernel \<Rightarrow> kernel" where
  "b_unlink bp s = (let s1 = set_b_next (b_prev (k_buf s bp)) (b_next (k_buf s bp)) s
     in set_b_prev (b_next (k_buf s1 bp)) (b_prev (k_buf s1 bp)) s1)"

definition b_prepend :: "bnode \<Rightarrow> bnode \<Rightarrow> kernel \<Rightarrow> kernel" where
  "b_prepend bp dtp s =
     (let s1 = set_b_prev bp dtp s;
          s2 = set_b_next bp (b_next (k_buf s1 dtp)) s1;
          s3 = set_b_prev (b_next (k_buf s2 dtp)) bp s2
      in set_b_next dtp bp s3)"

text \<open>
  Steps 3 to 5 of \<^verbatim>\<open>getblk\<close>. The test for a delayed write reads the flag word that was
  assigned \<^verbatim>\<open>B_BUSY\<close> just before and cannot succeed. A sleep that returns at once (the
  idle process is always runnable) repeats the loop with nothing changed.
\<close>

definition getblk_free :: "bnode \<Rightarrow> ushort \<Rightarrow> uint \<Rightarrow> bnode kop" where
  "getblk_free dtp dev blkno = kbind (kget (\<lambda>s. av_next (k_buf s Bfreelist))) (\<lambda>bp.
     if bp = Bfreelist then
       kthen (kmod (b_mod Bfreelist (\<lambda>b. b\<lparr>b_flag := b_flag b OR B_WANTED\<rparr>)))
         (kthen (sleep_unint (bchan Bfreelist) PRIBIO) (kstop Spin))
     else
       kthen (notavail bp)
       (kthen (kmod (b_mod bp (\<lambda>b. b\<lparr>b_flag := B_BUSY\<rparr>)))
       (kthen (kmod (b_unlink bp))
       (kthen (kmod (b_prepend bp dtp))
       (kthen (kmod (b_mod bp (\<lambda>b. b\<lparr>b_dev := dev, b_blkno := blkno\<rparr>))) (kret bp))))))"

definition getblk :: "int \<Rightarrow> uint \<Rightarrow> bnode kop" where
  "getblk dev blkno = (let d = word_of_int dev in
     kbind (kget k_nblkdev) (\<lambda>n.
     if unat (MAJOR d) \<ge> n then panic ''error devno.''
     else if dev < 0 then getblk_free Bfreelist d blkno
     else let dtp = bdev_tab (MAJOR d) in
       if dtp = Bnull then panic ''error devtab. ''
       else kbind (incore d blkno) (\<lambda>r. case r of
           Some bp \<Rightarrow> kbind (kget (\<lambda>s. b_flag (k_buf s bp))) (\<lambda>fl.
             if fl AND B_BUSY \<noteq> 0 then
               kthen (kmod (b_mod bp (\<lambda>b. b\<lparr>b_flag := b_flag b OR B_WANTED\<rparr>)))
                 (kthen (sleep_unint (bchan bp) PRIBIO) (kstop Spin))
             else kthen (notavail bp) (kret bp))
         | None \<Rightarrow> getblk_free dtp d blkno)))"

definition brelse :: "bnode \<Rightarrow> unit kop" where
  "brelse bp =
     kthen (kbind (kget (\<lambda>s. b_flag (k_buf s bp))) (\<lambda>fl. kwhen (fl AND B_WANTED \<noteq> 0) (wakeup (bchan bp))))
     (kthen (kbind (kget (\<lambda>s. b_flag (k_buf s Bfreelist))) (\<lambda>fl. kwhen (fl AND B_WANTED \<noteq> 0)
         (kthen (kmod (b_mod Bfreelist (\<lambda>b. b\<lparr>b_flag := b_flag b AND NOT B_WANTED\<rparr>)))
           (wakeup (bchan Bfreelist)))))
     (kthen (kbind (kget (\<lambda>s. b_flag (k_buf s bp))) (\<lambda>fl. kwhen (fl AND B_ERROR \<noteq> 0)
         (kmod (b_mod bp (\<lambda>b. b\<lparr>b_dev := NODEV\<rparr>)))))
     (kthen (kmod (b_mod bp (\<lambda>b. b\<lparr>b_flag := b_flag b AND NOT (B_WANTED OR B_BUSY OR B_DIRTY OR B_ASYNC)\<rparr>)))
     (kthen (kmod (set_av_next bp Bfreelist))
     (kthen (kmod (\<lambda>s. set_av_prev bp (av_prev (k_buf s Bfreelist)) s))
     (kthen (kmod (\<lambda>s. set_av_next (av_prev (k_buf s bp)) bp s))
      (kmod (\<lambda>s. set_av_prev (av_next (k_buf s bp)) bp s))))))))"

definition bread :: "int \<Rightarrow> uint \<Rightarrow> bnode kop" where
  "bread dev blkno = kbind (getblk dev blkno) (\<lambda>bp. kbind (kget (\<lambda>s. b_flag (k_buf s bp))) (\<lambda>fl.
     if fl AND B_DONE \<noteq> 0 then kret bp
     else kthen (kmod (b_mod bp (\<lambda>b. b\<lparr>b_flag := b_flag b OR B_READ\<rparr>)))
       (kthen (bdev_request (MAJOR (word_of_int dev)) bp) (kthen (iowait bp) (kret bp)))))"

definition bwrite :: "bnode \<Rightarrow> unit kop" where
  "bwrite bp = kbind (kget (\<lambda>s. b_flag (k_buf s bp))) (\<lambda>flag.
     kthen (kmod (b_mod bp (\<lambda>b. b\<lparr>b_flag := b_flag b AND NOT (B_READ OR B_DONE OR B_ERROR OR B_DIRTY)\<rparr>)))
     (kbind (kget (\<lambda>s. b_dev (k_buf s bp))) (\<lambda>dev.
      kthen (bdev_request (MAJOR dev) bp)
       (kwhen (flag AND B_ASYNC = 0) (iowait bp)))))"

definition buf_init :: "unit kop" where
  "buf_init =
     kthen (kmod (\<lambda>s. set_b_prev Bfreelist Bfreelist (set_b_next Bfreelist Bfreelist s)))
     (kthen (kmod (\<lambda>s. set_av_prev Bfreelist Bfreelist (set_av_next Bfreelist Bfreelist s)))
     (kthen (kfor [0..<NBUF] (\<lambda>i.
        kthen (kmod (b_mod (Buff i) (\<lambda>b. b\<lparr>b_dev := NODEV, b_flag := B_BUSY, b_next := Buff i, b_prev := Buff i\<rparr>)))
          (brelse (Buff i))))
     (kthen (kmod (\<lambda>s. s\<lparr>k_nblkdev := 0\<rparr>))
      (kfor [bdev_tab 0, bdev_tab 1] (\<lambda>dtp.
        kthen (kmod (b_mod dtp (\<lambda>b. b\<lparr>b_next := dtp, b_prev := dtp, av_next := dtp, av_prev := dtp\<rparr>)))
          (kmod (\<lambda>s. s\<lparr>k_nblkdev := k_nblkdev s + 1\<rparr>)))))))"

section \<open>The lists\<close>

lemma b_mod_simps [simp]:
  "k_buf (b_mod n f s) = (k_buf s)(n := f (k_buf s n))"
  "k_proc (b_mod n f s) = k_proc s" "k_cu (b_mod n f s) = k_cu s" "k_disk (b_mod n f s) = k_disk s"
  "k_hdc (b_mod n f s) = k_hdc s" "k_nblkdev (b_mod n f s) = k_nblkdev s"
  by (simp_all add: b_mod_def)

definition av_nx :: "kernel \<Rightarrow> bnode \<Rightarrow> bnode" where "av_nx s n = av_next (k_buf s n)"
definition av_pv :: "kernel \<Rightarrow> bnode \<Rightarrow> bnode" where "av_pv s n = av_prev (k_buf s n)"
definition b_nx :: "kernel \<Rightarrow> bnode \<Rightarrow> bnode" where "b_nx s n = b_next (k_buf s n)"
definition b_pv :: "kernel \<Rightarrow> bnode \<Rightarrow> bnode" where "b_pv s n = b_prev (k_buf s n)"

lemmas set_defs = set_av_next_def set_av_prev_def set_b_next_def set_b_prev_def
lemmas link_defs = av_nx_def av_pv_def b_nx_def b_pv_def

interpretation av: links av_nx av_pv set_av_next set_av_prev
  by unfold_locales (auto simp: set_defs link_defs fun_eq_iff)

interpretation dev: links b_nx b_pv set_b_next set_b_prev
  by unfold_locales (auto simp: set_defs link_defs fun_eq_iff)

section \<open>Frames\<close>

text \<open>
  Block input and output touches the buffers, the disk and its controller, and the
  scheduling fields of processes; \<open>bio_frame\<close> says that nothing else has changed.
\<close>

definition strip :: "proc \<Rightarrow> proc" where
  "strip p = p\<lparr>p_chan := Ch0, p_pri := 0, p_stat := SNONE\<rparr>"

definition non_bio :: "kernel \<Rightarrow> kernel" where
  "non_bio s = s\<lparr>k_buf := (\<lambda>_. zero_buf), k_proc := (\<lambda>i. map_option strip (k_proc s i)),
     k_hdc := \<lparr>hd_drive = 0, hd_command = 0, hd_lba = 0, hd_nsect = 0\<rparr>, k_disk := (\<lambda>_ _. 0)\<rparr>"

definition bio_frame :: "kernel \<Rightarrow> kernel \<Rightarrow> bool" where
  "bio_frame s s' \<longleftrightarrow> non_bio s' = non_bio s"

lemma bio_frame_refl [simp]: "bio_frame s s"
  by (simp add: bio_frame_def)

lemma bio_frame_trans [trans]: "bio_frame s t \<Longrightarrow> bio_frame t u \<Longrightarrow> bio_frame s u"
  by (simp add: bio_frame_def)

lemma bio_frame_fields:
  assumes "bio_frame s s'"
  shows "k_inode s' = k_inode s" "k_mnt s' = k_mnt s" "k_file s' = k_file s" "k_rootsp s' = k_rootsp s"
    "k_cu s' = k_cu s" "k_nblkdev s' = k_nblkdev s" "k_time s' = k_time s"
    "k_coremap s' = k_coremap s" "k_pgfree s' = k_pgfree s" "k_mem s' = k_mem s" "k_tty s' = k_tty s"
  using arg_cong [OF assms [unfolded bio_frame_def], of k_inode] arg_cong [OF assms [unfolded bio_frame_def], of k_mnt]
    arg_cong [OF assms [unfolded bio_frame_def], of k_file] arg_cong [OF assms [unfolded bio_frame_def], of k_rootsp]
    arg_cong [OF assms [unfolded bio_frame_def], of k_cu] arg_cong [OF assms [unfolded bio_frame_def], of k_nblkdev]
    arg_cong [OF assms [unfolded bio_frame_def], of k_time] arg_cong [OF assms [unfolded bio_frame_def], of k_coremap]
    arg_cong [OF assms [unfolded bio_frame_def], of k_pgfree] arg_cong [OF assms [unfolded bio_frame_def], of k_mem]
    arg_cong [OF assms [unfolded bio_frame_def], of k_tty]
  by (simp_all add: non_bio_def)

lemma bio_frame_proc:
  assumes "bio_frame s s'"
  shows "map_option strip (k_proc s' i) = map_option strip (k_proc s i)"
  using fun_cong [OF arg_cong [OF assms [unfolded bio_frame_def], of k_proc], of i] by (simp add: non_bio_def)

lemma bio_frame_b_mod [simp]: "bio_frame s (b_mod n f t) = bio_frame s t" "bio_frame (b_mod n f s) t = bio_frame s t"
  "bio_frame s (t\<lparr>k_buf := b\<rparr>) = bio_frame s t"
  by (simp_all add: bio_frame_def non_bio_def b_mod_def)

lemma bio_frame_k_proc:
  "(\<And>i. map_option strip (t i) = map_option strip (k_proc s i)) \<Longrightarrow> bio_frame s (s\<lparr>k_proc := t\<rparr>)"
  by (simp add: bio_frame_def non_bio_def)

lemma wakeup_frame:
  "\<exists>t. wakeup ch s = Ok () (s\<lparr>k_proc := t\<rparr>) \<and> (\<forall>i. map_option strip (t i) = map_option strip (k_proc s i))"
  unfolding wakeup_eq
proof (intro exI conjI, rule refl, rule allI)
  fix i
  have "strip (if p_chan p = ch then p\<lparr>p_chan := Ch0, p_stat := SRUN\<rparr> else p) = strip p" for p
    by (simp add: strip_def)
  then show "map_option strip (if i < NPROC then map_option (\<lambda>p. if p_chan p = ch
      then p\<lparr>p_chan := Ch0, p_stat := SRUN\<rparr> else p) (k_proc s i) else k_proc s i) =
      map_option strip (k_proc s i)"
    by (cases "k_proc s i") simp_all
qed

section \<open>One request\<close>

abbreviation bdone :: "buf \<Rightarrow> bool" where "bdone b \<equiv> b_flag b AND B_DONE \<noteq> 0"

definition lba_of :: "uint \<Rightarrow> uint" where
  "lba_of n = (n * 1024 div 512) AND 0xFFFFFFF"

definition disk_blk :: "kernel \<Rightarrow> uint \<Rightarrow> block" where
  "disk_blk s n = (\<lambda>j. if j < PBLK then k_disk s (lba_of n) j else k_disk s (lba_of n + 1) (j - PBLK))"

text \<open>
  A request to the idle disk: the interrupt that the waiting process is woken by has moved the
  data, and the driver is idle again.
\<close>

lemma hd_request_idle:
  assumes idle: "av_next (k_buf s Hdtab) = Hdtab" "av_prev (k_buf s Hdtab) = Hdtab" "b_flag (k_buf s Hdtab) = 0"
    and b: "k_buf s (Buff i) = b"
  shows "\<exists>h. hd_lba h = lba_of (b_blkno b) \<and> hd_request (Buff i) s = Ok 0 (s\<lparr>
    k_buf := (k_buf s)(Buff i := b\<lparr>av_prev := Hdtab, av_next := Hdtab\<rparr>,
      Hdtab := (k_buf s Hdtab)\<lparr>av_prev := Buff i, av_next := Buff i, b_flag := 1\<rparr>),
    k_hdc := h,
    k_disk := (if b_flag b AND B_READ \<noteq> 0 then k_disk s
      else (k_disk s)(lba_of (b_blkno b) := b_data b, lba_of (b_blkno b) + 1 := (\<lambda>j. b_data b (PBLK + j))))\<rparr>)"
  by (rule exI [of _ "\<lparr>hd_drive = 0, hd_command = (if b_flag b AND B_READ \<noteq> 0 then HD_CMD_READ else HD_CMD_WRITE),
        hd_lba = lba_of (b_blkno b), hd_nsect = 2\<rparr>"], cases "b_flag b AND B_READ \<noteq> 0")
    (simp_all add: hd_request_def hd_start_def set_defs hd_cmd_def outsl_def kop_simps b idle b_mod_def
      lba_of_def Let_def)

lemma insl_k_buf [simp]: "insl d (s\<lparr>k_buf := x\<rparr>) = insl d s" "insl d (s\<lparr>k_proc := t\<rparr>) = insl d s"
  by (simp_all add: insl_def cong: if_cong)

lemma do_hd_intr_one:
  assumes q: "av_next (k_buf s Hdtab) = Buff i" "av_prev (k_buf s Hdtab) = Buff i" "b_flag (k_buf s Hdtab) = 1"
    and b: "k_buf s (Buff i) = b" "av_next b = Hdtab" "av_prev b = Hdtab"
  shows "\<exists>t. do_hd_intr s = Ok 0 (s\<lparr>
      k_buf := (k_buf s)(Hdtab := (k_buf s Hdtab)\<lparr>b_flag := 0, av_next := Hdtab, av_prev := Hdtab\<rparr>,
        Buff i := b\<lparr>b_data := (if b_flag b AND B_READ \<noteq> 0 then insl (b_data b) s else b_data b),
          b_flag := (b_flag b OR B_DONE) AND NOT B_WANTED\<rparr>),
      k_proc := t\<rparr>) \<and> (\<forall>i. map_option strip (t i) = map_option strip (k_proc s i))"
proof -
  let ?s1 = "s\<lparr>k_buf := (k_buf s)(Hdtab := (k_buf s Hdtab)\<lparr>b_flag := 0, av_next := Hdtab, av_prev := Hdtab\<rparr>,
        Buff i := b\<lparr>b_data := (if b_flag b AND B_READ \<noteq> 0 then insl (b_data b) s else b_data b),
          b_flag := (b_flag b OR B_DONE) AND NOT B_WANTED\<rparr>)\<rparr>"
  obtain t where t: "wakeup (Ch_buf i) ?s1 = Ok () (?s1\<lparr>k_proc := t\<rparr>)"
    "\<forall>i. map_option strip (t i) = map_option strip (k_proc s i)"
    using wakeup_frame [of "Ch_buf i" ?s1] by auto
  have "do_hd_intr s = kthen (wakeup (Ch_buf i)) (kthen hd_start (kret 0)) ?s1"
    using q b
    by (cases "b_flag b AND B_READ \<noteq> 0")
      (simp_all add: do_hd_intr_def iodone_def av_unlink_def set_defs kop_simps b_mod_def Let_def bchan_def
        kthen_assoc fun_upd_twist [of Hdtab "Buff i"])
  then show ?thesis using t by (auto simp: kop_simps hd_start_def)
qed

lemma bit_nonzero: "bit w n \<Longrightarrow> w \<noteq> 0"
  by auto

lemma done_flag: "((fl OR 2) AND NOT 16) AND 2 \<noteq> (0 :: uint)"
  by (rule bit_nonzero [of _ 1], unfold bit_and_iff bit_or_iff bit_not_iff) (simp add: bit_numeral_rec)

lemma iowait_intr_step:
  "\<not> bdone (k_buf s bp) \<Longrightarrow> k_proc s (k_cu s) = Some c \<Longrightarrow>
    iowait_intr (Suc k) bp s = kthen do_hd_intr (iowait_intr k bp)
      (s\<lparr>k_proc := (k_proc s)(k_cu s \<mapsto> c\<lparr>p_chan := bchan bp, p_pri := PRIBIO, p_stat := SSLEEP\<rparr>)\<rparr>)"
  "bdone (k_buf s bp) \<Longrightarrow> iowait_intr (Suc k) bp s = Ok () s"
  by (simp_all add: kop_simps)

text \<open>A request to the idle disk, waited for.\<close>

lemma io_round:
  assumes idle: "av_next (k_buf s Hdtab) = Hdtab" "av_prev (k_buf s Hdtab) = Hdtab" "b_flag (k_buf s Hdtab) = 0"
    and b: "k_buf s (Buff i) = b" "\<not> bdone b" and cu: "k_proc s (k_cu s) = Some c"
  shows "\<exists>s'. kthen (hd_request (Buff i)) (iowait (Buff i)) s = Ok () s' \<and> bio_frame s s' \<and>
    k_buf s' = (k_buf s)(Buff i := b\<lparr>av_prev := Hdtab, av_next := Hdtab,
      b_data := (if b_flag b AND B_READ \<noteq> 0 then (\<lambda>j. if j < BLK then disk_blk s (b_blkno b) j else b_data b j)
                 else b_data b),
      b_flag := (b_flag b OR B_DONE) AND NOT B_WANTED\<rparr>) \<and>
    k_disk s' = (if b_flag b AND B_READ \<noteq> 0 then k_disk s
      else (k_disk s)(lba_of (b_blkno b) := b_data b, lba_of (b_blkno b) + 1 := (\<lambda>j. b_data b (PBLK + j))))"
proof -
  let ?D = "if b_flag b AND B_READ \<noteq> 0 then k_disk s
      else (k_disk s)(lba_of (b_blkno b) := b_data b, lba_of (b_blkno b) + 1 := (\<lambda>j. b_data b (PBLK + j)))"
  obtain h where h: "hd_lba h = lba_of (b_blkno b)" "hd_request (Buff i) s = Ok 0 (s\<lparr>
    k_buf := (k_buf s)(Buff i := b\<lparr>av_prev := Hdtab, av_next := Hdtab\<rparr>,
      Hdtab := (k_buf s Hdtab)\<lparr>av_prev := Buff i, av_next := Buff i, b_flag := 1\<rparr>), k_hdc := h, k_disk := ?D\<rparr>)"
    (is "_ = Ok 0 ?s1") using hd_request_idle [OF idle b(1)] by blast
  let ?c = "c\<lparr>p_chan := Ch_buf i, p_pri := PRIBIO, p_stat := SSLEEP\<rparr>"
  let ?s2 = "?s1\<lparr>k_proc := (k_proc s)(k_cu s \<mapsto> ?c)\<rparr>"
  let ?b = "b\<lparr>av_prev := Hdtab, av_next := Hdtab\<rparr>"
  have q: "av_next (k_buf ?s2 Hdtab) = Buff i" "av_prev (k_buf ?s2 Hdtab) = Buff i"
    "b_flag (k_buf ?s2 Hdtab) = 1" "k_buf ?s2 (Buff i) = ?b" "av_next ?b = Hdtab" "av_prev ?b = Hdtab"
    by simp_all
  obtain t where t: "do_hd_intr ?s2 = Ok 0 (?s2\<lparr>
      k_buf := (k_buf ?s2)(Hdtab := (k_buf ?s2 Hdtab)\<lparr>b_flag := 0, av_next := Hdtab, av_prev := Hdtab\<rparr>,
        Buff i := ?b\<lparr>b_data := (if b_flag ?b AND B_READ \<noteq> 0 then insl (b_data ?b) ?s2 else b_data ?b),
          b_flag := (b_flag ?b OR B_DONE) AND NOT B_WANTED\<rparr>),
      k_proc := t\<rparr>)" (is "_ = Ok 0 ?s3") and t2: "\<forall>j. map_option strip (t j) = map_option strip (k_proc ?s2 j)"
    using do_hd_intr_one [OF q] by blast
  have fl: "bdone (k_buf ?s3 (Buff i))" using done_flag [of "b_flag b"] by simp
  have s1: "\<not> bdone (k_buf ?s1 (Buff i))" "k_proc ?s1 (k_cu ?s1) = Some c" using b(2) cu by simp_all
  have "kthen (hd_request (Buff i)) (iowait (Buff i)) s = iowait (Buff i) ?s1"
    using h(2) by (simp add: kthen_Ok)
  also have "\<dots> = kthen do_hd_intr (iowait_intr (Suc NBUF) (Buff i)) ?s2"
    unfolding iowait_def iowait_intr_step(1) [OF s1] by (simp add: bchan_def)
  also have "\<dots> = Ok () ?s3" unfolding kthen_Ok [of do_hd_intr, OF t] iowait_intr_step(2) [OF fl] ..
  finally have "kthen (hd_request (Buff i)) (iowait (Buff i)) s = Ok () ?s3" .
  moreover have "bio_frame s ?s3"
  proof -
    have "map_option strip (k_proc ?s2 j) = map_option strip (k_proc s j)" for j
      using cu by (simp add: strip_def)
    then show ?thesis using t2 by (simp add: bio_frame_def non_bio_def)
  qed
  moreover have "(k_buf s Hdtab)\<lparr>b_flag := 0, av_next := Hdtab, av_prev := Hdtab\<rparr> = k_buf s Hdtab"
    using idle by (cases "k_buf s Hdtab") simp
  then have "k_buf ?s3 = (k_buf s)(Buff i := b\<lparr>av_prev := Hdtab, av_next := Hdtab,
      b_data := (if b_flag b AND B_READ \<noteq> 0 then (\<lambda>j. if j < BLK then disk_blk s (b_blkno b) j else b_data b j)
                 else b_data b),
      b_flag := (b_flag b OR B_DONE) AND NOT B_WANTED\<rparr>)"
    using h(1) by (auto simp: fun_eq_iff insl_def disk_blk_def)
  moreover have "k_disk ?s3 = ?D" by simp
  ultimately show ?thesis by blast
qed

section \<open>The cache\<close>

definition busy :: "buf \<Rightarrow> bool" where
  "busy b \<longleftrightarrow> b_flag b AND B_BUSY \<noteq> 0"

text \<open>Block numbers the 4 GB address range of the driver tells apart.\<close>

abbreviation blk_ok :: "uint \<Rightarrow> bool" where
  "blk_ok n \<equiv> n < 0x400000"

definition same_blk :: "block \<Rightarrow> block \<Rightarrow> bool" where
  "same_blk a b \<longleftrightarrow> (\<forall>j<BLK. a j = b j)"

text \<open>
  A buffer on the device's list that no process holds and that is marked done has the data
  of its block.
\<close>

definition buf_ok :: "kernel \<Rightarrow> bool \<Rightarrow> buf \<Rightarrow> bool" where
  "buf_ok s h b \<longleftrightarrow> b_dev b = rootdev \<and> blk_ok (b_blkno b) \<and>
     (\<not> h \<longrightarrow> bdone b \<longrightarrow> same_blk (b_data b) (disk_blk s (b_blkno b)))"

definition flags_ok :: "bool \<Rightarrow> buf \<Rightarrow> bool" where
  "flags_ok h b \<longleftrightarrow> busy b = h \<and> b_flag b AND B_ASYNC = 0 \<and> b_flag b AND B_ERROR = 0"

text \<open>
  The state of the cache while the buffers \<open>H\<close> are held: the free list has the others, the
  device's list \<open>cs\<close> holds each block at most once, the buffers outside it are rings of
  their own, and the driver is idle.
\<close>

definition cache :: "kernel \<Rightarrow> nat set \<Rightarrow> nat list \<Rightarrow> nat list \<Rightarrow> bool" where
  "cache s H fs cs \<longleftrightarrow>
     ring (av_nx s) (av_pv s) Bfreelist (map Buff fs) \<and> set fs = {..<NBUF} - H \<and>
     ring (b_nx s) (b_pv s) Hdtab (map Buff cs) \<and> set cs \<subseteq> {..<NBUF} \<and> H \<subseteq> set cs \<and>
     (\<forall>i<NBUF. i \<notin> set cs \<longrightarrow> b_nx s (Buff i) = Buff i \<and> b_pv s (Buff i) = Buff i) \<and>
     inj_on (\<lambda>i. b_blkno (k_buf s (Buff i))) (set cs) \<and>
     (\<forall>i \<in> set cs. buf_ok s (i \<in> H) (k_buf s (Buff i))) \<and>
     (\<forall>i<NBUF. flags_ok (i \<in> H) (k_buf s (Buff i)))"

definition drive_idle :: "kernel \<Rightarrow> bool" where
  "drive_idle s \<longleftrightarrow> av_next (k_buf s Hdtab) = Hdtab \<and> av_prev (k_buf s Hdtab) = Hdtab \<and> b_flag (k_buf s Hdtab) = 0"

definition bio_inv :: "kernel \<Rightarrow> nat set \<Rightarrow> bool" where
  "bio_inv s H \<longleftrightarrow> (\<exists>fs cs. cache s H fs cs) \<and> drive_idle s \<and> k_nblkdev s = 2 \<and> k_proc s (k_cu s) \<noteq> None"

lemma incore_loop_seg:
  "seg (b_nx s) (b_pv s) a (map Buff is) Hdtab \<Longrightarrow> length is < k \<Longrightarrow>
    incore_loop k Hdtab dev blkno (b_nx s a) s =
      Ok (map_option Buff (find (\<lambda>i. b_dev (k_buf s (Buff i)) = dev \<and> b_blkno (k_buf s (Buff i)) = blkno) is)) s"
proof (induction "is" arbitrary: a k)
  case Nil
  then show ?case by (cases k) (auto simp: kop_simps)
next
  case (Cons i "is")
  then show ?case by (cases k) (auto simp: kop_simps b_nx_def)
qed

lemma cache_length:
  assumes "cache s H fs cs"
  shows "length cs \<le> NBUF" "distinct cs" "distinct fs"
proof -
  show "distinct cs" "distinct fs"
    using assms by (auto simp: cache_def ring_def distinct_map)
  then have "length cs = card (set cs)" by (simp add: distinct_card)
  also have "\<dots> \<le> card {..<NBUF}" using assms by (intro card_mono) (auto simp: cache_def)
  finally show "length cs \<le> NBUF" by simp
qed

lemma incore_cache:
  assumes "cache s H fs cs"
  shows "incore rootdev blkno s =
    Ok (map_option Buff (find (\<lambda>i. b_blkno (k_buf s (Buff i)) = blkno) cs)) s"
proof -
  have "seg (b_nx s) (b_pv s) Hdtab (map Buff cs) Hdtab" using assms by (simp add: cache_def ring_def)
  note l = incore_loop_seg [OF this, of "Suc NBUF" rootdev blkno] cache_length(1) [OF assms]
  have "find (\<lambda>i. b_dev (k_buf s (Buff i)) = rootdev \<and> b_blkno (k_buf s (Buff i)) = blkno) cs =
      find (\<lambda>i. b_blkno (k_buf s (Buff i)) = blkno) cs"
    using assms by (intro find_cong) (auto simp: cache_def buf_ok_def)
  with l show ?thesis by (simp add: incore_def bdev_tab_def MAJOR_def b_nx_def Let_def kop_simps del: incore_loop.simps)
qed

section \<open>Taking a buffer\<close>

lemma set_payload [simp]:
  "b_flag (k_buf (set_av_next a b s) n) = b_flag (k_buf s n)" "b_flag (k_buf (set_av_prev a b s) n) = b_flag (k_buf s n)"
  "b_flag (k_buf (set_b_next a b s) n) = b_flag (k_buf s n)" "b_flag (k_buf (set_b_prev a b s) n) = b_flag (k_buf s n)"
  "b_dev (k_buf (set_av_next a b s) n) = b_dev (k_buf s n)" "b_dev (k_buf (set_av_prev a b s) n) = b_dev (k_buf s n)"
  "b_dev (k_buf (set_b_next a b s) n) = b_dev (k_buf s n)" "b_dev (k_buf (set_b_prev a b s) n) = b_dev (k_buf s n)"
  "b_blkno (k_buf (set_av_next a b s) n) = b_blkno (k_buf s n)" "b_blkno (k_buf (set_av_prev a b s) n) = b_blkno (k_buf s n)"
  "b_blkno (k_buf (set_b_next a b s) n) = b_blkno (k_buf s n)" "b_blkno (k_buf (set_b_prev a b s) n) = b_blkno (k_buf s n)"
  "b_data (k_buf (set_av_next a b s) n) = b_data (k_buf s n)" "b_data (k_buf (set_av_prev a b s) n) = b_data (k_buf s n)"
  "b_data (k_buf (set_b_next a b s) n) = b_data (k_buf s n)" "b_data (k_buf (set_b_prev a b s) n) = b_data (k_buf s n)"
  by (simp_all add: set_defs)

lemma set_other_links [simp]:
  "b_nx (set_av_next a b s) = b_nx s" "b_nx (set_av_prev a b s) = b_nx s"
  "b_pv (set_av_next a b s) = b_pv s" "b_pv (set_av_prev a b s) = b_pv s"
  "av_nx (set_b_next a b s) = av_nx s" "av_nx (set_b_prev a b s) = av_nx s"
  "av_pv (set_b_next a b s) = av_pv s" "av_pv (set_b_prev a b s) = av_pv s"
  by (auto simp: set_defs link_defs fun_eq_iff)

lemma set_state [simp]:
  "k_disk (set_av_next a b s) = k_disk s" "k_disk (set_av_prev a b s) = k_disk s"
  "k_disk (set_b_next a b s) = k_disk s" "k_disk (set_b_prev a b s) = k_disk s"
  "bio_frame t (set_av_next a b s) = bio_frame t s" "bio_frame t (set_av_prev a b s) = bio_frame t s"
  "bio_frame t (set_b_next a b s) = bio_frame t s" "bio_frame t (set_b_prev a b s) = bio_frame t s"
  by (simp_all add: set_defs)

lemma b_mod_links:
  "(\<And>b. av_next (f b) = av_next b) \<Longrightarrow> av_nx (b_mod n f s) = av_nx s"
  "(\<And>b. av_prev (f b) = av_prev b) \<Longrightarrow> av_pv (b_mod n f s) = av_pv s"
  "(\<And>b. b_next (f b) = b_next b) \<Longrightarrow> b_nx (b_mod n f s) = b_nx s"
  "(\<And>b. b_prev (f b) = b_prev b) \<Longrightarrow> b_pv (b_mod n f s) = b_pv s"
  by (auto simp: link_defs fun_eq_iff)

lemma unlink_eq:
  "av_pv s bp \<noteq> bp \<Longrightarrow> av_unlink bp s = set_av_prev (av_nx s bp) (av_pv s bp) (set_av_next (av_pv s bp) (av_nx s bp) s)"
  "b_pv s bp \<noteq> bp \<Longrightarrow> b_unlink bp s = set_b_prev (b_nx s bp) (b_pv s bp) (set_b_next (b_pv s bp) (b_nx s bp) s)"
  by (simp_all add: av_unlink_def b_unlink_def Let_def set_defs link_defs)

lemma ring_pv_neq: "ring nx pv h (xs @ x # ys) \<Longrightarrow> pv x \<noteq> x"
proof -
  assume r: "ring nx pv h (xs @ x # ys)"
  then have "seg nx pv h xs x" by (simp add: ring_def seg_append)
  then have "pv x \<in> set (h # xs)" using seg_ends [of nx pv h xs x] by auto
  with r show ?thesis by (auto simp: ring_def)
qed

text \<open>
  The state after \<^verbatim>\<open>notavail\<close>: the buffer is off the free list and busy, and only the free
  list's links and this flag have changed.
\<close>

lemma notavail_Ok:
  assumes r: "ring (av_nx s) (av_pv s) Bfreelist (map Buff (xs @ i # ys))"
  shows "\<exists>s'. notavail (Buff i) s = Ok () s' \<and> bio_frame s s' \<and> k_disk s' = k_disk s \<and>
    ring (av_nx s') (av_pv s') Bfreelist (map Buff (xs @ ys)) \<and> b_nx s' = b_nx s \<and> b_pv s' = b_pv s \<and>
    (\<forall>n. b_dev (k_buf s' n) = b_dev (k_buf s n) \<and> b_blkno (k_buf s' n) = b_blkno (k_buf s n) \<and>
      b_data (k_buf s' n) = b_data (k_buf s n) \<and>
      b_flag (k_buf s' n) = (if n = Buff i then b_flag (k_buf s n) OR B_BUSY else b_flag (k_buf s n))) \<and>
    (drive_idle s \<longrightarrow> drive_idle s')"
proof -
  have r': "ring (av_nx s) (av_pv s) Bfreelist (map Buff xs @ Buff i # map Buff ys)" using r by simp
  let ?s1 = "set_av_prev (av_nx s (Buff i)) (av_pv s (Buff i)) (set_av_next (av_pv s (Buff i)) (av_nx s (Buff i)) s)"
  let ?s' = "b_mod (Buff i) (\<lambda>b. b\<lparr>b_flag := b_flag b OR B_BUSY\<rparr>) ?s1"
  have "notavail (Buff i) s = Ok () ?s'"
    using unlink_eq(1) [OF ring_pv_neq [OF r']] by (simp add: notavail_def kop_simps)
  moreover have "ring (av_nx ?s') (av_pv ?s') Bfreelist (map Buff (xs @ ys))"
    using av.unlink [OF r'] by (simp add: b_mod_links)
  moreover have "bio_frame s ?s'" by simp
  moreover have "drive_idle s \<longrightarrow> drive_idle ?s'"
  proof
    assume d: "drive_idle s"
    have "seg (av_nx s) (av_pv s) Bfreelist (map Buff xs) (Buff i)"
      "seg (av_nx s) (av_pv s) (Buff i) (map Buff ys) Bfreelist" using r' by (auto simp: ring_def seg_append)
    from seg_ends [OF this(1)] seg_ends [OF this(2)]
    have "av_pv s (Buff i) \<noteq> Hdtab" "av_nx s (Buff i) \<noteq> Hdtab"
      by (auto simp: last_map split: list.splits if_splits)
    with d show "drive_idle ?s'" by (simp add: drive_idle_def set_defs)
  qed
  ultimately show ?thesis by (intro exI [of _ ?s']) (simp add: b_mod_links)
qed

text \<open>Moving a buffer to the front of the device's list.\<close>

lemma b_unlink_Ok:
  assumes r: "ring (b_nx s) (b_pv s) Hdtab (map Buff cs)"
    and self: "i \<notin> set cs \<Longrightarrow> b_nx s (Buff i) = Buff i \<and> b_pv s (Buff i) = Buff i"
  shows "ring (b_nx (b_unlink (Buff i) s)) (b_pv (b_unlink (Buff i) s)) Hdtab (map Buff (remove1 i cs)) \<and>
    (\<forall>j. j \<noteq> i \<longrightarrow> j \<notin> set cs \<longrightarrow> b_nx (b_unlink (Buff i) s) (Buff j) = b_nx s (Buff j) \<and>
      b_pv (b_unlink (Buff i) s) (Buff j) = b_pv s (Buff j))"
proof (cases "i \<in> set cs")
  case True
  then obtain xs ys where cs: "cs = xs @ i # ys" "i \<notin> set xs" by (meson split_list_first)
  then have r': "ring (b_nx s) (b_pv s) Hdtab (map Buff xs @ Buff i # map Buff ys)" using r by simp
  have "seg (b_nx s) (b_pv s) Hdtab (map Buff xs) (Buff i)" "seg (b_nx s) (b_pv s) (Buff i) (map Buff ys) Hdtab"
    using r' by (auto simp: ring_def seg_append)
  from seg_ends [OF this(1)] seg_ends [OF this(2)]
  have "b_pv s (Buff i) \<noteq> Buff j" "b_nx s (Buff i) \<noteq> Buff j" if "j \<noteq> i" "j \<notin> set cs" for j
    using that cs by (auto simp: last_map split: list.splits if_splits)
  then have "\<forall>j. j \<noteq> i \<longrightarrow> j \<notin> set cs \<longrightarrow> Buff j \<noteq> b_pv s (Buff i) \<and> Buff j \<noteq> b_nx s (Buff i)" by metis
  then show ?thesis
    using dev.unlink [OF r'] unlink_eq(2) [OF ring_pv_neq [OF r']] cs
    by (simp add: remove1_append dev.link_simps)
next
  case False
  then have "b_nx (b_unlink (Buff i) s) = b_nx s" "b_pv (b_unlink (Buff i) s) = b_pv s"
    using self by (auto simp: b_unlink_def Let_def set_defs link_defs fun_eq_iff)
  then show ?thesis using r False by (simp add: remove1_idem)
qed

lemma b_prepend_eq:
  "b_prepend (Buff i) Hdtab s = set_b_next Hdtab (Buff i) (set_b_prev (b_nx s Hdtab) (Buff i)
     (set_b_next (Buff i) (b_nx s Hdtab) (set_b_prev (Buff i) Hdtab s)))"
  by (simp add: b_prepend_def Let_def set_defs link_defs)

lemma move_front:
  assumes r: "ring (b_nx s) (b_pv s) Hdtab (map Buff cs)" "distinct cs"
    and self: "i \<notin> set cs \<Longrightarrow> b_nx s (Buff i) = Buff i \<and> b_pv s (Buff i) = Buff i"
  defines "s' \<equiv> b_prepend (Buff i) Hdtab (b_unlink (Buff i) s)"
  shows "ring (b_nx s') (b_pv s') Hdtab (map Buff (i # remove1 i cs))"
    and "j \<noteq> i \<Longrightarrow> j \<notin> set cs \<Longrightarrow> b_nx s' (Buff j) = b_nx s (Buff j) \<and> b_pv s' (Buff j) = b_pv s (Buff j)"
proof -
  let ?s1 = "b_unlink (Buff i) s"
  note u = b_unlink_Ok [OF r(1) self]
  then have r1: "ring (b_nx ?s1) (b_pv ?s1) Hdtab (map Buff (remove1 i cs))" by simp
  have "Buff i \<notin> set (Hdtab # map Buff (remove1 i cs))" using r(2) by auto
  from dev.push_front [OF r1 this refl] show "ring (b_nx s') (b_pv s') Hdtab (map Buff (i # remove1 i cs))"
    by (simp add: s'_def b_prepend_eq)
  assume j: "j \<noteq> i" "j \<notin> set cs"
  have "b_nx ?s1 Hdtab \<in> set (map Buff (remove1 i cs) @ [Hdtab])"
    using seg_ends [OF r1 [unfolded ring_def, THEN conjunct1]] by (cases "map Buff (remove1 i cs)") auto
  with j have "b_nx ?s1 Hdtab \<noteq> Buff j" using set_remove1_subset [of i cs] by auto
  with u j show "b_nx s' (Buff j) = b_nx s (Buff j) \<and> b_pv s' (Buff j) = b_pv s (Buff j)"
    by (simp add: s'_def b_prepend_eq dev.link_simps)
qed

lemma move_front_other [simp]:
  "b_flag (k_buf (b_prepend a d (b_unlink a s)) n) = b_flag (k_buf s n)"
  "b_dev (k_buf (b_prepend a d (b_unlink a s)) n) = b_dev (k_buf s n)"
  "b_blkno (k_buf (b_prepend a d (b_unlink a s)) n) = b_blkno (k_buf s n)"
  "b_data (k_buf (b_prepend a d (b_unlink a s)) n) = b_data (k_buf s n)"
  "av_nx (b_prepend a d (b_unlink a s)) = av_nx s" "av_pv (b_prepend a d (b_unlink a s)) = av_pv s"
  "k_disk (b_prepend a d (b_unlink a s)) = k_disk s"
  "bio_frame t (b_prepend a d (b_unlink a s)) = bio_frame t s"
  by (simp_all add: b_prepend_def b_unlink_def Let_def)

text \<open>What a buffer holds, apart from its links.\<close>

definition pay :: "kernel \<Rightarrow> nat \<Rightarrow> uint \<times> ushort \<times> uint \<times> block" where
  "pay s i = (let b = k_buf s (Buff i) in (b_flag b, b_dev b, b_blkno b, b_data b))"

lemma pay_eqD:
  assumes "pay s' i = pay s i"
  shows "b_flag (k_buf s' (Buff i)) = b_flag (k_buf s (Buff i))" "b_dev (k_buf s' (Buff i)) = b_dev (k_buf s (Buff i))"
    "b_blkno (k_buf s' (Buff i)) = b_blkno (k_buf s (Buff i))" "b_data (k_buf s' (Buff i)) = b_data (k_buf s (Buff i))"
  using assms by (simp_all add: pay_def Let_def)

lemma disk_blk_cong: "k_disk s' = k_disk s \<Longrightarrow> disk_blk s' = disk_blk s"
  by (simp add: disk_blk_def fun_eq_iff)

lemma buf_ok_cong:
  "pay s' i = pay s i \<Longrightarrow> k_disk s' = k_disk s \<Longrightarrow> buf_ok s' h (k_buf s' (Buff i)) = buf_ok s h (k_buf s (Buff i))"
  using pay_eqD [of s' i s] disk_blk_cong [of s' s] by (simp add: buf_ok_def)

lemma flags_ok_cong: "pay s' i = pay s i \<Longrightarrow> flags_ok h (k_buf s' (Buff i)) = flags_ok h (k_buf s (Buff i))"
  using pay_eqD [of s' i s] by (simp add: flags_ok_def busy_def)

lemma busy_flag:
  "(fl OR B_BUSY) AND B_BUSY \<noteq> 0" "(fl OR B_BUSY) AND B_ASYNC = fl AND B_ASYNC"
  "(fl OR B_BUSY) AND B_ERROR = fl AND B_ERROR" "(fl OR B_BUSY) AND B_DONE = fl AND B_DONE" for fl :: uint
  by (rule bit_nonzero [of _ 3], simp add: bit_simps bit_numeral_rec)
    (simp_all add: bit.conj_disj_distrib2)

lemma cache_H: "cache s H fs cs \<Longrightarrow> i \<in> H \<Longrightarrow> i < NBUF"
  by (auto simp: cache_def)

lemma drive_idle_links:
  "drive_idle s \<longleftrightarrow> av_nx s Hdtab = Hdtab \<and> av_pv s Hdtab = Hdtab \<and> b_flag (k_buf s Hdtab) = 0"
  by (simp add: drive_idle_def link_defs)

text \<open>Holding a cached buffer.\<close>

lemma cache_hold:
  assumes c: "cache s H (xs @ i # ys) cs" and i: "i \<in> set cs"
    and s': "ring (av_nx s') (av_pv s') Bfreelist (map Buff (xs @ ys))" "b_nx s' = b_nx s" "b_pv s' = b_pv s"
      "k_disk s' = k_disk s" "\<And>j. j \<noteq> i \<Longrightarrow> pay s' j = pay s j"
      "b_dev (k_buf s' (Buff i)) = rootdev" "b_blkno (k_buf s' (Buff i)) = b_blkno (k_buf s (Buff i))"
      "b_flag (k_buf s' (Buff i)) = b_flag (k_buf s (Buff i)) OR B_BUSY"
  shows "cache s' (insert i H) (xs @ ys) cs"
proof -
  have d: "distinct (xs @ i # ys)" using cache_length(3) [OF c] .
  have n: "set (xs @ i # ys) = {..<NBUF} - H" and iN: "i < NBUF" using c i by (auto simp: cache_def)
  have fs: "set (xs @ ys) = {..<NBUF} - insert i H" using n d by auto
  have blk: "b_blkno (k_buf s' (Buff j)) = b_blkno (k_buf s (Buff j))" for j
    using pay_eqD(3) [OF s'(5)] s'(7) by (cases "j = i") auto
  have "buf_ok s (i \<in> H) (k_buf s (Buff i))" using c i by (auto simp: cache_def)
  then have bi: "buf_ok s' True (k_buf s' (Buff i))" using s'(6,7) by (simp add: buf_ok_def)
  have "flags_ok (i \<in> H) (k_buf s (Buff i))" using c iN by (auto simp: cache_def)
  then have fi: "flags_ok True (k_buf s' (Buff i))"
    using s'(8) busy_flag [of "b_flag (k_buf s (Buff i))"] by (simp add: flags_ok_def busy_def)
  have "\<forall>j \<in> set cs. buf_ok s' (j \<in> insert i H) (k_buf s' (Buff j))"
  proof
    fix j assume j: "j \<in> set cs"
    then have "buf_ok s (j \<in> H) (k_buf s (Buff j))" using c by (auto simp: cache_def)
    then show "buf_ok s' (j \<in> insert i H) (k_buf s' (Buff j))"
      using bi buf_ok_cong [OF s'(5,4), of j] by (cases "j = i") auto
  qed
  moreover have "\<forall>j<NBUF. flags_ok (j \<in> insert i H) (k_buf s' (Buff j))"
  proof (intro allI impI)
    fix j assume j: "j < NBUF"
    then have "flags_ok (j \<in> H) (k_buf s (Buff j))" using c by (auto simp: cache_def)
    then show "flags_ok (j \<in> insert i H) (k_buf s' (Buff j))"
      using fi flags_ok_cong [OF s'(5), of j] by (cases "j = i") auto
  qed
  ultimately show ?thesis using c fs s'(1-3) i by (auto simp: cache_def blk)
qed

definition taken :: "kernel \<Rightarrow> nat set \<Rightarrow> uint \<Rightarrow> nat \<Rightarrow> kernel \<Rightarrow> bool" where
  "taken s H blk i s' \<longleftrightarrow> i < NBUF \<and> i \<notin> H \<and> bio_inv s' (insert i H) \<and> bio_frame s s' \<and> k_disk s' = k_disk s \<and>
     b_dev (k_buf s' (Buff i)) = rootdev \<and> b_blkno (k_buf s' (Buff i)) = blk \<and>
     (bdone (k_buf s' (Buff i)) \<longrightarrow> same_blk (b_data (k_buf s' (Buff i))) (disk_blk s blk)) \<and>
     (\<forall>j \<in> H. pay s' j = pay s j)"

lemma bio_frame_cu: "bio_frame s s' \<Longrightarrow> k_proc s (k_cu s) \<noteq> None \<Longrightarrow> k_proc s' (k_cu s') \<noteq> None"
proof -
  assume f: "bio_frame s s'" and n: "k_proc s (k_cu s) \<noteq> None"
  have "k_cu s' = k_cu s" by (rule bio_frame_fields(5) [OF f])
  then show ?thesis using n bio_frame_proc [OF f, of "k_cu s"] by (cases "k_proc s' (k_cu s)") auto
qed

lemma find_unique:
  assumes "x \<in> set xs" "P x" "\<And>y. y \<in> set xs \<Longrightarrow> P y \<Longrightarrow> y = x"
  shows "find P xs = Some x"
proof (cases "find P xs")
  case None
  then show ?thesis using assms(1,2) by (auto simp: find_None_iff)
next
  case (Some y)
  then have "y \<in> set xs" "P y" by (auto simp: find_Some_iff)
  then show ?thesis using assms(3) Some by blast
qed

lemma MAJOR_root: "MAJOR rootdev = 1"
  by (simp add: MAJOR_def)

lemma getblk_hit:
  assumes inv: "bio_inv s H" and c: "cache s H fs cs"
    and i: "i \<in> set cs" "b_blkno (k_buf s (Buff i)) = blk" "i \<notin> H"
  shows "\<exists>s'. getblk 0x100 blk s = Ok (Buff i) s' \<and> taken s H blk i s'"
proof -
  have "i \<in> set fs" using c i by (auto simp: cache_def)
  then obtain xs ys where fs: "fs = xs @ i # ys" by (auto simp: in_set_conv_decomp)
  have r: "ring (av_nx s) (av_pv s) Bfreelist (map Buff (xs @ i # ys))" using c fs by (simp add: cache_def)
  have "find (\<lambda>i. b_blkno (k_buf s (Buff i)) = blk) cs = Some i"
    using c i by (intro find_unique) (auto simp: cache_def inj_on_def)
  then have inc: "incore rootdev blk s = Ok (Some (Buff i)) s" using incore_cache [OF c, of blk] by simp
  have bi: "buf_ok s False (k_buf s (Buff i))" and fi: "flags_ok False (k_buf s (Buff i))"
    using c i by (auto simp: cache_def)
  obtain s' where s': "notavail (Buff i) s = Ok () s'" "bio_frame s s'" "k_disk s' = k_disk s"
    "ring (av_nx s') (av_pv s') Bfreelist (map Buff (xs @ ys))" "b_nx s' = b_nx s" "b_pv s' = b_pv s"
    "\<forall>n. b_dev (k_buf s' n) = b_dev (k_buf s n) \<and> b_blkno (k_buf s' n) = b_blkno (k_buf s n) \<and>
      b_data (k_buf s' n) = b_data (k_buf s n) \<and>
      b_flag (k_buf s' n) = (if n = Buff i then b_flag (k_buf s n) OR B_BUSY else b_flag (k_buf s n))"
    "drive_idle s \<longrightarrow> drive_idle s'"
    using notavail_Ok [OF r] by blast
  have pay: "pay s' j = pay s j" if "j \<noteq> i" for j using s'(7) that by (simp add: pay_def Let_def)
  have "getblk 0x100 blk s = Ok (Buff i) s'"
    using inc s'(1) fi inv
    by (simp add: getblk_def Let_def kop_simps bdev_tab_def MAJOR_root bio_inv_def flags_ok_def busy_def)
  moreover have "cache s' (insert i H) (xs @ ys) cs"
    using cache_hold [OF c [unfolded fs] i(1) s'(4-6,3) pay] s'(7) bi by (simp add: buf_ok_def)
  then have "bio_inv s' (insert i H)"
    using inv s'(2,8) bio_frame_cu [OF s'(2)] bio_frame_fields(6) [OF s'(2)] by (auto simp: bio_inv_def)
  moreover have "\<forall>j \<in> H. pay s' j = pay s j" using pay i(3) by metis
  moreover have "i < NBUF" using c i(1) by (auto simp: cache_def)
  ultimately show ?thesis
    using s'(2,3,7) bi i busy_flag(4) [of "b_flag (k_buf s (Buff i))"]
    by (intro exI [of _ s']) (auto simp: taken_def buf_ok_def)
qed

text \<open>The cache after a buffer was given to another block.\<close>

lemma cache_reassign:
  assumes c: "cache s H (i # ys) cs" and blk: "blk_ok blk" "\<forall>j \<in> set cs. b_blkno (k_buf s (Buff j)) \<noteq> blk"
    and s': "ring (av_nx s') (av_pv s') Bfreelist (map Buff ys)"
      "ring (b_nx s') (b_pv s') Hdtab (map Buff (i # remove1 i cs))"
      "\<And>j. j \<noteq> i \<Longrightarrow> j \<notin> set cs \<Longrightarrow> b_nx s' (Buff j) = b_nx s (Buff j) \<and> b_pv s' (Buff j) = b_pv s (Buff j)"
      "k_disk s' = k_disk s" "\<And>j. j \<noteq> i \<Longrightarrow> pay s' j = pay s j"
      "b_dev (k_buf s' (Buff i)) = rootdev" "b_blkno (k_buf s' (Buff i)) = blk"
      "b_flag (k_buf s' (Buff i)) = B_BUSY"
  shows "cache s' (insert i H) ys (i # remove1 i cs)"
proof -
  have d: "distinct (i # ys)" "distinct cs" using cache_length [OF c] by auto
  have n: "set (i # ys) = {..<NBUF} - H" and csN: "set cs \<subseteq> {..<NBUF}" "H \<subseteq> set cs"
    and inj: "inj_on (\<lambda>i. b_blkno (k_buf s (Buff i))) (set cs)"
    and self: "\<forall>j<NBUF. j \<notin> set cs \<longrightarrow> b_nx s (Buff j) = Buff j \<and> b_pv s (Buff j) = Buff j"
    using c by (auto simp: cache_def)
  have cs': "set (i # remove1 i cs) = insert i (set cs)" using d(2) by (auto simp: set_remove1_eq)
  have fs: "set ys = {..<NBUF} - insert i H" and iN: "i < NBUF" "i \<notin> H" using n d(1) by auto
  have blkno: "b_blkno (k_buf s' (Buff j)) = (if j = i then blk else b_blkno (k_buf s (Buff j)))" for j
    using pay_eqD(3) [OF s'(5)] s'(7) by auto
  have "\<forall>j \<in> insert i (set cs). buf_ok s' (j \<in> insert i H) (k_buf s' (Buff j))"
  proof
    fix j assume j: "j \<in> insert i (set cs)"
    show "buf_ok s' (j \<in> insert i H) (k_buf s' (Buff j))"
    proof (cases "j = i")
      case True
      then show ?thesis using s'(6,7) blk(1) by (simp add: buf_ok_def)
    next
      case False
      then have "buf_ok s (j \<in> H) (k_buf s (Buff j))" using c j by (auto simp: cache_def)
      then show ?thesis using False buf_ok_cong [OF s'(5,4), of j] by simp
    qed
  qed
  moreover have "\<forall>j<NBUF. flags_ok (j \<in> insert i H) (k_buf s' (Buff j))"
  proof (intro allI impI)
    fix j assume "j < NBUF"
    then have "flags_ok (j \<in> H) (k_buf s (Buff j))" using c by (auto simp: cache_def)
    then show "flags_ok (j \<in> insert i H) (k_buf s' (Buff j))"
      using s'(8) flags_ok_cong [OF s'(5), of j] by (cases "j = i") (auto simp: flags_ok_def busy_def)
  qed
  moreover have "inj_on (\<lambda>j. b_blkno (k_buf s' (Buff j))) (insert i (set cs))"
    using inj blk(2) unfolding inj_on_def blkno by auto
  moreover have "\<forall>j<NBUF. j \<notin> insert i (set cs) \<longrightarrow> b_nx s' (Buff j) = Buff j \<and> b_pv s' (Buff j) = Buff j"
    using self s'(3) by auto
  ultimately show ?thesis
    using s'(1,2) fs csN iN(1) unfolding cache_def cs' by auto
qed

lemma getblk_miss:
  assumes inv: "bio_inv s H" and c: "cache s H (i # ys) cs" and b: "blk_ok blk"
    and m: "\<forall>j \<in> set cs. b_blkno (k_buf s (Buff j)) \<noteq> blk"
  shows "\<exists>s'. getblk 0x100 blk s = Ok (Buff i) s' \<and> taken s H blk i s'"
proof -
  have r: "ring (av_nx s) (av_pv s) Bfreelist (map Buff ([] @ i # ys))" and iN: "i < NBUF" "i \<notin> H"
    and rb: "ring (b_nx s) (b_pv s) Hdtab (map Buff cs)"
    and self: "i \<notin> set cs \<Longrightarrow> b_nx s (Buff i) = Buff i \<and> b_pv s (Buff i) = Buff i"
    using c by (auto simp: cache_def)
  have nx: "av_next (k_buf s Bfreelist) = Buff i" using r by (simp add: ring_def av_nx_def)
  have "find (\<lambda>i. b_blkno (k_buf s (Buff i)) = blk) cs = None" using m by (simp add: find_None_iff)
  then have inc: "incore rootdev blk s = Ok None s" using incore_cache [OF c, of blk] by simp
  obtain s1 where s1: "notavail (Buff i) s = Ok () s1" "bio_frame s s1" "k_disk s1 = k_disk s"
    "ring (av_nx s1) (av_pv s1) Bfreelist (map Buff ([] @ ys))" "b_nx s1 = b_nx s" "b_pv s1 = b_pv s"
    "\<forall>n. b_dev (k_buf s1 n) = b_dev (k_buf s n) \<and> b_blkno (k_buf s1 n) = b_blkno (k_buf s n) \<and>
      b_data (k_buf s1 n) = b_data (k_buf s n) \<and>
      b_flag (k_buf s1 n) = (if n = Buff i then b_flag (k_buf s n) OR B_BUSY else b_flag (k_buf s n))"
    "drive_idle s \<longrightarrow> drive_idle s1"
    using notavail_Ok [OF r] by blast
  define s2 where "s2 = b_mod (Buff i) (\<lambda>b. b\<lparr>b_flag := B_BUSY\<rparr>) s1"
  define s3 where "s3 = b_prepend (Buff i) Hdtab (b_unlink (Buff i) s2)"
  define s4 where "s4 = b_mod (Buff i) (\<lambda>b. b\<lparr>b_dev := rootdev, b_blkno := blk\<rparr>) s3"
  have l2: "b_nx s2 = b_nx s" "b_pv s2 = b_pv s" "av_nx s2 = av_nx s1" "av_pv s2 = av_pv s1"
    unfolding s2_def using s1(5,6) by (simp_all add: b_mod_links)
  have mf: "ring (b_nx s3) (b_pv s3) Hdtab (map Buff (i # remove1 i cs))"
    "\<And>j. j \<noteq> i \<Longrightarrow> j \<notin> set cs \<Longrightarrow> b_nx s3 (Buff j) = b_nx s (Buff j) \<and> b_pv s3 (Buff j) = b_pv s (Buff j)"
    using move_front [of s2 cs i, folded s3_def] rb self cache_length(2) [OF c] by (simp_all add: l2)
  have l4: "b_nx s4 = b_nx s3" "b_pv s4 = b_pv s3" "av_nx s4 = av_nx s1" "av_pv s4 = av_pv s1"
    "k_disk s4 = k_disk s" "bio_frame s s4"
    unfolding s4_def using s1(2,3) l2 by (simp_all add: b_mod_links s3_def s2_def)
  have pay: "pay s4 j = pay s j" if "j \<noteq> i" for j
    using s1(7) that by (simp add: pay_def Let_def s4_def s3_def s2_def)
  have p4: "b_dev (k_buf s4 (Buff i)) = rootdev" "b_blkno (k_buf s4 (Buff i)) = blk"
    "b_flag (k_buf s4 (Buff i)) = B_BUSY"
    by (simp_all add: s4_def s3_def s2_def)
  have "getblk 0x100 blk s = Ok (Buff i) s4"
    using inc s1(1) inv nx
    by (simp add: getblk_def getblk_free_def Let_def kop_simps bdev_tab_def MAJOR_root bio_inv_def
        s2_def s3_def s4_def)
  moreover have "cache s4 (insert i H) ys (i # remove1 i cs)"
    using s1(4) mf by (intro cache_reassign [OF c b m]) (simp_all add: l4 p4 pay)
  moreover have "drive_idle s4"
    using inv s1(8) l4(3,4) by (auto simp: bio_inv_def drive_idle_links s4_def s3_def s2_def)
  ultimately have "bio_inv s4 (insert i H)" "getblk 0x100 blk s = Ok (Buff i) s4"
    using inv l4(6) bio_frame_cu [OF l4(6)] bio_frame_fields(6) [OF l4(6)] by (auto simp: bio_inv_def)
  moreover have "\<forall>j \<in> H. pay s4 j = pay s j" using pay iN(2) by metis
  ultimately show ?thesis
    using iN l4(5,6) p4 by (intro exI [of _ s4]) (simp add: taken_def)
qed

lemma getblk_Ok:
  assumes inv: "bio_inv s H" and b: "blk_ok blk" and nh: "\<forall>i \<in> H. b_blkno (k_buf s (Buff i)) \<noteq> blk"
    and free: "\<exists>i<NBUF. i \<notin> H"
  shows "\<exists>i s'. getblk 0x100 blk s = Ok (Buff i) s' \<and> taken s H blk i s'"
proof -
  obtain fs cs where c: "cache s H fs cs" using inv by (auto simp: bio_inv_def)
  show ?thesis
  proof (cases "\<exists>i \<in> set cs. b_blkno (k_buf s (Buff i)) = blk")
    case True
    then obtain i where i: "i \<in> set cs" "b_blkno (k_buf s (Buff i)) = blk" by blast
    then have "i \<notin> H" using nh by blast
    with getblk_hit [OF inv c i] show ?thesis by blast
  next
    case False
    obtain i ys where "fs = i # ys" using free c by (cases fs) (auto simp: cache_def)
    with getblk_miss [OF inv c [unfolded this] b] False show ?thesis by blast
  qed
qed

section \<open>Reading and writing\<close>

lemma ring_upd_other: "x \<notin> set (h # xs) \<Longrightarrow> ring (nx(x := a)) (pv(x := b)) h xs = ring nx pv h xs"
  by (simp add: ring_def)

lemma cache_held_update:
  assumes c: "cache s H fs cs" and i: "i \<in> H" and s': "k_buf s' = (k_buf s)(Buff i := b)"
    and b: "b_next b = b_next (k_buf s (Buff i))" "b_prev b = b_prev (k_buf s (Buff i))"
      "b_dev b = b_dev (k_buf s (Buff i))" "b_blkno b = b_blkno (k_buf s (Buff i))" "flags_ok True b"
    and d: "\<And>j. j \<in> set cs \<Longrightarrow> j \<notin> H \<Longrightarrow> disk_blk s' (b_blkno (k_buf s (Buff j))) = disk_blk s (b_blkno (k_buf s (Buff j)))"
  shows "cache s' H fs cs"
proof -
  have l: "b_nx s' = b_nx s" "b_pv s' = b_pv s" "av_nx s' = (av_nx s)(Buff i := av_next b)"
    "av_pv s' = (av_pv s)(Buff i := av_prev b)"
    using b(1,2) by (auto simp: link_defs s' fun_eq_iff)
  have "i \<notin> set fs" using c i by (auto simp: cache_def)
  then have r: "ring (av_nx s') (av_pv s') Bfreelist (map Buff fs)"
    using c unfolding l by (subst ring_upd_other) (auto simp: cache_def)
  have blkno: "b_blkno (k_buf s' (Buff j)) = b_blkno (k_buf s (Buff j))" for j using b(4) by (simp add: s')
  have "\<forall>j \<in> set cs. buf_ok s' (j \<in> H) (k_buf s' (Buff j))"
  proof
    fix j assume j: "j \<in> set cs"
    then have "buf_ok s (j \<in> H) (k_buf s (Buff j))" using c by (auto simp: cache_def)
    then show "buf_ok s' (j \<in> H) (k_buf s' (Buff j))"
      using i b d [OF j] by (cases "j = i") (auto simp: buf_ok_def s')
  qed
  moreover have "\<forall>j<NBUF. flags_ok (j \<in> H) (k_buf s' (Buff j))"
    using c i b(5) by (auto simp: cache_def s')
  ultimately show ?thesis using c r unfolding cache_def by (simp add: l(1,2) blkno)
qed

lemma cache_held:
  assumes "cache s H fs cs" "i \<in> H"
  shows "buf_ok s True (k_buf s (Buff i)) \<and> flags_ok True (k_buf s (Buff i)) \<and> i \<in> set cs \<and> i < NBUF"
proof -
  have i: "i \<in> set cs" "i < NBUF" using assms by (auto simp: cache_def)
  have "\<forall>i \<in> set cs. buf_ok s (i \<in> H) (k_buf s (Buff i))" "\<forall>i<NBUF. flags_ok (i \<in> H) (k_buf s (Buff i))"
    using assms(1) by (simp_all add: cache_def)
  with i assms(2) show ?thesis by auto
qed

lemma lba_of_eq: "blk_ok n \<Longrightarrow> unat (lba_of n) = 2 * unat n"
proof -
  assume "blk_ok n"
  then have n: "unat n < 4194304" by (simp add: word_less_nat_alt)
  then have m: "unat (n * 1024) = unat n * 1024" by (simp add: unat_word_ariths)
  have k: "(0xFFFFFFF :: uint) = mask 28" by (simp add: mask_eq_exp_minus_1)
  have "unat (n * 1024 div 512) = 2 * unat n" by (simp add: unat_div m)
  moreover have "unat (lba_of n) = unat (n * 1024 div 512) mod 2 ^ 28"
    unfolding lba_of_def k by (simp only: take_bit_eq_mask [symmetric] unsigned_take_bit_eq) (simp add: take_bit_eq_mod)
  ultimately show ?thesis using n by simp
qed

lemma lba_disjoint:
  assumes "blk_ok n" "blk_ok m" "n \<noteq> m"
  shows "lba_of n \<noteq> lba_of m" "lba_of n + 1 \<noteq> lba_of m" "lba_of n \<noteq> lba_of m + 1" "lba_of n + 1 \<noteq> lba_of m + 1"
proof -
  have u: "unat (lba_of n) = 2 * unat n" "unat (lba_of m) = 2 * unat m" using lba_of_eq assms by auto
  have "unat n < 4194304" "unat m < 4194304" using assms by (simp_all add: word_less_nat_alt)
  then have s: "unat (lba_of n + 1) = 2 * unat n + 1" "unat (lba_of m + 1) = 2 * unat m + 1"
    using u by (simp_all add: unat_word_ariths)
  have ne: "unat n \<noteq> unat m" using assms(3) by (simp add: word_unat_eq_iff)
  show "lba_of n \<noteq> lba_of m" using u ne by (metis mult_left_cancel zero_neq_numeral)
  show "lba_of n + 1 \<noteq> lba_of m" using u s by (metis dvd_triv_left even_plus_one_iff)
  show "lba_of n \<noteq> lba_of m + 1" using u s by (metis dvd_triv_left even_plus_one_iff)
  show "lba_of n + 1 \<noteq> lba_of m + 1" using s ne by (metis add_right_cancel mult_left_cancel zero_neq_numeral)
qed

text \<open>Writing a block changes that block only.\<close>

lemma disk_blk_write:
  assumes "blk_ok n" "k_disk s' = (k_disk s)(lba_of n := d, lba_of n + 1 := (\<lambda>j. d (PBLK + j)))"
  shows "disk_blk s' n = d" "blk_ok m \<Longrightarrow> m \<noteq> n \<Longrightarrow> disk_blk s' m = disk_blk s m"
proof -
  have "lba_of n \<noteq> lba_of n + 1" by simp
  then show "disk_blk s' n = d" unfolding disk_blk_def assms(2) by (auto simp: fun_eq_iff)
  assume "blk_ok m" "m \<noteq> n"
  from lba_disjoint [OF this(1) assms(1) this(2)] show "disk_blk s' m = disk_blk s m"
    by (simp add: disk_blk_def assms(2) fun_eq_iff)
qed

lemma bio_invE:
  assumes "bio_inv s H"
  obtains fs cs c where "cache s H fs cs" "drive_idle s" "k_nblkdev s = 2" "k_proc s (k_cu s) = Some c"
  using assms by (auto simp: bio_inv_def)

lemma flag_bits:
  "(w :: uint) AND 1 = 0 \<longleftrightarrow> \<not> bit w 0" "w AND 2 = 0 \<longleftrightarrow> \<not> bit w 1" "w AND 4 = 0 \<longleftrightarrow> \<not> bit w 2"
  "w AND 8 = 0 \<longleftrightarrow> \<not> bit w 3" "w AND 16 = 0 \<longleftrightarrow> \<not> bit w 4" "w AND 0x20 = 0 \<longleftrightarrow> \<not> bit w 5"
  "w AND 0x40 = 0 \<longleftrightarrow> \<not> bit w 6"
  using and_exp_eq_0_iff_not_bit [of w 0] and_exp_eq_0_iff_not_bit [of w 1] and_exp_eq_0_iff_not_bit [of w 2]
    and_exp_eq_0_iff_not_bit [of w 3] and_exp_eq_0_iff_not_bit [of w 4] and_exp_eq_0_iff_not_bit [of w 5]
    and_exp_eq_0_iff_not_bit [of w 6]
  by simp_all

lemma read_flags:
  "\<not> bdone b \<Longrightarrow> \<not> bdone (b\<lparr>b_flag := b_flag b OR B_READ\<rparr>)"
  "(fl OR B_READ) AND B_READ \<noteq> (0 :: uint)"
  "flags_ok h b \<Longrightarrow> b_flag b' = ((b_flag b OR B_READ) OR B_DONE) AND NOT B_WANTED \<Longrightarrow> flags_ok h b'"
  "flags_ok h b \<Longrightarrow> b_flag b' = ((b_flag b AND NOT (B_READ OR B_DONE OR B_ERROR OR B_DIRTY)) OR B_DONE)
     AND NOT B_WANTED \<Longrightarrow> flags_ok h b'"
  unfolding flags_ok_def busy_def flag_bits
  by (auto simp: bit_and_iff bit_or_iff bit_not_iff bit_numeral_rec simp del: not_numeral_eq)

lemma bread_Ok:
  assumes inv: "bio_inv s H" and b: "blk_ok blk" and nh: "\<forall>i \<in> H. b_blkno (k_buf s (Buff i)) \<noteq> blk"
    and free: "\<exists>i<NBUF. i \<notin> H"
  shows "\<exists>i s'. bread 0x100 blk s = Ok (Buff i) s' \<and> taken s H blk i s' \<and>
    bdone (k_buf s' (Buff i)) \<and> same_blk (b_data (k_buf s' (Buff i))) (disk_blk s blk)"
proof -
  obtain i s1 where g: "getblk 0x100 blk s = Ok (Buff i) s1" "taken s H blk i s1"
    using getblk_Ok [OF assms] by blast
  show ?thesis
  proof (cases "bdone (k_buf s1 (Buff i))")
    case True
    then show ?thesis using g by (auto simp: bread_def kop_simps taken_def)
  next
    case False
    define s2 where "s2 = b_mod (Buff i) (\<lambda>b. b\<lparr>b_flag := b_flag b OR B_READ\<rparr>) s1"
    let ?b = "k_buf s2 (Buff i)"
    obtain fs cs c where c: "cache s1 (insert i H) fs cs" "drive_idle s1" "k_nblkdev s1 = 2" "k_proc s1 (k_cu s1) = Some c"
      using g(2) unfolding taken_def by (metis bio_invE)
    have idle: "av_next (k_buf s2 Hdtab) = Hdtab" "av_prev (k_buf s2 Hdtab) = Hdtab" "b_flag (k_buf s2 Hdtab) = 0"
      using c(2) by (simp_all add: s2_def drive_idle_def)
    have nd: "\<not> bdone ?b" and rd: "b_flag ?b AND B_READ \<noteq> 0"
      using read_flags(1) [OF False] read_flags(2) by (simp_all add: s2_def)
    obtain s3 where s3: "kthen (hd_request (Buff i)) (iowait (Buff i)) s2 = Ok () s3" "bio_frame s2 s3"
      "k_buf s3 = (k_buf s2)(Buff i := ?b\<lparr>av_prev := Hdtab, av_next := Hdtab,
         b_data := (\<lambda>j. if j < BLK then disk_blk s2 (b_blkno ?b) j else b_data ?b j),
         b_flag := (b_flag ?b OR B_DONE) AND NOT B_WANTED\<rparr>)" "k_disk s3 = k_disk s2"
      using io_round [OF idle refl nd, of c] c(4) rd by (auto simp: s2_def)
    have dk: "disk_blk s3 = disk_blk s" "disk_blk s3 = disk_blk s1" "disk_blk s2 = disk_blk s" "k_disk s3 = k_disk s"
      using s3(4) g(2) by (auto intro!: disk_blk_cong simp: s2_def taken_def)
    have t: "i < NBUF" "i \<notin> H" "bio_frame s s1" "b_dev (k_buf s1 (Buff i)) = rootdev" "b_blkno (k_buf s1 (Buff i)) = blk"
      "\<forall>j \<in> H. pay s1 j = pay s j" using g(2) by (simp_all add: taken_def)
    have fi: "flags_ok True (k_buf s1 (Buff i))" using c(1) t(1) by (auto simp: cache_def)
    have "cache s3 (insert i H) fs cs"
      using dk(2) read_flags(3) [OF fi]
      by (intro cache_held_update [OF c(1), of i _ "k_buf s3 (Buff i)"]) (auto simp: s3(3) s2_def)
    moreover have fr: "bio_frame s s3" using s3(2) t(3) bio_frame_trans by (simp add: s2_def)
    moreover have "drive_idle s3" using c(2) by (simp add: drive_idle_def s3(3) s2_def)
    ultimately have "bio_inv s3 (insert i H)"
      using inv bio_frame_cu [OF fr] bio_frame_fields(6) [OF fr] by (auto simp: bio_inv_def)
    moreover have "\<forall>j \<in> H. pay s3 j = pay s j"
      using t(2,6) by (auto simp: pay_def s3(3) s2_def Let_def)
    moreover have "bread 0x100 blk s = Ok (Buff i) s3"
    proof -
      have "kthen (hd_request (Buff i)) (kthen (iowait (Buff i)) (kret (Buff i))) s2 = Ok (Buff i) s3"
        unfolding kthen_assoc [symmetric] by (simp add: kthen_Ok [of "kthen (hd_request (Buff i)) (iowait (Buff i))", OF s3(1)] kret_def)
      then show ?thesis using g(1) False by (simp add: bread_def kop_simps MAJOR_root bdev_request_def s2_def)
    qed
    moreover have "bdone (k_buf s3 (Buff i))" using done_flag [of "b_flag ?b"] by (simp add: s3(3))
    moreover have "same_blk (b_data (k_buf s3 (Buff i))) (disk_blk s blk)"
      using t(5) dk(3) by (simp add: same_blk_def s3(3) s2_def)
    ultimately show ?thesis using t fr dk(4)
      by (intro exI [of _ i] exI [of _ s3]) (simp add: taken_def s3(3) s2_def)
  qed
qed

text \<open>Writing the block of a held buffer, which stays held.\<close>

definition written :: "kernel \<Rightarrow> nat set \<Rightarrow> nat \<Rightarrow> kernel \<Rightarrow> bool" where
  "written s H i s' \<longleftrightarrow> bio_inv s' H \<and> bio_frame s s' \<and>
     b_data (k_buf s' (Buff i)) = b_data (k_buf s (Buff i)) \<and> b_blkno (k_buf s' (Buff i)) = b_blkno (k_buf s (Buff i)) \<and>
     disk_blk s' (b_blkno (k_buf s (Buff i))) = b_data (k_buf s (Buff i)) \<and>
     (\<forall>n. blk_ok n \<longrightarrow> n \<noteq> b_blkno (k_buf s (Buff i)) \<longrightarrow> disk_blk s' n = disk_blk s n) \<and>
     (\<forall>j \<in> H - {i}. pay s' j = pay s j)"

lemma write_flags:
  "\<not> bdone (b\<lparr>b_flag := b_flag b AND NOT (B_READ OR B_DONE OR B_ERROR OR B_DIRTY)\<rparr>)"
  "(b_flag b AND NOT (B_READ OR B_DONE OR B_ERROR OR B_DIRTY)) AND B_READ = 0"
  unfolding flag_bits
  by (auto simp: bit_and_iff bit_or_iff bit_not_iff bit_numeral_rec flag_bits simp del: not_numeral_eq)

lemma bwrite_Ok:
  assumes inv: "bio_inv s H" and i: "i \<in> H"
  shows "\<exists>s'. bwrite (Buff i) s = Ok () s' \<and> written s H i s' \<and> bdone (k_buf s' (Buff i))"
proof -
  define s2 where "s2 = b_mod (Buff i) (\<lambda>b. b\<lparr>b_flag := b_flag b AND NOT (B_READ OR B_DONE OR B_ERROR OR B_DIRTY)\<rparr>) s"
  let ?b = "k_buf s2 (Buff i)" and ?o = "k_buf s (Buff i)"
  obtain fs cs c where c: "cache s H fs cs" "drive_idle s" "k_nblkdev s = 2" "k_proc s (k_cu s) = Some c"
    using inv by (rule bio_invE)
  have idle: "av_next (k_buf s2 Hdtab) = Hdtab" "av_prev (k_buf s2 Hdtab) = Hdtab" "b_flag (k_buf s2 Hdtab) = 0"
    using c(2) by (simp_all add: s2_def drive_idle_def)
  have nd: "\<not> bdone ?b" and rd: "b_flag ?b AND B_READ = 0"
    using write_flags(1) [of ?o] write_flags(2) [of ?o] by (simp_all add: s2_def)
  have bi: "buf_ok s True ?o" and fi: "flags_ok True ?o" using cache_held [OF c(1) i] by auto
  obtain s3 where s3: "kthen (hd_request (Buff i)) (iowait (Buff i)) s2 = Ok () s3" "bio_frame s2 s3"
    "k_buf s3 = (k_buf s2)(Buff i := ?b\<lparr>av_prev := Hdtab, av_next := Hdtab, b_data := b_data ?b,
       b_flag := (b_flag ?b OR B_DONE) AND NOT B_WANTED\<rparr>)"
    "k_disk s3 = (k_disk s2)(lba_of (b_blkno ?b) := b_data ?b, lba_of (b_blkno ?b) + 1 := (\<lambda>j. b_data ?b (PBLK + j)))"
    using io_round [OF idle refl nd, of c] c(4) rd by (auto simp: s2_def)
  have ok: "blk_ok (b_blkno ?o)" "b_dev ?o = rootdev" using bi by (simp_all add: buf_ok_def)
  have dk: "disk_blk s3 (b_blkno ?o) = b_data ?o"
    "\<And>m. blk_ok m \<Longrightarrow> m \<noteq> b_blkno ?o \<Longrightarrow> disk_blk s3 m = disk_blk s m"
    using disk_blk_write [OF ok(1), of s3 s "b_data ?o"] s3(4) by (simp_all add: s2_def)
  have "disk_blk s3 (b_blkno (k_buf s (Buff j))) = disk_blk s (b_blkno (k_buf s (Buff j)))"
    if "j \<in> set cs" "j \<notin> H" for j
  proof (rule dk(2))
    show "blk_ok (b_blkno (k_buf s (Buff j)))" using c(1) that by (auto simp: cache_def buf_ok_def)
    have "inj_on (\<lambda>i. b_blkno (k_buf s (Buff i))) (set cs)" using c(1) by (simp add: cache_def)
    moreover have "i \<in> set cs" "j \<noteq> i" using cache_held [OF c(1) i] that(2) i by auto
    ultimately show "b_blkno (k_buf s (Buff j)) \<noteq> b_blkno ?o" using that(1) inj_onD [of _ "set cs" j i] by blast
  qed
  then have "cache s3 H fs cs"
    using read_flags(4) [OF fi] i
    by (intro cache_held_update [OF c(1), of i _ "k_buf s3 (Buff i)"]) (auto simp: s3(3) s2_def)
  moreover have fr: "bio_frame s s3" using s3(2) by (simp add: s2_def)
  moreover have "drive_idle s3" using c(2) by (simp add: drive_idle_def s3(3) s2_def)
  ultimately have "bio_inv s3 H"
    using inv bio_frame_cu [OF fr] bio_frame_fields(6) [OF fr] by (auto simp: bio_inv_def)
  moreover have "b_flag ?o AND B_ASYNC = 0" using fi by (simp add: flags_ok_def)
  then have "bwrite (Buff i) s = Ok () s3"
    using s3(1) ok(2) by (simp add: bwrite_def kop_simps MAJOR_root bdev_request_def s2_def)
  ultimately show ?thesis using fr dk done_flag [of "b_flag ?b"]
    by (intro exI [of _ s3]) (auto simp: written_def pay_def Let_def s3(3) s2_def)
qed

section \<open>Releasing a buffer\<close>

lemma wakeup_state:
  "\<exists>s'. wakeup ch s = Ok () s' \<and> bio_frame s s' \<and> k_buf s' = k_buf s \<and> k_disk s' = k_disk s"
  using wakeup_frame [of ch s] bio_frame_k_proc by fastforce

text \<open>The state after \<^verbatim>\<open>brelse\<close>, apart from who was woken.\<close>

lemma brelse_state:
  assumes "b_flag (k_buf s (Buff i)) AND B_ERROR = 0" "av_pv s Bfreelist \<noteq> Buff i"
  shows "\<exists>t x. bio_frame s t \<and> k_disk t = k_disk s \<and>
    k_buf t = (k_buf s)(Bfreelist := (k_buf s Bfreelist)\<lparr>b_flag := x\<rparr>, Buff i := (k_buf s (Buff i))\<lparr>
      b_flag := b_flag (k_buf s (Buff i)) AND NOT (B_WANTED OR B_BUSY OR B_DIRTY OR B_ASYNC)\<rparr>) \<and>
    brelse (Buff i) s = Ok () (set_av_prev Bfreelist (Buff i) (set_av_next (av_pv t Bfreelist) (Buff i)
      (set_av_prev (Buff i) (av_pv t Bfreelist) (set_av_next (Buff i) Bfreelist t))))"
proof -
  let ?b = "k_buf s (Buff i)"
  let ?F = "\<lambda>fl. fl AND NOT (B_WANTED OR B_BUSY OR B_DIRTY OR B_ASYNC)"
  obtain s1 where s1: "kwhen (b_flag ?b AND B_WANTED \<noteq> 0) (wakeup (bchan (Buff i))) s = Ok () s1"
    "bio_frame s s1" "k_buf s1 = k_buf s" "k_disk s1 = k_disk s"
    using wakeup_state [of "bchan (Buff i)" s] by (cases "b_flag ?b AND B_WANTED \<noteq> 0") (auto simp: kwhen_def kret_def)
  obtain s2 x where s2: "kwhen (b_flag (k_buf s1 Bfreelist) AND B_WANTED \<noteq> 0)
      (kthen (kmod (b_mod Bfreelist (\<lambda>b. b\<lparr>b_flag := b_flag b AND NOT B_WANTED\<rparr>))) (wakeup (bchan Bfreelist))) s1 = Ok () s2"
    "bio_frame s s2" "k_buf s2 = (k_buf s)(Bfreelist := (k_buf s Bfreelist)\<lparr>b_flag := x\<rparr>)" "k_disk s2 = k_disk s"
  proof (cases "b_flag (k_buf s1 Bfreelist) AND B_WANTED \<noteq> 0")
    case True
    obtain s2 where "wakeup (bchan Bfreelist) (b_mod Bfreelist (\<lambda>b. b\<lparr>b_flag := b_flag b AND NOT B_WANTED\<rparr>) s1) = Ok () s2"
      "bio_frame s1 s2" "k_buf s2 = (k_buf s1)(Bfreelist := (k_buf s1 Bfreelist)\<lparr>b_flag := b_flag (k_buf s1 Bfreelist) AND NOT B_WANTED\<rparr>)"
      "k_disk s2 = k_disk s1"
      using wakeup_state [of "bchan Bfreelist" "b_mod Bfreelist (\<lambda>b. b\<lparr>b_flag := b_flag b AND NOT B_WANTED\<rparr>) s1"] by auto
    with True s1 bio_frame_trans show ?thesis by (intro that [of s2]) (auto simp: kwhen_def kop_simps)
  next
    case False
    with s1 show ?thesis by (intro that [of s1 "b_flag (k_buf s Bfreelist)"]) (auto simp: kwhen_def kret_def)
  qed
  let ?t = "b_mod (Buff i) (\<lambda>b. b\<lparr>b_flag := ?F (b_flag b)\<rparr>) s2"
  have b2: "k_buf s2 (Buff i) = ?b" and pv: "av_prev (k_buf s2 Bfreelist) = av_prev (k_buf s Bfreelist)" using s2(3) by simp_all
  have e: "kbind (kget (\<lambda>s. b_flag (k_buf s (Buff i)))) (\<lambda>fl. kwhen (fl AND B_ERROR \<noteq> 0)
      (kmod (b_mod (Buff i) (\<lambda>b. b\<lparr>b_dev := NODEV\<rparr>)))) s2 = Ok () s2"
    using assms(1) b2 by (simp add: kop_simps kwhen_def)
  have "brelse (Buff i) s = Ok () (set_av_prev Bfreelist (Buff i) (set_av_next (av_pv ?t Bfreelist) (Buff i)
      (set_av_prev (Buff i) (av_pv ?t Bfreelist) (set_av_next (Buff i) Bfreelist ?t))))"
    using s1(1,3) s2(1) e assms(2) pv
    by (simp add: brelse_def kop_simps set_defs link_defs del: kwhen_simps)
  moreover have "bio_frame s ?t" "k_disk ?t = k_disk s" using s2(2,4) by simp_all
  moreover have "k_buf ?t = (k_buf s)(Bfreelist := (k_buf s Bfreelist)\<lparr>b_flag := x\<rparr>, Buff i := ?b\<lparr>b_flag := ?F (b_flag ?b)\<rparr>)"
    using s2(3) by simp
  ultimately show ?thesis by blast
qed

definition released :: "kernel \<Rightarrow> nat set \<Rightarrow> nat \<Rightarrow> kernel \<Rightarrow> bool" where
  "released s H i s' \<longleftrightarrow> bio_inv s' (H - {i}) \<and> bio_frame s s' \<and> k_disk s' = k_disk s \<and>
     (\<forall>j \<in> H - {i}. pay s' j = pay s j)"

lemma release_flags:
  "flags_ok h b \<Longrightarrow> b_flag b' = b_flag b AND NOT (B_WANTED OR B_BUSY OR B_DIRTY OR B_ASYNC) \<Longrightarrow> flags_ok False b'"
  "b_flag b' = b_flag b AND NOT (B_WANTED OR B_BUSY OR B_DIRTY OR B_ASYNC) \<Longrightarrow> bdone b' = bdone b"
  unfolding flags_ok_def busy_def flag_bits
  by (auto simp: bit_and_iff bit_or_iff bit_not_iff bit_numeral_rec simp del: not_numeral_eq)

lemma cache_release:
  assumes c: "cache s H fs cs" and i: "i \<in> H"
    and s': "ring (av_nx s') (av_pv s') Bfreelist (map Buff (fs @ [i]))" "b_nx s' = b_nx s" "b_pv s' = b_pv s"
      "k_disk s' = k_disk s" "\<And>j. j \<noteq> i \<Longrightarrow> pay s' j = pay s j"
      "b_dev (k_buf s' (Buff i)) = b_dev (k_buf s (Buff i))" "b_blkno (k_buf s' (Buff i)) = b_blkno (k_buf s (Buff i))"
      "flags_ok False (k_buf s' (Buff i))"
      "bdone (k_buf s' (Buff i)) \<Longrightarrow> same_blk (b_data (k_buf s' (Buff i))) (disk_blk s' (b_blkno (k_buf s (Buff i))))"
  shows "cache s' (H - {i}) (fs @ [i]) cs"
proof -
  have h: "buf_ok s True (k_buf s (Buff i))" "i \<in> set cs" "i < NBUF" using cache_held [OF c i] by auto
  have fs: "set (fs @ [i]) = {..<NBUF} - (H - {i})" using c h(3) by (auto simp: cache_def)
  have blk: "b_blkno (k_buf s' (Buff j)) = b_blkno (k_buf s (Buff j))" for j
    using pay_eqD(3) [OF s'(5)] s'(7) by (cases "j = i") auto
  have "\<forall>j \<in> set cs. buf_ok s' (j \<in> H - {i}) (k_buf s' (Buff j))"
  proof
    fix j assume j: "j \<in> set cs"
    show "buf_ok s' (j \<in> H - {i}) (k_buf s' (Buff j))"
    proof (cases "j = i")
      case True
      then show ?thesis using h(1) s'(6,7,9) by (simp add: buf_ok_def)
    next
      case False
      then have "buf_ok s (j \<in> H) (k_buf s (Buff j))" using c j by (auto simp: cache_def)
      then show ?thesis using False buf_ok_cong [OF s'(5,4), of j] by simp
    qed
  qed
  moreover have "\<forall>j<NBUF. flags_ok (j \<in> H - {i}) (k_buf s' (Buff j))"
  proof (intro allI impI)
    fix j assume "j < NBUF"
    then have "flags_ok (j \<in> H) (k_buf s (Buff j))" using c by (auto simp: cache_def)
    then show "flags_ok (j \<in> H - {i}) (k_buf s' (Buff j))"
      using s'(8) flags_ok_cong [OF s'(5), of j] by (cases "j = i") auto
  qed
  ultimately show ?thesis using c fs s'(1-3) unfolding cache_def by (simp add: blk) blast
qed

lemma brelse_Ok:
  assumes inv: "bio_inv s H" and i: "i \<in> H"
    and coh: "bdone (k_buf s (Buff i)) \<Longrightarrow> same_blk (b_data (k_buf s (Buff i))) (disk_blk s (b_blkno (k_buf s (Buff i))))"
  shows "\<exists>s'. brelse (Buff i) s = Ok () s' \<and> released s H i s'"
proof -
  let ?b = "k_buf s (Buff i)"
  obtain fs cs c where c: "cache s H fs cs" "drive_idle s" "k_nblkdev s = 2" "k_proc s (k_cu s) = Some c"
    using inv by (rule bio_invE)
  have h: "buf_ok s True ?b" "flags_ok True ?b" "i \<in> set cs" "i < NBUF" using cache_held [OF c(1) i] by auto
  have r: "ring (av_nx s) (av_pv s) Bfreelist (map Buff fs)" and nf: "i \<notin> set fs"
    and fs: "set fs = {..<NBUF} - H" using c(1) i by (auto simp: cache_def)
  have pv: "av_pv s Bfreelist \<in> set (Bfreelist # map Buff fs)"
    using seg_ends [OF r [unfolded ring_def, THEN conjunct1]] by (metis last_in_set list.discI)
  have pvi: "av_pv s Bfreelist \<noteq> Buff i" "av_pv s Bfreelist \<noteq> Hdtab" using pv nf by auto
  have "b_flag ?b AND B_ERROR = 0" using h(2) by (simp add: flags_ok_def)
  then obtain t x where t: "bio_frame s t" "k_disk t = k_disk s"
    "k_buf t = (k_buf s)(Bfreelist := (k_buf s Bfreelist)\<lparr>b_flag := x\<rparr>, Buff i := ?b\<lparr>
      b_flag := b_flag ?b AND NOT (B_WANTED OR B_BUSY OR B_DIRTY OR B_ASYNC)\<rparr>)"
    "brelse (Buff i) s = Ok () (set_av_prev Bfreelist (Buff i) (set_av_next (av_pv t Bfreelist) (Buff i)
      (set_av_prev (Buff i) (av_pv t Bfreelist) (set_av_next (Buff i) Bfreelist t))))"
    using brelse_state [OF _ pvi(1)] by blast
  define s' where "s' = set_av_prev Bfreelist (Buff i) (set_av_next (av_pv t Bfreelist) (Buff i)
      (set_av_prev (Buff i) (av_pv t Bfreelist) (set_av_next (Buff i) Bfreelist t)))"
  have l: "av_nx t = av_nx s" "av_pv t = av_pv s" "b_nx s' = b_nx s" "b_pv s' = b_pv s"
    by (auto simp: link_defs t(3) fun_eq_iff s'_def set_defs)
  have "Buff i \<notin> set (Bfreelist # map Buff fs)" using nf by auto
  then have r': "ring (av_nx s') (av_pv s') Bfreelist (map Buff (fs @ [i]))"
    using av.push_back [of t Bfreelist "map Buff fs" "Buff i" s'] r by (simp add: l s'_def)
  have pay: "pay s' j = pay s j" if "j \<noteq> i" for j using that by (simp add: pay_def Let_def s'_def t(3))
  have bi: "b_flag (k_buf s' (Buff i)) = b_flag ?b AND NOT (B_WANTED OR B_BUSY OR B_DIRTY OR B_ASYNC)"
    "b_dev (k_buf s' (Buff i)) = b_dev ?b" "b_blkno (k_buf s' (Buff i)) = b_blkno ?b" "b_data (k_buf s' (Buff i)) = b_data ?b"
    by (simp_all add: s'_def t(3))
  have st: "k_disk s' = k_disk s" "bio_frame s s'" using t(1,2) by (simp_all add: s'_def)
  have "cache s' (H - {i}) (fs @ [i]) cs"
    using bi(2-4) coh release_flags(2) [OF bi(1)] disk_blk_cong [OF st(1)]
    by (intro cache_release [OF c(1) i r' l(3,4) st(1) pay] release_flags(1) [OF h(2) bi(1)]) auto
  moreover have "drive_idle s'"
    using c(2) pvi(2) by (simp add: drive_idle_def s'_def set_defs l link_defs t(3))
  ultimately have "bio_inv s' (H - {i})"
    using inv bio_frame_cu [OF st(2)] bio_frame_fields(6) [OF st(2)] by (auto simp: bio_inv_def)
  then show ?thesis using t(4) st pay by (intro exI [of _ s']) (simp add: released_def s'_def)
qed

section \<open>The interface of the cache\<close>

text \<open>
  What the file system relies on. \<open>inv s H\<close>: the cache is consistent while the buffers \<open>H\<close>
  are held; \<open>disk s n\<close> is block \<open>n\<close> of the disk, \<open>eqv\<close> compares the bytes of a block, and
  \<open>frame\<close> says that only the block layer was touched.
\<close>

locale block_cache =
  fixes inv :: "'s \<Rightarrow> 'b set \<Rightarrow> bool" and frame :: "'s \<Rightarrow> 's \<Rightarrow> bool" and eqv :: "'d \<Rightarrow> 'd \<Rightarrow> bool"
    and ok :: "'n \<Rightarrow> bool" and room :: "'b set \<Rightarrow> bool"
    and blkno :: "'s \<Rightarrow> 'b \<Rightarrow> 'n" and dat :: "'s \<Rightarrow> 'b \<Rightarrow> 'd" and disk :: "'s \<Rightarrow> 'n \<Rightarrow> 'd"
    and rd :: "'n \<Rightarrow> 's \<Rightarrow> ('b, 's) res" and wr rl :: "'b \<Rightarrow> 's \<Rightarrow> (unit, 's) res"
    and upd :: "'b \<Rightarrow> ('d \<Rightarrow> 'd) \<Rightarrow> 's \<Rightarrow> 's"
  assumes frame_refl: "frame s s"
    and frame_trans: "frame s t \<Longrightarrow> frame t u \<Longrightarrow> frame s u"
    and eqv_refl: "eqv d d"
    and rd: "inv s H \<Longrightarrow> ok n \<Longrightarrow> room H \<Longrightarrow> (\<And>i. i \<in> H \<Longrightarrow> blkno s i \<noteq> n) \<Longrightarrow>
      \<exists>i s'. rd n s = Ok i s' \<and> i \<notin> H \<and> inv s' (insert i H) \<and> frame s s' \<and> disk s' = disk s \<and>
        blkno s' i = n \<and> eqv (dat s' i) (disk s n) \<and> (\<forall>j \<in> H. blkno s' j = blkno s j \<and> dat s' j = dat s j)"
    and wr: "inv s H \<Longrightarrow> i \<in> H \<Longrightarrow>
      \<exists>s'. wr i s = Ok () s' \<and> inv s' H \<and> frame s s' \<and> disk s' (blkno s i) = dat s i \<and>
        (\<forall>n. ok n \<longrightarrow> n \<noteq> blkno s i \<longrightarrow> disk s' n = disk s n) \<and>
        (\<forall>j \<in> H. blkno s' j = blkno s j \<and> dat s' j = dat s j)"
    and rl: "inv s H \<Longrightarrow> i \<in> H \<Longrightarrow> eqv (dat s i) (disk s (blkno s i)) \<Longrightarrow>
      \<exists>s'. rl i s = Ok () s' \<and> inv s' (H - {i}) \<and> frame s s' \<and> disk s' = disk s \<and>
        (\<forall>j \<in> H - {i}. blkno s' j = blkno s j \<and> dat s' j = dat s j)"
    and upd: "inv s H \<Longrightarrow> i \<in> H \<Longrightarrow> inv (upd i f s) H \<and> frame s (upd i f s) \<and> disk (upd i f s) = disk s \<and>
        dat (upd i f s) i = f (dat s i) \<and> (\<forall>j \<in> H. blkno (upd i f s) j = blkno s j) \<and>
        (\<forall>j \<in> H - {i}. dat (upd i f s) j = dat s j)"
begin

text \<open>Reading a block and releasing it, and changing a block on the disk.\<close>

definition peek :: "'n \<Rightarrow> ('d \<Rightarrow> 'a) \<Rightarrow> 's \<Rightarrow> ('a, 's) res" where
  "peek n g = kbind (rd n) (\<lambda>i. kbind (kget (\<lambda>s. g (dat s i))) (\<lambda>a. kthen (rl i) (kret a)))"

definition modify :: "'n \<Rightarrow> ('d \<Rightarrow> 'd) \<Rightarrow> 's \<Rightarrow> (unit, 's) res" where
  "modify n f = kbind (rd n) (\<lambda>i. kthen (kmod (upd i f)) (kthen (wr i) (rl i)))"

lemma peek_Ok:
  assumes i: "inv s H" "ok n" "room H" "\<And>i. i \<in> H \<Longrightarrow> blkno s i \<noteq> n"
    and g: "\<And>d d'. eqv d d' \<Longrightarrow> g d = g d'"
  shows "\<exists>s'. peek n g s = Ok (g (disk s n)) s' \<and> inv s' H \<and> frame s s' \<and> disk s' = disk s \<and>
    (\<forall>j \<in> H. blkno s' j = blkno s j \<and> dat s' j = dat s j)"
proof -
  obtain i s1 where s1: "rd n s = Ok i s1" "i \<notin> H" "inv s1 (insert i H)" "frame s s1" "disk s1 = disk s"
    "blkno s1 i = n" "eqv (dat s1 i) (disk s n)" "\<forall>j \<in> H. blkno s1 j = blkno s j \<and> dat s1 j = dat s j"
    using rd [OF i] by blast
  obtain s2 where s2: "rl i s1 = Ok () s2" "inv s2 (insert i H - {i})" "frame s1 s2" "disk s2 = disk s1"
    "\<forall>j \<in> insert i H - {i}. blkno s2 j = blkno s1 j \<and> dat s2 j = dat s1 j"
    using rl [OF s1(3), of i] s1(5-7) by auto
  have H: "insert i H - {i} = H" using s1(2) by auto
  have "peek n g s = Ok (g (dat s1 i)) s2"
    using s1(1) s2(1) by (simp add: peek_def kop_simps)
  moreover have "\<forall>j \<in> H. blkno s2 j = blkno s j \<and> dat s2 j = dat s j" using s2(5) s1(8) unfolding H by simp
  moreover have "frame s s2" using s1(4) s2(3) frame_trans by blast
  ultimately show ?thesis using s2(2,4) s1(5) g [OF s1(7)] unfolding H by auto
qed

text \<open>Changing, writing and releasing a buffer that was read.\<close>

lemma update_Ok:
  assumes i: "inv s (insert i H)" "i \<notin> H"
  shows "\<exists>s2 s3. wr i (upd i f s) = Ok () s2 \<and> rl i s2 = Ok () s3 \<and> inv s3 H \<and> frame s s3 \<and>
    disk s3 (blkno s i) = f (dat s i) \<and> (\<forall>m. ok m \<longrightarrow> m \<noteq> blkno s i \<longrightarrow> disk s3 m = disk s m) \<and>
    (\<forall>j \<in> H. blkno s3 j = blkno s j \<and> dat s3 j = dat s j)"
proof -
  define s1 where "s1 = upd i f s"
  have s1: "inv s1 (insert i H)" "frame s s1" "disk s1 = disk s" "dat s1 i = f (dat s i)" "blkno s1 i = blkno s i"
    "\<forall>j \<in> H. blkno s1 j = blkno s j \<and> dat s1 j = dat s j"
    using upd [OF i(1), of i f] i(2) by (auto simp: s1_def)
  obtain s2 where s2: "wr i s1 = Ok () s2" "inv s2 (insert i H)" "frame s1 s2" "disk s2 (blkno s i) = dat s1 i"
    "\<forall>m. ok m \<longrightarrow> m \<noteq> blkno s i \<longrightarrow> disk s2 m = disk s1 m"
    "\<forall>j \<in> insert i H. blkno s2 j = blkno s1 j \<and> dat s2 j = dat s1 j"
    using wr [OF s1(1), of i] s1(5) by auto
  obtain s3 where s3: "rl i s2 = Ok () s3" "inv s3 (insert i H - {i})" "frame s2 s3" "disk s3 = disk s2"
    "\<forall>j \<in> insert i H - {i}. blkno s3 j = blkno s2 j \<and> dat s3 j = dat s2 j"
    using rl [OF s2(2), of i] s2(4,6) s1(5) eqv_refl by auto
  have H: "insert i H - {i} = H" using i(2) by auto
  have "frame s s3" using s1(2) s2(3) s3(3) frame_trans by blast
  moreover have "disk s3 (blkno s i) = f (dat s i)" using s3(4) s2(4) s1(4) by simp
  moreover have "\<forall>m. ok m \<longrightarrow> m \<noteq> blkno s i \<longrightarrow> disk s3 m = disk s m" using s3(4) s2(5) s1(3) by simp
  moreover have "\<forall>j \<in> H. blkno s3 j = blkno s j \<and> dat s3 j = dat s j" using s3(5) s2(6) s1(6) unfolding H by simp
  ultimately show ?thesis using s2(1) s3(1,2) unfolding H s1_def by blast
qed

lemma modify_Ok:
  assumes i: "inv s H" "ok n" "room H" "\<And>i. i \<in> H \<Longrightarrow> blkno s i \<noteq> n"
  shows "\<exists>s' d. modify n f s = Ok () s' \<and> inv s' H \<and> frame s s' \<and> eqv d (disk s n) \<and> disk s' n = f d \<and>
    (\<forall>m. ok m \<longrightarrow> m \<noteq> n \<longrightarrow> disk s' m = disk s m) \<and> (\<forall>j \<in> H. blkno s' j = blkno s j \<and> dat s' j = dat s j)"
proof -
  obtain i s1 where s1: "rd n s = Ok i s1" "i \<notin> H" "inv s1 (insert i H)" "frame s s1" "disk s1 = disk s"
    "blkno s1 i = n" "eqv (dat s1 i) (disk s n)" "\<forall>j \<in> H. blkno s1 j = blkno s j \<and> dat s1 j = dat s j"
    using rd [OF i] by blast
  obtain s2 s3 where s3: "wr i (upd i f s1) = Ok () s2" "rl i s2 = Ok () s3" "inv s3 H" "frame s1 s3"
    "disk s3 n = f (dat s1 i)" "\<forall>m. ok m \<longrightarrow> m \<noteq> n \<longrightarrow> disk s3 m = disk s1 m"
    "\<forall>j \<in> H. blkno s3 j = blkno s1 j \<and> dat s3 j = dat s1 j"
    using update_Ok [OF s1(3,2), of f] s1(6) by auto
  have "modify n f s = Ok () s3" using s1(1) s3(1,2) by (simp add: modify_def kop_simps)
  moreover have "frame s s3" using s1(4) s3(4) frame_trans by blast
  moreover have "\<forall>m. ok m \<longrightarrow> m \<noteq> n \<longrightarrow> disk s3 m = disk s m" using s3(6) s1(5) by simp
  moreover have "\<forall>j \<in> H. blkno s3 j = blkno s j \<and> dat s3 j = dat s j" using s3(7) s1(8) by simp
  ultimately show ?thesis using s3(3,5) s1(7) by blast
qed

text \<open>What was written is read back.\<close>

lemma modify_peek:
  assumes i: "inv s H" "ok n" "room H" "\<And>i. i \<in> H \<Longrightarrow> blkno s i \<noteq> n"
    and g: "\<And>d d'. eqv d d' \<Longrightarrow> g d = g d'"
  shows "\<exists>s' d. kthen (modify n f) (peek n g) s = Ok (g (f d)) s' \<and> inv s' H \<and> frame s s' \<and> eqv d (disk s n)"
proof -
  obtain s1 d where s1: "modify n f s = Ok () s1" "inv s1 H" "frame s s1" "eqv d (disk s n)" "disk s1 n = f d"
    "\<forall>j \<in> H. blkno s1 j = blkno s j \<and> dat s1 j = dat s j"
    using modify_Ok [OF i] by blast
  have "blkno s1 j \<noteq> n" if "j \<in> H" for j using s1(6) i(4) [OF that] that by simp
  from peek_Ok [where g = g, OF s1(2) i(2,3) this g]
  obtain s2 where s2: "peek n g s1 = Ok (g (disk s1 n)) s2" "inv s2 H" "frame s1 s2" by auto
  have "kthen (modify n f) (peek n g) s = Ok (g (f d)) s2" using s1(1,5) s2(1) by (simp add: kthen_Ok)
  then show ?thesis using s1(3,4) s2(2,3) frame_trans by blast
qed

end

definition held_inv :: "kernel \<Rightarrow> bnode set \<Rightarrow> bool" where
  "held_inv s B \<longleftrightarrow> (\<exists>H. B = Buff ` H \<and> bio_inv s H)"

definition b_room :: "bnode set \<Rightarrow> bool" where
  "b_room B \<longleftrightarrow> (\<exists>i<NBUF. Buff i \<notin> B)"

definition set_data :: "bnode \<Rightarrow> (block \<Rightarrow> block) \<Rightarrow> kernel \<Rightarrow> kernel" where
  "set_data bp f = b_mod bp (\<lambda>b. b\<lparr>b_data := f (b_data b)\<rparr>)"

abbreviation blkno_of :: "kernel \<Rightarrow> bnode \<Rightarrow> uint" where "blkno_of s bp \<equiv> b_blkno (k_buf s bp)"
abbreviation data_of :: "kernel \<Rightarrow> bnode \<Rightarrow> block" where "data_of s bp \<equiv> b_data (k_buf s bp)"

lemma set_data_inv:
  assumes "bio_inv s H" "i \<in> H"
  shows "bio_inv (set_data (Buff i) f s) H"
proof -
  obtain fs cs c where c: "cache s H fs cs" "drive_idle s" "k_nblkdev s = 2" "k_proc s (k_cu s) = Some c"
    using assms(1) by (rule bio_invE)
  have "disk_blk (set_data (Buff i) f s) = disk_blk s" by (rule disk_blk_cong) (simp add: set_data_def)
  then have "cache (set_data (Buff i) f s) H fs cs"
    using cache_held [OF c(1) assms(2)] assms(2)
    by (intro cache_held_update [OF c(1), of i _ "k_buf (set_data (Buff i) f s) (Buff i)"])
      (auto simp: set_data_def flags_ok_def busy_def)
  then show ?thesis using c by (auto simp: bio_inv_def set_data_def drive_idle_def)
qed

interpretation bc: block_cache held_inv bio_frame same_blk "\<lambda>n. blk_ok n" b_room blkno_of data_of disk_blk
  "bread 0x100" bwrite brelse set_data
proof
  fix s H n assume inv: "held_inv s H" and n: "blk_ok n" and r: "b_room H" and nh: "\<And>i. i \<in> H \<Longrightarrow> blkno_of s i \<noteq> n"
  then obtain H' where H: "H = Buff ` H'" "bio_inv s H'" by (auto simp: held_inv_def)
  have "\<exists>i<NBUF. i \<notin> H'" using r H by (auto simp: b_room_def)
  from bread_Ok [OF H(2) n _ this] nh H(1)
  obtain i s' where t: "bread 0x100 n s = Ok (Buff i) s'" "taken s H' n i s'"
    "same_blk (data_of s' (Buff i)) (disk_blk s n)" by auto
  have "\<forall>j \<in> H'. b_blkno (k_buf s' (Buff j)) = b_blkno (k_buf s (Buff j)) \<and> b_data (k_buf s' (Buff j)) = b_data (k_buf s (Buff j))"
    using t(2) pay_eqD(3,4) unfolding taken_def by blast
  moreover have "disk_blk s' = disk_blk s" using t(2) by (intro disk_blk_cong) (simp add: taken_def)
  moreover have "held_inv s' (insert (Buff i) H)"
    using t(2) H(1) by (auto simp: held_inv_def taken_def intro!: exI [of _ "insert i H'"])
  ultimately show "\<exists>i s'. bread 0x100 n s = Ok i s' \<and> i \<notin> H \<and> held_inv s' (insert i H) \<and> bio_frame s s' \<and>
      disk_blk s' = disk_blk s \<and> blkno_of s' i = n \<and> same_blk (data_of s' i) (disk_blk s n) \<and>
      (\<forall>j \<in> H. blkno_of s' j = blkno_of s j \<and> data_of s' j = data_of s j)"
    using t H(1) by (intro exI [of _ "Buff i"] exI [of _ s']) (auto simp: taken_def)
next
  fix s H i assume "held_inv s H" and i: "i \<in> H"
  then obtain H' j where H: "H = Buff ` H'" "bio_inv s H'" "i = Buff j" "j \<in> H'" by (auto simp: held_inv_def)
  obtain s' where w: "bwrite i s = Ok () s'" "written s H' j s'" using bwrite_Ok [OF H(2,4)] H(3) by auto
  have "\<forall>k \<in> H'. b_blkno (k_buf s' (Buff k)) = b_blkno (k_buf s (Buff k)) \<and> b_data (k_buf s' (Buff k)) = b_data (k_buf s (Buff k))"
  proof
    fix k assume "k \<in> H'"
    then show "b_blkno (k_buf s' (Buff k)) = b_blkno (k_buf s (Buff k)) \<and> b_data (k_buf s' (Buff k)) = b_data (k_buf s (Buff k))"
      using w(2) pay_eqD(3,4) [of s' k s] by (cases "k = j") (auto simp: written_def)
  qed
  then show "\<exists>s'. bwrite i s = Ok () s' \<and> held_inv s' H \<and> bio_frame s s' \<and> disk_blk s' (blkno_of s i) = data_of s i \<and>
      (\<forall>n. blk_ok n \<longrightarrow> n \<noteq> blkno_of s i \<longrightarrow> disk_blk s' n = disk_blk s n) \<and>
      (\<forall>j \<in> H. blkno_of s' j = blkno_of s j \<and> data_of s' j = data_of s j)"
    using w H by (intro exI [of _ s']) (auto simp: written_def held_inv_def)
next
  fix s H i assume "held_inv s H" and i: "i \<in> H" and e: "same_blk (data_of s i) (disk_blk s (blkno_of s i))"
  then obtain H' j where H: "H = Buff ` H'" "bio_inv s H'" "i = Buff j" "j \<in> H'" by (auto simp: held_inv_def)
  obtain s' where w: "brelse i s = Ok () s'" "released s H' j s'" using brelse_Ok [OF H(2,4)] H(3) e by auto
  have "disk_blk s' = disk_blk s" using w(2) by (intro disk_blk_cong) (simp add: released_def)
  moreover have "held_inv s' (H - {i})" using w(2) H by (auto simp: held_inv_def released_def intro!: exI [of _ "H' - {j}"])
  moreover have "\<forall>k \<in> H' - {j}. b_blkno (k_buf s' (Buff k)) = b_blkno (k_buf s (Buff k)) \<and> b_data (k_buf s' (Buff k)) = b_data (k_buf s (Buff k))"
    using w(2) pay_eqD(3,4) unfolding released_def by blast
  ultimately show "\<exists>s'. brelse i s = Ok () s' \<and> held_inv s' (H - {i}) \<and> bio_frame s s' \<and> disk_blk s' = disk_blk s \<and>
      (\<forall>j \<in> H - {i}. blkno_of s' j = blkno_of s j \<and> data_of s' j = data_of s j)"
    using w H by (intro exI [of _ s']) (auto simp: released_def)
next
  fix s H i f assume "held_inv s H" and i: "i \<in> H"
  then obtain H' j where H: "H = Buff ` H'" "bio_inv s H'" "i = Buff j" "j \<in> H'" by (auto simp: held_inv_def)
  have "disk_blk (set_data i f s) = disk_blk s" by (rule disk_blk_cong) (simp add: set_data_def)
  then show "held_inv (set_data i f s) H \<and> bio_frame s (set_data i f s) \<and> disk_blk (set_data i f s) = disk_blk s \<and>
      data_of (set_data i f s) i = f (data_of s i) \<and> (\<forall>j \<in> H. blkno_of (set_data i f s) j = blkno_of s j) \<and>
      (\<forall>j \<in> H - {i}. data_of (set_data i f s) j = data_of s j)"
    using set_data_inv [OF H(2,4), of f] H by (auto simp: held_inv_def set_data_def)
qed (auto simp: same_blk_def intro: bio_frame_trans)

section \<open>Initialisation\<close>

text \<open>The state after \<open>k\<close> rounds of the loop of \<^verbatim>\<open>buf_init\<close>.\<close>

definition inited :: "kernel \<Rightarrow> nat \<Rightarrow> kernel \<Rightarrow> bool" where
  "inited s0 k s \<longleftrightarrow> ring (av_nx s) (av_pv s) Bfreelist (map Buff [0..<k]) \<and> bio_frame s0 s \<and> k_disk s = k_disk s0 \<and>
     b_flag (k_buf s Hdtab) = b_flag (k_buf s0 Hdtab) \<and>
     (\<forall>i<k. b_flag (k_buf s (Buff i)) = 0 \<and> b_nx s (Buff i) = Buff i \<and> b_pv s (Buff i) = Buff i)"

abbreviation buf_init_body :: "nat \<Rightarrow> unit kop" where
  "buf_init_body i \<equiv> kthen (kmod (b_mod (Buff i) (\<lambda>b. b\<lparr>b_dev := NODEV, b_flag := B_BUSY, b_next := Buff i,
     b_prev := Buff i\<rparr>))) (brelse (Buff i))"

lemma inited_step:
  assumes "inited s0 k s"
  shows "\<exists>s'. buf_init_body k s = Ok () s' \<and> inited s0 (Suc k) s'"
proof -
  define s1 where "s1 = b_mod (Buff k) (\<lambda>b. b\<lparr>b_dev := NODEV, b_flag := B_BUSY, b_next := Buff k, b_prev := Buff k\<rparr>) s"
  let ?b = "k_buf s1 (Buff k)"
  have r: "ring (av_nx s1) (av_pv s1) Bfreelist (map Buff [0..<k])"
    using assms by (simp add: inited_def s1_def b_mod_links)
  have "av_pv s1 Bfreelist \<in> set (Bfreelist # map Buff [0..<k])"
    using seg_ends [OF r [unfolded ring_def, THEN conjunct1]] by (metis last_in_set list.discI)
  then have pv: "av_pv s1 Bfreelist \<noteq> Buff k" by auto
  have "b_flag ?b AND B_ERROR = 0" by (simp add: s1_def)
  then obtain t x where t: "bio_frame s1 t" "k_disk t = k_disk s1"
    "k_buf t = (k_buf s1)(Bfreelist := (k_buf s1 Bfreelist)\<lparr>b_flag := x\<rparr>, Buff k := ?b\<lparr>
      b_flag := b_flag ?b AND NOT (B_WANTED OR B_BUSY OR B_DIRTY OR B_ASYNC)\<rparr>)"
    "brelse (Buff k) s1 = Ok () (set_av_prev Bfreelist (Buff k) (set_av_next (av_pv t Bfreelist) (Buff k)
      (set_av_prev (Buff k) (av_pv t Bfreelist) (set_av_next (Buff k) Bfreelist t))))"
    using brelse_state [OF _ pv] by blast
  define s' where "s' = set_av_prev Bfreelist (Buff k) (set_av_next (av_pv t Bfreelist) (Buff k)
      (set_av_prev (Buff k) (av_pv t Bfreelist) (set_av_next (Buff k) Bfreelist t)))"
  have l: "av_nx t = av_nx s1" "av_pv t = av_pv s1" "b_nx s' = b_nx s1" "b_pv s' = b_pv s1"
    by (auto simp: link_defs t(3) fun_eq_iff s'_def set_defs)
  have "Buff k \<notin> set (Bfreelist # map Buff [0..<k])" by auto
  then have "ring (av_nx s') (av_pv s') Bfreelist (map Buff [0..<Suc k])"
    using av.push_back [of t Bfreelist "map Buff [0..<k]" "Buff k" s'] r by (simp add: l s'_def)
  moreover have "buf_init_body k s = Ok () s'" using t(4) by (simp add: kop_simps s1_def s'_def)
  moreover have "bio_frame s0 s" "bio_frame s t" using assms t(1) by (simp_all add: inited_def s1_def)
  then have "bio_frame s0 s'" using bio_frame_trans [of s0 s t] by (simp add: s'_def)
  moreover have "b_flag (k_buf s' (Buff k)) = 0" by (simp add: s'_def t(3) s1_def)
  moreover have "b_flag (k_buf s' Hdtab) = b_flag (k_buf s Hdtab)"
    "\<And>i. i < k \<Longrightarrow> b_flag (k_buf s' (Buff i)) = b_flag (k_buf s (Buff i))"
    by (simp_all add: s'_def t(3) s1_def)
  moreover have "b_nx s' (Buff i) = (if i = k then Buff k else b_nx s (Buff i))"
    "b_pv s' (Buff i) = (if i = k then Buff k else b_pv s (Buff i))" for i
    by (simp_all add: l(3,4)) (simp_all add: link_defs s1_def)
  moreover have "k_disk s' = k_disk s0" using assms t(2) by (simp add: inited_def s'_def s1_def set_defs)
  ultimately show ?thesis using assms by (intro exI [of _ s']) (auto simp: inited_def less_Suc_eq)
qed

lemma inited_loop:
  assumes "inited s0 0 s"
  shows "\<exists>s'. kfor [0..<k] buf_init_body s = Ok () s' \<and> inited s0 k s'"
proof (induction k)
  case 0
  then show ?case using assms by (simp add: kop_simps)
next
  case (Suc k)
  then obtain s1 where s1: "kfor [0..<k] buf_init_body s = Ok () s1" "inited s0 k s1" by blast
  then show ?case using inited_step [OF s1(2)] by (auto simp: kfor_snoc kthen_Ok)
qed

lemma buf_init_Ok:
  assumes "b_flag (k_buf s Hdtab) = 0" "k_proc s (k_cu s) \<noteq> None"
  shows "\<exists>s'. buf_init s = Ok () s' \<and> bio_inv s' {} \<and> bio_frame s (s'\<lparr>k_nblkdev := k_nblkdev s\<rparr>) \<and> k_disk s' = k_disk s"
proof -
  define s1 where "s1 = set_av_prev Bfreelist Bfreelist (set_av_next Bfreelist Bfreelist
      (set_b_prev Bfreelist Bfreelist (set_b_next Bfreelist Bfreelist s)))"
  have "k_disk s1 = k_disk s" by (simp add: s1_def set_defs)
  then have "inited s 0 s1" by (simp add: inited_def ring_empty s1_def av.link_simps)
  then obtain s2 where s2: "kfor [0..<NBUF] buf_init_body s1 = Ok () s2" "inited s NBUF s2"
    using inited_loop by blast
  let ?f = "\<lambda>dtp. b_mod dtp (\<lambda>b. b\<lparr>b_next := dtp, b_prev := dtp, av_next := dtp, av_prev := dtp\<rparr>)"
  define s3 where "s3 = (?f Hdtab (?f Bnull s2))\<lparr>k_nblkdev := 2\<rparr>"
  let ?R = "kthen (kmod (\<lambda>s. s\<lparr>k_nblkdev := 0\<rparr>)) (kfor [bdev_tab 0, bdev_tab 1] (\<lambda>dtp.
      kthen (kmod (?f dtp)) (kmod (\<lambda>s. s\<lparr>k_nblkdev := k_nblkdev s + 1\<rparr>))))"
  have "buf_init s = kthen (kfor [0..<NBUF] buf_init_body) ?R s1"
    unfolding buf_init_def kthen_simps s1_def by (rule refl)
  also have "\<dots> = ?R s2" by (rule kthen_Ok [of "kfor [0..<NBUF] buf_init_body", OF s2(1)])
  also have "\<dots> = Ok () s3" by (simp add: kop_simps bdev_tab_def s3_def b_mod_def)
  finally have "buf_init s = Ok () s3" .
  have i: "ring (av_nx s2) (av_pv s2) Bfreelist (map Buff [0..<NBUF])" "bio_frame s s2"
    "b_flag (k_buf s2 Hdtab) = 0"
    "\<And>i. i < NBUF \<Longrightarrow> b_flag (k_buf s2 (Buff i)) = 0 \<and> b_nx s2 (Buff i) = Buff i \<and> b_pv s2 (Buff i) = Buff i"
    using s2(2) assms(1) by (simp_all add: inited_def del: upt.simps)
  have l: "av_nx s3 = (av_nx s2)(Hdtab := Hdtab, Bnull := Bnull)" "av_pv s3 = (av_pv s2)(Hdtab := Hdtab, Bnull := Bnull)"
    "b_nx s3 = (b_nx s2)(Hdtab := Hdtab, Bnull := Bnull)" "b_pv s3 = (b_pv s2)(Hdtab := Hdtab, Bnull := Bnull)"
    by (auto simp: link_defs s3_def fun_eq_iff)
  have r: "ring (av_nx s3) (av_pv s3) Bfreelist (map Buff [0..<NBUF])"
    unfolding l by (subst ring_upd_other, force, subst ring_upd_other, force, rule i(1))
  have fl: "b_flag (k_buf s3 (Buff j)) = b_flag (k_buf s2 (Buff j))" "b_flag (k_buf s3 Hdtab) = b_flag (k_buf s2 Hdtab)" for j
    by (simp_all add: s3_def)
  have "cache s3 {} [0..<NBUF] []"
    unfolding cache_def
  proof (intro conjI)
    show "set [0..<NBUF] = {..<NBUF} - {}" by (simp only: set_upt) auto
  qed (use r i(4) in \<open>auto simp: ring_empty l fl flags_ok_def busy_def\<close>)
  moreover have "drive_idle s3" using i(3) by (simp add: drive_idle_links l fl)
  moreover have "k_nblkdev s3 = 2" by (simp add: s3_def)
  moreover have "k_proc s3 (k_cu s3) \<noteq> None" using bio_frame_cu [OF i(2) assms(2)] by (simp add: s3_def)
  ultimately have "bio_inv s3 {}" unfolding bio_inv_def by blast
  moreover have "bio_frame s (s3\<lparr>k_nblkdev := k_nblkdev s\<rparr>)"
  proof -
    have e: "s2\<lparr>k_nblkdev := k_nblkdev s\<rparr> = s2" using bio_frame_fields(6) [OF i(2), symmetric] by simp
    have "s3\<lparr>k_nblkdev := k_nblkdev s\<rparr> = ?f Hdtab (?f Bnull (s2\<lparr>k_nblkdev := k_nblkdev s\<rparr>))"
      by (simp add: s3_def b_mod_def)
    then show ?thesis unfolding e using i(2) by simp
  qed
  moreover have "k_disk s3 = k_disk s" using s2(2) by (simp add: inited_def s3_def)
  ultimately show ?thesis using \<open>buf_init s = Ok () s3\<close> by blast
qed

lemma room_empty: "\<exists>i<NBUF. i \<notin> {}"
  by (rule exI [of _ 0]) simp

text \<open>Releasing a wanted buffer wakes the processes that sleep on it.\<close>

lemma brelse_wakes:
  assumes "b_flag (k_buf s (Buff i)) AND B_WANTED \<noteq> 0" "k_proc s me = Some q" "p_chan q = Ch_buf i" "me < NPROC"
  shows "\<exists>s''. brelse (Buff i) s = Ok () s'' \<and> map_option p_stat (k_proc s'' me) = Some SRUN"
proof -
  obtain s1 where s1: "wakeup (bchan (Buff i)) s = Ok () s1" "k_proc s1 me = Some (q\<lparr>p_chan := Ch0, p_stat := SRUN\<rparr>)"
    "k_buf s1 = k_buf s"
    using assms(2-4) by (auto simp: wakeup_eq bchan_def)
  obtain s2 where s2: "kbind (kget (\<lambda>s. b_flag (k_buf s Bfreelist))) (\<lambda>fl. kwhen (fl AND B_WANTED \<noteq> 0)
      (kthen (kmod (b_mod Bfreelist (\<lambda>b. b\<lparr>b_flag := b_flag b AND NOT B_WANTED\<rparr>))) (wakeup (bchan Bfreelist)))) s1 = Ok () s2"
    "k_proc s2 me = Some (q\<lparr>p_chan := Ch0, p_stat := SRUN\<rparr>)"
    using s1(2) by (cases "b_flag (k_buf s1 Bfreelist) AND B_WANTED \<noteq> 0")
      (auto simp: kop_simps kwhen_def wakeup_eq bchan_def)
  obtain s3 where s3: "kbind (kget (\<lambda>s. b_flag (k_buf s (Buff i)))) (\<lambda>fl. kwhen (fl AND B_ERROR \<noteq> 0)
      (kmod (b_mod (Buff i) (\<lambda>b. b\<lparr>b_dev := NODEV\<rparr>)))) s2 = Ok () s3" "k_proc s3 = k_proc s2"
    by (cases "b_flag (k_buf s2 (Buff i)) AND B_ERROR \<noteq> 0") (auto simp: kop_simps kwhen_def)
  show ?thesis
    using assms(1) s1(1) s2 s3 by (simp add: brelse_def kop_simps set_defs)
qed

lemma wanted_flag: "(fl OR 16) AND 16 \<noteq> (0 :: uint)" "(fl OR 16) AND 8 = fl AND 8"
  by (rule bit_nonzero [of _ 4], simp add: bit_simps bit_numeral_rec) (simp add: bit.conj_disj_distrib2)

text \<open>A request for a held block.\<close>

lemma getblk_held:
  assumes inv: "bio_inv s H" and i: "i \<in> H" "b_blkno (k_buf s (Buff i)) = blk"
    and p: "proc_wf s" "k_proc s (k_cu s) = Some p" "k_cu s \<noteq> 0"
  shows "\<exists>s' s''. getblk 0x100 blk s = Stop Slept s' \<and> k_cu s' \<noteq> k_cu s \<and>
    k_proc s' (k_cu s) = Some (p\<lparr>p_chan := Ch_buf i, p_pri := PRIBIO, p_stat := SSLEEP\<rparr>) \<and>
    b_flag (k_buf s' (Buff i)) AND B_WANTED \<noteq> 0 \<and>
    brelse (Buff i) s' = Ok () s'' \<and> map_option p_stat (k_proc s'' (k_cu s)) = Some SRUN"
proof -
  obtain fs cs where c: "cache s H fs cs" using inv by (auto simp: bio_inv_def)
  have h: "flags_ok True (k_buf s (Buff i))" "i \<in> set cs" using cache_held [OF c i(1)] by auto
  have "inj_on (\<lambda>i. b_blkno (k_buf s (Buff i))) (set cs)" using c by (simp add: cache_def)
  then have "find (\<lambda>i. b_blkno (k_buf s (Buff i)) = blk) cs = Some i"
    using h(2) i(2) by (intro find_unique) (auto dest: inj_onD)
  then have inc: "incore rootdev blk s = Ok (Some (Buff i)) s" using incore_cache [OF c, of blk] by simp
  let ?s = "b_mod (Buff i) (\<lambda>b. b\<lparr>b_flag := b_flag b OR B_WANTED\<rparr>) s"
  have "proc_wf ?s" using p(1) by (simp add: proc_wf_def)
  then obtain j q where j: "j \<noteq> k_cu s" "sleep_unint (Ch_buf i) PRIBIO ?s = Stop Slept
    (?s\<lparr>k_proc := (k_proc s)(k_cu s \<mapsto> p\<lparr>p_chan := Ch_buf i, p_pri := PRIBIO, p_stat := SSLEEP\<rparr>),
       k_runrun := 0, k_cu := j, k_cr3 := q\<rparr>)" (is "_ = Stop Slept ?t")
    using sleep_unint_Slept [of ?s p PRIBIO "Ch_buf i"] p(2,3) by auto
  have "getblk 0x100 blk s = Stop Slept ?t"
    using inc j(2) h(1) inv
    by (simp add: getblk_def Let_def kop_simps bdev_tab_def MAJOR_root bio_inv_def flags_ok_def busy_def bchan_def)
  moreover have "b_flag (k_buf ?t (Buff i)) AND B_WANTED \<noteq> 0" by (simp add: wanted_flag)
  moreover have "k_cu s < NPROC" using proc_wfD(1) [OF p(1,2)] .
  ultimately show ?thesis using j(1) brelse_wakes [of ?t i "k_cu s"] by auto
qed

section \<open>Properties\<close>

text \<open>
  The cache at boot. With the disk driver idle, \<^verbatim>\<open>buf_init\<close> returns with a consistent
  cache in which no buffer is held, all are on the free list and none is assigned to a
  block, the disk is as before, and nothing but the block layer has changed.
\<close>

theorem buf_init_establishes_cache:
  assumes "b_flag (k_buf s Hdtab) = 0" "k_proc s (k_cu s) \<noteq> None"
  shows "\<exists>s'. buf_init s = Ok () s' \<and> bio_inv s' {} \<and> bio_frame s (s'\<lparr>k_nblkdev := k_nblkdev s\<rparr>) \<and> k_disk s' = k_disk s"
  using assms by (rule buf_init_Ok)

text \<open>
  C4: reading a block. While the buffers \<open>H\<close> are held, at least one buffer is free and no
  held buffer has the block, \<^verbatim>\<open>bread\<close> returns: it gives a buffer nobody held, now held,
  with the block's number and the bytes that are on the disk, whether the block was cached
  or had to be read into a recycled buffer; the disk, the other held buffers and
  everything outside the block layer are unchanged, and each block is still cached at most once.
\<close>

theorem bread_returns_disk_block:
  assumes "bio_inv s H" "blk_ok blk" "\<forall>i \<in> H. b_blkno (k_buf s (Buff i)) \<noteq> blk" "\<exists>i<NBUF. i \<notin> H"
  shows "\<exists>i s'. bread 0x100 blk s = Ok (Buff i) s' \<and> i \<notin> H \<and> bio_inv s' (insert i H) \<and> bio_frame s s' \<and>
    k_disk s' = k_disk s \<and> b_blkno (k_buf s' (Buff i)) = blk \<and>
    (\<forall>j<BLK. b_data (k_buf s' (Buff i)) j = disk_blk s blk j) \<and> (\<forall>j \<in> H. pay s' j = pay s j)"
  using bread_Ok [OF assms] by (auto simp: taken_def same_blk_def)

text \<open>
  C5: a block that was read, changed, written and released is read back as it was
  written, from the cache or from the disk, and every other block of the disk is as
  before.
\<close>

theorem bwrite_bread_roundtrip:
  assumes "bio_inv s {}" "blk_ok blk"
  shows "\<exists>s' s'' i d. kbind (bread 0x100 blk) (\<lambda>bp. kthen (kmod (set_data bp f)) (kthen (bwrite bp) (brelse bp))) s = Ok () s' \<and>
    bread 0x100 blk s' = Ok (Buff i) s'' \<and> same_blk d (disk_blk s blk) \<and> same_blk (b_data (k_buf s'' (Buff i))) (f d) \<and>
    (\<forall>n. blk_ok n \<longrightarrow> n \<noteq> blk \<longrightarrow> disk_blk s' n = disk_blk s n)"
proof -
  have inv: "held_inv s {}" "b_room {}" using assms(1) by (auto simp: held_inv_def b_room_def intro: exI [of _ 0])
  obtain s' d where s': "bc.modify blk f s = Ok () s'" "held_inv s' {}" "same_blk d (disk_blk s blk)"
    "disk_blk s' blk = f d" "\<forall>m. blk_ok m \<longrightarrow> m \<noteq> blk \<longrightarrow> disk_blk s' m = disk_blk s m"
    using bc.modify_Ok [OF inv(1) assms(2) inv(2), of f] by auto
  obtain i s'' where "bread 0x100 blk s' = Ok (Buff i) s''" "same_blk (b_data (k_buf s'' (Buff i))) (disk_blk s' blk)"
    using bread_Ok [of s' "{}" blk] s'(2) assms(2) room_empty by (auto simp: held_inv_def)
  with s'(3-5) s'(1) [unfolded bc.modify_def] show ?thesis
    by (intro exI [of _ s'] exI [of _ s''] exI [of _ i] exI [of _ d]) simp
qed

text \<open>
  C24: a block has one holder at a time. A process (other than the idle one) that asks
  for a block whose buffer another process holds does not get it: it is put to sleep on the
  buffer, the processor goes to another process, and the buffer is marked wanted, so
  that its release wakes the sleeper.
\<close>

theorem getblk_waits_for_holder:
  assumes inv: "bio_inv s H" and i: "i \<in> H" "b_blkno (k_buf s (Buff i)) = blk"
    and p: "proc_wf s" "k_proc s (k_cu s) = Some p" "k_cu s \<noteq> 0"
  shows "\<exists>s' s''. getblk 0x100 blk s = Stop Slept s' \<and> k_cu s' \<noteq> k_cu s \<and>
    k_proc s' (k_cu s) = Some (p\<lparr>p_chan := Ch_buf i, p_pri := PRIBIO, p_stat := SSLEEP\<rparr>) \<and>
    b_flag (k_buf s' (Buff i)) AND B_WANTED \<noteq> 0 \<and>
    brelse (Buff i) s' = Ok () s'' \<and> map_option p_stat (k_proc s'' (k_cu s)) = Some SRUN"
  by (rule getblk_held [OF assms])

section \<open>Witnesses\<close>

text \<open>The cache after initialisation, with the two processes of the scheduler's examples.\<close>

definition cache_booted :: kernel where
  "cache_booted = final (buf_init two_procs)"

lemma cache_booted_Ok: "buf_init two_procs = Ok () cache_booted" "bio_inv cache_booted {}"
proof -
  have "b_flag (k_buf two_procs Hdtab) = 0" "k_proc two_procs (k_cu two_procs) \<noteq> None"
    by (simp_all add: two_procs_def boot_kernel_def zero_buf_def)
  from buf_init_Ok [OF this] show "buf_init two_procs = Ok () cache_booted" "bio_inv cache_booted {}"
    by (auto simp: cache_booted_def)
qed

theorem buf_init_establishes_cache_witness: "\<exists>s'. buf_init two_procs = Ok () s' \<and> bio_inv s' {}"
  using buf_init_establishes_cache [of two_procs] by (auto simp: two_procs_def boot_kernel_def zero_buf_def)

theorem bread_returns_disk_block_witness:
  "\<exists>i s'. bread 0x100 7 cache_booted = Ok (Buff i) s' \<and> bio_inv s' {i} \<and> b_blkno (k_buf s' (Buff i)) = 7"
  using bread_returns_disk_block [OF cache_booted_Ok(2), of 7] room_empty by auto

theorem bwrite_bread_roundtrip_witness:
  "\<exists>s' s'' i d. kbind (bread 0x100 7) (\<lambda>bp. kthen (kmod (set_data bp (\<lambda>d. d(0 := 0xAB)))) (kthen (bwrite bp) (brelse bp)))
      cache_booted = Ok () s' \<and>
    bread 0x100 7 s' = Ok (Buff i) s'' \<and> same_blk (b_data (k_buf s'' (Buff i))) (d(0 := 0xAB))"
  using bwrite_bread_roundtrip [OF cache_booted_Ok(2), of 7 "\<lambda>d. d(0 := 0xAB)"] by fastforce

lemma bio_inv_k_proc:
  assumes "bio_inv s H" "t c \<noteq> None"
  shows "bio_inv (s\<lparr>k_proc := t, k_cu := c\<rparr>) H"
proof -
  let ?s = "s\<lparr>k_proc := t, k_cu := c\<rparr>"
  have l: "av_nx ?s = av_nx s" "av_pv ?s = av_pv s" "b_nx ?s = b_nx s" "b_pv ?s = b_pv s"
    by (simp_all add: link_defs fun_eq_iff)
  have "disk_blk ?s = disk_blk s" by (rule disk_blk_cong) simp
  then have "cache ?s H fs cs = cache s H fs cs" for fs cs
    unfolding cache_def l by (simp add: buf_ok_def)
  then show ?thesis using assms by (auto simp: bio_inv_def drive_idle_def)
qed

theorem getblk_waits_for_holder_witness:
  "\<exists>i s s'. bio_inv s {i} \<and> k_cu s = 1 \<and> getblk 0x100 7 s = Stop Slept s' \<and> k_cu s' \<noteq> 1"
proof -
  obtain i s1 where g: "taken cache_booted {} 7 i s1"
    using getblk_Ok [OF cache_booted_Ok(2), of 7] room_empty by auto
  define s where "s = s1\<lparr>k_proc := k_proc two_procs, k_cu := 1\<rparr>"
  have p: "proc_wf s" using proc_wf_two_procs by (simp add: s_def proc_wf_def two_procs_def)
  have c: "k_proc two_procs 1 \<noteq> None" by (simp add: two_procs_def)
  then have "bio_inv s {i}" using g bio_inv_k_proc [of s1 "{i}" "k_proc two_procs" 1] by (simp add: taken_def s_def)
  moreover have "b_blkno (k_buf s (Buff i)) = 7" using g by (simp add: taken_def s_def)
  moreover obtain q where "k_proc s (k_cu s) = Some q" using c by (auto simp: s_def)
  moreover have "k_cu s = 1" by (simp add: s_def)
  ultimately show ?thesis
    using getblk_waits_for_holder [of s "{i}" i 7 q] p by auto
qed

end
