(* ===== verification/Super.thy ===== *)
theory Super
  imports Bio
begin

text \<open>
  The mount table of \<^verbatim>\<open>src/fs/super.c\<close> and the block and inode bitmaps of
  \<^verbatim>\<open>src/fs/alloc.c\<close>. The fields of \<^verbatim>\<open>struct d_super\<close> are read from and written to the
  bytes of block 1, low byte first. The lemmas show what the allocators do to the blocks
  on the disk, on top of the interface of the buffer cache.
\<close>

section \<open>Fields in a block\<close>

definition get16 :: "block \<Rightarrow> nat \<Rightarrow> ushort" where
  "get16 d k = ucast (d k) OR push_bit 8 (ucast (d (k + 1)))"

definition get32 :: "block \<Rightarrow> nat \<Rightarrow> uint" where
  "get32 d k = ucast (get16 d k) OR push_bit 16 (ucast (get16 d (k + 2)))"

definition byte16 :: "ushort \<Rightarrow> nat \<Rightarrow> uchar" where
  "byte16 w k = ucast (drop_bit (8 * k) w)"

definition byte32 :: "uint \<Rightarrow> nat \<Rightarrow> uchar" where
  "byte32 w k = ucast (drop_bit (8 * k) w)"

text \<open>Storing \<open>n\<close> bytes at offset \<open>p\<close> of a block.\<close>

definition put :: "nat \<Rightarrow> nat \<Rightarrow> (nat \<Rightarrow> uchar) \<Rightarrow> block \<Rightarrow> block" where
  "put p n b d = (\<lambda>j. if p \<le> j \<and> j < p + n then b (j - p) else d j)"

text \<open>
  The byte \<open>j\<close> behind the data pointer of a buffer: the data blocks are the rows of the array
  \<^verbatim>\<open>buffers[NBUF][BLK]\<close>, so an index beyond the block continues in the next one.
\<close>

definition bufrow :: "bnode \<Rightarrow> nat \<Rightarrow> bnode" where
  "bufrow bp j = (case bp of Buff i \<Rightarrow> Buff (i + j div BLK) | _ \<Rightarrow> bp)"

definition bufbyte :: "kernel \<Rightarrow> bnode \<Rightarrow> nat \<Rightarrow> uchar" where
  "bufbyte s bp j = b_data (k_buf s (bufrow bp j)) (j mod BLK)"

definition poke :: "bnode \<Rightarrow> nat \<Rightarrow> (uchar \<Rightarrow> uchar) \<Rightarrow> kernel \<Rightarrow> kernel" where
  "poke bp j f = set_data (bufrow bp j) (\<lambda>d. d(j mod BLK := f (d (j mod BLK))))"

section \<open>The mount table (super.c)\<close>

definition mnt_mod :: "nat \<Rightarrow> (super \<Rightarrow> super) \<Rightarrow> kernel \<Rightarrow> kernel" where
  "mnt_mod i f s = s\<lparr>k_mnt := (k_mnt s)(i := f (k_mnt s i))\<rparr>"

text \<open>
  \<^verbatim>\<open>s_dev\<close> is a signed short, so a device number above 0x7FFF matches no entry.
\<close>

definition getsp :: "ushort \<Rightarrow> nat kop" where
  "getsp dev = kbind (kget (\<lambda>s. scan (\<lambda>i. uint dev = sint (s_dev (k_mnt s i))) 0 NMOUNT)) (\<lambda>r. case r of
       None \<Rightarrow> panic ''no fs''
     | Some sp \<Rightarrow> kbind (kget (\<lambda>s. s_flag (k_mnt s sp))) (\<lambda>fl.
         if fl AND S_LOCK \<noteq> 0 then
           kthen (kmod (mnt_mod sp (\<lambda>p. p\<lparr>s_flag := s_flag p OR S_WANTED\<rparr>)))
             (kthen (sleep_unint (Ch_super sp) PINOD) (kstop Spin))
         else kret sp))"

definition unlk_sp :: "nat \<Rightarrow> unit kop" where
  "unlk_sp sp =
     kthen (kbind (kget (\<lambda>s. s_flag (k_mnt s sp))) (\<lambda>fl. kwhen (fl AND S_WANTED \<noteq> 0) (wakeup (Ch_super sp))))
       (kmod (mnt_mod sp (\<lambda>p. p\<lparr>s_flag := s_flag p AND NOT (S_LOCK OR S_WANTED)\<rparr>)))"

definition putsp :: "nat \<Rightarrow> unit kop" where
  "putsp sp = unlk_sp sp"

definition d_super_load :: "block \<Rightarrow> super \<Rightarrow> super" where
  "d_super_load d p = p\<lparr>s_max_inode := get16 d 0, s_max_zone := get16 d 2, s_nimap_blk := get16 d 4,
     s_nzmap_blk := get16 d 6, s_data_zone0 := get16 d 8, s_log_bz := get16 d 10, s_max_size := get32 d 12,
     s_magic := get16 d 16, s_padding := get16 d 18\<rparr>"

definition d_super_byte :: "super \<Rightarrow> nat \<Rightarrow> uchar" where
  "d_super_byte p j =
     (if j < 2 then byte16 (s_max_inode p) j else if j < 4 then byte16 (s_max_zone p) (j - 2)
      else if j < 6 then byte16 (s_nimap_blk p) (j - 4) else if j < 8 then byte16 (s_nzmap_blk p) (j - 6)
      else if j < 10 then byte16 (s_data_zone0 p) (j - 8) else if j < 12 then byte16 (s_log_bz p) (j - 10)
      else if j < 16 then byte32 (s_max_size p) (j - 12) else if j < 18 then byte16 (s_magic p) (j - 16)
      else byte16 (s_padding p) (j - 18))"

definition spload :: "nat \<Rightarrow> int kop" where
  "spload sp = kbind (kget (\<lambda>s. s_dev (k_mnt s sp))) (\<lambda>dev. kbind (bread (sint dev) 1) (\<lambda>bp.
     kbind (kget (\<lambda>s. b_flag (k_buf s bp))) (\<lambda>fl.
     if fl AND B_ERROR \<noteq> 0 then panic ''disk read error''
     else kthen (kmod (\<lambda>s. mnt_mod sp (d_super_load (b_data (k_buf s bp))) s))
      (kthen (brelse bp) (kbind (kget (\<lambda>s. s_magic (k_mnt s sp))) (\<lambda>mg.
       if mg \<noteq> S_MAGIC then panic ''not an availible s_dev''
       else kthen (kmod (mnt_mod sp (\<lambda>p. p\<lparr>s_imnt := None\<rparr>))) (kret 0)))))))"

definition spupdate :: "nat \<Rightarrow> unit kop" where
  "spupdate sp = kbind (kget (\<lambda>s. s_dev (k_mnt s sp))) (\<lambda>dev. kbind (getblk (sint dev) 1) (\<lambda>bp.
     kthen (kmod (\<lambda>s. set_data bp (put 0 20 (d_super_byte (k_mnt s sp))) s)) (kthen (bwrite bp) (brelse bp))))"

section \<open>The bitmaps (alloc.c)\<close>

abbreviation (input) BPB :: nat where "BPB \<equiv> 8192"

definition IMAPBLK :: "uint \<Rightarrow> uint" where
  "IMAPBLK ino = 2 + ino div 8192"

definition BMAPBLK :: "super \<Rightarrow> uint \<Rightarrow> uint" where
  "BMAPBLK sp bn = 2 + ucast (s_nimap_blk sp) + bn div 8192"

text \<open>
  The bytes are signed, so \<^verbatim>\<open>byte\<close> is sign-extended to an \<^verbatim>\<open>uint\<close>.
\<close>

function find_bit_from :: "block \<Rightarrow> nat \<Rightarrow> nat \<Rightarrow> int" where
  "find_bit_from bm i sz = (if i < sz then
     let byte = (scast (bm i) :: uint) in
     if 0 = NOT byte then find_bit_from bm (Suc i) sz
     else (case scan (\<lambda>j. byte AND push_bit j 1 = 0) 0 8 of
         Some j \<Rightarrow> int (i * 8 + j)
       | None \<Rightarrow> find_bit_from bm (Suc i) sz)
     else -1)"
  by pat_completeness auto
termination by (relation "measure (\<lambda>(bm, i, sz). sz - i)") auto

definition find_bit :: "block \<Rightarrow> nat \<Rightarrow> int" where
  "find_bit bm sz = find_bit_from bm 0 sz"

declare find_bit_from.simps [simp del]

text \<open>
  \<^verbatim>\<open>b_data[k/8] |= 1<<(k%8)\<close>, its inverse and the test. The index is not reduced to the
  block: beyond it, it reaches into the data of the next buffer, because the data blocks are
  the rows of one array \<^verbatim>\<open>buffers\<close>.
\<close>

definition bm_set :: "bnode \<Rightarrow> nat \<Rightarrow> kernel \<Rightarrow> kernel" where
  "bm_set bp k = poke bp (k div 8) (\<lambda>c. c OR push_bit (k mod 8) 1)"

definition bm_clear :: "bnode \<Rightarrow> nat \<Rightarrow> kernel \<Rightarrow> kernel" where
  "bm_clear bp k = poke bp (k div 8) (\<lambda>c. c AND NOT (push_bit (k mod 8) 1))"

definition bm_test :: "bnode \<Rightarrow> nat \<Rightarrow> kernel \<Rightarrow> bool" where
  "bm_test bp k s \<longleftrightarrow> bufbyte s bp (k div 8) AND push_bit (k mod 8) 1 \<noteq> 0"

text \<open>
  The search loops. A map block without a free bit is left held when the loop goes on
  to the next number, which for all but one in 8192 numbers lies in the same block.
\<close>

primrec balloc_loop :: "ushort \<Rightarrow> nat \<Rightarrow> nat list \<Rightarrow> int kop" where
  "balloc_loop dev sp [] = kthen (unlk_sp sp) (panic ''no free block'')"
| "balloc_loop dev sp (nr # nrs) = kbind (kget (\<lambda>s. BMAPBLK (k_mnt s sp) (of_nat nr))) (\<lambda>blk.
     kbind (bread (uint dev) blk) (\<lambda>bp. kbind (kget (\<lambda>s. find_bit (b_data (k_buf s bp)) BLK)) (\<lambda>r.
     if r < 0 then balloc_loop dev sp nrs
     else let bn = nr * BPB + nat r in
       kthen (kmod (bm_set bp bn)) (kthen (bwrite bp) (kthen (brelse bp) (kthen (unlk_sp sp)
        (kget (\<lambda>s. uint (s_data_zone0 (k_mnt s sp)) + int bn))))))))"

definition balloc :: "ushort \<Rightarrow> int kop" where
  "balloc dev = kbind (getsp dev) (\<lambda>sp. kbind (kget (\<lambda>s. unat (s_max_zone (k_mnt s sp)))) (\<lambda>n.
     balloc_loop dev sp [0..<n]))"

definition bfree :: "ushort \<Rightarrow> uint \<Rightarrow> int kop" where
  "bfree dev nr = kbind (getsp dev) (\<lambda>sp. kbind (kget (\<lambda>s. k_mnt s sp)) (\<lambda>p.
     if nr < ucast (s_data_zone0 p) \<or> nr \<ge> ucast (s_max_zone p) then panic ''freeing a block not in data zone''
     else let bn = nr + 1 - ucast (s_data_zone0 p) in
       kbind (bread (uint dev) (BMAPBLK p bn)) (\<lambda>bp.
       kbind (kget (bm_test bp (unat bn))) (\<lambda>t.
       if \<not> t then panic ''freeing free block''
       else kthen (kmod (bm_clear bp (unat bn))) (kthen (bwrite bp) (kthen (brelse bp)
         (kthen (unlk_sp sp) (kret 0))))))))"

definition bzero :: "ushort \<Rightarrow> uint \<Rightarrow> int kop" where
  "bzero dev bn = kbind (getblk (uint dev) bn) (\<lambda>bp.
     kthen (kmod (set_data bp (put 0 BLK (\<lambda>_. 0)))) (kthen (bwrite bp) (kthen (brelse bp) (kret 0))))"

primrec ialloc_loop :: "ushort \<Rightarrow> nat \<Rightarrow> nat list \<Rightarrow> int kop" where
  "ialloc_loop dev sp [] = kthen (unlk_sp sp) (panic ''no free inode'')"
| "ialloc_loop dev sp (nr # nrs) = kbind (bread (uint dev) (IMAPBLK (of_nat nr))) (\<lambda>bp.
     kbind (kget (\<lambda>s. find_bit (b_data (k_buf s bp)) BLK)) (\<lambda>r.
     if r < 0 then ialloc_loop dev sp nrs
     else let ino = nr * BPB + nat r in
       kthen (kmod (bm_set bp ino)) (kthen (bwrite bp) (kthen (brelse bp) (kthen (unlk_sp sp)
        (kret (int ino)))))))"

definition ialloc :: "ushort \<Rightarrow> int kop" where
  "ialloc dev = kbind (getsp dev) (\<lambda>sp. kbind (kget (\<lambda>s. unat (s_max_inode (k_mnt s sp)))) (\<lambda>n.
     ialloc_loop dev sp [0..<n]))"

definition ifree :: "ushort \<Rightarrow> uint \<Rightarrow> unit kop" where
  "ifree dev ino = kbind (getsp dev) (\<lambda>sp. kbind (kget (\<lambda>s. k_mnt s sp)) (\<lambda>p.
     if ino = 0 \<or> ino \<ge> ucast (s_max_inode p) then panic ''freeing an non-existing inode''
     else kbind (bread (uint dev) (IMAPBLK ino)) (\<lambda>bp.
       kbind (kget (bm_test bp (unat ino))) (\<lambda>t.
       if \<not> t then panic ''freeing free inode''
       else kthen (kmod (bm_clear bp (unat ino))) (kthen (bwrite bp) (kthen (brelse bp)
         (unlk_sp sp)))))))"

section \<open>Bitmaps\<close>

definition bm_bit :: "block \<Rightarrow> nat \<Rightarrow> bool" where
  "bm_bit d k \<longleftrightarrow> bit (d (k div 8)) (k mod 8)"

definition bm_put :: "bool \<Rightarrow> nat \<Rightarrow> block \<Rightarrow> block" where
  "bm_put b k d = d(k div 8 := (if b then d (k div 8) OR push_bit (k mod 8) 1
     else d (k div 8) AND NOT (push_bit (k mod 8) 1)))"

lemma bufrow_in [simp]: "j < BLK \<Longrightarrow> bufrow bp j = bp"
  by (auto simp: bufrow_def split: bnode.splits)

lemma bm_ops:
  assumes "k < BPB"
  shows "bm_set bp k = set_data bp (bm_put True k)" "bm_clear bp k = set_data bp (bm_put False k)"
    "bm_test bp k s \<longleftrightarrow> bm_bit (b_data (k_buf s bp)) k"
proof -
  have k: "k div 8 < BLK" using assms by auto
  show "bm_set bp k = set_data bp (bm_put True k)" "bm_clear bp k = set_data bp (bm_put False k)"
    using k by (simp_all add: bm_set_def bm_clear_def poke_def bm_put_def [abs_def])
  show "bm_test bp k s \<longleftrightarrow> bm_bit (b_data (k_buf s bp)) k"
    using k by (simp add: bm_test_def bm_bit_def bufbyte_def push_bit_of_1 and_exp_eq_0_iff_not_bit)
qed

lemma bm_bit_put: "bm_bit (bm_put b k d) j \<longleftrightarrow> (if j = k then b else bm_bit d j)"
proof -
  have "j = k \<longleftrightarrow> j div 8 = k div 8 \<and> j mod 8 = k mod 8" by (metis div_mult_mod_eq)
  moreover have "k mod 8 < 8" by simp
  ultimately show ?thesis
    by (auto simp: bm_bit_def bm_put_def bit_simps push_bit_of_1 bit_exp_iff)
qed

lemma set_clear_bit:
  fixes x :: uchar
  shows "bit x m \<Longrightarrow> x OR 2 ^ m = x" "\<not> bit x m \<Longrightarrow> x AND NOT (2 ^ m) = x"
    "bit x m \<Longrightarrow> (x AND NOT (2 ^ m)) OR 2 ^ m = x" "\<not> bit x m \<Longrightarrow> (x OR 2 ^ m) AND NOT (2 ^ m) = x"
  by (rule bit_word_eqI, auto simp: bit_simps)+

lemma bm_put_put: "bm_bit d k = b \<Longrightarrow> bm_put b k (bm_put c k d) = d"
  by (auto simp: bm_put_def bm_bit_def set_clear_bit)

lemma byte_full: "0 = NOT (scast (b :: uchar) :: uint) \<longleftrightarrow> (\<forall>j<8. bit b j)"
proof -
  have "0 = NOT (scast b :: uint) \<longleftrightarrow> (\<forall>j<32. bit (scast b :: uint) j)"
    by (auto simp: bit_eq_iff bit_simps)
  also have "\<dots> \<longleftrightarrow> (\<forall>j<8. bit b j)"
  proof (intro iffI allI impI)
    fix j :: nat assume h: "\<forall>j<32. bit (scast b :: uint) j" and j: "j < 8"
    then have "bit (scast b :: uint) j" by simp
    then show "bit b j" using j by (simp add: bit_simps)
  next
    fix j :: nat assume "\<forall>j<8. bit b j" "j < 32"
    then show "bit (scast b :: uint) j" by (simp add: bit_simps)
  qed
  finally show ?thesis .
qed

lemma byte_bit: "j < 8 \<Longrightarrow> (scast (b :: uchar) :: uint) AND 2 ^ j = 0 \<longleftrightarrow> \<not> bit b j"
  by (simp add: push_bit_of_1 and_exp_eq_0_iff_not_bit bit_simps)

lemma bm_bit_at: "j < 8 \<Longrightarrow> bm_bit d (i * 8 + j) \<longleftrightarrow> bit (d i) j"
  by (simp add: bm_bit_def)

lemma find_bit_from_first:
  "i \<le> k div 8 \<Longrightarrow> k < 8 * sz \<Longrightarrow> \<not> bm_bit d k \<Longrightarrow> (\<And>j. 8 * i \<le> j \<Longrightarrow> j < k \<Longrightarrow> bm_bit d j) \<Longrightarrow>
    find_bit_from d i sz = int k"
proof (induction d i sz rule: find_bit_from.induct)
  case (1 d i sz)
  let ?p = "\<lambda>j. (scast (d i) :: uint) AND push_bit j 1 = 0"
  have i: "i < sz" using "1.prems"(1,2) by auto
  show ?case
  proof (cases "i = k div 8")
    case True
    have k: "k = i * 8 + k mod 8" using True by simp
    have n: "\<not> bit (d i) (k mod 8)" using "1.prems"(3) True by (simp add: bm_bit_def)
    have b: "bit (d i) j" if "j < k mod 8" for j
      using "1.prems"(4) [of "i * 8 + j"] that k bm_bit_at [of j d i] by (simp add: trans_less_add1)
    have "scan ?p 0 8 = Some (k mod 8)" using n b by (auto simp: scan_Some_iff byte_bit)
    moreover have "\<not> (0 = NOT (scast (d i) :: uint))" using n by (auto simp: byte_full intro: exI [of _ "k mod 8"])
    ultimately show ?thesis using i k by (subst find_bit_from.simps) (simp add: Let_def)
  next
    case False
    have "bit (d i) j" if "j < 8" for j
      using "1.prems"(1) "1.prems"(4) [of "i * 8 + j"] that False bm_bit_at [OF that, of d i] by linarith
    then have full: "0 = NOT (scast (d i) :: uint)" by (simp add: byte_full)
    have "find_bit_from d (Suc i) sz = int k"
      using "1.prems" False by (intro "1.IH"(1) [OF i refl full]) auto
    then show ?thesis using i full by (subst find_bit_from.simps) (simp add: Let_def)
  qed
qed

lemma find_bit_first:
  "k < 8 * sz \<Longrightarrow> \<not> bm_bit d k \<Longrightarrow> (\<And>j. j < k \<Longrightarrow> bm_bit d j) \<Longrightarrow> find_bit d sz = int k"
  unfolding find_bit_def by (rule find_bit_from_first) auto

lemma find_bit_none: "(\<And>j. j < 8 * sz \<Longrightarrow> bm_bit d j) \<Longrightarrow> find_bit d sz = -1"
proof -
  have "(\<And>j. 8 * i \<le> j \<Longrightarrow> j < 8 * sz \<Longrightarrow> bm_bit d j) \<Longrightarrow> find_bit_from d i sz = -1" for i
  proof (induction d i sz rule: find_bit_from.induct)
    case (1 d i sz)
    show ?case
    proof (cases "i < sz")
      case True
      have "bit (d i) j" if "j < 8" for j
        using "1.prems" [of "i * 8 + j"] that True bm_bit_at [OF that, of d i] by simp
      then have full: "0 = NOT (scast (d i) :: uint)" by (simp add: byte_full)
      then have "find_bit_from d (Suc i) sz = -1"
        using "1.prems" by (intro "1.IH"(1) [OF True refl]) auto
      then show ?thesis using True full by (subst find_bit_from.simps) (simp add: Let_def)
    qed (simp add: find_bit_from.simps)
  qed
  then show "(\<And>j. j < 8 * sz \<Longrightarrow> bm_bit d j) \<Longrightarrow> find_bit d sz = -1" unfolding find_bit_def by blast
qed

section \<open>Blocks through the cache\<close>

text \<open>
  \<open>keeps H s s'\<close>: the held buffers are unchanged. \<open>opened s H n bp s'\<close>: the state after
  \<^verbatim>\<open>bread\<close> of block \<open>n\<close>. \<open>disk_upd s s' n d\<close>: block \<open>n\<close> of the disk became \<open>d\<close>, the others
  are as before.
\<close>

definition keeps :: "bnode set \<Rightarrow> kernel \<Rightarrow> kernel \<Rightarrow> bool" where
  "keeps H s s' \<longleftrightarrow> (\<forall>b \<in> H. blkno_of s' b = blkno_of s b \<and> data_of s' b = data_of s b)"

definition opened :: "kernel \<Rightarrow> bnode set \<Rightarrow> uint \<Rightarrow> bnode \<Rightarrow> kernel \<Rightarrow> bool" where
  "opened s H n bp s' \<longleftrightarrow> bp \<notin> H \<and> held_inv s' (insert bp H) \<and> bio_frame s s' \<and> disk_blk s' = disk_blk s \<and>
     blkno_of s' bp = n \<and> same_blk (data_of s' bp) (disk_blk s n) \<and> keeps H s s'"

definition disk_upd :: "kernel \<Rightarrow> kernel \<Rightarrow> uint \<Rightarrow> block \<Rightarrow> bool" where
  "disk_upd s s' n d \<longleftrightarrow> same_blk (disk_blk s' n) d \<and> (\<forall>m. blk_ok m \<longrightarrow> m \<noteq> n \<longrightarrow> disk_blk s' m = disk_blk s m)"

lemma keeps_trans: "keeps H s t \<Longrightarrow> keeps H t u \<Longrightarrow> keeps H s u"
  by (auto simp: keeps_def)

lemma bread_opened:
  assumes "held_inv s H" "blk_ok n" "b_room H" "\<And>b. b \<in> H \<Longrightarrow> blkno_of s b \<noteq> n"
  shows "\<exists>bp s'. bread 0x100 n s = Ok bp s' \<and> opened s H n bp s'"
  using bc.rd [OF assms] unfolding opened_def keeps_def by blast

lemma opened_write:
  assumes "opened s H n bp s1" "\<And>d d'. same_blk d d' \<Longrightarrow> same_blk (f d) (f d')"
  shows "\<exists>s2 s3. bwrite bp (set_data bp f s1) = Ok () s2 \<and> brelse bp s2 = Ok () s3 \<and> held_inv s3 H \<and>
    bio_frame s s3 \<and> disk_upd s s3 n (f (disk_blk s n)) \<and> keeps H s s3"
proof -
  have o: "held_inv s1 (insert bp H)" "bp \<notin> H" "bio_frame s s1" "disk_blk s1 = disk_blk s" "blkno_of s1 bp = n"
    "same_blk (data_of s1 bp) (disk_blk s n)" "keeps H s s1"
    using assms(1) by (simp_all add: opened_def)
  obtain s2 s3 where w: "bwrite bp (set_data bp f s1) = Ok () s2" "brelse bp s2 = Ok () s3" "held_inv s3 H"
    "bio_frame s1 s3" "disk_blk s3 n = f (data_of s1 bp)"
    "\<forall>m. blk_ok m \<longrightarrow> m \<noteq> n \<longrightarrow> disk_blk s3 m = disk_blk s1 m" "keeps H s1 s3"
    using bc.update_Ok [OF o(1,2), of f] o(5) unfolding keeps_def by blast
  have "disk_upd s s3 n (f (disk_blk s n))" using w(5,6) o(4) assms(2) [OF o(6)] by (simp add: disk_upd_def)
  then show ?thesis using w bio_frame_trans [OF o(3) w(4)] keeps_trans [OF o(7) w(7)] by blast
qed

text \<open>Releasing a buffer leaves the data of all buffers alone: the code reads it afterwards.\<close>

lemma preserves_wakeup_bufs: "preserves (\<lambda>s. P (k_buf s)) (wakeup ch)"
proof (rule preservesI)
  fix s :: kernel assume "P (k_buf s)"
  then show "P (k_buf (final (wakeup ch s)))" using wakeup_frame [of ch s] by auto
qed

lemma brelse_data:
  assumes "brelse bp s = Ok () s'"
  shows "data_of s' b = data_of s b"
proof -
  let ?I = "\<lambda>t. data_of t b = data_of s b"
  have w: "preserves ?I (wakeup ch)" for ch using preserves_wakeup_bufs [of "\<lambda>k. b_data (k b) = data_of s b" ch] .
  have "preserves ?I (brelse bp)"
    unfolding brelse_def by (intro preserves_intros w) (auto simp: set_defs b_mod_def)
  then show ?thesis using preserves_Ok [of ?I "brelse bp" s "()" s'] assms by simp
qed

lemma opened_release:
  assumes "opened s H n bp s1"
  shows "\<exists>s2. brelse bp s1 = Ok () s2 \<and> held_inv s2 H \<and> bio_frame s s2 \<and> disk_blk s2 = disk_blk s \<and> keeps H s s2 \<and>
    data_of s2 bp = data_of s1 bp"
proof -
  have o: "held_inv s1 (insert bp H)" "bp \<notin> H" "bio_frame s s1" "disk_blk s1 = disk_blk s" "blkno_of s1 bp = n"
    "same_blk (data_of s1 bp) (disk_blk s n)" "keeps H s s1"
    using assms(1) by (simp_all add: opened_def)
  have H: "insert bp H - {bp} = H" using o(2) by auto
  obtain s2 where s2: "brelse bp s1 = Ok () s2" "held_inv s2 H" "bio_frame s1 s2" "disk_blk s2 = disk_blk s1" "keeps H s1 s2"
    using bc.rl [OF o(1), of bp] o(4,5,6) H unfolding keeps_def by auto
  then show ?thesis using bio_frame_trans [OF o(3) s2(3)] keeps_trans [OF o(7) s2(5)] o(4) brelse_data [OF s2(1)] by auto
qed

section \<open>The mounted file system\<close>

text \<open>
  The root device is mounted in entry \<open>sp\<close>, and the entry is neither locked nor waited for.
\<close>

definition mounted :: "kernel \<Rightarrow> nat \<Rightarrow> bool" where
  "mounted s sp \<longleftrightarrow> sp < NMOUNT \<and> s_dev (k_mnt s sp) = rootdev \<and> (\<forall>j < sp. s_dev (k_mnt s j) \<noteq> rootdev) \<and>
     s_flag (k_mnt s sp) AND 3 = 0"

lemma mounted_frame: "mounted s sp \<Longrightarrow> k_mnt s' = k_mnt s \<Longrightarrow> mounted s' sp"
  by (simp add: mounted_def)

lemma sint_rootdev: "256 = sint w \<longleftrightarrow> w = (rootdev :: ushort)"
proof -
  have "sint (256 :: ushort) = 256" by simp
  then show ?thesis by (metis signed_word_eqI)
qed

lemma and_not_disjoint: "w AND m = 0 \<Longrightarrow> w AND NOT m = (w :: 'a::len word)"
  by (rule bit_word_eqI) (auto simp: bit_eq_iff bit_simps)

lemma low_flags:
  fixes w :: uint
  assumes "w AND 3 = 0"
  shows "w AND 1 = 0" "w AND 2 = 0" "w AND NOT 3 = w"
proof -
  have "w AND m = (w AND 3) AND m" if "3 AND m = m" for m using that by (simp add: and.assoc)
  from this [of 1] this [of 2] assms show "w AND 1 = 0" "w AND 2 = 0" by simp_all
  show "w AND NOT 3 = w" using and_not_disjoint [OF assms] .
qed

lemma mounted_flags:
  assumes "mounted s sp"
  shows "s_flag (k_mnt s sp) AND S_LOCK = 0" "s_flag (k_mnt s sp) AND S_WANTED = 0"
    "s_flag (k_mnt s sp) AND NOT 3 = s_flag (k_mnt s sp)"
  using low_flags assms by (simp_all add: mounted_def)

lemma getsp_mounted:
  assumes "mounted s sp"
  shows "getsp 0x100 s = Ok sp s"
proof -
  have "scan (\<lambda>i. 256 = sint (s_dev (k_mnt s i))) 0 NMOUNT = Some sp"
    using assms by (simp add: scan_Some_iff sint_rootdev mounted_def)
  then show ?thesis using mounted_flags(1) [OF assms] by (simp add: getsp_def kop_simps)
qed

lemma unlk_sp_mounted: "mounted s sp \<Longrightarrow> unlk_sp sp s = Ok () s"
  using mounted_flags [of s sp]
  by (simp add: unlk_sp_def kop_simps mnt_mod_def)

section \<open>Allocation\<close>

text \<open>\<open>k\<close> is the first clear bit of a map block.\<close>

definition first_free :: "block \<Rightarrow> nat \<Rightarrow> bool" where
  "first_free d k \<longleftrightarrow> k < BPB \<and> \<not> bm_bit d k \<and> (\<forall>j<k. bm_bit d j)"

lemma bm_bit_same: "same_blk d d' \<Longrightarrow> k < BPB \<Longrightarrow> bm_bit d k \<longleftrightarrow> bm_bit d' k"
  by (simp add: bm_bit_def same_blk_def less_mult_imp_div_less)

lemma bm_put_same: "same_blk d d' \<Longrightarrow> same_blk (bm_put b k d) (bm_put b k d')"
  by (simp add: bm_put_def same_blk_def)

lemma disk_upd_bits:
  "disk_upd s s' n (bm_put b k (disk_blk s n)) \<Longrightarrow> j < BPB \<Longrightarrow>
    bm_bit (disk_blk s' n) j \<longleftrightarrow> (if j = k then b else bm_bit (disk_blk s n) j)"
  using bm_bit_same [of "disk_blk s' n" "bm_put b k (disk_blk s n)" j] by (simp add: disk_upd_def bm_bit_put)

lemmas opened_bm = opened_write [where f = "bm_put b k" for b k, OF _ bm_put_same]

lemma first_free_same: "same_blk d d' \<Longrightarrow> first_free d' k \<Longrightarrow> first_free d k"
  using bm_bit_same [of d d'] by (auto simp: first_free_def)

lemma find_bit_first_free: "first_free d k \<Longrightarrow> find_bit d BLK = int k"
  unfolding first_free_def by (intro find_bit_first) auto

lemma opened_find: "opened s H n bp s1 \<Longrightarrow> first_free (disk_blk s n) k \<Longrightarrow> find_bit (data_of s1 bp) BLK = int k"
  by (rule find_bit_first_free [OF first_free_same]) (simp_all add: opened_def)

lemma IMAPBLK_low: "n < 8192 \<Longrightarrow> IMAPBLK n = 2"
  by (simp add: IMAPBLK_def div_word_less)

lemma BMAPBLK_low: "n < 8192 \<Longrightarrow> BMAPBLK p n = 2 + ucast (s_nimap_blk p)"
  by (simp add: BMAPBLK_def div_word_less)

lemma unat_ushort: "unat (w :: ushort) < 65536"
  by (rule order_less_le_trans [OF unsigned_less]) simp

lemma nimap_blk: "unat (2 + ucast (n :: ushort) :: uint) = 2 + unat n" "blk_ok (2 + ucast n)"
proof -
  have "unat n < 2 ^ 16" using unsigned_less [of n] by simp
  then show *: "unat (2 + ucast n :: uint) = 2 + unat n"
    by (simp add: unat_word_ariths unat_ucast_up)
  then show "blk_ok (2 + ucast n)" using \<open>unat n < 2 ^ 16\<close> by (simp add: word_less_nat_alt)
qed

lemma upt_first: "0 < n \<Longrightarrow> [0..<n] = 0 # [1..<n]"
  by (simp add: upt_conv_Cons)

lemma ialloc_Ok:
  assumes inv: "held_inv s H" "b_room H" "\<And>b. b \<in> H \<Longrightarrow> blkno_of s b \<noteq> 2"
    and m: "mounted s sp" "0 < s_max_inode (k_mnt s sp)" and k: "first_free (disk_blk s 2) k"
  shows "\<exists>s'. ialloc 0x100 s = Ok (int k) s' \<and> held_inv s' H \<and> bio_frame s s' \<and>
    disk_upd s s' 2 (bm_put True k (disk_blk s 2)) \<and> keeps H s s'"
proof -
  obtain bp s1 where o: "bread 0x100 2 s = Ok bp s1" "opened s H 2 bp s1"
    using bread_opened [OF inv(1) _ inv(2,3)] by auto
  then obtain s2 s3 where w: "bwrite bp (set_data bp (bm_put True k) s1) = Ok () s2" "brelse bp s2 = Ok () s3"
    "held_inv s3 H" "bio_frame s s3" "disk_upd s s3 2 (bm_put True k (disk_blk s 2))" "keeps H s s3"
    using opened_bm [OF o(2)] by blast
  have "find_bit (data_of s1 bp) BLK = int k"
    by (rule opened_find [OF o(2) k])
  moreover have "unlk_sp sp s3 = Ok () s3"
    by (rule unlk_sp_mounted [OF mounted_frame [OF m(1) bio_frame_fields(2) [OF w(4)]]])
  moreover have "k < BPB" using k by (simp add: first_free_def)
  moreover have "0 < unat (s_max_inode (k_mnt s sp))" using m(2) by (simp add: unat_gt_0)
  ultimately have "ialloc 0x100 s = Ok (int k) s3"
    using getsp_mounted [OF m(1)] o(1) w(1,2)
    by (simp add: ialloc_def kop_simps upt_first IMAPBLK_low bm_ops Let_def del: upt.simps)
  then show ?thesis using w by blast
qed

lemma balloc_Ok:
  assumes inv: "held_inv s H" "b_room H" and m: "mounted s sp" "0 < s_max_zone (k_mnt s sp)"
    and n: "n = 2 + ucast (s_nimap_blk (k_mnt s sp))" "\<And>b. b \<in> H \<Longrightarrow> blkno_of s b \<noteq> n"
    and k: "first_free (disk_blk s n) k"
  shows "\<exists>s'. balloc 0x100 s = Ok (uint (s_data_zone0 (k_mnt s sp)) + int k) s' \<and> held_inv s' H \<and> bio_frame s s' \<and>
    disk_upd s s' n (bm_put True k (disk_blk s n)) \<and> keeps H s s'"
proof -
  have "blk_ok n" using nimap_blk(2) n(1) by simp
  then obtain bp s1 where o: "bread 0x100 n s = Ok bp s1" "opened s H n bp s1"
    using bread_opened [OF inv(1) _ inv(2) n(2)] by auto
  then obtain s2 s3 where w: "bwrite bp (set_data bp (bm_put True k) s1) = Ok () s2" "brelse bp s2 = Ok () s3"
    "held_inv s3 H" "bio_frame s s3" "disk_upd s s3 n (bm_put True k (disk_blk s n))" "keeps H s s3"
    using opened_bm [OF o(2)] by blast
  have mnt: "k_mnt s3 = k_mnt s" by (rule bio_frame_fields(2) [OF w(4)])
  have "find_bit (data_of s1 bp) BLK = int k"
    by (rule opened_find [OF o(2) k])
  moreover have "unlk_sp sp s3 = Ok () s3" by (rule unlk_sp_mounted [OF mounted_frame [OF m(1) mnt]])
  moreover have "k < BPB" using k by (simp add: first_free_def)
  moreover have "0 < unat (s_max_zone (k_mnt s sp))" using m(2) by (simp add: unat_gt_0)
  ultimately have "balloc 0x100 s = Ok (uint (s_data_zone0 (k_mnt s sp)) + int k) s3"
    using getsp_mounted [OF m(1)] o(1) w(1,2) mnt
    by (simp add: balloc_def kop_simps upt_first BMAPBLK_low bm_ops Let_def n(1) [symmetric] del: upt.simps)
  then show ?thesis using w by blast
qed

lemma ifree_Ok:
  assumes inv: "held_inv s H" "b_room H" "\<And>b. b \<in> H \<Longrightarrow> blkno_of s b \<noteq> 2"
    and m: "mounted s sp" and ino: "0 < ino" "ino < ucast (s_max_inode (k_mnt s sp))" "ino < 8192"
    and b: "bm_bit (disk_blk s 2) (unat ino)"
  shows "\<exists>s'. ifree 0x100 ino s = Ok () s' \<and> held_inv s' H \<and> bio_frame s s' \<and>
    disk_upd s s' 2 (bm_put False (unat ino) (disk_blk s 2)) \<and> keeps H s s'"
proof -
  have k: "unat ino < BPB" using ino(3) by (simp add: word_less_nat_alt)
  obtain bp s1 where o: "bread 0x100 2 s = Ok bp s1" "opened s H 2 bp s1"
    using bread_opened [OF inv(1) _ inv(2,3)] by auto
  then obtain s2 s3 where w: "bwrite bp (set_data bp (bm_put False (unat ino)) s1) = Ok () s2" "brelse bp s2 = Ok () s3"
    "held_inv s3 H" "bio_frame s s3" "disk_upd s s3 2 (bm_put False (unat ino) (disk_blk s 2))" "keeps H s s3"
    using opened_bm [OF o(2)] by blast
  have "bm_bit (data_of s1 bp) (unat ino)" using o(2) b bm_bit_same [OF _ k] by (auto simp: opened_def)
  moreover have "unlk_sp sp s3 = Ok () s3"
    by (rule unlk_sp_mounted [OF mounted_frame [OF m bio_frame_fields(2) [OF w(4)]]])
  ultimately have "ifree 0x100 ino s = Ok () s3"
    using getsp_mounted [OF m] o(1) w(1,2) ino k
    by (simp add: ifree_def kop_simps IMAPBLK_low bm_ops Let_def linorder_not_le word_gt_0)
  then show ?thesis using w by blast
qed

lemma bfree_Ok:
  assumes inv: "held_inv s H" "b_room H" and m: "mounted s sp"
    and n: "n = 2 + ucast (s_nimap_blk (k_mnt s sp))" "\<And>b. b \<in> H \<Longrightarrow> blkno_of s b \<noteq> n"
    and z: "unat (s_data_zone0 (k_mnt s sp)) \<le> unat nr" "unat nr < unat (s_max_zone (k_mnt s sp))"
    and k: "k = unat nr + 1 - unat (s_data_zone0 (k_mnt s sp))" "k < BPB"
  shows "if bm_bit (disk_blk s n) k then
      \<exists>s'. bfree 0x100 nr s = Ok 0 s' \<and> held_inv s' H \<and> bio_frame s s' \<and>
        disk_upd s s' n (bm_put False k (disk_blk s n)) \<and> keeps H s s'
    else \<exists>s'. bfree 0x100 nr s = Stop (Panic ''freeing free block'') s'"
proof -
  let ?p = "k_mnt s sp" and ?bn = "nr + 1 - ucast (s_data_zone0 (k_mnt s sp))"
  have "unat nr < 2 ^ 16" using z(2) unat_ushort [of "s_max_zone ?p"] by simp
  then have "unat (nr + 1) = unat nr + 1" by (simp add: unat_word_ariths)
  moreover have "(ucast (s_data_zone0 ?p) :: uint) \<le> nr + 1"
    using z(1) calculation by (simp add: word_le_nat_alt unat_ucast_up)
  ultimately have bn: "unat ?bn = k" using k(1) by (simp add: unat_sub unat_ucast_up)
  then have lo: "?bn < 8192" using k(2) by (simp add: word_less_nat_alt)
  have g: "\<not> (nr < ucast (s_data_zone0 ?p) \<or> nr \<ge> ucast (s_max_zone ?p))"
    using z by (simp add: word_less_nat_alt word_le_nat_alt unat_ucast_up)
  have "blk_ok n" using nimap_blk(2) n(1) by simp
  then obtain bp s1 where o: "bread 0x100 n s = Ok bp s1" "opened s H n bp s1"
    using bread_opened [OF inv(1) _ inv(2) n(2)] by auto
  then obtain s2 s3 where w: "bwrite bp (set_data bp (bm_put False k) s1) = Ok () s2" "brelse bp s2 = Ok () s3"
    "held_inv s3 H" "bio_frame s s3" "disk_upd s s3 n (bm_put False k (disk_blk s n))" "keeps H s s3"
    using opened_bm [OF o(2)] by blast
  have t: "bm_bit (data_of s1 bp) k \<longleftrightarrow> bm_bit (disk_blk s n) k"
    using o(2) by (intro bm_bit_same k(2)) (simp add: opened_def)
  have "unlk_sp sp s3 = Ok () s3"
    by (rule unlk_sp_mounted [OF mounted_frame [OF m bio_frame_fields(2) [OF w(4)]]])
  then have "bfree 0x100 nr s = (if bm_bit (disk_blk s n) k then Ok 0 s3 else Stop (Panic ''freeing free block'') s1)"
    using getsp_mounted [OF m] o(1) w(1,2) g k(2) t
    by (simp add: bfree_def kop_simps BMAPBLK_low [OF lo] bm_ops Let_def bn n(1) [symmetric])
  then show ?thesis using w by auto
qed

section \<open>Disk images\<close>

text \<open>A disk with given blocks, and a kernel state that has it behind an initialised cache.\<close>

definition img :: "(uint \<Rightarrow> block) \<Rightarrow> uint \<Rightarrow> nat \<Rightarrow> uchar" where
  "img B l j = B (l div 2) (unat (l mod 2) * PBLK + j)"

definition fs_state :: "(uint \<Rightarrow> block) \<Rightarrow> kernel \<Rightarrow> kernel" where
  "fs_state B s = final (buf_init (s\<lparr>k_disk := img B\<rparr>))"

lemma disk_blk_img:
  assumes "k_disk s = img B" "blk_ok n"
  shows "disk_blk s n j = B n j"
proof -
  have l: "unat (lba_of n) = 2 * unat n" using lba_of_eq [OF assms(2)] .
  have "unat n < 0x400000" using assms(2) by (simp add: word_less_nat_alt)
  then have l1: "unat (lba_of n + 1) = 2 * unat n + 1" using l by (simp add: unat_word_ariths)
  have "lba_of n div 2 = n" "lba_of n mod 2 = 0" "(lba_of n + 1) div 2 = n" "(lba_of n + 1) mod 2 = 1"
    using l l1 by (simp_all add: word_unat_eq_iff unat_div unat_mod)
  then show ?thesis by (simp add: disk_blk_def assms(1) img_def)
qed

lemma fs_state_Ok:
  assumes "b_flag (k_buf s Hdtab) = 0" "k_proc s (k_cu s) \<noteq> None"
  shows "bio_inv (fs_state B s) {}" "blk_ok n \<Longrightarrow> disk_blk (fs_state B s) n = B n"
    "k_mnt (fs_state B s) = k_mnt s" "k_inode (fs_state B s) = k_inode s" "k_file (fs_state B s) = k_file s"
    "k_cu (fs_state B s) = k_cu s" "map_option strip (k_proc (fs_state B s) i) = map_option strip (k_proc s i)"
proof -
  obtain s' where s': "buf_init (s\<lparr>k_disk := img B\<rparr>) = Ok () s'" "bio_inv s' {}"
    "bio_frame (s\<lparr>k_disk := img B\<rparr>) (s'\<lparr>k_nblkdev := k_nblkdev s\<rparr>)" "k_disk s' = img B"
    using buf_init_Ok [of "s\<lparr>k_disk := img B\<rparr>"] assms by auto
  have e: "fs_state B s = s'" using s'(1) by (simp add: fs_state_def)
  show "bio_inv (fs_state B s) {}" using s'(2) e by simp
  show "disk_blk (fs_state B s) n = B n" if "blk_ok n" using disk_blk_img [OF s'(4) that] e by auto
  show "k_mnt (fs_state B s) = k_mnt s" "k_inode (fs_state B s) = k_inode s" "k_file (fs_state B s) = k_file s"
    "k_cu (fs_state B s) = k_cu s" "map_option strip (k_proc (fs_state B s) i) = map_option strip (k_proc s i)"
    using bio_frame_fields(1-5) [OF s'(3)] bio_frame_proc [OF s'(3), of i] e by simp_all
qed

lemma held_empty: "held_inv s {} \<longleftrightarrow> bio_inv s {}" "b_room {}"
  by (auto simp: held_inv_def b_room_def intro: exI [of _ 0])

section \<open>Properties\<close>

text \<open>
  C12: inode numbers. On the mounted root device \<^verbatim>\<open>ialloc\<close> returns the number of the first
  clear bit of the inode map and sets that bit on the disk, changing nothing else there;
  \<^verbatim>\<open>ifree\<close> of that number clears the bit again, so that the inode map and all other blocks
  are as before.
\<close>

theorem ialloc_ifree_roundtrip:
  assumes inv: "bio_inv s {}" and m: "mounted s sp" and k: "first_free (disk_blk s 2) k"
    and r: "0 < k" "k < unat (s_max_inode (k_mnt s sp))"
  shows "\<exists>s' s''. ialloc 0x100 s = Ok (int k) s' \<and> bio_inv s' {} \<and> bio_frame s s' \<and>
    (\<forall>j<BPB. bm_bit (disk_blk s' 2) j \<longleftrightarrow> j = k \<or> bm_bit (disk_blk s 2) j) \<and>
    (\<forall>n. blk_ok n \<longrightarrow> n \<noteq> 2 \<longrightarrow> disk_blk s' n = disk_blk s n) \<and>
    ifree 0x100 (of_nat k) s' = Ok () s'' \<and> bio_inv s'' {} \<and> bio_frame s s'' \<and>
    (\<forall>n. blk_ok n \<longrightarrow> same_blk (disk_blk s'' n) (disk_blk s n))"
proof -
  have kb: "k < BPB" "\<not> bm_bit (disk_blk s 2) k" using k by (simp_all add: first_free_def)
  have u: "unat (of_nat k :: uint) = k" using kb(1) by (simp add: unsigned_of_nat take_bit_nat_eq_self)
  have mx: "0 < s_max_inode (k_mnt s sp)" using r(2) by (simp add: word_less_nat_alt)
  obtain s1 where s1: "ialloc 0x100 s = Ok (int k) s1" "held_inv s1 {}" "bio_frame s s1"
    "disk_upd s s1 2 (bm_put True k (disk_blk s 2))"
    using ialloc_Ok [of s "{}", OF _ held_empty(2) _ m mx k] inv held_empty(1) by auto
  have d1: "bm_bit (disk_blk s1 2) j \<longleftrightarrow> j = k \<or> bm_bit (disk_blk s 2) j" if "j < BPB" for j
    using disk_upd_bits [OF s1(4) that] by auto
  have mnt: "k_mnt s1 = k_mnt s" by (rule bio_frame_fields(2) [OF s1(3)])
  have "0 < (of_nat k :: uint)" "of_nat k < (ucast (s_max_inode (k_mnt s1 sp)) :: uint)" "of_nat k < (8192 :: uint)"
    using r kb(1) mnt by (simp_all add: word_less_nat_alt u unat_ucast_up)
  then obtain s2 where s2: "ifree 0x100 (of_nat k) s1 = Ok () s2" "held_inv s2 {}" "bio_frame s1 s2"
    "disk_upd s1 s2 2 (bm_put False k (disk_blk s1 2))"
    using ifree_Ok [OF s1(2) held_empty(2) _ mounted_frame [OF m mnt], of "of_nat k"] d1 [OF kb(1)] u by auto
  have "same_blk (disk_blk s2 n) (disk_blk s n)" if "blk_ok n" for n
  proof (cases "n = 2")
    case True
    have "same_blk (disk_blk s1 2) (bm_put True k (disk_blk s 2))" using s1(4) by (simp add: disk_upd_def)
    from bm_put_same [OF this, of False k]
    have "same_blk (bm_put False k (disk_blk s1 2)) (disk_blk s 2)" using bm_put_put [of "disk_blk s 2" k False] kb(2) by simp
    then show ?thesis using s2(4) True by (simp add: disk_upd_def same_blk_def)
  next
    case False
    then show ?thesis using s1(4) s2(4) that by (simp add: disk_upd_def same_blk_def)
  qed
  moreover have "\<forall>n. blk_ok n \<longrightarrow> n \<noteq> 2 \<longrightarrow> disk_blk s1 n = disk_blk s n" using s1(4) by (simp add: disk_upd_def)
  ultimately show ?thesis using s1 s2 d1 bio_frame_trans [OF s1(3) s2(3)] held_empty(1) by blast
qed

text \<open>
  C13: the block map. \<^verbatim>\<open>balloc\<close> returns the data zone of the first clear bit \<open>k\<close> of the
  block map, counted from the first data zone, and sets the bit on the disk. \<^verbatim>\<open>bfree\<close> counts
  from the zone before: freeing the block just allocated leaves its bit set, and either
  clears the bit of the next zone or, when that is clear, panics.
\<close>

theorem balloc_bfree_mismatch:
  assumes inv: "bio_inv s {}" and m: "mounted s sp"
    and n: "n = 2 + ucast (s_nimap_blk (k_mnt s sp))" and k: "first_free (disk_blk s n) k" "k + 1 < BPB"
    and z: "z = unat (s_data_zone0 (k_mnt s sp)) + k" "z < unat (s_max_zone (k_mnt s sp))"
  shows "\<exists>s'. balloc 0x100 s = Ok (int z) s' \<and> bio_inv s' {} \<and> bio_frame s s' \<and>
    (\<forall>j<BPB. bm_bit (disk_blk s' n) j \<longleftrightarrow> j = k \<or> bm_bit (disk_blk s n) j) \<and>
    (if bm_bit (disk_blk s n) (k + 1)
     then \<exists>s''. bfree 0x100 (of_nat z) s' = Ok 0 s'' \<and> bm_bit (disk_blk s'' n) k \<and> \<not> bm_bit (disk_blk s'' n) (k + 1)
     else \<exists>s''. bfree 0x100 (of_nat z) s' = Stop (Panic ''freeing free block'') s'')"
proof -
  let ?p = "k_mnt s sp"
  have kb: "k < BPB" using k by (simp add: first_free_def)
  have "z < 2 ^ 16" using z(2) unat_ushort [of "s_max_zone ?p"] by simp
  then have u: "unat (of_nat z :: uint) = z" by (simp add: unsigned_of_nat take_bit_nat_eq_self)
  have mx: "0 < s_max_zone ?p" using z(2) by (simp add: word_less_nat_alt)
  obtain s1 where s1: "balloc 0x100 s = Ok (int z) s1" "held_inv s1 {}" "bio_frame s s1"
    "disk_upd s s1 n (bm_put True k (disk_blk s n))"
    using balloc_Ok [of s "{}", OF _ held_empty(2) m mx n _ k(1)] inv held_empty(1) z(1) by auto
  have d1: "bm_bit (disk_blk s1 n) j \<longleftrightarrow> j = k \<or> bm_bit (disk_blk s n) j" if "j < BPB" for j
    using disk_upd_bits [OF s1(4) that] by auto
  have mnt: "k_mnt s1 = k_mnt s" by (rule bio_frame_fields(2) [OF s1(3)])
  note f = bfree_Ok [OF s1(2) held_empty(2) mounted_frame [OF m mnt], of n "of_nat z" "k + 1"]
  have "if bm_bit (disk_blk s n) (k + 1)
     then \<exists>s''. bfree 0x100 (of_nat z) s1 = Ok 0 s'' \<and> bm_bit (disk_blk s'' n) k \<and> \<not> bm_bit (disk_blk s'' n) (k + 1)
     else \<exists>s''. bfree 0x100 (of_nat z) s1 = Stop (Panic ''freeing free block'') s''"
  proof (cases "bm_bit (disk_blk s n) (k + 1)")
    case True
    then have "bm_bit (disk_blk s1 n) (k + 1)" using d1 [OF k(2)] by simp
    then obtain s2 where s2: "bfree 0x100 (of_nat z) s1 = Ok 0 s2" "disk_upd s1 s2 n (bm_put False (k + 1) (disk_blk s1 n))"
      using f n z u k(2) mnt by auto
    have "bm_bit (disk_blk s2 n) j \<longleftrightarrow> j \<noteq> k + 1 \<and> bm_bit (disk_blk s1 n) j" if "j < BPB" for j
      using disk_upd_bits [OF s2(2) that] by auto
    then show ?thesis using True s2(1) d1 kb k(2) by auto
  next
    case False
    then have "\<not> bm_bit (disk_blk s1 n) (k + 1)" using d1 [OF k(2)] by simp
    then show ?thesis using False f n z u k(2) mnt by auto
  qed
  then show ?thesis using s1 d1 held_empty(1) by blast
qed

section \<open>Witnesses\<close>

text \<open>A small file system: one inode map block, one block map block, data from zone 5 on.\<close>

definition small_super :: super where
  "small_super = zero_super\<lparr>s_max_inode := 64, s_max_zone := 100, s_nimap_blk := 1, s_nzmap_blk := 1,
     s_data_zone0 := 5, s_magic := S_MAGIC, s_dev := rootdev\<rparr>"

definition small_fs :: kernel where
  "small_fs = fs_state (\<lambda>n. if n = 2 \<or> n = 3 then (\<lambda>_. 0)(0 := 1) else (\<lambda>_. 0))
     (two_procs\<lparr>k_mnt := (\<lambda>_. zero_super)(0 := small_super)\<rparr>)"

lemma small_fs_Ok:
  "bio_inv small_fs {}" "mounted small_fs 0" "k_mnt small_fs 0 = small_super"
  "first_free (disk_blk small_fs 2) 1" "first_free (disk_blk small_fs 3) 1"
  "\<not> bm_bit (disk_blk small_fs 3) 2"
proof -
  let ?s = "two_procs\<lparr>k_mnt := (\<lambda>_. zero_super)(0 := small_super)\<rparr>"
  have "b_flag (k_buf ?s Hdtab) = 0" "k_proc ?s (k_cu ?s) \<noteq> None"
    by (simp_all add: two_procs_def boot_kernel_def zero_buf_def)
  note f = fs_state_Ok [OF this]
  show "bio_inv small_fs {}" unfolding small_fs_def by (rule f(1))
  show m: "k_mnt small_fs 0 = small_super" unfolding small_fs_def f(3) by simp
  show "mounted small_fs 0" by (simp add: mounted_def m) (simp add: small_super_def zero_super_def)
  have "bit (1 :: uchar) j \<longleftrightarrow> j = 0" for j by (simp add: bit_1_iff)
  then show "first_free (disk_blk small_fs 2) 1" "first_free (disk_blk small_fs 3) 1"
      "\<not> bm_bit (disk_blk small_fs 3) 2"
    by (simp_all add: small_fs_def f(2) first_free_def bm_bit_def)
qed

theorem ialloc_ifree_roundtrip_witness:
  "\<exists>s' s''. ialloc 0x100 small_fs = Ok 1 s' \<and> ifree 0x100 1 s' = Ok () s'' \<and> bio_inv s'' {}"
  using ialloc_ifree_roundtrip [OF small_fs_Ok(1,2,4)] small_fs_Ok(3) by (auto simp: small_super_def)

theorem balloc_bfree_mismatch_witness:
  "\<exists>s' s''. balloc 0x100 small_fs = Ok 6 s' \<and> bfree 0x100 6 s' = Stop (Panic ''freeing free block'') s''"
  using balloc_bfree_mismatch [OF small_fs_Ok(1,2) _ small_fs_Ok(5), of 6] small_fs_Ok(3) small_fs_Ok(6) [unfolded numeral_2_eq_2]
  by (auto simp: small_super_def)

end
