(* ===== verification/Vga.thy ===== *)
theory Vga
  imports Kernel
begin

unbundle bit_operations_syntax

text \<open>
  The text screen of \<^verbatim>\<open>src/chr/vga.c\<close>: the 25 by 80 character memory, the cursor
  (kept in the first terminal's \<open>t_col\<close> and \<open>t_row\<close>), and the output routines up to
  \<^verbatim>\<open>printk\<close>. A write outside the character memory is a fault of the model; the
  theorems show that no output routine can reach one.
\<close>

section \<open>Definitions\<close>

abbreviation VC_BLANK :: vchar where
  "VC_BLANK \<equiv> \<lparr>vc_char = 0x20, vc_attr = 0x07\<rparr>"

definition px :: "kernel \<Rightarrow> int" where "px s = t_col (k_tty s 0)"
definition py :: "kernel \<Rightarrow> int" where "py s = t_row (k_tty s 0)"

definition set_px :: "int \<Rightarrow> kernel \<Rightarrow> kernel" where
  "set_px x s = s\<lparr>k_tty := (k_tty s)(0 := (k_tty s 0)\<lparr>t_col := x\<rparr>)\<rparr>"

definition set_py :: "int \<Rightarrow> kernel \<Rightarrow> kernel" where
  "set_py y s = s\<lparr>k_tty := (k_tty s)(0 := (k_tty s 0)\<lparr>t_row := y\<rparr>)\<rparr>"

text \<open>The two bytes sent to the cursor registers are the low 16 bits of the position.\<close>

definition flush_csr :: "unit kop" where
  "flush_csr = kmod (\<lambda>s. s\<lparr>k_csr := (word_of_int (py s * 80 + px s)) AND 0xFFFF\<rparr>)"

definition cls :: "unit kop" where
  "cls = kthen (kmod (\<lambda>s. set_py 0 (set_px 0 (s\<lparr>k_vga := (\<lambda>_ _. VC_BLANK)\<rparr>)))) flush_csr"

text \<open>
  \<^verbatim>\<open>memcpy\<close> moves the rows from \<open>pos\<close> on to the top, \<^verbatim>\<open>memsetw\<close> blanks the one row
  after them.
\<close>

definition scroll :: "unit kop" where
  "scroll = kbind (kget py) (\<lambda>y. kwhen (y \<ge> 25)
     (let pos = nat (y - 25 + 1) in
      kmod (\<lambda>s. set_py 24 (s\<lparr>k_vga := (\<lambda>r c.
        if r < 25 - pos then k_vga s (r + pos) c
        else if r = 25 - pos then VC_BLANK
        else k_vga s r c)\<rparr>))))"

definition vga_store :: "uchar \<Rightarrow> unit kop" where
  "vga_store c s =
     (if 0 \<le> py s \<and> py s < 25 \<and> 0 \<le> px s \<and> px s < 80
      then Ok () (s\<lparr>k_vga := (k_vga s)(nat (py s) := (k_vga s (nat (py s)))(nat (px s) :=
             (k_vga s (nat (py s)) (nat (px s)))\<lparr>vc_char := c\<rparr>))\<rparr>)
      else Stop (Fault ''vgamem'') s)"

definition putch :: "uchar \<Rightarrow> unit kop" where
  "putch c =
     kthen
      (if c = 8 then
         kbind (kget px) (\<lambda>x.
           if x > 0 then kthen (kmod (set_px (x - 1))) (vga_store 0x20)
           else kbind (kget py) (\<lambda>y.
             kthen (kwhen (y > 0) (kmod (set_py (y - 1))))
               (kthen (kmod (set_px 79)) (vga_store 0x20))))
       else if c = 9 then kmod (\<lambda>s. set_px ((px s + 4) AND (NOT 3)) s)
       else if c = 13 then kmod (set_px 0)
       else if c = 10 then kmod (\<lambda>s. set_py (py s + 1) (set_px 0 s))
       else if schar c \<ge> 32 then kthen (vga_store c) (kmod (\<lambda>s. set_px (px s + 1) s))
       else kret ())
      (kthen (kbind (kget px) (\<lambda>x. kwhen (x \<ge> 80) (kmod (\<lambda>s. set_py (py s + 1) (set_px 0 s)))))
        (kthen scroll flush_csr))"

text \<open>A C string is the list of its bytes before the terminating zero.\<close>

definition puts :: "uchar list \<Rightarrow> unit kop" where
  "puts str = kfor str putch"

definition ntab :: "uchar list" where
  "ntab = [0x30, 0x31, 0x32, 0x33, 0x34, 0x35, 0x36, 0x37, 0x38, 0x39,
           0x41, 0x42, 0x43, 0x44, 0x45, 0x46]"

definition ntab_at :: "uint \<Rightarrow> uchar kop" where
  "ntab_at m s = (if unat m < length ntab then Ok (ntab ! unat m) s else Stop (Fault ''ntab'') s)"

text \<open>
  No caller passes a base above 16, so reading \<open>ntab\<close> past its digits is a fault. The recursion
  of \<^verbatim>\<open>printn\<close> stops because the quotient shrinks; base 0 divides by zero
  and base 1 never ends.
\<close>

function printn :: "uint \<Rightarrow> uint \<Rightarrow> unit kop" where
  "printn n b =
     (if b = 0 then kstop (Fault ''division by zero'')
      else if b = 1 \<and> n \<noteq> 0 then kstop Spin
      else kthen (if n div b \<noteq> 0 then printn (n div b) b else kret ())
             (kbind (ntab_at (n mod b)) putch))"
  by pat_completeness auto
termination
proof (relation "measure (\<lambda>(n, b). unat n)")
  fix n b :: uint
  assume b: "b \<noteq> 0" "\<not> (b = 1 \<and> n \<noteq> 0)" and q: "n div b \<noteq> 0"
  then have "n \<noteq> 0" by auto
  with b have "b \<noteq> 1" by simp
  with b have "unat b \<noteq> 0 \<and> unat b \<noteq> 1"
    by (metis unat_1 unat_eq_zero word_unat_eq_iff)
  then have "2 \<le> unat b" by linarith
  moreover have "0 < unat n" using \<open>n \<noteq> 0\<close> by (simp add: unat_gt_0)
  ultimately show "((n div b, b), (n, b)) \<in> measure (\<lambda>(n, b). unat n)"
    by (simp add: unat_div)
qed simp

declare printn.simps [simp del]

text \<open>
  \<^verbatim>\<open>printk\<close> walks the format; \<open>strs\<close> gives the string at an address for \<^verbatim>\<open>%s\<close>.
  Running past the end of the format or of the arguments is a fault.
\<close>

fun printk :: "(uint \<Rightarrow> uchar list) \<Rightarrow> uchar list \<Rightarrow> uint list \<Rightarrow> unit kop" where
  "printk strs [] adx = kret ()"
| "printk strs (c # fmt) adx =
     (if c \<noteq> 0x25 then kthen (putch c) (printk strs fmt adx)
      else case fmt of [] \<Rightarrow> kstop (Fault ''format'')
      | d # fmt' \<Rightarrow>
         (case adx of [] \<Rightarrow> if d \<in> {0x64, 0x6C, 0x6F, 0x78, 0x63, 0x73}
              then kstop (Fault ''argument'') else printk strs fmt' []
          | a # adx' \<Rightarrow>
             kthen
              (if d = 0x64 \<or> d = 0x6C then
                 if sint a < 0 then kthen (putch 0x2D) (printn (- a) 10) else printn a 10
               else if d = 0x6F \<or> d = 0x78 then printn a (if d = 0x6F then 8 else 16)
               else if d = 0x63 then putch (ucast a)
               else if d = 0x73 then puts (strs a)
               else kret ())
              (printk strs fmt' adx')))"

section \<open>The cursor stays on the screen\<close>

definition vga_inv :: "kernel \<Rightarrow> bool" where
  "vga_inv s \<longleftrightarrow> 0 \<le> px s \<and> px s < 80 \<and> 0 \<le> py s \<and> py s < 25"

lemma px_py_simps [simp]:
  "px (set_px x s) = x" "py (set_px x s) = py s"
  "px (set_py y s) = px s" "py (set_py y s) = y"
  "px (s\<lparr>k_vga := v\<rparr>) = px s" "py (s\<lparr>k_vga := v\<rparr>) = py s"
  "px (s\<lparr>k_csr := c\<rparr>) = px s" "py (s\<lparr>k_csr := c\<rparr>) = py s"
  "k_vga (set_px x s) = k_vga s" "k_vga (set_py y s) = k_vga s"
  by (simp_all add: px_def py_def set_px_def set_py_def)

lemma tab_stop: "((x + 4) AND (NOT 3) :: int) = (x + 4) - (x mod 4)"
proof -
  have "NOT (x + 4) AND take_bit 2 (x + 4) = 0"
    by (rule bit_eqI) (auto simp: bit_simps)
  then have "(x + 4) - take_bit 2 (x + 4) = (x + 4) AND NOT (take_bit 2 (x + 4))"
    by (rule disjunctive_diff_eq_and_not)
  also have "\<dots> = (x + 4) AND (NOT (mask 2))"
    by (rule bit_eqI) (auto simp: bit_simps)
  finally show ?thesis by (simp add: mask_eq_exp_minus_1 take_bit_eq_mod)
qed

lemmas vga_defs = kthen_def kbind_def kop_simps kwhen_def scroll_def flush_csr_def vga_store_def Let_def

lemma putch_Ok: "vga_inv s \<Longrightarrow> \<exists>s'. putch c s = Ok () s' \<and> vga_inv s'"
  by (auto simp: putch_def vga_inv_def vga_defs tab_stop split: if_splits)


lemma runs_putch: "runs vga_inv (putch c) (\<lambda>_. vga_inv)"
  using putch_Ok by (auto simp: runs_def)

lemma runs_puts: "runs vga_inv (puts str) (\<lambda>_. vga_inv)"
  by (simp add: puts_def runs_kfor runs_putch)

section \<open>Numbers\<close>

text \<open>The digits of a number in a base, most significant first, without leading zeros.\<close>

fun digits :: "nat \<Rightarrow> nat \<Rightarrow> nat list" where
  "digits b n = (if b < 2 \<or> n < b then [n] else digits b (n div b) @ [n mod b])"

declare digits.simps [simp del]

lemma digits_unfold:
  "n < b \<Longrightarrow> digits b n = [n]"
  "2 \<le> b \<Longrightarrow> b \<le> n \<Longrightarrow> digits b n = digits b (n div b) @ [n mod b]"
  by (subst digits.simps, simp)+

lemma digits_value: "2 \<le> b \<Longrightarrow> foldl (\<lambda>a d. a * b + d) 0 (digits b n) = n"
proof (induction b n rule: digits.induct)
  case (1 b n)
  then show ?case by (cases "n < b") (simp_all add: digits_unfold)
qed

lemma digits_less: "2 \<le> b \<Longrightarrow> d \<in> set (digits b n) \<Longrightarrow> d < b"
proof (induction b n rule: digits.induct)
  case (1 b n)
  then show ?case by (cases "n < b") (auto simp: digits_unfold)
qed

lemma digits_hd: "2 \<le> b \<Longrightarrow> digits b n \<noteq> [] \<and> (0 < n \<longrightarrow> 0 < hd (digits b n))"
proof (induction b n rule: digits.induct)
  case (1 b n)
  show ?case
  proof (cases "n < b")
    case True
    then show ?thesis by (simp add: digits_unfold)
  next
    case False
    with 1 have "0 < n div b" by (simp add: div_greater_zero_iff)
    with 1 False show ?thesis by (simp add: digits_unfold hd_append)
  qed
qed

lemma length_ntab [simp]: "length ntab = 16"
  by (simp add: ntab_def)

lemma printn_digits:
  "2 \<le> unat b \<Longrightarrow> unat b \<le> 16 \<Longrightarrow>
    printn n b = puts (map ((!) ntab) (digits (unat b) (unat n)))"
proof (induction n b rule: printn.induct)
  case (1 n b)
  have b: "b \<noteq> 0" "b \<noteq> 1" using "1.prems"(1) by auto
  have m: "unat (n mod b) < 16"
    using "1.prems" by (simp add: unat_mod less_le_trans[OF mod_less_divisor])
  have q: "n div b = 0 \<longleftrightarrow> unat n < unat b"
    using "1.prems"(1) by (simp add: unat_eq_zero[symmetric] unat_div div_eq_0_iff)
  have last: "kbind (ntab_at (n mod b)) putch = putch (ntab ! (unat n mod unat b))"
    using m by (simp add: kbind_def ntab_at_def fun_eq_iff unat_mod)
  show ?case
  proof (cases "unat n < unat b")
    case True
    with q b last show ?thesis
      by (subst printn.simps) (simp add: digits_unfold puts_def)
  next
    case False
    with q have nz: "n div b \<noteq> 0" by simp
    have "printn (n div b) b = puts (map ((!) ntab) (digits (unat b) (unat n div unat b)))"
      using "1.IH"[OF b(1) _ nz] b(2) "1.prems" by (simp add: unat_div)
    with nz b last "1.prems" False show ?thesis
      by (subst printn.simps) (simp add: digits_unfold puts_def kfor_snoc)
  qed
qed

section \<open>Formatted output\<close>

text \<open>Formats \<^verbatim>\<open>printk\<close> accepts with the given number of arguments.\<close>

fun fmt_ok :: "uchar list \<Rightarrow> nat \<Rightarrow> bool" where
  "fmt_ok [] n = True"
| "fmt_ok (c # fmt) n =
     (if c \<noteq> 0x25 then fmt_ok fmt n
      else case fmt of [] \<Rightarrow> False
      | d # fmt' \<Rightarrow> (if n = 0 then d \<notin> {0x64, 0x6C, 0x6F, 0x78, 0x63, 0x73} \<and> fmt_ok fmt' 0
                     else fmt_ok fmt' (n - 1)))"

lemma runs_printn: "b \<in> {8, 10, 16} \<Longrightarrow> runs vga_inv (printn n b) (\<lambda>_. vga_inv)"
  using printn_digits[of b n] by (auto simp: runs_puts)

lemma runs_printk: "fmt_ok fmt (length adx) \<Longrightarrow> runs vga_inv (printk strs fmt adx) (\<lambda>_. vga_inv)"
proof (induction strs fmt adx rule: printk.induct)
  case (1 strs adx)
  then show ?case by (simp add: runs_kret)
next
  case (2 strs c fmt adx)
  show ?case
  proof (cases "c = 0x25")
    case False
    with 2 show ?thesis by (auto intro!: runs_kthen[OF runs_putch])
  next
    case True
    with "2.prems" obtain d fmt' where fmt: "fmt = d # fmt'" by (cases fmt) auto
    show ?thesis
    proof (cases adx)
      case Nil
      with "2.IH"(2)[of d fmt'] "2.prems" True fmt show ?thesis by (simp split: if_splits)
    next
      case (Cons a adx')
      then have "runs vga_inv (printk strs fmt' adx') (\<lambda>_. vga_inv)"
        using "2.IH"(3) "2.prems" True fmt by simp
      with True fmt Cons show ?thesis
        by (auto intro!: runs_kthen[where R = vga_inv] runs_kret runs_printn runs_putch runs_puts)
    qed
  qed
qed

section \<open>Properties\<close>



text \<open>
  Printing a number and reading it back. In every base from 2 to 16, \<^verbatim>\<open>printn\<close>
  writes a non-empty digit string of that base, with no leading zero, whose value is
  the number printed; the recursion ends for every 32-bit number.
\<close>

theorem printn_roundtrip:
  assumes "2 \<le> b" "b \<le> 16"
  shows "\<exists>ds. printn n b = puts (map ((!) ntab) ds) \<and> ds \<noteq> [] \<and> (\<forall>d \<in> set ds. d < unat b) \<and>
    (n \<noteq> 0 \<longrightarrow> hd ds \<noteq> 0) \<and> foldl (\<lambda>a d. a * unat b + d) 0 ds = unat n"
proof -
  have b: "2 \<le> unat b" "unat b \<le> 16" using assms by (simp_all add: word_le_nat_alt)
  have "n \<noteq> 0 \<longrightarrow> 0 < unat n" by (simp add: unat_gt_0)
  then show ?thesis
    using printn_digits [OF b, of n] digits_value [OF b(1)] digits_less [OF b(1)] digits_hd [OF b(1)]
    by (metis not_gr_zero)
qed

theorem printn_roundtrip_witness:
  "(2::uint) \<le> 10 \<and> (10::uint) \<le> 16 \<and>
   (\<exists>ds. printn 1234 10 = puts (map ((!) ntab) ds) \<and> foldl (\<lambda>a d. a * 10 + d) 0 ds = 1234)"
  using printn_roundtrip [of 10 1234] by auto

end
