(* ===== verification/Inode.thy ===== *)
theory Inode
  imports Super Vga
begin

text \<open>
  In-core inodes and their data: \<^verbatim>\<open>src/fs/inode.c\<close>, \<^verbatim>\<open>src/fs/bmap.c\<close> and
  \<^verbatim>\<open>src/fs/rdwri.c\<close>. An inode pointer is the index of its entry in the table; the
  fields of \<^verbatim>\<open>struct d_inode\<close> are read from and written to the 32 bytes of the entry in
  the inode table on the disk. \<open>zone_of\<close> and \<open>file_byte\<close> are the contents of a file as a
  function of the blocks on the disk; the lemmas show that \<^verbatim>\<open>bmap\<close>, \<^verbatim>\<open>readi\<close> and
  \<^verbatim>\<open>writei\<close> implement lookup, reading and writing of them.
\<close>

section \<open>Loading and updating (inode.c)\<close>

definition ino_mod :: "nat \<Rightarrow> (inode \<Rightarrow> inode) \<Rightarrow> kernel \<Rightarrow> kernel" where
  "ino_mod ip f s = s\<lparr>k_inode := (k_inode s)(ip := f (k_inode s ip))\<rparr>"

definition IBLK :: "super \<Rightarrow> uint \<Rightarrow> uint" where
  "IBLK sp ino = 2 + ucast (s_nimap_blk sp) + ucast (s_nzmap_blk sp) + (ino - 1) div 32"

definition itab_off :: "uint \<Rightarrow> nat" where
  "itab_off ino = 32 * unat ((ino - 1) mod 32)"

definition d_inode_load :: "block \<Rightarrow> nat \<Rightarrow> inode \<Rightarrow> inode" where
  "d_inode_load d p i = i\<lparr>i_mode := get16 d p, i_uid := get16 d (p + 2), i_size := get32 d (p + 4),
     i_mtime := get32 d (p + 8), i_gid := d (p + 12), i_nlink := d (p + 13),
     i_zone := (\<lambda>k. if k < 9 then get16 d (p + 14 + 2 * k) else i_zone i k)\<rparr>"

definition d_inode_byte :: "inode \<Rightarrow> nat \<Rightarrow> uchar" where
  "d_inode_byte i j =
     (if j < 2 then byte16 (i_mode i) j else if j < 4 then byte16 (i_uid i) (j - 2)
      else if j < 8 then byte32 (i_size i) (j - 4) else if j < 12 then byte32 (i_mtime i) (j - 8)
      else if j = 12 then i_gid i else if j = 13 then i_nlink i
      else byte16 (i_zone i ((j - 14) div 2)) ((j - 14) mod 2))"

text \<open>The block of the inode table with the entry of an in-core inode, read through the cache.\<close>

definition ino_bread :: "nat \<Rightarrow> bnode kop" where
  "ino_bread ip = kbind (kget (\<lambda>s. k_inode s ip)) (\<lambda>i. kbind (getsp (i_dev i)) (\<lambda>sp.
     kbind (kget (\<lambda>s. IBLK (k_mnt s sp) (i_num i))) (\<lambda>blk. kbind (bread (uint (i_dev i)) blk) (\<lambda>bp.
     kbind (kget (\<lambda>s. b_flag (k_buf s bp))) (\<lambda>fl.
     if fl AND B_ERROR \<noteq> 0 then panic ''error on reading an inode'' else kret bp)))))"

definition iload :: "nat \<Rightarrow> int kop" where
  "iload ip = kbind (ino_bread ip) (\<lambda>bp.
     kthen (kmod (\<lambda>s. ino_mod ip (\<lambda>i. d_inode_load (b_data (k_buf s bp)) (itab_off (i_num i)) i) s))
      (kthen (brelse bp) (kret 0)))"

definition iupdate :: "nat \<Rightarrow> unit kop" where
  "iupdate ip = kbind (ino_bread ip) (\<lambda>bp.
     kthen (kmod (\<lambda>s. set_data bp (put (itab_off (i_num (k_inode s ip))) 32 (d_inode_byte (k_inode s ip))) s))
      (kthen (kmod (ino_mod ip (\<lambda>i. i\<lparr>i_flag := i_flag i AND NOT I_DIRTY\<rparr>)))
       (kthen (bwrite bp) (brelse bp))))"

section \<open>Locks\<close>

definition lock_ino :: "nat \<Rightarrow> unit kop" where
  "lock_ino ip = kbind (kget (\<lambda>s. i_flag (k_inode s ip))) (\<lambda>fl.
     if fl AND I_LOCK \<noteq> 0 then kthen (sleep_unint (Ch_inode ip) PINOD) (kstop Spin)
     else kmod (ino_mod ip (\<lambda>i. i\<lparr>i_flag := i_flag i OR I_LOCK\<rparr>)))"

definition unlk_ino :: "nat \<Rightarrow> unit kop" where
  "unlk_ino ip =
     kthen (kbind (kget (\<lambda>s. i_flag (k_inode s ip))) (\<lambda>fl. kwhen (fl AND I_WANTED \<noteq> 0) (wakeup (Ch_inode ip))))
       (kmod (ino_mod ip (\<lambda>i. i\<lparr>i_flag := i_flag i AND NOT (I_LOCK OR I_WANTED)\<rparr>)))"

section \<open>Getting an inode\<close>

definition ascii :: "string \<Rightarrow> uchar list" where
  "ascii = map of_char"

text \<open>
  The search of \<^verbatim>\<open>iget\<close>. A mount point leads to the root of the mounted device and the
  search starts again; the table does not change meanwhile. The root inode number with
  the device number of one of the 16 mount entries is looked for from the second round
  on, so more than 17 rounds repeat a pair and the loop does not end.
\<close>

primrec iget_loop :: "nat \<Rightarrow> ushort \<Rightarrow> uint \<Rightarrow> nat option kop" where
  "iget_loop 0 dev num = kstop Spin"
| "iget_loop (Suc fuel) dev num = kbind (kget (\<lambda>s. scan (\<lambda>i. i_dev (k_inode s i) = dev \<and> i_num (k_inode s i) = num) 0 NINODE)) (\<lambda>r.
     case r of
       Some ip \<Rightarrow> kbind (kget (\<lambda>s. i_flag (k_inode s ip))) (\<lambda>fl.
         if fl AND I_LOCK \<noteq> 0 then
           kthen (kmod (ino_mod ip (\<lambda>i. i\<lparr>i_flag := i_flag i OR I_WANTED\<rparr>)))
             (kthen (sleep_unint (Ch_inode ip) PINOD) (kstop Spin))
         else kbind (kget (\<lambda>s. if fl AND I_MOUNT \<noteq> 0 then scan (\<lambda>j. s_imnt (k_mnt s j) = Some ip) 0 NMOUNT else None)) (\<lambda>m.
           case m of
             Some sp \<Rightarrow> kbind (kget (\<lambda>s. s_dev (k_mnt s sp))) (\<lambda>d. iget_loop fuel d ROOTINO)
           | None \<Rightarrow> kthen (kmod (ino_mod ip (\<lambda>i. i\<lparr>i_count := i_count i + 1, i_flag := i_flag i OR I_LOCK\<rparr>))) (kret (Some ip))))
     | None \<Rightarrow> kbind (kget (\<lambda>s. scan (\<lambda>i. i_count (k_inode s i) = 0) 0 NINODE)) (\<lambda>q. case q of
         Some ip \<Rightarrow> kthen (kmod (ino_mod ip (\<lambda>i. i\<lparr>i_dev := dev, i_num := num, i_flag := I_LOCK, i_count := i_count i + 1\<rparr>)))
           (kthen (iload ip) (kret (Some ip)))
       | None \<Rightarrow> kthen (printk (\<lambda>_. []) (ascii (''inode table overflow.'' @ [CHR 0x0A])) []) (kret None)))"

definition iget :: "ushort \<Rightarrow> uint \<Rightarrow> nat option kop" where
  "iget dev num = iget_loop 18 dev num"

section \<open>Block numbers of a file (bmap.c)\<close>

text \<open>Entry \<open>k\<close> of a zone map in a buffer, an array of shorts.\<close>

definition zmap :: "kernel \<Rightarrow> bnode \<Rightarrow> nat \<Rightarrow> ushort" where
  "zmap s bp k = get16 (b_data (k_buf s bp)) (2 * k)"

definition set_zmap :: "bnode \<Rightarrow> nat \<Rightarrow> int \<Rightarrow> kernel \<Rightarrow> kernel" where
  "set_zmap bp k z = set_data bp (put (2 * k) 2 (byte16 (word_of_int z)))"

definition set_zone :: "nat \<Rightarrow> nat \<Rightarrow> int \<Rightarrow> kernel \<Rightarrow> kernel" where
  "set_zone ip k z = ino_mod ip (\<lambda>i. i\<lparr>i_zone := (i_zone i)(k := word_of_int z)\<rparr>)"

definition set_dirty :: "nat \<Rightarrow> kernel \<Rightarrow> kernel" where
  "set_dirty ip = ino_mod ip (\<lambda>i. i\<lparr>i_flag := i_flag i OR I_DIRTY\<rparr>)"

text \<open>The direct zones.\<close>

definition bmap_direct :: "nat \<Rightarrow> nat \<Rightarrow> uchar \<Rightarrow> uint kop" where
  "bmap_direct ip nr creat = kbind (kget (\<lambda>s. k_inode s ip)) (\<lambda>i.
     kthen (kwhen (i_zone i nr = 0 \<and> creat \<noteq> 0)
       (kbind (balloc (i_dev i)) (\<lambda>z. kthen (kmod (set_zone ip nr z)) (kthen (kmod (set_dirty ip)) (iupdate ip)))))
      (kget (\<lambda>s. ucast (i_zone (k_inode s ip) nr))))"

text \<open>
  The zone map in zone 7 or 8 of the inode, allocated and zeroed when it is missing and
  \<^verbatim>\<open>creat\<close> is set; the result says whether there is one.
\<close>

definition bmap_top :: "nat \<Rightarrow> nat \<Rightarrow> uchar \<Rightarrow> bool kop" where
  "bmap_top ip k creat = kbind (kget (\<lambda>s. k_inode s ip)) (\<lambda>i.
     if i_zone i k = 0 then
       if creat = 0 then kret False
       else kbind (balloc (i_dev i)) (\<lambda>z. kthen (kmod (set_zone ip k z))
         (kbind (kget (\<lambda>s. i_zone (k_inode s ip) k)) (\<lambda>w. kthen (bzero (i_dev i) (ucast w))
          (kthen (kmod (set_dirty ip)) (kthen (iupdate ip) (kret True))))))
     else kret True)"

definition bmap_ind :: "nat \<Rightarrow> nat \<Rightarrow> uchar \<Rightarrow> uint kop" where
  "bmap_ind ip nr creat = kbind (kget (\<lambda>s. i_dev (k_inode s ip))) (\<lambda>dev. kbind (bmap_top ip 7 creat) (\<lambda>ok.
     if \<not> ok then kret 0
     else kbind (kget (\<lambda>s. i_zone (k_inode s ip) 7)) (\<lambda>z7. kbind (bread (uint dev) (ucast z7)) (\<lambda>bp.
       kthen (kbind (kget (\<lambda>s. zmap s bp nr)) (\<lambda>v. kwhen (v = 0 \<and> creat \<noteq> 0)
         (kbind (balloc dev) (\<lambda>z. kthen (kmod (set_zmap bp nr z)) (bwrite bp)))))
        (kthen (brelse bp) (kget (\<lambda>s. scast (zmap s bp nr))))))))"

definition bmap_dbl :: "nat \<Rightarrow> nat \<Rightarrow> uchar \<Rightarrow> uint kop" where
  "bmap_dbl ip nr creat = kbind (kget (\<lambda>s. i_dev (k_inode s ip))) (\<lambda>dev. kbind (bmap_top ip 8 creat) (\<lambda>ok.
     if \<not> ok then kret 0
     else kbind (kget (\<lambda>s. i_zone (k_inode s ip) 8)) (\<lambda>z8. kbind (bread (uint dev) (ucast z8)) (\<lambda>bp.
       kbind (kget (\<lambda>s. zmap s bp (nr div NINDBLK))) (\<lambda>v.
       if v = 0 \<and> creat = 0 then kthen (brelse bp) (kret 0)
       else
         kthen (kwhen (v = 0) (kbind (balloc dev) (\<lambda>z. kthen (kmod (set_zmap bp (nr div NINDBLK) z))
           (kbind (kget (\<lambda>s. zmap s bp (nr div NINDBLK))) (\<lambda>w. kthen (bzero dev (scast w)) (bwrite bp))))))
         (kbind (kget (\<lambda>s. zmap s bp (nr div NINDBLK))) (\<lambda>w. kbind (bread (uint dev) (scast w)) (\<lambda>bp2.
           kthen (kbind (kget (\<lambda>s. zmap s bp2 (nr mod NINDBLK))) (\<lambda>v2. kwhen (v2 = 0 \<and> creat AND 1 \<noteq> 0)
             (kbind (balloc dev) (\<lambda>z. kthen (kmod (set_zmap bp2 (nr mod NINDBLK) z)) (bwrite bp2)))))
            (kthen (brelse bp) (kthen (brelse bp2) (kget (\<lambda>s. scast (zmap s bp2 (nr mod NINDBLK))))))))))))))"

definition bmap :: "nat \<Rightarrow> ushort \<Rightarrow> uchar \<Rightarrow> uint kop" where
  "bmap ip nr creat = kbind (kget (\<lambda>s. i_size (k_inode s ip))) (\<lambda>sz.
     if (ucast nr :: uint) > MAX_FILESIZ div 1024 \<or> (ucast nr > sz div 1024 \<and> creat = 0) then panic ''blk nr too big.''
     else if nr < 7 then bmap_direct ip (unat nr) creat
     else let nr' = unat nr - 7 in
       if nr' < NINDBLK then bmap_ind ip nr' creat
       else bmap_dbl ip (nr' - NINDBLK) creat)"

text \<open>
  \<^verbatim>\<open>itrunc\<close> declares the zone maps as arrays of (signed) bytes, and frees what it finds in the
  first 512 bytes of each.
\<close>

definition zmap_char :: "kernel \<Rightarrow> bnode \<Rightarrow> nat \<Rightarrow> uchar" where
  "zmap_char s bp k = b_data (k_buf s bp) k"

definition itrunc_map :: "ushort \<Rightarrow> bnode \<Rightarrow> unit kop" where
  "itrunc_map dev bp = kfor [0..<NINDBLK] (\<lambda>i. kbind (kget (\<lambda>s. zmap_char s bp i)) (\<lambda>c.
     kwhen (c \<noteq> 0) (kthen (bfree dev (scast c)) (kret ()))))"

definition itrunc :: "nat \<Rightarrow> int kop" where
  "itrunc ip = kbind (kget (\<lambda>s. k_inode s ip)) (\<lambda>i0.
     if i_mode i0 AND S_IFREG = 0 \<or> i_mode i0 AND S_IFDIR \<noteq> 0 then kret (-1)
     else let dev = i_dev i0 in
       kthen (kfor [0..<7] (\<lambda>i. kbind (kget (\<lambda>s. i_zone (k_inode s ip) i)) (\<lambda>z. kwhen (z \<noteq> 0)
         (kthen (bfree dev (ucast z)) (kthen (kmod (set_dirty ip)) (kmod (set_zone ip i 0)))))))
       (kthen (kbind (kget (\<lambda>s. i_zone (k_inode s ip) 7)) (\<lambda>z. kwhen (z \<noteq> 0)
         (kbind (bread (uint dev) (ucast z)) (\<lambda>bp. kthen (itrunc_map dev bp) (kthen (bfree dev (ucast z))
           (kthen (kmod (set_zone ip 7 0)) (brelse bp)))))))
       (kthen (kbind (kget (\<lambda>s. i_zone (k_inode s ip) 8)) (\<lambda>z. kwhen (z \<noteq> 0)
         (kbind (bread (uint dev) (ucast z)) (\<lambda>bp.
           kthen (kfor [0..<NINDBLK] (\<lambda>i. kbind (kget (\<lambda>s. zmap_char s bp i)) (\<lambda>c. kwhen (c \<noteq> 0)
             (kbind (bread (uint dev) (scast c)) (\<lambda>bp2. kthen (itrunc_map dev bp2) (kthen (brelse bp2)
               (kbind (kget (\<lambda>s. zmap_char s bp i)) (\<lambda>c'. kthen (bfree dev (scast c')) (kret ())))))))))
           (kthen (brelse bp) (kthen (bfree dev (ucast z)) (kmod (set_zone ip 8 0))))))))
       (kthen (kmod (ino_mod ip (\<lambda>i. i\<lparr>i_size := 0\<rparr>))) (kthen (iupdate ip) (kret 0))))))"

section \<open>Releasing an inode\<close>

text \<open>
  The close routines of the two device tables are \<^verbatim>\<open>nulldev\<close> for the one device each has; the
  first entry holds null pointers and there is no third.
\<close>

definition dev_close :: "uchar \<Rightarrow> unit kop" where
  "dev_close major = (if major = 1 then kthen nulldev (kret ()) else kstop (Fault ''d_close''))"

definition iput :: "nat option \<Rightarrow> unit kop" where
  "iput ipo = (case ipo of None \<Rightarrow> panic ''bad struct inode*'' | Some ip \<Rightarrow>
     kthen (kmod (ino_mod ip (\<lambda>i. i\<lparr>i_flag := i_flag i OR I_LOCK\<rparr>)))
     (kthen (kmod (ino_mod ip (\<lambda>i. if i_count i > 0 then i\<lparr>i_count := i_count i - 1\<rparr> else i)))
     (kthen (kbind (kget (\<lambda>s. k_inode s ip)) (\<lambda>i. kwhen (i_count i = 0)
        (kthen (kwhen (i_nlink i = 0) (kthen (itrunc ip) (ifree (i_dev i) (i_num i))))
        (kbind (kget (\<lambda>s. k_inode s ip)) (\<lambda>i'.
          kthen (kwhen (i_mode i' AND S_IFMT = S_IFBLK \<or> i_mode i' AND S_IFMT = S_IFCHR) (dev_close (MAJOR (i_zone i' 0))))
           (kthen (iupdate ip) (kmod (ino_mod ip (\<lambda>i. i\<lparr>i_flag := 0, i_num := 0\<rparr>)))))))))
      (unlk_ino ip))))"

section \<open>Reading and writing (rdwri.c)\<close>

lemma chunk:
  fixes rem off :: uint
  assumes "rem \<noteq> 0" and m: "m = min rem (1024 - off mod 1024)"
  shows "unat m = min (unat rem) (1024 - unat off mod 1024)" "0 < unat m" "m \<le> rem" "unat (rem - m) = unat rem - unat m"
    "unat (rem - m) < unat rem"
proof -
  have o: "unat (off mod 1024) = unat off mod 1024" by (simp add: unat_mod)
  then have "(off mod 1024) \<le> 1024" by (simp add: word_le_nat_alt)
  then have "unat (1024 - off mod 1024) = 1024 - unat off mod 1024" using o by (simp add: unat_sub)
  then show u: "unat m = min (unat rem) (1024 - unat off mod 1024)"
    by (simp add: m min_def word_le_nat_alt)
  have r: "0 < unat rem" using assms(1) by (simp add: unat_gt_0)
  then show "0 < unat m" using u by simp
  show le: "m \<le> rem" using m by simp
  then show "unat (rem - m) = unat rem - unat m" by (simp add: unat_sub)
  then show "unat (rem - m) < unat rem" using r \<open>0 < unat m\<close> by simp
qed

text \<open>
  The destination of \<^verbatim>\<open>readi\<close> is returned as the list of the bytes it stores one after the
  other, \<open>None\<close> where it leaves the byte alone. For a block that is not mapped the code clears
  the data of the buffer it last used, which is an undefined pointer in the first round.
\<close>

function readi_loop :: "nat \<Rightarrow> bnode option \<Rightarrow> uint \<Rightarrow> uint \<Rightarrow> uchar option list kop" where
  "readi_loop ip bpo off rem = (if rem = 0 then kret [] else
     let m = min rem (1024 - off mod 1024); o1 = unat (off mod 1024) in
     kbind (bmap ip (ucast (off div 1024)) 0) (\<lambda>bn.
     if bn = 0 then (case bpo of None \<Rightarrow> kstop (Fault ''bp'') | Some bp \<Rightarrow>
         kthen (kmod (set_data bp (put o1 (unat m) (\<lambda>_. 0))))
           (kbind (readi_loop ip (Some bp) (off + m) (rem - m)) (\<lambda>bs. kret (replicate (unat m) None @ bs))))
     else kbind (kget (\<lambda>s. i_dev (k_inode s ip))) (\<lambda>dev. kbind (bread (uint dev) bn) (\<lambda>bp.
       kbind (kget (\<lambda>s. map (\<lambda>j. Some (b_data (k_buf s bp) (o1 + j))) [0..<unat m])) (\<lambda>as.
       kthen (brelse bp) (kbind (readi_loop ip (Some bp) (off + m) (rem - m)) (\<lambda>bs. kret (as @ bs))))))))"
  by pat_completeness auto
termination
  by (relation "measure (\<lambda>(ip, bpo, off, rem). unat rem)") (simp_all add: chunk(5))

definition readi :: "nat \<Rightarrow> uint \<Rightarrow> uint \<Rightarrow> (int \<times> uchar option list) kop" where
  "readi ip off cnt = kbind (kget (\<lambda>s. i_size (k_inode s ip))) (\<lambda>sz.
     if off > sz \<or> off + cnt < off then kthen (cu_mod (\<lambda>p. p\<lparr>p_error := E2BIG\<rparr>)) (kret (-1, []))
     else let cnt' = (if off + cnt > sz then sz - off else cnt) in
       kbind (readi_loop ip None off cnt') (\<lambda>bs. kret (sint cnt', bs)))"

text \<open>The source of \<^verbatim>\<open>writei\<close> is the function of the bytes behind its buffer pointer.\<close>

function writei_loop :: "nat \<Rightarrow> (nat \<Rightarrow> uchar) \<Rightarrow> uint \<Rightarrow> uint \<Rightarrow> unit kop" where
  "writei_loop ip buf off rem = (if rem = 0 then kret () else
     let m = min rem (1024 - off mod 1024); o1 = unat (off mod 1024) in
     kbind (bmap ip (ucast (off div 1024)) 1) (\<lambda>bn.
     if bn = 0 then panic ''bad block.''
     else kbind (kget (\<lambda>s. i_dev (k_inode s ip))) (\<lambda>dev. kbind (bread (uint dev) bn) (\<lambda>bp.
       kthen (kmod (set_data bp (put o1 (unat m) buf)))
        (kthen (bwrite bp) (kthen (brelse bp)
          (writei_loop ip (\<lambda>j. buf (unat m + j)) (off + m) (rem - m))))))))"
  by pat_completeness auto
termination
  by (relation "measure (\<lambda>(ip, buf, off, rem). unat rem)") (simp_all add: chunk(5))

definition writei :: "nat \<Rightarrow> (nat \<Rightarrow> uchar) \<Rightarrow> uint \<Rightarrow> uint \<Rightarrow> int kop" where
  "writei ip buf off cnt =
     (if off + cnt < off then kret (-1)
      else let cnt' = (if off + cnt > MAX_FILESIZ then MAX_FILESIZ - off else cnt) in
       kthen (writei_loop ip buf off cnt')
        (kthen (kbind (kget (\<lambda>s. i_size (k_inode s ip))) (\<lambda>sz. kwhen (cnt' > 0 \<and> off + cnt' > sz)
           (kthen (kmod (ino_mod ip (\<lambda>i. i\<lparr>i_size := off + cnt'\<rparr>))) (iupdate ip))))
         (kret (sint cnt'))))"

declare readi_loop.simps [simp del] writei_loop.simps [simp del]

section \<open>Fields on the disk\<close>

lemma get16_byte16: "d k = byte16 w 0 \<Longrightarrow> d (k + 1) = byte16 w 1 \<Longrightarrow> get16 d k = w"
  by (rule bit_word_eqI) (auto simp: get16_def byte16_def bit_simps)

lemma byte16_get16: "byte16 (get16 d k) 0 = d k" "byte16 (get16 d k) 1 = d (k + 1)"
  by (rule bit_word_eqI, auto simp: get16_def byte16_def bit_simps dest: bit_imp_le_length)+

lemma get32_byte32:
  assumes "\<And>i. i < 4 \<Longrightarrow> d (k + i) = byte32 w i"
  shows "get32 d k = w"
proof -
  have d: "d k = byte32 w 0" "d (k + 1) = byte32 w 1" "d (k + 2) = byte32 w 2" "d (k + 2 + 1) = byte32 w 3"
    using assms [of 0] assms [of 1] assms [of 2] assms [of 3] by (auto simp: numeral_3_eq_3)
  have b: "byte32 w 0 = byte16 (ucast w) 0" "byte32 w 1 = byte16 (ucast w) 1"
    "byte32 w 2 = byte16 (ucast (drop_bit 16 w)) 0" "byte32 w 3 = byte16 (ucast (drop_bit 16 w)) 1"
    by (rule bit_word_eqI, simp add: byte32_def byte16_def bit_simps)+
  have "get16 d k = ucast w" "get16 d (k + 2) = ucast (drop_bit 16 w)"
    using d b get16_byte16 [of d k] get16_byte16 [of d "k + 2"] by auto
  then show ?thesis unfolding get32_def by (simp only:) (rule bit_word_eqI, auto simp: bit_simps)
qed

text \<open>An entry of the inode table that was written is read back.\<close>

lemma d_inode_roundtrip:
  "d_inode_load (put p 32 (d_inode_byte i) d) p j =
     j\<lparr>i_mode := i_mode i, i_uid := i_uid i, i_size := i_size i, i_mtime := i_mtime i, i_gid := i_gid i,
       i_nlink := i_nlink i, i_zone := (\<lambda>k. if k < 9 then i_zone i k else i_zone j k)\<rparr>"
proof -
  let ?d = "put p 32 (d_inode_byte i) d"
  have "get16 ?d p = i_mode i" "get16 ?d (p + 2) = i_uid i"
    by (rule get16_byte16; simp add: put_def d_inode_byte_def)+
  moreover have "get32 ?d (p + 4) = i_size i" "get32 ?d (p + 8) = i_mtime i"
    by (rule get32_byte32; simp add: put_def d_inode_byte_def)+
  moreover have "get16 ?d (p + 14 + 2 * k) = i_zone i k" if "k < 9" for k
    using that by (intro get16_byte16) (simp_all add: put_def d_inode_byte_def)
  moreover have "?d (p + 12) = i_gid i" "?d (p + 13) = i_nlink i" by (simp_all add: put_def d_inode_byte_def)
  ultimately show ?thesis unfolding d_inode_load_def by (simp cong: if_cong)
qed

lemma itab_off_le: "itab_off n + 32 \<le> BLK"
proof -
  have "unat ((n - 1) mod 32) < 32" by (simp add: unat_mod)
  then show ?thesis by (simp add: itab_off_def)
qed

lemma get_same: "same_blk d d' \<Longrightarrow> k + 2 \<le> BLK \<Longrightarrow> get16 d k = get16 d' k" "same_blk d d' \<Longrightarrow> k + 4 \<le> BLK \<Longrightarrow> get32 d k = get32 d' k"
  by (simp_all add: get16_def get32_def same_blk_def)

lemma d_inode_load_same: "same_blk d d' \<Longrightarrow> p + 32 \<le> BLK \<Longrightarrow> d_inode_load d p i = d_inode_load d' p i"
  unfolding d_inode_load_def using get_same [of d d'] by (simp add: same_blk_def cong: if_cong)

lemma put_same: "same_blk d d' \<Longrightarrow> same_blk (put p n b d) (put p n b d')"
  by (simp add: put_def same_blk_def)

lemmas opened_put = opened_write [where f = "put p n b" for p n b, OF _ put_same]

section \<open>Inodes and the block layer\<close>

lemma bio_inv_cong:
  assumes "k_buf s' = k_buf s" "k_disk s' = k_disk s" "k_nblkdev s' = k_nblkdev s" "k_proc s' = k_proc s" "k_cu s' = k_cu s"
  shows "bio_inv s' H = bio_inv s H"
proof -
  have l: "av_nx s' = av_nx s" "av_pv s' = av_pv s" "b_nx s' = b_nx s" "b_pv s' = b_pv s"
    using assms(1) by (simp_all add: link_defs fun_eq_iff)
  have "disk_blk s' = disk_blk s" using assms(2) by (rule disk_blk_cong)
  then have "cache s' H fs cs = cache s H fs cs" for fs cs
    unfolding cache_def l using assms(1) by (simp add: buf_ok_def)
  then show ?thesis using assms by (simp add: bio_inv_def drive_idle_def)
qed

lemma ino_mod_simps [simp]:
  "k_inode (ino_mod ip f s) = (k_inode s)(ip := f (k_inode s ip))" "k_buf (ino_mod ip f s) = k_buf s"
  "k_mnt (ino_mod ip f s) = k_mnt s" "k_proc (ino_mod ip f s) = k_proc s" "k_cu (ino_mod ip f s) = k_cu s"
  "k_disk (ino_mod ip f s) = k_disk s" "k_file (ino_mod ip f s) = k_file s"
  by (simp_all add: ino_mod_def)

lemma ino_mod_comp: "ino_mod ip f (ino_mod ip g s) = ino_mod ip (\<lambda>i. f (g i)) s"
  by (simp add: ino_mod_def)

lemma ino_mod_id: "f (k_inode s ip) = k_inode s ip \<Longrightarrow> ino_mod ip f s = s"
  by (simp add: ino_mod_def)

lemma ino_mod_bio [simp]:
  "held_inv (ino_mod ip f s) H = held_inv s H" "disk_blk (ino_mod ip f s) = disk_blk s"
  "keeps H (ino_mod ip f s) t = keeps H s t" "keeps H t (ino_mod ip f s) = keeps H t s"
  "mounted (ino_mod ip f s) sp = mounted s sp" "bio_inv (ino_mod ip f s) H' = bio_inv s H'"
proof -
  have "bio_inv (ino_mod ip f s) H = bio_inv s H" for H by (rule bio_inv_cong) (simp_all add: ino_mod_def)
  then show "held_inv (ino_mod ip f s) H = held_inv s H" "bio_inv (ino_mod ip f s) H' = bio_inv s H'"
    by (simp_all add: held_inv_def)
  show "disk_blk (ino_mod ip f s) = disk_blk s" by (rule disk_blk_cong) simp
qed (simp_all add: keeps_def mounted_def)

lemma bio_frame_ino_mod: "bio_frame s s' \<Longrightarrow> bio_frame (ino_mod ip f s) (ino_mod ip f s')"
proof -
  assume h: "bio_frame s s'"
  have "non_bio (ino_mod ip f t) = (non_bio t)\<lparr>k_inode := (k_inode t)(ip := f (k_inode t ip))\<rparr>" for t
    by (simp add: non_bio_def ino_mod_def)
  then show ?thesis using h bio_frame_fields(1) [OF h] by (simp add: bio_frame_def)
qed

lemma opened_ino_mod: "opened s H n bp s' \<Longrightarrow> opened (ino_mod ip f s) H n bp (ino_mod ip f s')"
  by (simp add: opened_def bio_frame_ino_mod)

lemma ino_mod_set_data: "ino_mod ip f (set_data bp g s) = set_data bp g (ino_mod ip f s)"
  by (simp add: ino_mod_def set_data_def b_mod_def)

lemma opened_no_error:
  assumes "opened s H n bp s'"
  shows "b_flag (k_buf s' bp) AND B_ERROR = 0"
proof -
  obtain H' where H': "insert bp H = Buff ` H'" "bio_inv s' H'"
    using assms by (auto simp: opened_def held_inv_def)
  then obtain i where i: "bp = Buff i" "i \<in> H'" by blast
  obtain fs cs where "cache s' H' fs cs" using H'(2) by (auto simp: bio_inv_def)
  from cache_held [OF this i(2)] show ?thesis using i(1) by (simp add: flags_ok_def)
qed

text \<open>\<open>ino_at s ip n\<close>: the entry of the inode lies in block \<open>n\<close> of the mounted root device.\<close>

definition ino_at :: "kernel \<Rightarrow> nat \<Rightarrow> uint \<Rightarrow> bool" where
  "ino_at s ip n \<longleftrightarrow> (\<exists>sp. mounted s sp \<and> n = IBLK (k_mnt s sp) (i_num (k_inode s ip))) \<and>
     i_dev (k_inode s ip) = rootdev \<and> blk_ok n"

lemma ino_bread_opened:
  assumes inv: "held_inv s H" "b_room H" "\<And>b. b \<in> H \<Longrightarrow> blkno_of s b \<noteq> n" and i: "ino_at s ip n"
  shows "\<exists>bp s'. ino_bread ip s = Ok bp s' \<and> opened s H n bp s'"
proof -
  obtain sp where sp: "mounted s sp" "n = IBLK (k_mnt s sp) (i_num (k_inode s ip))" "i_dev (k_inode s ip) = rootdev" "blk_ok n"
    using i by (auto simp: ino_at_def)
  obtain bp s' where o: "bread 0x100 n s = Ok bp s'" "opened s H n bp s'"
    using bread_opened [OF inv(1) sp(4) inv(2,3)] by blast
  then have "ino_bread ip s = Ok bp s'"
    using getsp_mounted [OF sp(1)] sp(2,3) opened_no_error [OF o(2)] by (simp add: ino_bread_def kop_simps)
  then show ?thesis using o(2) by blast
qed

lemma iload_Ok:
  assumes inv: "held_inv s H" "b_room H" "\<And>b. b \<in> H \<Longrightarrow> blkno_of s b \<noteq> n" and i: "ino_at s ip n"
    and f: "f = (\<lambda>i. d_inode_load (disk_blk s n) (itab_off (i_num i)) i)"
  shows "\<exists>s'. iload ip s = Ok 0 s' \<and> held_inv s' H \<and> bio_frame (ino_mod ip f s) s' \<and> disk_blk s' = disk_blk s \<and> keeps H s s'"
proof -
  obtain bp s1 where o: "ino_bread ip s = Ok bp s1" "opened s H n bp s1" using ino_bread_opened [OF inv i] by blast
  have "same_blk (data_of s1 bp) (disk_blk s n)" using o(2) by (simp add: opened_def)
  then have e: "ino_mod ip (\<lambda>i. d_inode_load (data_of s1 bp) (itab_off (i_num i)) i) s1 = ino_mod ip f s1"
    unfolding f using itab_off_le by (simp add: ino_mod_def d_inode_load_same [of "data_of s1 bp" "disk_blk s n"])
  obtain s2 where "brelse bp (ino_mod ip f s1) = Ok () s2" "held_inv s2 H" "bio_frame (ino_mod ip f s) s2"
    "disk_blk s2 = disk_blk s" "keeps H s s2"
    using opened_release [OF opened_ino_mod [OF o(2), of ip f]] by auto
  then show ?thesis using o(1) e by (auto simp: iload_def kop_simps)
qed

lemma iupdate_Ok:
  assumes inv: "held_inv s H" "b_room H" "\<And>b. b \<in> H \<Longrightarrow> blkno_of s b \<noteq> n" and i: "ino_at s ip n"
  shows "\<exists>s'. iupdate ip s = Ok () s' \<and> held_inv s' H \<and>
    bio_frame (ino_mod ip (\<lambda>i. i\<lparr>i_flag := i_flag i AND NOT I_DIRTY\<rparr>) s) s' \<and> keeps H s s' \<and>
    disk_upd s s' n (put (itab_off (i_num (k_inode s ip))) 32 (d_inode_byte (k_inode s ip)) (disk_blk s n))"
proof -
  let ?f = "\<lambda>i. i\<lparr>i_flag := i_flag i AND NOT I_DIRTY\<rparr>"
  let ?p = "put (itab_off (i_num (k_inode s ip))) 32 (d_inode_byte (k_inode s ip))"
  obtain bp s1 where o: "ino_bread ip s = Ok bp s1" "opened s H n bp s1" using ino_bread_opened [OF inv i] by blast
  have e: "k_inode s1 = k_inode s" using o(2) bio_frame_fields(1) [of s s1] by (simp add: opened_def)
  obtain s2 s3 where w: "bwrite bp (set_data bp ?p (ino_mod ip ?f s1)) = Ok () s2" "brelse bp s2 = Ok () s3"
    "held_inv s3 H" "bio_frame (ino_mod ip ?f s) s3" "disk_upd (ino_mod ip ?f s) s3 n (?p (disk_blk s n))" "keeps H s s3"
    using opened_put [OF opened_ino_mod [OF o(2), of ip ?f]] by fastforce
  have "iupdate ip s = Ok () s3"
    using o(1) w(1,2) e by (simp add: iupdate_def kop_simps ino_mod_set_data)
  then show ?thesis using w by (auto simp: disk_upd_def)
qed

section \<open>The blocks of a file\<close>

text \<open>
  The zone of block \<open>nr\<close> of a file, as the inode and the zone maps on the disk give it; 0 for a
  block that is not mapped. The entries of zone maps are shorts, so they are usable up to
  0x7FFF (\<open>zmaps_ok\<close>), and the map of zone 8 must not list itself.
\<close>

definition zent :: "kernel \<Rightarrow> uint \<Rightarrow> nat \<Rightarrow> ushort" where
  "zent s z k = get16 (disk_blk s z) (2 * k)"

definition zone_of :: "kernel \<Rightarrow> nat \<Rightarrow> nat \<Rightarrow> uint" where
  "zone_of s ip nr = (let i = k_inode s ip; z7 = ucast (i_zone i 7); z8 = ucast (i_zone i 8) in
     if nr < 7 then ucast (i_zone i nr)
     else if nr < 519 then if z7 = 0 then 0 else scast (zent s z7 (nr - 7))
     else let k = nr - 519; z = zent s z8 (k div 512) in
       if z8 = 0 \<or> z = 0 then 0 else scast (zent s (scast z) (k mod 512)))"

definition zmaps_ok :: "kernel \<Rightarrow> nat \<Rightarrow> bool" where
  "zmaps_ok s ip \<longleftrightarrow> (let z8 = ucast (i_zone (k_inode s ip) 8) in \<forall>k<512. z8 \<noteq> 0 \<longrightarrow>
     zent s z8 k < 0x8000 \<and> scast (zent s z8 k) \<noteq> z8)"

lemma zone_blk_ok: "blk_ok (ucast (z :: ushort))" "(z :: ushort) < 0x8000 \<Longrightarrow> scast z = (ucast z :: uint)"
proof -
  show "blk_ok (ucast z)" using unat_ushort [of z] by (simp add: word_less_nat_alt unat_ucast_up)
  assume h: "z < 0x8000"
  have "\<not> bit z 15" using h by (simp add: bit_iff_odd div_word_less)
  then have "bit (scast z :: uint) n \<longleftrightarrow> bit (ucast z :: uint) n" if "n < 32" for n
    using that by (cases "n \<le> 15") (auto simp: bit_simps min_def dest: bit_imp_le_length)
  then show "scast z = (ucast z :: uint)" by (intro bit_word_eqI) simp
qed

lemma ucast_zero: "(ucast (z :: ushort) :: uint) = 0 \<longleftrightarrow> z = 0"
proof -
  have "unat (ucast z :: uint) = unat z" by (rule unat_ucast_up) simp
  then show ?thesis by (metis unat_eq_zero)
qed

lemma zmap_opened: "opened s H n bp s' \<Longrightarrow> k < 512 \<Longrightarrow> zmap s' bp k = zent s n k"
  unfolding zmap_def zent_def by (rule get_same) (auto simp: opened_def)

lemma zmap_data: "data_of s' bp = data_of s bp \<Longrightarrow> zmap s' bp k = zmap s bp k"
  by (simp add: zmap_def)

lemma skip_when: "\<not> P (g s) \<Longrightarrow> kthen (kbind (kget g) (\<lambda>v. kwhen (P v) (m v))) n s = n s"
  by (simp add: kthen_def kbind_assoc kop_simps)

lemma bmap_top_lookup: "creat = 0 \<or> i_zone (k_inode s ip) k \<noteq> 0 \<Longrightarrow> bmap_top ip k creat s = Ok (i_zone (k_inode s ip) k \<noteq> 0) s"
  by (auto simp: bmap_top_def kop_simps)

lemma bmap_ind_lookup:
  assumes inv: "held_inv s {}" and dev: "i_dev (k_inode s ip) = rootdev" and k: "k < 512"
    and c: "creat = 0 \<or> zone_of s ip (k + 7) \<noteq> 0"
  shows "\<exists>s'. bmap_ind ip k creat s = Ok (zone_of s ip (k + 7)) s' \<and> held_inv s' {} \<and> bio_frame s s' \<and> disk_blk s' = disk_blk s"
proof (cases "i_zone (k_inode s ip) 7 = 0")
  case True
  then have "creat = 0" using c k by (simp add: zone_of_def Let_def)
  with True show ?thesis using inv k by (simp add: bmap_ind_def kop_simps kbind_Ok [OF bmap_top_lookup] zone_of_def Let_def)
next
  case False
  let ?z = "ucast (i_zone (k_inode s ip) 7) :: uint"
  obtain bp s1 where o: "bread 0x100 ?z s = Ok bp s1" "opened s {} ?z bp s1"
    using bread_opened [OF inv zone_blk_ok(1) held_empty(2)] by blast
  obtain s2 where s2: "brelse bp s1 = Ok () s2" "held_inv s2 {}" "bio_frame s s2" "disk_blk s2 = disk_blk s" "data_of s2 bp = data_of s1 bp"
    using opened_release [OF o(2)] by blast
  have "\<not> (zmap s1 bp k = 0 \<and> creat \<noteq> 0)"
    using c zmap_opened [OF o(2) k] False k by (auto simp: zone_of_def Let_def ucast_zero)
  then have "bmap_ind ip k creat s = Ok (scast (zmap s2 bp k)) s2"
    using False o(1) s2(1) dev by (simp add: bmap_ind_def skip_when kop_simps kbind_Ok [OF bmap_top_lookup])
  also have "scast (zmap s2 bp k) = zone_of s ip (k + 7)"
    using zmap_data [OF s2(5)] zmap_opened [OF o(2) k] False k by (simp add: zone_of_def Let_def ucast_zero)
  finally show ?thesis using s2 by blast
qed

lemma bmap_dbl_lookup:
  assumes inv: "held_inv s {}" and dev: "i_dev (k_inode s ip) = rootdev" and z: "zmaps_ok s ip" and k: "k < 512 * 512"
    and c: "creat = 0 \<or> zone_of s ip (k + 519) \<noteq> 0"
  shows "\<exists>s'. bmap_dbl ip k creat s = Ok (zone_of s ip (k + 519)) s' \<and> held_inv s' {} \<and> bio_frame s s' \<and> disk_blk s' = disk_blk s"
proof (cases "i_zone (k_inode s ip) 8 = 0")
  case True
  then have "creat = 0" using c by (simp add: zone_of_def Let_def)
  with True show ?thesis using inv k by (simp add: bmap_dbl_def kop_simps kbind_Ok [OF bmap_top_lookup] zone_of_def Let_def)
next
  case False
  let ?z = "ucast (i_zone (k_inode s ip) 8) :: uint" and ?w = "zent s (ucast (i_zone (k_inode s ip) 8)) (k div 512)"
  have k2: "k div 512 < 512" "k mod 512 < 512" using k by auto
  have zo: "zone_of s ip (k + 519) = (if ?w = 0 then 0 else scast (zent s (scast ?w) (k mod 512)))"
    using False by (simp add: zone_of_def Let_def ucast_zero)
  have w: "?w < 0x8000" "scast ?w \<noteq> ?z" using z k2(1) False by (auto simp: zmaps_ok_def Let_def ucast_zero)
  obtain bp s1 where o: "bread 0x100 ?z s = Ok bp s1" "opened s {} ?z bp s1"
    using bread_opened [OF inv zone_blk_ok(1) held_empty(2)] by blast
  have v: "zmap s1 bp (k div 512) = ?w" by (rule zmap_opened [OF o(2) k2(1)])
  have fr: "bio_frame s s1" "k_inode s1 = k_inode s" "disk_blk s1 = disk_blk s" "held_inv s1 {bp}" "blkno_of s1 bp = ?z"
    using o(2) bio_frame_fields(1) [of s s1] by (simp_all add: opened_def)
  show ?thesis
  proof (cases "?w = 0")
    case True
    then have c0: "creat = 0" using c zo by simp
    obtain s2 where s2: "brelse bp s1 = Ok () s2" "held_inv s2 {}" "bio_frame s s2" "disk_blk s2 = disk_blk s"
      using opened_release [OF o(2)] by blast
    then have "bmap_dbl ip k creat s = Ok 0 s2"
      using False o(1) dev True v c0 by (simp add: bmap_dbl_def kop_simps kbind_Ok [OF bmap_top_lookup])
    then show ?thesis using s2 zo True by auto
  next
    case nz: False
    have room: "b_room {bp}" unfolding b_room_def
      by (cases "bp = Buff 0") (auto intro: exI [of _ 1] exI [of _ 0])
    have "blk_ok (scast ?w)" using zone_blk_ok w(1) by simp
    then obtain bp2 s2 where o2: "bread 0x100 (scast ?w) s1 = Ok bp2 s2" "opened s1 {bp} (scast ?w) bp2 s2"
      using bread_opened [OF fr(4) _ room, of "scast ?w"] w(2) fr(5) by auto
    have h: "held_inv s2 {bp, bp2}" "bp2 \<noteq> bp" "data_of s2 bp = data_of s1 bp" "blkno_of s2 bp = ?z" "disk_blk s2 = disk_blk s"
      "blkno_of s2 bp2 = scast ?w" "same_blk (data_of s2 bp2) (disk_blk s (scast ?w))" "bio_frame s1 s2"
      using o2(2) fr(3,5) by (auto simp: opened_def keeps_def insert_commute)
    have "same_blk (data_of s1 bp) (disk_blk s ?z)" using o(2) by (simp add: opened_def)
    then obtain s3 where s3: "brelse bp s2 = Ok () s3" "held_inv s3 {bp2}" "bio_frame s2 s3" "disk_blk s3 = disk_blk s2"
        "blkno_of s3 bp2 = blkno_of s2 bp2" "data_of s3 bp2 = data_of s2 bp2"
      using bc.rl [OF h(1), of bp] h(2-5) by (auto simp: insert_Diff_if)
    obtain s4 where s4: "brelse bp2 s3 = Ok () s4" "held_inv s4 {}" "bio_frame s3 s4" "disk_blk s4 = disk_blk s3"
      using bc.rl [OF s3(2), of bp2] s3(4-6) h(5-7) by auto
    have "\<not> (zmap s2 bp2 (k mod 512) = 0 \<and> creat AND 1 \<noteq> 0)"
      using c zmap_opened [OF o2(2) k2(2)] zo nz fr(3) by (auto simp: zent_def)
    then have "bmap_dbl ip k creat s = Ok (scast (zmap s4 bp2 (k mod 512))) s4"
      using False o(1) o2(1) s3(1) s4(1) dev nz v by (simp add: bmap_dbl_def skip_when kop_simps kbind_Ok [OF bmap_top_lookup])
    also have "zmap s4 bp2 (k mod 512) = zent s (scast ?w) (k mod 512)"
      using zmap_data [of s4 bp2 s2] brelse_data [OF s4(1), of bp2] s3(6) zmap_opened [OF o2(2) k2(2)] fr(3) by (simp add: zent_def)
    finally have "bmap_dbl ip k creat s = Ok (zone_of s ip (k + 519)) s4" using zo nz by simp
    moreover have "bio_frame s s4"
      using bio_frame_trans [OF bio_frame_trans [OF bio_frame_trans [OF fr(1) h(8)] s3(3)] s4(3)] .
    ultimately show ?thesis using s4(2,4) s3(4) h(5) by auto
  qed
qed

lemma bmap_lookup:
  assumes inv: "held_inv s {}" and dev: "i_dev (k_inode s ip) = rootdev" and z: "zmaps_ok s ip"
    and nr: "unat nr \<le> unat (i_size (k_inode s ip)) div BLK"
    and c: "creat = 0 \<or> zone_of s ip (unat nr) \<noteq> 0"
  shows "\<exists>s'. bmap ip nr creat s = Ok (zone_of s ip (unat nr)) s' \<and> held_inv s' {} \<and> bio_frame s s' \<and> disk_blk s' = disk_blk s"
proof -
  have g: "\<not> ((ucast nr :: uint) > MAX_FILESIZ div 1024 \<or> ucast nr > i_size (k_inode s ip) div 1024)"
    using nr unat_ushort [of nr] by (simp add: word_less_nat_alt word_le_nat_alt unat_ucast_up unat_div not_less)
  consider "unat nr < 7" | k where "unat nr = k + 7" "k < 512" | k where "unat nr = k + 519" "k < 512 * 512"
  proof -
    assume a: "unat nr < 7 \<Longrightarrow> thesis" "\<And>k. unat nr = k + 7 \<Longrightarrow> k < 512 \<Longrightarrow> thesis"
      "\<And>k. unat nr = k + 519 \<Longrightarrow> k < 512 * 512 \<Longrightarrow> thesis"
    show thesis using a(1) a(2) [of "unat nr - 7"] a(3) [of "unat nr - 519"] unat_ushort [of nr] by linarith
  qed
  then show ?thesis
  proof cases
    case 1
    then have "nr < 7" by (simp add: word_less_nat_alt)
    moreover have "\<not> (i_zone (k_inode s ip) (unat nr) = 0 \<and> creat \<noteq> 0)" using c 1 by (auto simp: zone_of_def Let_def)
    ultimately show ?thesis using g inv 1 by (auto simp: bmap_def bmap_direct_def kop_simps zone_of_def Let_def)
  next
    case 2
    then have "\<not> nr < 7" by (simp add: word_less_nat_alt)
    then have "bmap ip nr creat s = bmap_ind ip k creat s" using g 2 by (auto simp: bmap_def kop_simps)
    then show ?thesis using bmap_ind_lookup [OF inv dev 2(2), of creat] 2 c by simp
  next
    case 3
    then have "\<not> nr < 7" by (simp add: word_less_nat_alt)
    then have "bmap ip nr creat s = bmap_dbl ip k creat s" using g 3 by (auto simp: bmap_def kop_simps)
    then show ?thesis using bmap_dbl_lookup [OF inv dev z 3(2), of creat] 3 c by simp
  qed
qed

section \<open>The bytes of a file\<close>

definition file_byte :: "kernel \<Rightarrow> nat \<Rightarrow> nat \<Rightarrow> uchar" where
  "file_byte s ip p = disk_blk s (zone_of s ip (p div BLK)) (p mod BLK)"

text \<open>
  \<open>file_ok s ip\<close>: a file of the root device with usable zone maps, not larger than the 65536
  blocks that \<^verbatim>\<open>bmap\<close> can address with its 16-bit block numbers. \<open>mapped s ip lo hi\<close>: the
  blocks of the bytes from \<open>lo\<close> to \<open>hi\<close> are present.
\<close>

definition file_ok :: "kernel \<Rightarrow> nat \<Rightarrow> bool" where
  "file_ok s ip \<longleftrightarrow> i_dev (k_inode s ip) = rootdev \<and> zmaps_ok s ip \<and> i_size (k_inode s ip) \<le> 0x4000000"

definition mapped :: "kernel \<Rightarrow> nat \<Rightarrow> nat \<Rightarrow> nat \<Rightarrow> bool" where
  "mapped s ip lo hi \<longleftrightarrow> (\<forall>p. lo \<le> p \<longrightarrow> p < hi \<longrightarrow> zone_of s ip (p div BLK) \<noteq> 0 \<and> blk_ok (zone_of s ip (p div BLK)))"

lemma view_cong:
  assumes "k_inode s' ip = k_inode s ip" "disk_blk s' = disk_blk s"
  shows "zone_of s' ip = zone_of s ip" "file_byte s' ip = file_byte s ip" "zmaps_ok s' ip = zmaps_ok s ip"
    "file_ok s' ip = file_ok s ip" "mapped s' ip = mapped s ip"
proof -
  have z: "zent s' = zent s" by (intro ext) (simp add: zent_def assms(2))
  show zo: "zone_of s' ip = zone_of s ip" unfolding zone_of_def z assms(1) ..
  show "file_byte s' ip = file_byte s ip" unfolding file_byte_def zo assms(2) ..
  show zm: "zmaps_ok s' ip = zmaps_ok s ip" unfolding zmaps_ok_def z assms(1) ..
  show "file_ok s' ip = file_ok s ip" unfolding file_ok_def zm assms(1) ..
  show "mapped s' ip = mapped s ip" unfolding mapped_def zo ..
qed

text \<open>A chunk stays within one block.\<close>

lemma chunk_block:
  fixes p m j :: nat
  assumes "m \<le> 1024 - p mod 1024" "j < m"
  shows "(p + j) div 1024 = p div 1024" "(p + j) mod 1024 = p mod 1024 + j"
proof -
  have "p mod 1024 + j < 1024" using assms by linarith
  moreover have "p + j = p div 1024 * 1024 + (p mod 1024 + j)" by simp
  ultimately show "(p + j) div 1024 = p div 1024" "(p + j) mod 1024 = p mod 1024 + j"
    by (metis add.commute div_mult_self3 div_less add_0 zero_neq_numeral, metis mod_mult_self3 mod_less)
qed

lemma upt_split: "m \<le> n \<Longrightarrow> [0..<n] = [0..<m] @ map (\<lambda>j. m + j) [0..<n - m]"
  using upt_add_eq_append [of 0 m "n - m"] map_add_upt [of m "n - m"] by (simp add: add.commute)

lemma readi_loop_Ok:
  assumes "held_inv s {}" "file_ok s ip" "unat off + unat rem \<le> unat (i_size (k_inode s ip))"
    "mapped s ip (unat off) (unat off + unat rem)"
  shows "\<exists>s'. readi_loop ip bpo off rem s = Ok (map (\<lambda>j. Some (file_byte s ip (unat off + j))) [0..<unat rem]) s' \<and>
    held_inv s' {} \<and> bio_frame s s' \<and> disk_blk s' = disk_blk s"
  using assms
proof (induction ip bpo off rem arbitrary: s rule: readi_loop.induct)
  case (1 ip bpo off rem)
  show ?case
  proof (cases "rem = 0")
    case True
    then show ?thesis using "1.prems"(1) by (subst readi_loop.simps) (simp add: kop_simps)
  next
    case False
    define m where "m = min rem (1024 - off mod 1024)"
    note c = chunk [OF False m_def]
    let ?o = "unat off" and ?z = "zone_of s ip (unat off div BLK)"
    have size: "unat (i_size (k_inode s ip)) \<le> 0x4000000" "i_dev (k_inode s ip) = rootdev" "zmaps_ok s ip"
      using "1.prems"(2) by (simp_all add: file_ok_def word_le_nat_alt)
    have r0: "0 < unat rem" using False by (simp add: unat_gt_0)
    have "unat (off div 1024) < 65536" using size(1) "1.prems"(3) r0 by (simp add: unat_div)
    then have nr: "unat (ucast (off div 1024) :: ushort) = ?o div BLK"
      by (simp add: unsigned_ucast_eq take_bit_nat_eq_self unat_div)
    have le: "unat (ucast (off div 1024) :: ushort) \<le> unat (i_size (k_inode s ip)) div BLK"
      unfolding nr using "1.prems"(3) by (intro div_le_mono) simp
    obtain s1 where s1: "bmap ip (ucast (off div 1024)) 0 s = Ok ?z s1" "held_inv s1 {}" "bio_frame s s1" "disk_blk s1 = disk_blk s"
      using bmap_lookup [OF "1.prems"(1) size(2,3) le, of 0] nr by auto
    have z: "?z \<noteq> 0" "blk_ok ?z" using "1.prems"(4) r0 by (auto simp: mapped_def)
    obtain bp s2 where o: "bread 0x100 ?z s1 = Ok bp s2" "opened s1 {} ?z bp s2"
      using bread_opened [OF s1(2) z(2) held_empty(2)] by blast
    obtain s3 where s3: "brelse bp s2 = Ok () s3" "held_inv s3 {}" "bio_frame s1 s3" "disk_blk s3 = disk_blk s1"
      using opened_release [OF o(2)] by blast
    have fr: "bio_frame s s3" "disk_blk s3 = disk_blk s" "k_inode s3 = k_inode s" "k_inode s1 = k_inode s"
      using bio_frame_trans [OF s1(3) s3(3)] s1 s3 bio_frame_fields(1) by auto
    have v: "file_ok s3 ip" "mapped s3 ip = mapped s ip" "file_byte s3 ip = file_byte s ip"
      using view_cong [of s3 ip s] fr "1.prems"(2) by simp_all
    have off: "unat (off + m) = ?o + unat m"
      using c(1) size(1) "1.prems"(3) by (simp add: unat_word_ariths)
    have tot: "unat (off + m) + unat (rem - m) = ?o + unat rem" using off c(1,4) by simp
    obtain s4 where s4: "readi_loop ip (Some bp) (off + m) (rem - m) s3 =
        Ok (map (\<lambda>j. Some (file_byte s3 ip (unat (off + m) + j))) [0..<unat (rem - m)]) s4"
      "held_inv s4 {}" "bio_frame s3 s4" "disk_blk s4 = disk_blk s3"
      using "1.IH"(2) [OF False m_def refl z(1) s3(2) v(1)] tot "1.prems"(3,4) v(2) fr(3) off
      by (auto simp: mapped_def)
    have d: "data_of s2 bp (unat (off mod 1024) + j) = file_byte s ip (?o + j)" if "j < unat m" for j
    proof -
      have b: "(?o + j) div BLK = ?o div BLK" "(?o + j) mod BLK = unat (off mod 1024) + j"
        using chunk_block [of "unat m" ?o j] c(1) that by (simp_all add: unat_mod)
      have "unat (off mod 1024) = ?o mod BLK" "unat m \<le> BLK - ?o mod BLK" using c(1) by (simp_all add: unat_mod)
      then have "unat (off mod 1024) + j < BLK" using that by linarith
      then show ?thesis using o(2) s1(4) b by (simp add: opened_def same_blk_def file_byte_def)
    qed
    let ?as = "map (\<lambda>j. Some (data_of s2 bp (unat (off mod 1024) + j))) [0..<unat m]"
    let ?bs = "map (\<lambda>j. Some (file_byte s3 ip (unat (off + m) + j))) [0..<unat (rem - m)]"
    have "readi_loop ip bpo off rem s = Ok (?as @ ?bs) s4"
      using s1(1) o(1) s3(1) s4(1) z(1) False size(2) fr(4)
      by (subst readi_loop.simps) (simp add: m_def [symmetric] Let_def kop_simps)
    also have "?as @ ?bs = map (\<lambda>j. Some (file_byte s ip (?o + j))) [0..<unat rem]"
    proof -
      have "unat m \<le> unat rem" using c(1) by simp
      from upt_split [OF this] show ?thesis using d by (simp add: v(3) off c(4) add.assoc)
    qed
    finally show ?thesis using s4 fr(1,2) bio_frame_trans [OF fr(1) s4(3)] by auto
  qed
qed

section \<open>Writing\<close>

text \<open>
  \<open>map_zones\<close>: the zones of the zone maps of a file. A block is \<open>separate\<close> when its zone is
  neither one of these nor that of another block of the file.
\<close>

definition map_zones :: "kernel \<Rightarrow> nat \<Rightarrow> uint set" where
  "map_zones s ip = (let z7 = ucast (i_zone (k_inode s ip) 7); z8 = ucast (i_zone (k_inode s ip) 8) in
     {z. z \<noteq> 0 \<and> (z = z7 \<or> z = z8 \<or> (z8 \<noteq> 0 \<and> (\<exists>k<512. z = scast (zent s z8 k))))})"

definition separate :: "kernel \<Rightarrow> nat \<Rightarrow> nat \<Rightarrow> bool" where
  "separate s ip nr \<longleftrightarrow> zone_of s ip nr \<notin> map_zones s ip \<and>
     (\<forall>nr'<65536. zone_of s ip nr' = zone_of s ip nr \<longrightarrow> nr' = nr)"

lemma sep_cong:
  assumes "k_inode s' ip = k_inode s ip" "disk_blk s' = disk_blk s"
  shows "separate s' ip = separate s ip"
proof -
  have z: "zent s' = zent s" by (intro ext) (simp add: zent_def assms(2))
  show ?thesis by (intro ext) (simp add: separate_def map_zones_def z view_cong(1) [OF assms] assms(1))
qed

lemma zent_upd:
  assumes "disk_upd s s' z d" "z \<noteq> n" "blk_ok n"
  shows "zent s' n k = zent s n k"
  using assms by (simp add: zent_def disk_upd_def)

lemma block_write_view:
  assumes u: "disk_upd s s' (zone_of s ip nr) d" and i: "k_inode s' ip = k_inode s ip" and sep: "separate s ip nr"
    and z: "zmaps_ok s ip"
  shows "\<And>m. m < 65536 \<Longrightarrow> zone_of s' ip m = zone_of s ip m" "zmaps_ok s' ip" "map_zones s' ip = map_zones s ip"
proof -
  let ?i = "k_inode s ip"
  let ?z7 = "ucast (i_zone ?i 7) :: uint" and ?z8 = "ucast (i_zone ?i 8) :: uint"
  have n: "zone_of s ip nr \<noteq> z" if "z \<in> map_zones s ip" for z using sep that by (auto simp: separate_def)
  have z7: "zent s' ?z7 k = zent s ?z7 k" if "?z7 \<noteq> 0" for k
    using that by (intro zent_upd [OF u n zone_blk_ok(1)]) (simp add: map_zones_def Let_def)
  have z8: "zent s' ?z8 k = zent s ?z8 k" if "?z8 \<noteq> 0" for k
    using that by (intro zent_upd [OF u n zone_blk_ok(1)]) (simp add: map_zones_def Let_def)
  have zz: "zent s' (scast (zent s ?z8 k)) j = zent s (scast (zent s ?z8 k)) j" if "?z8 \<noteq> 0" "k < 512" "zent s ?z8 k \<noteq> 0" for k j
  proof (rule zent_upd [OF u n])
    have lo: "zent s ?z8 k < 0x8000" using z that by (auto simp: zmaps_ok_def Let_def)
    then have e: "scast (zent s ?z8 k) = (ucast (zent s ?z8 k) :: uint)" by (rule zone_blk_ok(2))
    then show "blk_ok (scast (zent s ?z8 k))" using zone_blk_ok(1) by simp
    show "scast (zent s ?z8 k) \<in> map_zones s ip" using that e by (auto simp: map_zones_def Let_def ucast_zero)
  qed
  show "zmaps_ok s' ip" using z z8 by (simp add: zmaps_ok_def Let_def i)
  show "map_zones s' ip = map_zones s ip" using z8 by (auto simp: map_zones_def Let_def i)
  show "zone_of s' ip m = zone_of s ip m" if "m < 65536" for m
  proof -
    have "(m - 519) div 512 < 512" using that by (simp add: less_mult_imp_div_less)
    then show ?thesis using z7 z8 zz by (auto simp: zone_of_def Let_def i)
  qed
qed

text \<open>
  \<open>stored s s' ip buf lo n\<close>: the bytes \<open>buf\<close> are stored at \<open>lo\<close>, the rest of the file, its zones
  and the other blocks of the disk are as before.
\<close>

definition stored :: "kernel \<Rightarrow> kernel \<Rightarrow> nat \<Rightarrow> (nat \<Rightarrow> uchar) \<Rightarrow> nat \<Rightarrow> nat \<Rightarrow> bool" where
  "stored s s' ip buf lo n \<longleftrightarrow>
     (\<forall>p<0x4000000. blk_ok (zone_of s ip (p div BLK)) \<longrightarrow>
       file_byte s' ip p = (if lo \<le> p \<and> p < lo + n then buf (p - lo) else file_byte s ip p)) \<and>
     (\<forall>nr<65536. zone_of s' ip nr = zone_of s ip nr) \<and>
     (\<forall>m. blk_ok m \<longrightarrow> (\<forall>p. lo \<le> p \<longrightarrow> p < lo + n \<longrightarrow> m \<noteq> zone_of s ip (p div BLK)) \<longrightarrow> disk_blk s' m = disk_blk s m)"

lemma stored_block:
  assumes u: "disk_upd s s' (zone_of s ip (lo div BLK)) (put (lo mod BLK) n buf (disk_blk s (zone_of s ip (lo div BLK))))"
    and i: "k_inode s' ip = k_inode s ip" and sep: "separate s ip (lo div BLK)" and z: "zmaps_ok s ip"
    and n: "n \<le> BLK - lo mod BLK" "0 < n" and lo: "lo < 0x4000000"
  shows "stored s s' ip buf lo n"
proof -
  let ?nr = "lo div BLK"
  note v = block_write_view [OF u i sep z]
  have "file_byte s' ip p = (if lo \<le> p \<and> p < lo + n then buf (p - lo) else file_byte s ip p)"
    if p: "p < 0x4000000" "blk_ok (zone_of s ip (p div BLK))" for p
  proof -
    have pn: "p div BLK < 65536" using p(1) by (simp add: less_mult_imp_div_less)
    have zo: "zone_of s' ip (p div BLK) = zone_of s ip (p div BLK)" by (rule v(1) [OF pn])
    show ?thesis
    proof (cases "p div BLK = ?nr")
      case True
      have r: "lo \<le> p \<longleftrightarrow> lo mod BLK \<le> p mod BLK" "p - lo = p mod BLK - lo mod BLK"
        "p < lo + n \<longleftrightarrow> p mod BLK < lo mod BLK + n"
        using True div_mult_mod_eq [of p BLK] div_mult_mod_eq [of lo BLK] by linarith+
      have "p mod BLK < BLK" by simp
      then show ?thesis using u zo True r by (simp add: file_byte_def disk_upd_def same_blk_def put_def)
    next
      case False
      then have "zone_of s ip (p div BLK) \<noteq> zone_of s ip ?nr" using sep pn by (auto simp: separate_def)
      then have "file_byte s' ip p = file_byte s ip p" using u zo p(2) by (simp add: file_byte_def disk_upd_def)
      moreover have "\<not> (lo \<le> p \<and> p < lo + n)"
      proof
        assume "lo \<le> p \<and> p < lo + n"
        then have "p = lo + (p - lo)" "p - lo < n" by auto
        then show False using chunk_block(1) [OF n(1), of "p - lo"] False by simp
      qed
      ultimately show ?thesis by auto
    qed
  qed
  moreover have "disk_blk s' m = disk_blk s m"
    if m: "blk_ok m" "\<forall>p. lo \<le> p \<longrightarrow> p < lo + n \<longrightarrow> m \<noteq> zone_of s ip (p div BLK)" for m
    using u m n(2) by (auto simp: disk_upd_def)
  ultimately show ?thesis using v(1) by (simp add: stored_def)
qed

lemma stored_trans:
  assumes a: "stored s t ip buf lo m" and b: "stored t u ip (\<lambda>j. buf (m + j)) (lo + m) n"
    and r: "lo + m + n \<le> 0x4000000"
  shows "stored s u ip buf lo (m + n)"
proof -
  have z: "zone_of t ip (p div BLK) = zone_of s ip (p div BLK)" if "p < 0x4000000" for p
    using a that by (simp add: stored_def less_mult_imp_div_less)
  have "file_byte u ip p = (if lo \<le> p \<and> p < lo + (m + n) then buf (p - lo) else file_byte s ip p)"
    if p: "p < 0x4000000" "blk_ok (zone_of s ip (p div BLK))" for p
  proof -
    have "file_byte u ip p = (if lo + m \<le> p \<and> p < lo + m + n then buf (m + (p - (lo + m))) else file_byte t ip p)"
      using b p z [OF p(1)] by (simp add: stored_def)
    moreover have "file_byte t ip p = (if lo \<le> p \<and> p < lo + m then buf (p - lo) else file_byte s ip p)"
      using a p by (simp add: stored_def)
    moreover have "m + (p - (lo + m)) = p - lo" if "lo + m \<le> p" using that by linarith
    ultimately show ?thesis by auto
  qed
  moreover have "disk_blk u k = disk_blk s k"
    if k: "blk_ok k" "\<forall>p. lo \<le> p \<longrightarrow> p < lo + (m + n) \<longrightarrow> k \<noteq> zone_of s ip (p div BLK)" for k
  proof -
    have "k \<noteq> zone_of t ip (p div BLK)" if "lo + m \<le> p" "p < lo + m + n" for p
      using k(2) z [of p] that r by auto
    then have "disk_blk u k = disk_blk t k" using b k(1) by (simp add: stored_def)
    moreover have "disk_blk t k = disk_blk s k" using a k by (simp add: stored_def)
    ultimately show ?thesis by simp
  qed
  ultimately show ?thesis using a b by (simp add: stored_def)
qed

text \<open>The blocks of the bytes from \<open>lo\<close> to \<open>hi\<close> can be written without an allocation.\<close>

definition writable :: "kernel \<Rightarrow> nat \<Rightarrow> nat \<Rightarrow> nat \<Rightarrow> bool" where
  "writable s ip lo hi \<longleftrightarrow> mapped s ip lo hi \<and> (\<forall>p. lo \<le> p \<longrightarrow> p < hi \<longrightarrow> separate s ip (p div BLK))"

lemma writable_block_write:
  assumes "writable s ip lo hi" "hi \<le> 0x4000000" "disk_upd s s' (zone_of s ip nr) d" "k_inode s' ip = k_inode s ip"
    "separate s ip nr" "zmaps_ok s ip"
  shows "writable s' ip lo hi"
proof -
  note v = block_write_view [OF assms(3-6)]
  have b: "p div BLK < 65536" if "p < hi" for p using that assms(2) by (simp add: less_mult_imp_div_less)
  then have z: "zone_of s' ip (p div BLK) = zone_of s ip (p div BLK)" if "p < hi" for p using v(1) that by blast
  then have "mapped s' ip lo hi" using assms(1) by (simp add: writable_def mapped_def)
  moreover have "separate s' ip (p div BLK)" if p: "lo \<le> p" "p < hi" for p
    using assms(1) p z [OF p(2)] v(1,3) by (auto simp: writable_def separate_def)
  ultimately show ?thesis by (simp add: writable_def)
qed

lemma writei_loop_Ok:
  assumes "held_inv s {}" "file_ok s ip" "unat off + unat rem \<le> unat (i_size (k_inode s ip))"
    "writable s ip (unat off) (unat off + unat rem)"
  shows "\<exists>s'. writei_loop ip buf off rem s = Ok () s' \<and> held_inv s' {} \<and> bio_frame s s' \<and>
    stored s s' ip buf (unat off) (unat rem) \<and> zmaps_ok s' ip"
  using assms
proof (induction ip buf off rem arbitrary: s rule: writei_loop.induct)
  case (1 ip buf off rem)
  have size: "unat (i_size (k_inode s ip)) \<le> 0x4000000" "i_dev (k_inode s ip) = rootdev" "zmaps_ok s ip"
    using "1.prems"(2) by (simp_all add: file_ok_def word_le_nat_alt)
  show ?case
  proof (cases "rem = 0")
    case True
    then show ?thesis using "1.prems"(1) size(3) by (subst writei_loop.simps) (auto simp: kop_simps stored_def)
  next
    case False
    define m where "m = min rem (1024 - off mod 1024)"
    note c = chunk [OF False m_def]
    let ?o = "unat off" and ?nr = "unat off div BLK" and ?z = "zone_of s ip (unat off div BLK)"
    have r0: "0 < unat rem" using False by (simp add: unat_gt_0)
    have "unat (off div 1024) < 65536" using size(1) "1.prems"(3) r0 by (simp add: unat_div)
    then have nr: "unat (ucast (off div 1024) :: ushort) = ?nr"
      by (simp add: unsigned_ucast_eq take_bit_nat_eq_self unat_div)
    have le: "unat (ucast (off div 1024) :: ushort) \<le> unat (i_size (k_inode s ip)) div BLK"
      unfolding nr using "1.prems"(3) by (intro div_le_mono) simp
    have z: "?z \<noteq> 0" "blk_ok ?z" "separate s ip ?nr" using "1.prems"(4) r0 by (auto simp: writable_def mapped_def)
    obtain s1 where s1: "bmap ip (ucast (off div 1024)) 1 s = Ok ?z s1" "held_inv s1 {}" "bio_frame s s1" "disk_blk s1 = disk_blk s"
      using bmap_lookup [OF "1.prems"(1) size(2,3) le, of 1] nr z(1) by auto
    obtain bp s2 where o: "bread 0x100 ?z s1 = Ok bp s2" "opened s1 {} ?z bp s2"
      using bread_opened [OF s1(2) z(2) held_empty(2)] by blast
    let ?p = "put (unat (off mod 1024)) (unat m) buf"
    obtain s3 s4 where w: "bwrite bp (set_data bp ?p s2) = Ok () s3" "brelse bp s3 = Ok () s4" "held_inv s4 {}"
      "bio_frame s1 s4" "disk_upd s1 s4 ?z (?p (disk_blk s1 ?z))"
      using opened_put [OF o(2)] by blast
    have fr: "bio_frame s s4" "k_inode s4 = k_inode s" "k_inode s1 = k_inode s"
      using bio_frame_trans [OF s1(3) w(4)] s1(3) bio_frame_fields(1) by auto
    have om: "unat (off mod 1024) = ?o mod BLK" "unat m \<le> BLK - ?o mod BLK" using c(1) by (simp_all add: unat_mod)
    have u: "disk_upd s s4 ?z (put (?o mod BLK) (unat m) buf (disk_blk s ?z))"
      using w(5) s1(4) om(1) by (simp add: disk_upd_def)
    have ie: "k_inode s4 ip = k_inode s ip" using fr(2) by simp
    have st: "stored s s4 ip buf ?o (unat m)"
      using size(1) "1.prems"(3) r0 by (intro stored_block [OF u ie z(3) size(3) om(2) c(2)]) simp
    have off: "unat (off + m) = ?o + unat m"
      using c(1) size(1) "1.prems"(3) by (simp add: unat_word_ariths)
    have tot: "unat (off + m) + unat (rem - m) = ?o + unat rem" "unat m + unat (rem - m) = unat rem" using off c(1,4) by simp_all
    have fo: "file_ok s4 ip" using "1.prems"(2) block_write_view(2) [OF u ie z(3) size(3)] ie by (simp add: file_ok_def)
    have "writable s4 ip ?o (?o + unat rem)"
      using size(1) "1.prems"(3) by (intro writable_block_write [OF "1.prems"(4) _ u ie z(3) size(3)]) simp
    then have wr: "writable s4 ip (unat (off + m)) (unat (off + m) + unat (rem - m))"
      unfolding tot(1) by (simp add: writable_def mapped_def off)
    obtain s5 where s5: "writei_loop ip (\<lambda>j. buf (unat m + j)) (off + m) (rem - m) s4 = Ok () s5" "held_inv s5 {}"
      "bio_frame s4 s5" "stored s4 s5 ip (\<lambda>j. buf (unat m + j)) (unat (off + m)) (unat (rem - m))" "zmaps_ok s5 ip"
      using "1.IH" [OF False m_def refl z(1) w(3) fo _ wr] tot "1.prems"(3) ie by auto
    have "writei_loop ip buf off rem s = Ok () s5"
      using s1(1) o(1) w(1,2) s5(1) z(1) False size(2) fr(3)
      by (subst writei_loop.simps) (simp add: m_def [symmetric] Let_def kop_simps)
    moreover have "stored s s5 ip buf ?o (unat rem)"
      using stored_trans [OF st s5(4) [unfolded off]] size(1) "1.prems"(3) tot(2) off tot(1) by auto
    ultimately show ?thesis using s5(2,5) bio_frame_trans [OF fr(1) s5(3)] by blast
  qed
qed

lemma uint_range:
  assumes "unat off + unat cnt \<le> unat sz" "sz \<le> (0x4000000 :: uint)"
  shows "\<not> off > sz" "\<not> off + cnt < off" "\<not> off + cnt > sz" "unat (off + cnt) = unat off + unat cnt" "sint cnt = int (unat cnt)"
proof -
  have b: "unat sz \<le> 0x4000000" using assms(2) by (simp add: word_le_nat_alt)
  then show u: "unat (off + cnt) = unat off + unat cnt" using assms(1) by (simp add: unat_word_ariths)
  show "\<not> off > sz" "\<not> off + cnt < off" "\<not> off + cnt > sz"
    using assms(1) u by (simp_all add: word_less_nat_alt)
  have "unat cnt < 2147483648" using b assms(1) by linarith
  then have "int (unat cnt) < int 2147483648" by (simp only: of_nat_less_iff)
  then have "uint cnt < 2 ^ 31" by simp
  moreover have "- (2 ^ 31) \<le> uint cnt" by (rule order_trans [OF _ uint_ge_0]) simp
  ultimately show "sint cnt = int (unat cnt)"
    unfolding sint_uint uint_nat [symmetric] by (simp add: signed_take_bit_int_eq_self)
qed

lemma readi_Ok:
  assumes "held_inv s {}" "file_ok s ip" "unat off \<le> unat (i_size (k_inode s ip))" "unat off + unat cnt < 2 ^ 32"
    and n: "n = min (unat cnt) (unat (i_size (k_inode s ip)) - unat off)" "mapped s ip (unat off) (unat off + n)"
  shows "\<exists>s'. readi ip off cnt s = Ok (int n, map (\<lambda>j. Some (file_byte s ip (unat off + j))) [0..<n]) s' \<and>
    held_inv s' {} \<and> bio_frame s s' \<and> disk_blk s' = disk_blk s"
proof -
  let ?sz = "i_size (k_inode s ip)"
  define c where "c = (if off + cnt > ?sz then ?sz - off else cnt)"
  have u: "unat (off + cnt) = unat off + unat cnt" using assms(4) by (simp add: unat_word_ariths)
  have "unat (?sz - off) = unat ?sz - unat off" using assms(3) by (simp add: unat_sub word_le_nat_alt)
  then have cn: "unat c = n" using u n(1) assms(3) by (auto simp: c_def word_less_nat_alt)
  then have le: "unat off + unat c \<le> unat ?sz" using n(1) assms(3) by auto
  have "?sz \<le> 0x4000000" using assms(2) by (simp add: file_ok_def)
  note r = uint_range [OF le this]
  obtain s' where "readi_loop ip None off c s = Ok (map (\<lambda>j. Some (file_byte s ip (unat off + j))) [0..<unat c]) s'"
    "held_inv s' {}" "bio_frame s s'" "disk_blk s' = disk_blk s"
    using readi_loop_Ok [OF assms(1,2) le] n(2) cn by blast
  moreover have "\<not> off + cnt < off" using u by (simp add: word_less_nat_alt)
  ultimately show ?thesis using r(1,5) cn by (auto simp: readi_def kop_simps c_def [symmetric])
qed

lemma writei_Ok:
  assumes "held_inv s {}" "file_ok s ip" "unat off + unat cnt \<le> unat (i_size (k_inode s ip))"
    "writable s ip (unat off) (unat off + unat cnt)"
  shows "\<exists>s'. writei ip buf off cnt s = Ok (int (unat cnt)) s' \<and> held_inv s' {} \<and> bio_frame s s' \<and>
    stored s s' ip buf (unat off) (unat cnt) \<and> zmaps_ok s' ip"
proof -
  have sz: "i_size (k_inode s ip) \<le> 0x4000000" using assms(2) by (simp add: file_ok_def)
  note r = uint_range [OF assms(3) sz]
  obtain s' where w: "writei_loop ip buf off cnt s = Ok () s'" "held_inv s' {}" "bio_frame s s'"
    "stored s s' ip buf (unat off) (unat cnt)" "zmaps_ok s' ip"
    using writei_loop_Ok [OF assms] by blast
  have "\<not> off + cnt > MAX_FILESIZ" using r(4) assms(3) sz by (simp add: word_less_nat_alt word_le_nat_alt)
  then have "writei ip buf off cnt s = Ok (int (unat cnt)) s'"
    using w(1) r(2,3,5) bio_frame_fields(1) [OF w(3)] by (simp add: writei_def kop_simps)
  then show ?thesis using w by blast
qed

lemma iget_unfold: "iget dev num = iget_loop (Suc 17) dev num"
  by (simp add: iget_def)

text \<open>Releasing an inode that has other references.\<close>

lemma iput_shared:
  assumes "i_count (k_inode s ip) > 1" "i_flag (k_inode s ip) AND I_WANTED = 0"
  shows "iput (Some ip) s = Ok () (ino_mod ip (\<lambda>i. i\<lparr>i_count := i_count i - 1,
    i_flag := i_flag i AND NOT (I_LOCK OR I_WANTED)\<rparr>) s)"
proof -
  let ?f = "i_flag (k_inode s ip)" and ?c = "i_count (k_inode s ip)"
  have f: "(?f OR 1) AND 2 = 0" "(?f OR 1) AND NOT 3 = ?f AND NOT 3"
    using assms(2) by (simp_all add: bit.conj_disj_distrib2)
  have c: "0 < ?c" "?c \<noteq> 1" using assms(1) by (auto simp: word_less_nat_alt)
  then have "?c - 1 \<noteq> 0" by simp
  then show ?thesis using f c by (simp add: iput_def unlk_ino_def kop_simps) (simp add: ino_mod_def)
qed

section \<open>Properties\<close>

text \<open>
  C8: inodes survive the disk. After \<^verbatim>\<open>iupdate\<close> of an in-core inode the entry on the disk
  holds it: \<^verbatim>\<open>iload\<close> into any in-core inode of the same number gives that inode the mode,
  owner, size, time, link count and the nine zones, and keeps its in-core fields.
  All other blocks, and the other entries of the inode's block, are unchanged.
\<close>

theorem iupdate_iload_roundtrip:
  assumes inv: "bio_inv s {}" and i: "ino_at s ip n"
    and j: "i_num (k_inode s jp) = i_num (k_inode s ip)" "i_dev (k_inode s jp) = rootdev"
  shows "\<exists>s' s''. iupdate ip s = Ok () s' \<and> bio_inv s' {} \<and>
    (\<forall>m. blk_ok m \<longrightarrow> m \<noteq> n \<longrightarrow> disk_blk s' m = disk_blk s m) \<and>
    (\<forall>k<BLK. k < itab_off (i_num (k_inode s ip)) \<or> itab_off (i_num (k_inode s ip)) + 32 \<le> k \<longrightarrow>
      disk_blk s' n k = disk_blk s n k) \<and>
    iload jp s' = Ok 0 s'' \<and> bio_inv s'' {} \<and>
    k_inode s'' jp = (k_inode s' jp)\<lparr>i_mode := i_mode (k_inode s ip), i_uid := i_uid (k_inode s ip),
      i_size := i_size (k_inode s ip), i_mtime := i_mtime (k_inode s ip), i_gid := i_gid (k_inode s ip),
      i_nlink := i_nlink (k_inode s ip),
      i_zone := (\<lambda>k. if k < 9 then i_zone (k_inode s ip) k else i_zone (k_inode s' jp) k)\<rparr>"
proof -
  let ?i = "k_inode s ip" and ?p = "itab_off (i_num (k_inode s ip))"
  have h: "held_inv s {}" using inv held_empty(1) by blast
  obtain s1 where s1: "iupdate ip s = Ok () s1" "held_inv s1 {}"
    "bio_frame (ino_mod ip (\<lambda>i. i\<lparr>i_flag := i_flag i AND NOT I_DIRTY\<rparr>) s) s1"
    "disk_upd s s1 n (put ?p 32 (d_inode_byte ?i) (disk_blk s n))"
    using iupdate_Ok [OF h held_empty(2) _ i] by blast
  have mnt: "k_mnt s1 = k_mnt s" "k_inode s1 = (k_inode s)(ip := ?i\<lparr>i_flag := i_flag ?i AND NOT I_DIRTY\<rparr>)"
    using bio_frame_fields(1,2) [OF s1(3)] by simp_all
  then have nj: "i_num (k_inode s1 jp) = i_num ?i" "i_dev (k_inode s1 jp) = rootdev" using j by auto
  then have at: "ino_at s1 jp n" using i mnt(1) by (auto simp: ino_at_def mounted_def)
  obtain s2 where s2: "iload jp s1 = Ok 0 s2" "held_inv s2 {}"
    "bio_frame (ino_mod jp (\<lambda>i. d_inode_load (disk_blk s1 n) (itab_off (i_num i)) i) s1) s2"
    using iload_Ok [OF s1(2) held_empty(2) _ at refl] by blast
  have same: "same_blk (disk_blk s1 n) (put ?p 32 (d_inode_byte ?i) (disk_blk s n))" using s1(4) by (simp add: disk_upd_def)
  have "k_inode s2 jp = d_inode_load (disk_blk s1 n) ?p (k_inode s1 jp)"
    using bio_frame_fields(1) [OF s2(3)] nj by simp
  also have "\<dots> = d_inode_load (put ?p 32 (d_inode_byte ?i) (disk_blk s n)) ?p (k_inode s1 jp)"
    by (rule d_inode_load_same [OF same itab_off_le])
  finally have "k_inode s2 jp = d_inode_load (put ?p 32 (d_inode_byte ?i) (disk_blk s n)) ?p (k_inode s1 jp)" .
  moreover have "disk_blk s1 n k = disk_blk s n k" if "k < BLK" "k < ?p \<or> ?p + 32 \<le> k" for k
    using same that by (auto simp: same_blk_def put_def)
  ultimately show ?thesis
    using s1 s2 held_empty(1) unfolding d_inode_roundtrip disk_upd_def by blast
qed

text \<open>
  C7: \<^verbatim>\<open>bmap\<close> implements the map from the blocks of a file to the zones of the disk. For a
  block within the file, looked up without creation or present anyway, it returns the zone
  that the inode, its zone map and its double zone map give on the disk, reads these maps
  and releases them, and changes nothing.
\<close>

theorem bmap_refines_zone_of:
  assumes "bio_inv s {}" "i_dev (k_inode s ip) = rootdev" "zmaps_ok s ip"
    "unat nr \<le> unat (i_size (k_inode s ip)) div BLK" "creat = 0 \<or> zone_of s ip (unat nr) \<noteq> 0"
  shows "\<exists>s'. bmap ip nr creat s = Ok (zone_of s ip (unat nr)) s' \<and> bio_inv s' {} \<and> bio_frame s s' \<and> disk_blk s' = disk_blk s"
  using bmap_lookup [OF _ assms(2-5)] assms(1) held_empty(1) by blast

text \<open>
  Reading a file. \<^verbatim>\<open>readi\<close> of a range that starts within the file returns the bytes of
  the file there, as many as asked for and the file has, for every position and length,
  across blocks and through the zone maps; nothing on the disk or in the inodes changes.
  A start behind the end returns -1 and sets the error code.
\<close>

theorem readi_reads_file:
  assumes inv: "bio_inv s {}" and f: "file_ok s ip" and c: "unat off + unat cnt < 2 ^ 32"
    and n: "n = min (unat cnt) (unat (i_size (k_inode s ip)) - unat off)" "mapped s ip (unat off) (unat off + n)"
  shows "if unat off \<le> unat (i_size (k_inode s ip))
    then \<exists>s'. readi ip off cnt s = Ok (int n, map (\<lambda>j. Some (file_byte s ip (unat off + j))) [0..<n]) s' \<and>
      bio_inv s' {} \<and> bio_frame s s' \<and> disk_blk s' = disk_blk s
    else \<exists>s'. readi ip off cnt s = Ok (-1, []) s' \<and> map_option p_error (k_proc s' (k_cu s')) = Some E2BIG"
proof (cases "unat off \<le> unat (i_size (k_inode s ip))")
  case True
  then show ?thesis using readi_Ok [OF _ f _ c n] inv held_empty(1) by auto
next
  case False
  obtain p where "k_proc s (k_cu s) = Some p" using inv by (auto simp: bio_inv_def)
  then show ?thesis using False by (simp add: readi_def kop_simps word_less_nat_alt)
qed

text \<open>
  C6: writing a file. \<^verbatim>\<open>writei\<close> into blocks the file has returns the count, stores exactly the
  given bytes at the given offset, leaves every other byte of the file and every block that
  does not hold them unchanged, and \<^verbatim>\<open>readi\<close> of the range then returns the bytes written.
\<close>

theorem writei_readi_roundtrip:
  assumes inv: "bio_inv s {}" and f: "file_ok s ip" and c: "unat off + unat cnt \<le> unat (i_size (k_inode s ip))"
    and w: "writable s ip (unat off) (unat off + unat cnt)"
  shows "\<exists>s' s''. writei ip buf off cnt s = Ok (int (unat cnt)) s' \<and> bio_inv s' {} \<and> bio_frame s s' \<and>
    stored s s' ip buf (unat off) (unat cnt) \<and>
    readi ip off cnt s' = Ok (int (unat cnt), map (\<lambda>j. Some (buf j)) [0..<unat cnt]) s''"
proof -
  obtain s1 where s1: "writei ip buf off cnt s = Ok (int (unat cnt)) s1" "held_inv s1 {}" "bio_frame s s1"
    "stored s s1 ip buf (unat off) (unat cnt)" "zmaps_ok s1 ip"
    using writei_Ok [OF _ f c w] inv held_empty(1) by blast
  have i: "k_inode s1 = k_inode s" by (rule bio_frame_fields(1) [OF s1(3)])
  then have f1: "file_ok s1 ip" using f s1(5) by (simp add: file_ok_def)
  have sz: "unat (i_size (k_inode s ip)) \<le> 0x4000000" using f by (simp add: file_ok_def word_le_nat_alt)
  have z: "zone_of s1 ip (p div BLK) = zone_of s ip (p div BLK)" if "p < unat off + unat cnt" for p
    using s1(4) that c sz by (simp add: stored_def less_mult_imp_div_less)
  then have m: "mapped s1 ip (unat off) (unat off + unat cnt)" using w by (simp add: writable_def mapped_def)
  have b: "file_byte s1 ip (unat off + j) = buf j" if "j < unat cnt" for j
  proof -
    have "blk_ok (zone_of s ip ((unat off + j) div BLK))" using w that by (simp add: writable_def mapped_def)
    then show ?thesis using s1(4) that c sz by (simp add: stored_def)
  qed
  have "unat cnt = min (unat cnt) (unat (i_size (k_inode s1 ip)) - unat off)" using c i by simp
  from readi_Ok [OF s1(2) f1 _ _ this m] i c sz
  obtain s2 where "readi ip off cnt s1 = Ok (int (unat cnt), map (\<lambda>j. Some (file_byte s1 ip (unat off + j))) [0..<unat cnt]) s2"
    by auto
  moreover have "map (\<lambda>j. Some (file_byte s1 ip (unat off + j))) [0..<unat cnt] = map (\<lambda>j. Some (buf j)) [0..<unat cnt]"
    using b by simp
  ultimately show ?thesis using s1 held_empty(1) by auto
qed

text \<open>
  Getting an inode that is not in core. \<^verbatim>\<open>iget\<close> takes the first entry without
  references, gives it the device and number, one reference and the lock, and fills it from
  the entry on the disk; the other in-core inodes and the disk are unchanged.
\<close>

theorem iget_loads_inode:
  assumes inv: "bio_inv s {}" and m: "mounted s sp"
    and nc: "\<forall>i<NINODE. \<not> (i_dev (k_inode s i) = rootdev \<and> i_num (k_inode s i) = num)"
    and ip: "ip < NINODE" "i_count (k_inode s ip) = 0" "\<forall>i<ip. i_count (k_inode s i) \<noteq> 0"
    and n: "n = IBLK (k_mnt s sp) num" "blk_ok n"
  shows "\<exists>s'. iget rootdev num s = Ok (Some ip) s' \<and> bio_inv s' {} \<and> disk_blk s' = disk_blk s \<and> k_mnt s' = k_mnt s \<and>
    k_inode s' = (k_inode s)(ip := d_inode_load (disk_blk s n) (itab_off num)
      ((k_inode s ip)\<lparr>i_dev := rootdev, i_num := num, i_flag := I_LOCK, i_count := 1\<rparr>))"
proof -
  let ?g = "\<lambda>i. i\<lparr>i_dev := rootdev, i_num := num, i_flag := I_LOCK, i_count := i_count i + 1\<rparr>"
  let ?s = "ino_mod ip ?g s"
  have at: "ino_at ?s ip n" using m n by (auto simp: ino_at_def)
  have h: "held_inv ?s {}" using inv held_empty(1) by simp
  obtain s' where s': "iload ip ?s = Ok 0 s'" "held_inv s' {}" "disk_blk s' = disk_blk s"
    "bio_frame (ino_mod ip (\<lambda>i. d_inode_load (disk_blk s n) (itab_off (i_num i)) i) ?s) s'"
    using iload_Ok [OF h held_empty(2) _ at refl] by auto
  have "scan (\<lambda>i. i_dev (k_inode s i) = rootdev \<and> i_num (k_inode s i) = num) 0 NINODE = None"
    using nc by (simp add: scan_None_iff)
  moreover have "scan (\<lambda>i. i_count (k_inode s i) = 0) 0 NINODE = Some ip" using ip by (simp add: scan_Some_iff)
  ultimately have "iget rootdev num s = Ok (Some ip) s'"
    using s'(1) unfolding iget_unfold iget_loop.simps(2) by (simp add: kop_simps)
  moreover have "k_inode s' = (k_inode s)(ip := d_inode_load (disk_blk s n) (itab_off num)
      ((k_inode s ip)\<lparr>i_dev := rootdev, i_num := num, i_flag := I_LOCK, i_count := 1\<rparr>))"
    using bio_frame_fields(1) [OF s'(4)] ip(2) by simp
  moreover have "k_mnt s' = k_mnt s" using bio_frame_fields(2) [OF s'(4)] by simp
  ultimately show ?thesis using s'(2,3) held_empty(1) by blast
qed

text \<open>
  Getting an inode that is in core and in use, not locked, not waited for and not a mount
  point: \<^verbatim>\<open>iget\<close> returns its entry with one more reference and locked, and \<^verbatim>\<open>iput\<close> restores
  the kernel state exactly.
\<close>

theorem iget_iput_in_core:
  assumes ip: "ip < NINODE" "i_dev (k_inode s ip) = dev" "i_num (k_inode s ip) = num"
    and first: "\<forall>i<ip. \<not> (i_dev (k_inode s i) = dev \<and> i_num (k_inode s i) = num)"
    and fl: "i_flag (k_inode s ip) AND 3 = 0" "i_flag (k_inode s ip) AND I_MOUNT = 0"
    and c: "0 < i_count (k_inode s ip)" "i_count (k_inode s ip) < 0xFFFF"
  shows "\<exists>s'. iget dev num s = Ok (Some ip) s' \<and>
    s' = ino_mod ip (\<lambda>i. i\<lparr>i_count := i_count i + 1, i_flag := i_flag i OR I_LOCK\<rparr>) s \<and> iput (Some ip) s' = Ok () s"
proof -
  let ?i = "k_inode s ip"
  let ?s = "ino_mod ip (\<lambda>i. i\<lparr>i_count := i_count i + 1, i_flag := i_flag i OR I_LOCK\<rparr>) s"
  have f: "i_flag ?i AND 1 = 0" "i_flag ?i AND 2 = 0" "i_flag ?i AND NOT 3 = i_flag ?i"
    using low_flags [OF fl(1)] by simp_all
  have "scan (\<lambda>i. i_dev (k_inode s i) = dev \<and> i_num (k_inode s i) = num) 0 NINODE = Some ip"
    using ip first by (simp add: scan_Some_iff)
  then have "iget dev num s = Ok (Some ip) ?s"
    using f(1) fl(2) unfolding iget_unfold iget_loop.simps(2) by (simp add: kop_simps)
  moreover have "iput (Some ip) ?s = Ok () s"
  proof -
    have "unat (i_count ?i) < 65535" "0 < unat (i_count ?i)" using c by (simp_all add: word_less_nat_alt)
    then have n: "1 < i_count ?i + 1" by (simp add: word_less_nat_alt unat_word_ariths)
    have g: "(i_flag ?i OR 1) AND 2 = 0" "(i_flag ?i OR 1) AND NOT 3 = i_flag ?i"
      using f(2,3) by (simp_all add: bit.conj_disj_distrib2)
    have "iput (Some ip) ?s = Ok () (ino_mod ip (\<lambda>i. i\<lparr>i_count := i_count i - 1, i_flag := i_flag i AND NOT (I_LOCK OR I_WANTED)\<rparr>) ?s)"
      by (rule iput_shared) (simp_all add: n g(1))
    also have "\<dots> = Ok () s" unfolding ino_mod_comp using g(2) by (simp add: ino_mod_id)
    finally show ?thesis .
  qed
  ultimately show ?thesis by blast
qed

section \<open>Witnesses\<close>

text \<open>A file of 3000 bytes in the zones 10, 11 and 12, as inode 2 in entry 5 of the table.\<close>

definition small_inode :: inode where
  "small_inode = zero_inode\<lparr>i_mode := S_IFREG, i_size := 3000, i_nlink := 1,
     i_zone := (\<lambda>_. 0)(0 := 10, 1 := 11, 2 := 12), i_count := 1, i_dev := rootdev, i_num := 2\<rparr>"

definition small_file :: kernel where
  "small_file = ino_mod 5 (\<lambda>_. small_inode) small_fs"

lemma small_file_Ok:
  "bio_inv small_file {}" "mounted small_file 0" "k_inode small_file 5 = small_inode" "file_ok small_file 5"
  "ino_at small_file 5 4" "zone_of small_file 5 nr = (if nr < 3 then 10 + of_nat nr else 0)"
  "writable small_file 5 lo 3000"
proof -
  show "bio_inv small_file {}" "mounted small_file 0" "k_inode small_file 5 = small_inode"
    using small_fs_Ok(1,2) by (simp_all add: small_file_def)
  note i = this
  have z: "i_zone small_inode 7 = 0" "i_zone small_inode 8 = 0" by (simp_all add: small_inode_def)
  show "file_ok small_file 5" by (simp add: file_ok_def zmaps_ok_def i(3) z) (simp add: small_inode_def)
  have "k_mnt small_file 0 = small_super" using small_fs_Ok(3) by (simp add: small_file_def)
  then show "ino_at small_file 5 4" using i(2,3)
    by (auto simp: ino_at_def IBLK_def small_inode_def small_super_def intro!: exI [of _ 0])
  have zo: "zone_of small_file 5 nr = (if nr < 3 then 10 + of_nat nr else 0)" for nr
  proof -
    consider "nr = 0" | "nr = 1" | "nr = 2" | "3 \<le> nr" by linarith
    then show ?thesis by cases (simp_all add: zone_of_def i(3) Let_def z small_inode_def)
  qed
  then show "zone_of small_file 5 nr = (if nr < 3 then 10 + of_nat nr else 0)" .
  have three: "nr = 0 \<or> nr = 1 \<or> nr = 2" if "nr < 3" for nr :: nat using that by linarith
  have nz: "10 + (of_nat nr :: uint) \<noteq> 0" "blk_ok (10 + of_nat nr)" if "nr < 3" for nr :: nat
    using three [OF that] by auto
  have inj: "nr = nr'" if "10 + (of_nat nr :: uint) = 10 + of_nat nr'" "nr < 3" "nr' < 3" for nr nr' :: nat
    using that(1) three [OF that(2)] three [OF that(3)] by auto
  have "map_zones small_file 5 = {}" by (auto simp: map_zones_def Let_def i(3) z)
  then have "separate small_file 5 nr" if "nr < 3" for nr
    using inj that nz(1) [OF that] by (auto simp: separate_def zo split: if_splits)
  moreover have "p div BLK < 3" if "p < 3000" for p using that by (simp add: less_mult_imp_div_less)
  ultimately show "writable small_file 5 lo 3000" using nz by (simp add: writable_def mapped_def zo)
qed

theorem iupdate_iload_roundtrip_witness:
  "\<exists>s' s''. iupdate 5 small_file = Ok () s' \<and> iload 5 s' = Ok 0 s'' \<and> i_size (k_inode s'' 5) = 3000"
  using iupdate_iload_roundtrip [OF small_file_Ok(1,5), of 5] by (auto simp: small_file_Ok(3) small_inode_def)

theorem bmap_refines_zone_of_witness:
  "\<exists>s'. bmap 5 2 1 small_file = Ok 12 s' \<and> bio_inv s' {}"
  using bmap_refines_zone_of [OF small_file_Ok(1), of 5 2 1] small_file_Ok(4)
  by (auto simp: small_file_Ok(3,6) file_ok_def small_inode_def)

theorem readi_reads_file_witness:
  "\<exists>s'. readi 5 1000 5000 small_file = Ok (2000, map (\<lambda>j. Some (file_byte small_file 5 (1000 + j))) [0..<2000]) s'"
proof -
  have "mapped small_file 5 1000 3000" using small_file_Ok(7) by (simp add: writable_def)
  then show ?thesis
    using readi_reads_file [OF small_file_Ok(1,4), of 1000 5000 2000] by (simp add: small_file_Ok(3) small_inode_def del: upt.simps) blast
qed

theorem writei_readi_roundtrip_witness:
  "\<exists>s' s''. writei 5 (\<lambda>j. of_nat j) 1000 200 small_file = Ok 200 s' \<and>
    readi 5 1000 200 s' = Ok (200, map (\<lambda>j. Some (of_nat j)) [0..<200]) s''"
proof -
  have "writable small_file 5 1000 1200" using small_file_Ok(7) [of 1000] by (simp add: writable_def mapped_def)
  then show ?thesis
    using writei_readi_roundtrip [OF small_file_Ok(1,4), of 1000 200 "\<lambda>j. of_nat j"]
    by (simp add: small_file_Ok(3) small_inode_def del: upt.simps) blast
qed

lemma small_file_inodes: "k_inode small_file i = (if i = 5 then small_inode else zero_inode)"
proof -
  let ?s = "two_procs\<lparr>k_mnt := (\<lambda>_. zero_super)(0 := small_super)\<rparr>"
  have "b_flag (k_buf ?s Hdtab) = 0" "k_proc ?s (k_cu ?s) \<noteq> None"
    by (simp_all add: two_procs_def boot_kernel_def zero_buf_def)
  from fs_state_Ok(4) [OF this] show ?thesis
    by (simp add: small_file_def small_fs_def two_procs_def boot_kernel_def)
qed

theorem iget_loads_inode_witness:
  "\<exists>s'. iget rootdev 1 small_file = Ok (Some 0) s' \<and> i_count (k_inode s' 0) = 1 \<and> i_flag (k_inode s' 0) = I_LOCK"
proof -
  have m: "k_mnt small_file 0 = small_super" using small_fs_Ok(3) by (simp add: small_file_def)
  have "\<forall>i<NINODE. \<not> (i_dev (k_inode small_file i) = rootdev \<and> i_num (k_inode small_file i) = 1)"
    by (simp add: small_file_inodes small_inode_def zero_inode_def)
  from iget_loads_inode [OF small_file_Ok(1,2) this, of 0 4] show ?thesis
    by (auto simp: small_file_inodes zero_inode_def m IBLK_def small_super_def d_inode_load_def)
qed

theorem iget_iput_in_core_witness:
  "\<exists>s'. iget rootdev 2 small_file = Ok (Some 5) s' \<and> iput (Some 5) s' = Ok () small_file"
  using iget_iput_in_core [of 5 small_file rootdev 2]
  by (auto simp: small_file_inodes small_inode_def zero_inode_def)

end
