(* ===== verification/Strings.thy ===== *)
theory Strings
  imports Prelude
begin

text \<open>
  The memory and string routines of \<^verbatim>\<open>src/lib/string.c\<close>, and the routines that
  \<^verbatim>\<open>usr/libsys/string.c\<close> has besides. Memory is a function from addresses to bytes, a
  pointer is an address. The routines that run until they meet a null byte may not
  return: they are partial functions, with \<open>None\<close> for a scan that never ends.
  \<open>cstr m p xs\<close> says that the string \<open>xs\<close> with its terminator is stored at \<open>p\<close>; the
  lemmas show what each routine does on stored strings, and that it returns there.
\<close>

type_synonym mem = "nat \<Rightarrow> uchar"

section \<open>The routines\<close>

primrec memcpy :: "nat \<Rightarrow> nat \<Rightarrow> nat \<Rightarrow> mem \<Rightarrow> mem" where
  "memcpy dp sp 0 m = m"
| "memcpy dp sp (Suc n) m = (let m' = memcpy dp sp n m in m'(dp + n := m' (sp + n)))"

primrec memset :: "nat \<Rightarrow> uchar \<Rightarrow> nat \<Rightarrow> mem \<Rightarrow> mem" where
  "memset dp val 0 m = m"
| "memset dp val (Suc n) m = (memset dp val n m)(dp + n := val)"

text \<open>\<^verbatim>\<open>memsetw\<close> stores 16-bit values, low byte first.\<close>

primrec memsetw :: "nat \<Rightarrow> ushort \<Rightarrow> nat \<Rightarrow> mem \<Rightarrow> mem" where
  "memsetw dp val 0 m = m"
| "memsetw dp val (Suc n) m =
     (memsetw dp val n m)(dp + 2 * n := ucast val, dp + 2 * n + 1 := ucast (drop_bit 8 val))"

partial_function (option) str_end :: "mem \<Rightarrow> nat \<Rightarrow> nat option" where
  "str_end m sp = (if m sp \<noteq> 0 then str_end m (sp + 1) else Some sp)"

definition strlen :: "mem \<Rightarrow> nat \<Rightarrow> nat option" where
  "strlen m str = map_option (\<lambda>sp. sp - str) (str_end m str)"

text \<open>The loop of \<^verbatim>\<open>strnlen\<close> also looks at the byte at \<^verbatim>\<open>str + len\<close>.\<close>

function strnlen_loop :: "mem \<Rightarrow> nat \<Rightarrow> nat \<Rightarrow> nat" where
  "strnlen_loop m sp e = (if m sp \<noteq> 0 \<and> sp \<le> e then strnlen_loop m (sp + 1) e else sp)"
  by pat_completeness auto
termination by (relation "measure (\<lambda>(m, sp, e). Suc e - sp)") auto

definition strnlen :: "mem \<Rightarrow> nat \<Rightarrow> nat \<Rightarrow> nat" where
  "strnlen m str len = strnlen_loop m str (str + len) - str"

partial_function (option) strcpy :: "nat \<Rightarrow> nat \<Rightarrow> mem \<Rightarrow> mem option" where
  "strcpy dst src m = (let c = m src; m' = m(dst := c) in
     if c \<noteq> 0 then strcpy (dst + 1) (src + 1) m' else Some m')"

text \<open>
  The first loop of \<^verbatim>\<open>strncpy\<close> stops after \<^verbatim>\<open>cnt\<close> bytes or behind the terminator, which
  it has copied without counting it; the second writes \<^verbatim>\<open>cnt - 1\<close> more null bytes.
\<close>

primrec strncpy :: "nat \<Rightarrow> nat \<Rightarrow> nat \<Rightarrow> mem \<Rightarrow> mem" where
  "strncpy dst src 0 m = m"
| "strncpy dst src (Suc cnt) m = (let c = m src; m' = m(dst := c) in
     if c \<noteq> 0 then strncpy (dst + 1) (src + 1) cnt m' else memset (dst + 1) 0 cnt m')"

partial_function (option) strchr :: "mem \<Rightarrow> nat \<Rightarrow> uchar \<Rightarrow> nat option option" where
  "strchr m tmp c = (if m tmp \<noteq> 0 then if m tmp = c then Some (Some tmp) else strchr m (tmp + 1) c
     else if m tmp = c then Some (Some tmp) else Some None)"

partial_function (option) strcmp :: "mem \<Rightarrow> nat \<Rightarrow> mem \<Rightarrow> nat \<Rightarrow> int option" where
  "strcmp m1 s1 m2 s2 = (if m1 s1 = m2 s2 then
     if m1 s1 = 0 then Some 0 else strcmp m1 (s1 + 1) m2 (s2 + 1)
     else Some (int (unat (m1 s1)) - int (unat (m2 s2))))"

primrec strncmp :: "mem \<Rightarrow> nat \<Rightarrow> mem \<Rightarrow> nat \<Rightarrow> nat \<Rightarrow> int" where
  "strncmp m1 s1 m2 s2 0 = 0"
| "strncmp m1 s1 m2 s2 (Suc n) = (if m1 s1 \<noteq> m2 s2 then int (unat (m1 s1)) - int (unat (m2 s2))
     else if m1 s1 = 0 then 0 else strncmp m1 (s1 + 1) m2 (s2 + 1) n)"

definition strcat :: "nat \<Rightarrow> nat \<Rightarrow> mem \<Rightarrow> mem option" where
  "strcat dst src m = Option.bind (str_end m dst) (\<lambda>tmp. strcpy tmp src m)"

text \<open>The copying loop of \<^verbatim>\<open>strncat\<close>, entered with a positive count.\<close>

primrec strncat_loop :: "nat \<Rightarrow> nat \<Rightarrow> nat \<Rightarrow> mem \<Rightarrow> mem" where
  "strncat_loop tmp src 0 m = m(tmp := 0)"
| "strncat_loop tmp src (Suc n) m = (let c = m src; m' = m(tmp := c) in
     if c \<noteq> 0 then strncat_loop (tmp + 1) (src + 1) n m' else m')"

definition strncat :: "nat \<Rightarrow> nat \<Rightarrow> nat \<Rightarrow> mem \<Rightarrow> mem option" where
  "strncat dst src n m = (if n = 0 then Some m
     else map_option (\<lambda>tmp. strncat_loop tmp src n m) (str_end m dst))"

text \<open>
  \<^verbatim>\<open>strrchr\<close> of the kernel scans from a pointer it never sets and returns another one when the byte does
  not occur: both are arguments, and \<^verbatim>\<open>str\<close> is not used. The version of the user library scans from \<^verbatim>\<open>str\<close>.
\<close>

partial_function (option) strrchr_loop :: "mem \<Rightarrow> nat \<Rightarrow> uchar \<Rightarrow> nat \<Rightarrow> nat option" where
  "strrchr_loop m tmp c ret = (if m tmp \<noteq> 0 then strrchr_loop m (tmp + 1) c (if m tmp = c then tmp else ret) else Some ret)"

definition strrchr :: "nat \<Rightarrow> nat \<Rightarrow> mem \<Rightarrow> nat \<Rightarrow> uchar \<Rightarrow> nat option option" where
  "strrchr tmp ret m str c = map_option (\<lambda>r. if m r = c then Some r else None) (strrchr_loop m tmp c ret)"

definition usr_strrchr :: "nat \<Rightarrow> mem \<Rightarrow> nat \<Rightarrow> uchar \<Rightarrow> nat option option" where
  "usr_strrchr ret m str c = map_option (\<lambda>r. if m r = c then Some r else None) (strrchr_loop m str c ret)"

declare strnlen_loop.simps [simp del]

section \<open>Fields of a string\<close>

text \<open>The non-empty parts of a list between separators: the words of a line, the components of a path.\<close>

function split_at :: "'a \<Rightarrow> 'a list \<Rightarrow> 'a list list" where
  "split_at sep [] = []"
| "split_at sep (x # xs) = (if x = sep then split_at sep xs
     else (x # takeWhile (\<lambda>c. c \<noteq> sep) xs) # split_at sep (dropWhile (\<lambda>c. c \<noteq> sep) xs))"
  by pat_completeness auto
termination by (relation "measure (length \<circ> snd)") (auto simp: length_dropWhile_le le_imp_less_Suc)

section \<open>Stored strings\<close>

fun cstr :: "mem \<Rightarrow> nat \<Rightarrow> uchar list \<Rightarrow> bool" where
  "cstr m p [] \<longleftrightarrow> m p = 0"
| "cstr m p (x # xs) \<longleftrightarrow> m p = x \<and> x \<noteq> 0 \<and> cstr m (p + 1) xs"

text \<open>The bytes of a counted block of memory.\<close>

definition bytes :: "mem \<Rightarrow> nat \<Rightarrow> nat \<Rightarrow> uchar list" where
  "bytes m p n = map (\<lambda>i. m (p + i)) [0..<n]"

lemma cstr_nth:
  "cstr m p xs \<longleftrightarrow> (\<forall>i<length xs. m (p + i) = xs ! i \<and> xs ! i \<noteq> 0) \<and> m (p + length xs) = 0"
proof (induction xs arbitrary: p)
  case (Cons x xs)
  show ?case unfolding cstr.simps Cons.IH
    by (auto simp: nth_Cons split: nat.splits)
qed simp

lemma cstr_cong: "(\<And>i. i \<le> length xs \<Longrightarrow> m' (p + i) = m (p + i)) \<Longrightarrow> cstr m' p xs = cstr m p xs"
  by (auto simp: cstr_nth)

lemma cstr_unique: "cstr m p xs \<Longrightarrow> cstr m p ys \<Longrightarrow> xs = ys"
proof (induction xs arbitrary: p ys)
  case Nil
  then show ?case by (cases ys) auto
next
  case (Cons x xs)
  then show ?case by (cases ys) auto
qed

lemma memset_eq: "memset dp v n m = (\<lambda>j. if dp \<le> j \<and> j < dp + n then v else m j)"
  by (induction n) (auto simp: fun_eq_iff)

lemma memcpy_eq:
  assumes "dp + n \<le> sp \<or> sp + n \<le> dp"
  shows "memcpy dp sp n m = (\<lambda>j. if dp \<le> j \<and> j < dp + n then m (sp + (j - dp)) else m j)"
  using assms
proof (induction n)
  case (Suc n)
  then have IH: "memcpy dp sp n m = (\<lambda>j. if dp \<le> j \<and> j < dp + n then m (sp + (j - dp)) else m j)" by auto
  have "memcpy dp sp n m (sp + n) = m (sp + n)" unfolding IH using Suc.prems by auto
  then show ?case by (auto simp: Let_def fun_eq_iff IH)
qed (auto simp: fun_eq_iff)

lemma str_end_cstr: "cstr m p xs \<Longrightarrow> str_end m p = Some (p + length xs)"
proof (induction xs arbitrary: p)
  case Nil
  then show ?case by (subst str_end.simps) simp
next
  case (Cons x xs)
  then show ?case by (subst str_end.simps) simp
qed

lemma strlen_cstr: "cstr m p xs \<Longrightarrow> strlen m p = Some (length xs)"
  by (simp add: strlen_def str_end_cstr)

lemma str_end_Some: "str_end m p = Some e \<Longrightarrow> p \<le> e \<and> m e = 0 \<and> (\<forall>i. p \<le> i \<longrightarrow> i < e \<longrightarrow> m i \<noteq> 0)"
proof (rule str_end.raw_induct [where P = "\<lambda>m p e. p \<le> e \<and> m e = 0 \<and> (\<forall>i. p \<le> i \<longrightarrow> i < e \<longrightarrow> m i \<noteq> 0)", rotated])
  fix f and m :: mem and p r
  assume IH: "\<And>m p r. f m p = Some r \<Longrightarrow> p \<le> r \<and> m r = 0 \<and> (\<forall>i. p \<le> i \<longrightarrow> i < r \<longrightarrow> m i \<noteq> 0)"
    and r: "(if m p \<noteq> 0 then f m (p + 1) else Some p) = Some r"
  show "p \<le> r \<and> m r = 0 \<and> (\<forall>i. p \<le> i \<longrightarrow> i < r \<longrightarrow> m i \<noteq> 0)"
  proof (cases "m p = 0")
    case True
    then show ?thesis using r by simp
  next
    case False
    then have h: "p + 1 \<le> r \<and> m r = 0 \<and> (\<forall>i. p + 1 \<le> i \<longrightarrow> i < r \<longrightarrow> m i \<noteq> 0)"
      using IH [of m "p + 1" r] r by simp
    have "m i \<noteq> 0" if "p \<le> i" "i < r" for i using h that False by (cases "i = p") auto
    then show ?thesis using h by auto
  qed
qed

lemma strlen_Some_iff: "strlen m p = Some n \<longleftrightarrow> cstr m p (bytes m p n)"
proof
  assume "strlen m p = Some n"
  then obtain e where e: "str_end m p = Some e" "n = e - p" by (auto simp: strlen_def)
  show "cstr m p (bytes m p n)" using str_end_Some [OF e(1)] e(2) by (auto simp: cstr_nth bytes_def)
next
  assume "cstr m p (bytes m p n)"
  from strlen_cstr [OF this] show "strlen m p = Some n" by (simp add: bytes_def)
qed

lemma strcpy_cstr:
  assumes "cstr m src xs" "dst + length xs < src \<or> src + length xs < dst"
  shows "strcpy dst src m =
    Some (\<lambda>j. if dst \<le> j \<and> j \<le> dst + length xs then m (src + (j - dst)) else m j)"
  using assms
proof (induction xs arbitrary: dst src m)
  case Nil
  then show ?case by (subst strcpy.simps) (auto simp: Let_def fun_eq_iff)
next
  case (Cons x xs)
  let ?m = "m(dst := m src)"
  have c: "cstr m src (x # xs)" and d: "dst + length (x # xs) < src \<or> src + length (x # xs) < dst"
    using Cons.prems by auto
  have "cstr ?m (src + 1) xs = cstr m (src + 1) xs" using d by (intro cstr_cong) auto
  with c have c': "cstr ?m (src + 1) xs" by simp
  have "strcpy (dst + 1) (src + 1) ?m = Some (\<lambda>j. if dst + 1 \<le> j \<and> j \<le> dst + 1 + length xs
      then ?m (src + 1 + (j - (dst + 1))) else ?m j)"
    using d by (intro Cons.IH [OF c']) auto
  moreover have "(\<lambda>j. if dst + 1 \<le> j \<and> j \<le> dst + 1 + length xs then ?m (src + 1 + (j - (dst + 1))) else ?m j) =
      (\<lambda>j. if dst \<le> j \<and> j \<le> dst + length (x # xs) then m (src + (j - dst)) else m j)"
  proof
    fix j
    consider "j = dst" | "dst < j" "j \<le> dst + length (x # xs)" | "j < dst \<or> dst + length (x # xs) < j" by linarith
    then show "(if dst + 1 \<le> j \<and> j \<le> dst + 1 + length xs then ?m (src + 1 + (j - (dst + 1))) else ?m j) =
      (if dst \<le> j \<and> j \<le> dst + length (x # xs) then m (src + (j - dst)) else m j)"
    proof cases
      case 2
      then have "src + 1 + (j - (dst + 1)) = src + (j - dst)" by simp
      then show ?thesis using 2 d by (simp only:) auto
    qed (use d in auto)
  qed
  ultimately show ?case using c by (subst strcpy.simps) (simp add: Let_def)
qed

lemma strchr_cstr:
  assumes "cstr m p xs" "c \<noteq> 0"
  shows "strchr m p c = Some (if c \<in> set xs then Some (p + length (takeWhile (\<lambda>x. x \<noteq> c) xs)) else None)"
  using assms
proof (induction xs arbitrary: p)
  case Nil
  then show ?case by (subst strchr.simps) simp
next
  case (Cons x xs)
  then show ?case by (subst strchr.simps) auto
qed

lemma strncmp_bytes:
  assumes "\<And>i. i < n \<Longrightarrow> m1 (s1 + i) \<noteq> 0"
  shows "strncmp m1 s1 m2 s2 n = 0 \<longleftrightarrow> bytes m1 s1 n = bytes m2 s2 n"
  using assms
proof (induction n arbitrary: s1 s2)
  case 0
  then show ?case by (simp add: bytes_def)
next
  case (Suc n)
  have b: "bytes m s (Suc n) = m s # bytes m (s + 1) n" for m :: mem and s
    by (simp add: bytes_def upt_conv_Cons map_Suc_upt [symmetric] del: upt_Suc map_Suc_upt)
  have IH: "strncmp m1 (s1 + 1) m2 (s2 + 1) n = 0 \<longleftrightarrow> bytes m1 (s1 + 1) n = bytes m2 (s2 + 1) n"
    using Suc.prems [of "Suc i" for i] by (intro Suc.IH) auto
  have "int (unat (m1 s1)) - int (unat (m2 s2)) = 0 \<longleftrightarrow> m1 s1 = m2 s2" by (metis diff_0_right eq_iff_diff_eq_0 of_nat_eq_iff word_unat_eq_iff)
  then show ?case using IH Suc.prems [of 0] unfolding b by auto
qed

lemma strcmp_same: "cstr m1 p xs \<Longrightarrow> cstr m2 q xs \<Longrightarrow> strcmp m1 p m2 q = Some 0"
proof (induction xs arbitrary: p q)
  case Nil
  then show ?case by (subst strcmp.simps) simp
next
  case (Cons x xs)
  then show ?case by (subst strcmp.simps) simp
qed

lemma ubyte_pos: "0 < uint b \<longleftrightarrow> (b :: uchar) \<noteq> 0" "uint b = 0 \<longleftrightarrow> b = 0"
  by (simp_all add: uint_0_iff order_less_le)

text \<open>
  On a stored string the version of the user library finds the last occurrence of a byte that
  occurs; for one that does not, the result depends on what the uninitialised pointer points at.
\<close>

lemma strrchr_loop_cstr:
  "cstr m p xs \<Longrightarrow> \<exists>r. strrchr_loop m p c ret = Some r \<and>
    (if c \<in> set xs then p \<le> r \<and> r < p + length xs \<and> m r = c \<and> (\<forall>j. r < j \<and> j < p + length xs \<longrightarrow> m j \<noteq> c) else r = ret)"
proof (induction xs arbitrary: p ret)
  case Nil
  then show ?case by (simp add: strrchr_loop.simps [of m p])
next
  case (Cons x xs)
  let ?ret = "if x = c then p else ret"
  have x: "m p = x" "x \<noteq> 0" "cstr m (p + 1) xs" using Cons.prems by simp_all
  obtain r where r: "strrchr_loop m (p + 1) c ?ret = Some r"
    "if c \<in> set xs then p + 1 \<le> r \<and> r < p + 1 + length xs \<and> m r = c \<and> (\<forall>j. r < j \<and> j < p + 1 + length xs \<longrightarrow> m j \<noteq> c) else r = ?ret"
    using Cons.IH [OF x(3), of ?ret] by blast
  have nth: "m (p + 1 + i) = xs ! i" if "i < length xs" for i using x(3) that by (simp add: cstr_nth)
  have no: "m j \<noteq> c" if "c \<notin> set xs" "p < j" "j < p + length (x # xs)" for j
    using nth [of "j - p - 1"] that nth_mem [of "j - p - 1" xs] by auto
  have "strrchr_loop m p c ret = Some r" using x r(1) by (simp add: strrchr_loop.simps [of m p])
  moreover have "if c \<in> set (x # xs) then p \<le> r \<and> r < p + length (x # xs) \<and> m r = c \<and>
      (\<forall>j. r < j \<and> j < p + length (x # xs) \<longrightarrow> m j \<noteq> c) else r = ret"
    using r(2) x(1) no by (cases "c \<in> set xs") auto
  ultimately show ?case by blast
qed

lemma usr_strrchr_last:
  assumes "cstr m p xs" "c \<in> set xs"
  shows "\<exists>r. usr_strrchr ret m p c = Some (Some r) \<and> p \<le> r \<and> r < p + length xs \<and> m r = c \<and>
    (\<forall>j. r < j \<and> j < p + length xs \<longrightarrow> m j \<noteq> c)"
  using strrchr_loop_cstr [OF assms(1), of c ret] assms(2) by (auto simp: usr_strrchr_def)

section \<open>Properties\<close>

text \<open>
  String comparison. On two stored strings \<^verbatim>\<open>strcmp\<close> returns, with 0 exactly when
  the strings are equal and a negative value exactly when the first comes before the
  second in the lexicographic order of unsigned bytes.
\<close>

theorem strcmp_lexicographic:
  assumes "cstr m1 p xs" "cstr m2 q ys"
  shows "\<exists>r. strcmp m1 p m2 q = Some r \<and> (r = 0 \<longleftrightarrow> xs = ys) \<and>
    (r < 0 \<longleftrightarrow> (xs, ys) \<in> lexord {(a, b). a < b})"
  using assms
proof (induction xs arbitrary: p q ys)
  case Nil
  then show ?case by (subst strcmp.simps, cases ys) (simp_all add: ubyte_pos)
next
  case (Cons x xs)
  show ?case
  proof (cases ys)
    case Nil
    then show ?thesis using Cons.prems by (subst strcmp.simps) (simp add: ubyte_pos)
  next
    case (Cons y ys')
    then obtain r where r: "strcmp m1 (p + 1) m2 (q + 1) = Some r" "(r = 0 \<longleftrightarrow> xs = ys')"
      "(r < 0 \<longleftrightarrow> (xs, ys') \<in> lexord {(a, b). a < b})"
      using Cons.IH [of "p + 1" "q + 1" ys'] Cons.prems by auto
    show ?thesis
    proof (cases "x = y")
      case True
      then show ?thesis using Cons.prems Cons r by (subst strcmp.simps) simp
    next
      case False
      then show ?thesis using Cons.prems Cons by (subst strcmp.simps) (auto simp: word_less_def word_uint_eq_iff)
    qed
  qed
qed

text \<open>
  Copying and appending strings. When source and destination do not overlap,
  \<^verbatim>\<open>strcpy\<close> returns with the string and its terminator stored at the destination and all
  other memory unchanged, so that \<^verbatim>\<open>strcmp\<close> of the copy with the original is 0; and
  \<^verbatim>\<open>strcat\<close> behind a stored string returns with the two strings joined there.
\<close>

theorem strcpy_strcat_stored:
  assumes src: "cstr m src xs" and dst: "cstr m dst ys"
    and d: "dst + length ys + length xs < src \<or> src + length xs < dst"
  shows "(\<exists>m'. strcpy dst src m = Some m' \<and> cstr m' dst xs \<and> strcmp m' dst m' src = Some 0 \<and>
      (\<forall>j. j < dst \<or> dst + length xs < j \<longrightarrow> m' j = m j)) \<and>
    (\<exists>m'. strcat dst src m = Some m' \<and> cstr m' dst (ys @ xs) \<and>
      (\<forall>j. j < dst \<or> dst + length ys + length xs < j \<longrightarrow> m' j = m j))"
proof
  define m1 where "m1 = (\<lambda>j. if dst \<le> j \<and> j \<le> dst + length xs then m (src + (j - dst)) else m j)"
  have "strcpy dst src m = Some m1" unfolding m1_def using d by (intro strcpy_cstr [OF src]) auto
  moreover have "cstr m1 dst xs" using src by (auto simp: cstr_nth m1_def)
  moreover have "cstr m1 src xs" using src d by (auto simp: cstr_nth m1_def)
  ultimately show "\<exists>m'. strcpy dst src m = Some m' \<and> cstr m' dst xs \<and> strcmp m' dst m' src = Some 0 \<and>
      (\<forall>j. j < dst \<or> dst + length xs < j \<longrightarrow> m' j = m j)"
    using strcmp_same [of m1 dst xs m1 src] by (intro exI [of _ m1]) (auto simp: m1_def)
next
  let ?e = "dst + length ys"
  define m2 where "m2 = (\<lambda>j. if ?e \<le> j \<and> j \<le> ?e + length xs then m (src + (j - ?e)) else m j)"
  have "strcat dst src m = Some m2"
    unfolding m2_def using strcpy_cstr [OF src, of ?e] d by (auto simp: strcat_def str_end_cstr [OF dst])
  moreover have "cstr m2 dst (ys @ xs)"
    using src dst by (auto simp: cstr_nth m2_def nth_append simp flip: Nat.add_diff_assoc)
  ultimately show "\<exists>m'. strcat dst src m = Some m' \<and> cstr m' dst (ys @ xs) \<and>
      (\<forall>j. j < dst \<or> dst + length ys + length xs < j \<longrightarrow> m' j = m j)"
    by (intro exI [of _ m2]) (auto simp: m2_def)
qed

section \<open>Witnesses\<close>

text \<open>A memory with the strings \<^verbatim>\<open>ab\<close> at 0 and \<^verbatim>\<open>ac\<close> at 8.\<close>

definition two_strings :: mem where
  "two_strings = (\<lambda>_. 0)(0 := 97, 1 := 98, 8 := 97, 9 := 99)"

theorem strcmp_lexicographic_witness:
  "\<exists>r. strcmp two_strings 0 two_strings 8 = Some r \<and> r < 0"
  using strcmp_lexicographic [of two_strings 0 "[97, 98]" two_strings 8 "[97, 99]"]
  by (auto simp: two_strings_def)

theorem strcpy_strcat_stored_witness:
  "(\<exists>m'. strcpy 8 0 two_strings = Some m' \<and> cstr m' 8 [97, 98] \<and> strcmp m' 8 m' 0 = Some 0) \<and>
   (\<exists>m'. strcat 8 0 two_strings = Some m' \<and> cstr m' 8 [97, 99, 97, 98])"
  using strcpy_strcat_stored [of two_strings 0 "[97, 98]" 8 "[97, 99]"]
  by (simp add: two_strings_def) blast

end
