(* ===== verification/Namei.thy ===== *)
theory Namei
  imports Inode Strings
begin

text \<open>
  Directories and path names: \<^verbatim>\<open>src/fs/namei.c\<close>. A directory is a file of 32-byte entries, a
  16-bit inode number and a name of up to 12 bytes in a zeroed field. A path or a name is
  a pointer into a byte memory, as the string routines take it. The lemmas show that
  \<^verbatim>\<open>find_entry\<close> finds the first entry with the name.
\<close>

section \<open>Directory entries\<close>

abbreviation (input) NAMELEN :: nat where "NAMELEN \<equiv> 12"

text \<open>
  Entry \<open>j\<close> behind the data pointer of a buffer, as bytes of the array \<^verbatim>\<open>buffers\<close>. The search
  loops compare 33 entries, the last of which is the first entry of the next buffer. A name
  without a terminator sends \<^verbatim>\<open>strlen\<close> through memory.
\<close>

definition d_ino_at :: "kernel \<Rightarrow> bnode \<Rightarrow> nat \<Rightarrow> ushort" where
  "d_ino_at s bp j = get16 (bufbyte s bp) (32 * j)"

definition d_name_is :: "kernel \<Rightarrow> bnode \<Rightarrow> mem \<Rightarrow> nat \<Rightarrow> nat \<Rightarrow> nat \<Rightarrow> bool option" where
  "d_name_is s bp nm np len j = map_option
     (\<lambda>l. len = l \<and> strncmp nm np (bufbyte s bp) (32 * j + 2) len = 0) (strlen (bufbyte s bp) (32 * j + 2))"

primrec entry_scan :: "kernel \<Rightarrow> bnode \<Rightarrow> mem \<Rightarrow> nat \<Rightarrow> nat \<Rightarrow> nat list \<Rightarrow> nat option option" where
  "entry_scan s bp nm np len [] = Some None"
| "entry_scan s bp nm np len (j # js) = (case d_name_is s bp nm np len j of
       None \<Rightarrow> None
     | Some True \<Rightarrow> Some (Some j)
     | Some False \<Rightarrow> entry_scan s bp nm np len js)"

text \<open>
  The search common to \<^verbatim>\<open>find_entry\<close> and \<^verbatim>\<open>unlink_entry\<close>: the held buffer and the number of
  the first matching entry. A block that is not mapped is read as block 0.
\<close>

primrec entry_loop :: "nat \<Rightarrow> mem \<Rightarrow> nat \<Rightarrow> nat \<Rightarrow> nat list \<Rightarrow> (bnode \<times> nat) option kop" where
  "entry_loop dip nm np len [] = kret None"
| "entry_loop dip nm np len (i # is) = kbind (bmap dip (of_nat i) 0) (\<lambda>bn.
     kbind (kget (\<lambda>s. i_dev (k_inode s dip))) (\<lambda>dev. kbind (bread (uint dev) bn) (\<lambda>bp.
     kbind (kget (\<lambda>s. entry_scan s bp nm np len [0..<33])) (\<lambda>r. case r of
       None \<Rightarrow> kstop (Fault ''strlen'')
     | Some (Some j) \<Rightarrow> kret (Some (bp, j))
     | Some None \<Rightarrow> kthen (brelse bp) (entry_loop dip nm np len is)))))"

definition find_entry :: "nat \<Rightarrow> mem \<Rightarrow> nat \<Rightarrow> nat \<Rightarrow> uint kop" where
  "find_entry dip nm np len = kbind (kget (\<lambda>s. k_inode s dip)) (\<lambda>i.
     if i_mode i AND S_IFMT \<noteq> S_IFDIR then kthen (syserr EFAULT) (kret 0)
     else kbind (entry_loop dip nm np (min len NAMELEN) [0..<unat (i_size i div 1024 + 1)]) (\<lambda>r. case r of
         None \<Rightarrow> kret 0
       | Some (bp, j) \<Rightarrow> kbind (kget (\<lambda>s. ucast (d_ino_at s bp j))) (\<lambda>ino. kthen (brelse bp) (kret ino))))"

definition unlink_entry :: "nat \<Rightarrow> mem \<Rightarrow> nat \<Rightarrow> nat \<Rightarrow> int kop" where
  "unlink_entry dip nm np len = kbind (kget (\<lambda>s. k_inode s dip)) (\<lambda>i.
     if i_mode i AND S_IFMT \<noteq> S_IFDIR then kthen (syserr EFAULT) (kret 0)
     else kbind (entry_loop dip nm np (min len NAMELEN) [0..<unat (i_size i div 1024 + 1)]) (\<lambda>r. case r of
         None \<Rightarrow> kret 0
       | Some (bp, j) \<Rightarrow> kbind (kget (\<lambda>s. uint (d_ino_at s bp j))) (\<lambda>ino.
           kthen (kmod (poke bp (32 * j) (\<lambda>_. 0))) (kthen (kmod (poke bp (32 * j + 1) (\<lambda>_. 0)))
            (kthen (bwrite bp) (kthen (brelse bp) (kret ino)))))))"

text \<open>
  The loop of \<^verbatim>\<open>link_entry\<close> over the offsets of the entries: the offset and the bytes of the
  first unused entry, or the end of the directory and the bytes of the last entry read.
  In an empty directory the local variable \<^verbatim>\<open>de\<close> is never set.
\<close>

primrec link_scan :: "nat \<Rightarrow> nat \<Rightarrow> uchar option list option \<Rightarrow> nat list \<Rightarrow> (nat \<times> uchar option list option) kop" where
  "link_scan dip fin de [] = kret (fin, de)"
| "link_scan dip fin de (off # offs) = kbind (readi dip (of_nat off) 32) (\<lambda>(r, bs).
     if r \<noteq> 32 then panic ''bad read dir ino''
     else if bs ! 0 = Some 0 \<and> bs ! 1 = Some 0 then kret (off, Some bs)
     else link_scan dip fin (Some bs) offs)"

definition link_entry :: "nat \<Rightarrow> mem \<Rightarrow> nat \<Rightarrow> nat \<Rightarrow> uint \<Rightarrow> uint kop" where
  "link_entry dip nm np len0 ino = kbind (kget (\<lambda>s. k_inode s dip)) (\<lambda>i.
     if i_mode i AND S_IFMT \<noteq> S_IFDIR then kthen (syserr ENOTDIR) (kret 0)
     else let len = min len0 NAMELEN; n = (unat (i_size i) + 31) div 32 in
       kbind (link_scan dip (32 * n) None (map (\<lambda>k. 32 * k) [0..<n])) (\<lambda>(off, dbs). case dbs of
         None \<Rightarrow> kstop (Fault ''de'')
       | Some bs \<Rightarrow>
         let de = (\<lambda>j. if j < 32 then case bs ! j of Some b \<Rightarrow> b | None \<Rightarrow> 0 else nm (j - 32));
             de' = (strncpy 2 (32 + np) (len + 1) de)(0 := byte16 (ucast ino) 0, 1 := byte16 (ucast ino) 1) in
         kbind (writei dip de' (of_nat off) 32) (\<lambda>r.
         if r \<noteq> 32 then panic ''bad inode'' else kret ino)))"

section \<open>Path names\<close>

text \<open>
  The loop of \<^verbatim>\<open>_namei\<close> from the working inode \<open>wip\<close> on, with the pointer into the path. The
  result has the inode and, for the parent of the last component, the pointer to that
  component. Every round consumes at least one byte of the path, unless a component has a
  multiple of 65536 bytes, whose length the code stores as 0; \<open>fuel\<close> is the length of the
  path, and in that case the loop does not end.
\<close>

primrec namei_loop :: "nat \<Rightarrow> mem \<Rightarrow> uchar \<Rightarrow> bool \<Rightarrow> nat option \<Rightarrow> nat \<Rightarrow> (nat option \<times> nat option) kop" where
  "namei_loop 0 pm creat parent wipo p = (if pm p = 0 then kret (wipo, None) else kstop Spin)"
| "namei_loop (Suc fuel) pm creat parent wipo p =
     (if pm p = 0 then kret (wipo, None)
      else if pm p = 0x2F then namei_loop fuel pm creat parent wipo (p + 1)
      else kderef ''wip'' wipo (\<lambda>wip. kbind (kget (\<lambda>s. k_inode s wip)) (\<lambda>i.
        if i_mode i AND S_IFMT \<noteq> S_IFDIR then kthen (iput (Some wip)) (kthen (syserr EISDIR) (kret (None, None)))
        else (case strchr pm p 0x2F of None \<Rightarrow> kstop (Fault ''path'') | Some tmp \<Rightarrow>
          if tmp = None \<and> parent then kret (Some wip, Some p)
          else (case (case tmp of None \<Rightarrow> strlen pm p | Some t \<Rightarrow> Some (t - p)) of None \<Rightarrow> kstop (Fault ''path'') | Some l \<Rightarrow>
            let len = unat (of_nat l :: ushort) in
            kbind (find_entry wip pm p len) (\<lambda>r. let ino0 = (ucast r :: ushort) in
            if ino0 = 0 \<and> creat = 0 then kthen (iput (Some wip)) (kret (None, None))
            else
              kbind (if ino0 = 0 then kbind (ialloc (i_dev i)) (\<lambda>n. let ino = (word_of_int n :: ushort) in
                  kthen (kmod (ino_mod wip (\<lambda>i. i\<lparr>i_flag := i_flag i OR I_LOCK\<rparr>)))
                   (kthen (link_entry wip pm p len (ucast ino)) (kret ino)))
                else kret ino0) (\<lambda>ino.
              kthen (iput (Some wip)) (kbind (kget (\<lambda>s. i_dev (k_inode s wip))) (\<lambda>dev.
              kbind (iget dev (ucast ino)) (\<lambda>w. namei_loop fuel pm creat parent w (p + len)))))))))))"

definition namei_from :: "mem \<Rightarrow> nat \<Rightarrow> uchar \<Rightarrow> bool \<Rightarrow> (nat option \<times> nat option) kop" where
  "namei_from pm path creat parent = kbind
     (if pm path = 0x2F then iget rootdev ROOTINO
      else kbind (cu_get p_wdir) (\<lambda>cdp. kderef ''p_wdir'' cdp (\<lambda>cd.
        kbind (kget (\<lambda>s. k_inode s cd)) (\<lambda>i. iget (i_dev i) (i_num i))))) (\<lambda>wip.
     case strlen pm path of None \<Rightarrow> kstop (Fault ''path'')
     | Some n \<Rightarrow> namei_loop n pm creat parent wip path)"

definition namei :: "mem \<Rightarrow> nat \<Rightarrow> uchar \<Rightarrow> nat option kop" where
  "namei pm path creat = kbind (namei_from pm path creat False) (\<lambda>(ip, _). kret ip)"

definition namei_parent :: "mem \<Rightarrow> nat \<Rightarrow> (nat option \<times> nat option) kop" where
  "namei_parent pm path = namei_from pm path 0 True"

section \<open>Searching a directory\<close>

text \<open>
  \<open>dir_names d n ns\<close>: the names of the first \<open>n\<close> entries of the block \<open>d\<close> are \<open>ns\<close>, each
  terminated within its entry. \<open>dir_at s dip z\<close>: the first block of a directory is zone \<open>z\<close>.
  \<open>name_at nm np xs\<close>: the bytes of the name \<open>xs\<close> start at \<open>np\<close>.
\<close>

definition dir_names :: "block \<Rightarrow> nat \<Rightarrow> (nat \<Rightarrow> uchar list) \<Rightarrow> bool" where
  "dir_names d n ns \<longleftrightarrow> n \<le> 32 \<and> (\<forall>j<n. cstr d (32 * j + 2) (ns j) \<and> length (ns j) < 30)"

definition dir_at :: "kernel \<Rightarrow> nat \<Rightarrow> uint \<Rightarrow> bool" where
  "dir_at s dip z \<longleftrightarrow> file_ok s dip \<and> i_mode (k_inode s dip) AND S_IFMT = S_IFDIR \<and>
     zone_of s dip 0 = z \<and> blk_ok z"

definition name_at :: "mem \<Rightarrow> nat \<Rightarrow> uchar list \<Rightarrow> bool" where
  "name_at nm np xs \<longleftrightarrow> bytes nm np (length xs) = xs \<and> 0 \<notin> set xs \<and> length xs \<le> NAMELEN"

text \<open>The first entry with the name among the given ones.\<close>

definition first_named :: "(nat \<Rightarrow> uchar list) \<Rightarrow> uchar list \<Rightarrow> nat \<Rightarrow> bool" where
  "first_named ns xs k \<longleftrightarrow> ns k = xs \<and> (\<forall>j<k. ns j \<noteq> xs)"

lemma bytes_cstr: "cstr m p xs \<Longrightarrow> bytes m p (length xs) = xs"
  by (auto simp: cstr_nth bytes_def intro: nth_equalityI)

lemma bufbyte_same: "same_blk (data_of s bp) d \<Longrightarrow> j < BLK \<Longrightarrow> bufbyte s bp j = d j"
  by (simp add: bufbyte_def same_blk_def)

lemma d_name_is_eq:
  assumes b: "same_blk (data_of s bp) d" and n: "dir_names d n ns" "j < n" and x: "name_at nm np xs"
  shows "d_name_is s bp nm np (length xs) j = Some (ns j = xs)"
proof -
  let ?m = "bufbyte s bp" and ?p = "32 * j + 2"
  have c: "cstr d ?p (ns j)" "length (ns j) < 30" "j < 32" using n by (auto simp: dir_names_def)
  have "cstr ?m ?p (ns j) = cstr d ?p (ns j)" using c(2,3) by (intro cstr_cong bufbyte_same [OF b]) auto
  then have cm: "cstr ?m ?p (ns j)" using c(1) by simp
  have "nm (np + i) \<noteq> 0" if "i < length xs" for i
  proof -
    have "bytes nm np (length xs) ! i = nm (np + i)" using that by (simp add: bytes_def)
    then show ?thesis using x that nth_mem [OF that] by (metis name_at_def)
  qed
  then have "strncmp nm np ?m ?p (length xs) = 0 \<longleftrightarrow> bytes nm np (length xs) = bytes ?m ?p (length xs)"
    by (rule strncmp_bytes)
  also have "bytes nm np (length xs) = xs" using x by (simp add: name_at_def)
  finally have s: "strncmp nm np ?m ?p (length xs) = 0 \<longleftrightarrow> xs = bytes ?m ?p (length xs)" .
  have "length xs = length (ns j) \<and> strncmp nm np ?m ?p (length xs) = 0 \<longleftrightarrow> ns j = xs"
    using s bytes_cstr [OF cm] by auto
  then show ?thesis using strlen_cstr [OF cm] by (simp add: d_name_is_def)
qed

lemma entry_scan_found:
  assumes "d_name_is s bp nm np len k = Some True" "\<And>j. j \<in> set js \<Longrightarrow> d_name_is s bp nm np len j = Some False"
  shows "entry_scan s bp nm np len (js @ k # ks) = Some (Some k)"
  using assms by (induction js) simp_all

lemma entry_loop_found:
  assumes inv: "held_inv s {}" and d: "dir_at s dip z" and n: "dir_names (disk_blk s z) n ns" "k < n"
    and x: "name_at nm np xs" "first_named ns xs k" and i: "0 < m"
  shows "\<exists>bp s'. entry_loop dip nm np (length xs) [0..<m] s = Ok (Some (bp, k)) s' \<and> opened s {} z bp s'"
proof -
  have f: "i_dev (k_inode s dip) = rootdev" "zmaps_ok s dip" "zone_of s dip 0 = z" "blk_ok z"
    using d by (simp_all add: dir_at_def file_ok_def)
  obtain s1 where s1: "bmap dip 0 0 s = Ok z s1" "held_inv s1 {}" "bio_frame s s1" "disk_blk s1 = disk_blk s"
    using bmap_lookup [OF inv f(1,2), of 0 0] f(3) by auto
  obtain bp s2 where o: "bread 0x100 z s1 = Ok bp s2" "opened s1 {} z bp s2"
    using bread_opened [OF s1(2) f(4) held_empty(2)] by blast
  have o': "opened s {} z bp s2" using o(2) s1(3,4) bio_frame_trans by (auto simp: opened_def keeps_def)
  have b: "same_blk (data_of s2 bp) (disk_blk s z)" using o' by (simp add: opened_def)
  have k: "k < 32" using n by (simp add: dir_names_def)
  have "entry_scan s2 bp nm np (length xs) ([0..<k] @ k # [Suc k..<33]) = Some (Some k)"
    using x(2) n(2) d_name_is_eq [OF b n(1) _ x(1)] by (intro entry_scan_found) (auto simp: first_named_def)
  moreover have "[0..<33] = [0..<k] @ k # [Suc k..<33]" using k upt_add_eq_append [of 0 k "33 - k"] by (simp add: upt_conv_Cons)
  ultimately have sc: "entry_scan s2 bp nm np (length xs) [0..<33] = Some (Some k)" by simp
  have "k_inode s1 = k_inode s" using bio_frame_fields(1) [OF s1(3)] .
  then have "entry_loop dip nm np (length xs) [0..<m] s = Ok (Some (bp, k)) s2"
    unfolding upt_first [OF i] using s1(1) o(1) sc f(1) by (simp add: kop_simps del: upt.simps)
  then show ?thesis using o' by blast
qed

lemma dir_blocks: "file_ok s dip \<Longrightarrow> 0 < unat (i_size (k_inode s dip) div 1024 + 1)"
proof -
  assume "file_ok s dip"
  then have "unat (i_size (k_inode s dip)) \<le> 0x4000000" by (simp add: file_ok_def word_le_nat_alt)
  then have "unat (i_size (k_inode s dip)) div 1024 \<le> 0x10000" by simp
  then show ?thesis by (simp add: unat_word_ariths unat_div)
qed

lemma find_entry_Ok:
  assumes inv: "held_inv s {}" and d: "dir_at s dip z" and n: "dir_names (disk_blk s z) n ns" "k < n"
    and x: "name_at nm np xs" "first_named ns xs k"
  shows "\<exists>s'. find_entry dip nm np (length xs) s = Ok (ucast (get16 (disk_blk s z) (32 * k))) s' \<and>
    held_inv s' {} \<and> bio_frame s s' \<and> disk_blk s' = disk_blk s"
proof -
  have f: "file_ok s dip" "i_mode (k_inode s dip) AND S_IFMT = S_IFDIR" using d by (simp_all add: dir_at_def)
  obtain bp s1 where e: "entry_loop dip nm np (length xs) [0..<unat (i_size (k_inode s dip) div 1024 + 1)] s = Ok (Some (bp, k)) s1"
    "opened s {} z bp s1"
    using entry_loop_found [OF inv d n x dir_blocks [OF f(1)]] by blast
  have k: "k < 32" using n by (simp add: dir_names_def)
  have b: "same_blk (data_of s1 bp) (disk_blk s z)" using e(2) by (simp add: opened_def)
  have "d_ino_at s1 bp k = get16 (disk_blk s z) (32 * k)"
    unfolding d_ino_at_def get16_def using k by (simp add: bufbyte_same [OF b])
  moreover obtain s2 where s2: "brelse bp s1 = Ok () s2" "held_inv s2 {}" "bio_frame s s2" "disk_blk s2 = disk_blk s"
    using opened_release [OF e(2)] by blast
  moreover have "min (length xs) NAMELEN = length xs" using x(1) by (simp add: name_at_def)
  ultimately have "find_entry dip nm np (length xs) s = Ok (ucast (get16 (disk_blk s z) (32 * k))) s2"
    using e(1) f(2) by (simp add: find_entry_def kop_simps)
  then show ?thesis using s2 by blast
qed

section \<open>Removing an entry\<close>

lemma poke_in: "j < BLK \<Longrightarrow> poke bp j f = set_data bp (\<lambda>d. d(j := f (d j)))"
  by (simp add: poke_def)

lemma set_data_comp: "set_data bp f (set_data bp g s) = set_data bp (\<lambda>d. f (g d)) s"
  by (simp add: set_data_def b_mod_def)

lemma clear_ino: "k < 32 \<Longrightarrow> poke bp (32 * k + 1) (\<lambda>_. 0) (poke bp (32 * k) (\<lambda>_. 0) s) = set_data bp (put (32 * k) 2 (\<lambda>_. 0)) s"
proof -
  assume "k < 32"
  moreover have "(\<lambda>d. (d(32 * k := 0))(32 * k + 1 := 0)) = put (32 * k) 2 (\<lambda>_. 0 :: uchar)"
    by (auto simp: put_def fun_eq_iff)
  ultimately show ?thesis by (simp add: poke_in set_data_comp)
qed

lemma unlink_entry_Ok:
  assumes inv: "held_inv s {}" and d: "dir_at s dip z" and n: "dir_names (disk_blk s z) n ns" "k < n"
    and x: "name_at nm np xs" "first_named ns xs k"
  shows "\<exists>s'. unlink_entry dip nm np (length xs) s = Ok (uint (get16 (disk_blk s z) (32 * k))) s' \<and>
    held_inv s' {} \<and> bio_frame s s' \<and> disk_upd s s' z (put (32 * k) 2 (\<lambda>_. 0) (disk_blk s z))"
proof -
  have f: "file_ok s dip" "i_mode (k_inode s dip) AND S_IFMT = S_IFDIR" using d by (simp_all add: dir_at_def)
  obtain bp s1 where e: "entry_loop dip nm np (length xs) [0..<unat (i_size (k_inode s dip) div 1024 + 1)] s = Ok (Some (bp, k)) s1"
    "opened s {} z bp s1"
    using entry_loop_found [OF inv d n x dir_blocks [OF f(1)]] by blast
  have k: "k < 32" using n by (simp add: dir_names_def)
  have b: "same_blk (data_of s1 bp) (disk_blk s z)" using e(2) by (simp add: opened_def)
  have "d_ino_at s1 bp k = get16 (disk_blk s z) (32 * k)"
    unfolding d_ino_at_def get16_def using k by (simp add: bufbyte_same [OF b])
  moreover obtain s2 s3 where w: "bwrite bp (set_data bp (put (32 * k) 2 (\<lambda>_. 0)) s1) = Ok () s2" "brelse bp s2 = Ok () s3"
    "held_inv s3 {}" "bio_frame s s3" "disk_upd s s3 z (put (32 * k) 2 (\<lambda>_. 0) (disk_blk s z))"
    using opened_put [OF e(2)] by blast
  moreover have "min (length xs) NAMELEN = length xs" using x(1) by (simp add: name_at_def)
  ultimately have "unlink_entry dip nm np (length xs) s = Ok (uint (get16 (disk_blk s z) (32 * k))) s3"
    using e(1) f(2) clear_ino [OF k, of bp s1] by (simp add: unlink_entry_def kop_simps)
  then show ?thesis using w by blast
qed

text \<open>A change within one entry of a directory's first block.\<close>

lemma dir_at_upd:
  assumes "dir_at s dip z" "disk_upd s s' z d" "k_inode s' dip = k_inode s dip" "separate s dip 0"
  shows "dir_at s' dip z"
proof -
  have u: "disk_upd s s' (zone_of s dip 0) d" "zmaps_ok s dip" using assms(1,2) by (auto simp: dir_at_def file_ok_def)
  note v = block_write_view [OF u(1) assms(3,4) u(2)]
  show ?thesis using assms(1,3) v(1) [of 0] v(2) by (simp add: dir_at_def file_ok_def)
qed

lemma dir_names_cong:
  assumes "dir_names d n ns" "\<And>j i. j < n \<Longrightarrow> 2 \<le> i \<Longrightarrow> i < 32 \<Longrightarrow> d' (32 * j + i) = d (32 * j + i)"
  shows "dir_names d' n ns"
proof -
  have "cstr d' (32 * j + 2) (ns j) = cstr d (32 * j + 2) (ns j)" if "j < n" for j
  proof (rule cstr_cong)
    fix i assume "i \<le> length (ns j)"
    moreover have "length (ns j) < 30" using assms(1) that by (simp add: dir_names_def)
    ultimately show "d' (32 * j + 2 + i) = d (32 * j + 2 + i)" using assms(2) [OF that, of "2 + i"] by (simp add: add.assoc)
  qed
  then show ?thesis using assms(1) by (simp add: dir_names_def)
qed

lemma get16_zero: "get16 d p = 0 \<longleftrightarrow> d p = 0 \<and> d (p + 1) = 0"
proof
  assume "get16 d p = 0"
  then have "byte16 (get16 d p) 0 = 0" "byte16 (get16 d p) 1 = 0" by (simp_all add: byte16_def)
  then show "d p = 0 \<and> d (p + 1) = 0" unfolding byte16_get16 ..
qed (simp add: get16_def)

lemma get16_upd: "same_blk d' (put p 2 (byte16 w) d) \<Longrightarrow> p + 2 \<le> BLK \<Longrightarrow> get16 d' p = w"
  by (rule get16_byte16) (simp_all add: same_blk_def put_def)

section \<open>Adding an entry\<close>

text \<open>The bytes of the first block of a directory are the bytes of its zone.\<close>

lemma dir_byte: "dir_at s dip z \<Longrightarrow> p < BLK \<Longrightarrow> file_byte s dip p = disk_blk s z p"
  by (simp add: file_byte_def dir_at_def)

lemma dir_mapped: "dir_at s dip z \<Longrightarrow> z \<noteq> 0 \<Longrightarrow> hi \<le> BLK \<Longrightarrow> mapped s dip lo hi"
  by (auto simp: mapped_def dir_at_def)

lemma dir_at_frame:
  assumes "dir_at s dip z" "bio_frame s s'" "disk_blk s' = disk_blk s"
  shows "dir_at s' dip z"
proof -
  have i: "k_inode s' dip = k_inode s dip" using bio_frame_fields(1) [OF assms(2)] by simp
  from view_cong(1,4) [OF i assms(3)] show ?thesis using assms(1) i by (simp add: dir_at_def)
qed

lemma readi_entry:
  assumes inv: "held_inv s {}" and d: "dir_at s dip z" "z \<noteq> 0" and j: "j < 32" "32 * j + 32 \<le> unat (i_size (k_inode s dip))"
  shows "\<exists>s'. readi dip (of_nat (32 * j)) 32 s = Ok (32, map (\<lambda>i. Some (disk_blk s z (32 * j + i))) [0..<32]) s' \<and>
    held_inv s' {} \<and> bio_frame s s' \<and> disk_blk s' = disk_blk s"
proof -
  have u: "unat (of_nat (32 * j) :: uint) = 32 * j"
    using j(1) by (simp add: unsigned_of_nat take_bit_nat_eq_self del: of_nat_mult)
  have f: "file_ok s dip" using d(1) by (simp add: dir_at_def)
  have m: "mapped s dip (32 * j) (32 * j + 32)" using d j(1) by (intro dir_mapped) auto
  have "32 = min (unat (32 :: uint)) (unat (i_size (k_inode s dip)) - 32 * j)" using j(2) by simp
  from readi_Ok [OF inv f, of "of_nat (32 * j)" 32 32] this u m j
  obtain s' where "readi dip (of_nat (32 * j)) 32 s = Ok (32, map (\<lambda>i. Some (file_byte s dip (32 * j + i))) [0..<32]) s'"
    "held_inv s' {}" "bio_frame s s'" "disk_blk s' = disk_blk s"
    by (auto simp del: upt.simps)
  moreover have "map (\<lambda>i. Some (file_byte s dip (32 * j + i))) [0..<32] = map (\<lambda>i. Some (disk_blk s z (32 * j + i))) [0..<32]"
    using dir_byte [OF d(1)] j(1) by (intro map_cong refl) simp
  ultimately show ?thesis by metis
qed

lemma link_scan_found:
  assumes "held_inv s {}" "dir_at s dip z" "z \<noteq> 0" "j \<le> k" "k < n" "k < 32" "32 * k + 32 \<le> unat (i_size (k_inode s dip))"
    "get16 (disk_blk s z) (32 * k) = 0" "\<And>i. i < k \<Longrightarrow> get16 (disk_blk s z) (32 * i) \<noteq> 0"
  shows "\<exists>s'. link_scan dip fin de (map (\<lambda>k. 32 * k) [j..<n]) s =
      Ok (32 * k, Some (map (\<lambda>i. Some (disk_blk s z (32 * k + i))) [0..<32])) s' \<and>
    held_inv s' {} \<and> bio_frame s s' \<and> disk_blk s' = disk_blk s"
  using assms
proof (induction "k - j" arbitrary: j de s)
  case (0 j de s)
  let ?bs = "map (\<lambda>i. Some (disk_blk s z (32 * k + i))) [0..<32]"
  have j: "j = k" using 0 by simp
  obtain s' where s': "readi dip (of_nat (32 * k)) 32 s = Ok (32, ?bs) s'" "held_inv s' {}" "bio_frame s s'" "disk_blk s' = disk_blk s"
    using readi_entry [OF 0(2,3,4,7,8)] by blast
  have "?bs ! 0 = Some 0 \<and> ?bs ! 1 = Some 0" using 0(9) by (simp add: get16_zero)
  then have "link_scan dip fin de (map (\<lambda>k. 32 * k) [j..<n]) s = Ok (32 * k, Some ?bs) s'"
    unfolding j upt_conv_Cons [OF 0(6)] using s'(1) by (simp add: kop_simps del: upt.simps of_nat_mult)
  then show ?case using s' by blast
next
  case (Suc m j de s)
  let ?bs = "map (\<lambda>i. Some (disk_blk s z (32 * j + i))) [0..<32]"
  have j: "j < k" "j < n" "j < 32" "32 * j + 32 \<le> unat (i_size (k_inode s dip))" "m = k - Suc j"
    using Suc(2,6-9) by auto
  obtain s1 where s1: "readi dip (of_nat (32 * j)) 32 s = Ok (32, ?bs) s1" "held_inv s1 {}" "bio_frame s s1" "disk_blk s1 = disk_blk s"
    using readi_entry [OF Suc(3,4,5) j(3,4)] by blast
  have d1: "dir_at s1 dip z" by (rule dir_at_frame [OF Suc(4) s1(3,4)])
  have i1: "k_inode s1 = k_inode s" by (rule bio_frame_fields(1) [OF s1(3)])
  have "\<exists>s'. link_scan dip fin (Some ?bs) (map (\<lambda>k. 32 * k) [Suc j..<n]) s1 =
      Ok (32 * k, Some (map (\<lambda>i. Some (disk_blk s1 z (32 * k + i))) [0..<32])) s' \<and>
      held_inv s' {} \<and> bio_frame s1 s' \<and> disk_blk s' = disk_blk s1"
    using j(1) Suc(7-11) s1(4) i1 by (intro Suc(1) [OF j(5) s1(2) d1 Suc(5)]) auto
  then obtain s2 where s2: "link_scan dip fin (Some ?bs) (map (\<lambda>k. 32 * k) [Suc j..<n]) s1 =
      Ok (32 * k, Some (map (\<lambda>i. Some (disk_blk s z (32 * k + i))) [0..<32])) s2"
      "held_inv s2 {}" "bio_frame s1 s2" "disk_blk s2 = disk_blk s1" using s1(4) by auto
  have nz: "(?bs ! 0 = Some 0 \<and> ?bs ! 1 = Some 0) = False" using Suc(11) [OF j(1)] by (simp add: get16_zero)
  have "link_scan dip fin de (map (\<lambda>k. 32 * k) [j..<n]) s =
      Ok (32 * k, Some (map (\<lambda>i. Some (disk_blk s z (32 * k + i))) [0..<32])) s2"
    unfolding upt_conv_Cons [OF j(2)] list.map link_scan.simps kbind_Ok [where m = "readi dip (of_nat (32 * j)) 32", OF s1(1)] split nz if_False
    using s2(1) by (simp del: upt.simps)
  then show ?case using s2 s1(4) bio_frame_trans [OF s1(3) s2(3)] by auto
qed

text \<open>
  The new entry: the number in the first two bytes, the name with its terminator behind
  them.
\<close>

lemma strncpy_cstr:
  assumes "cstr m src xs" "dst + length xs < src"
  shows "\<forall>j. strncpy dst src (length xs + 1) m j = (if dst \<le> j \<and> j \<le> dst + length xs then m (src + (j - dst)) else m j)"
  using assms
proof (induction xs arbitrary: dst src m)
  case Nil
  then show ?case by (simp add: Let_def)
next
  case (Cons x xs)
  let ?m = "m(dst := m src)"
  have "cstr ?m (src + 1) xs = cstr m (src + 1) xs" using Cons.prems(2) by (intro cstr_cong) auto
  then have c: "cstr ?m (src + 1) xs" using Cons.prems(1) by simp
  have IH: "\<forall>j. strncpy (dst + 1) (src + 1) (length xs + 1) ?m j =
      (if dst + 1 \<le> j \<and> j \<le> dst + 1 + length xs then ?m (src + 1 + (j - (dst + 1))) else ?m j)"
    using Cons.prems(2) by (intro Cons.IH [OF c]) simp
  show ?case
  proof
    fix j
    have e: "src + 1 + (j - (dst + 1)) = src + (j - dst)" if "dst < j" using that by simp
    have "strncpy dst src (length (x # xs) + 1) m j = strncpy (dst + 1) (src + 1) (length xs + 1) ?m j"
      using Cons.prems(1) by (simp add: Let_def)
    also have "\<dots> = (if dst \<le> j \<and> j \<le> dst + length (x # xs) then m (src + (j - dst)) else m j)"
      unfolding IH [rule_format] using Cons.prems(2) e by (cases j dst rule: linorder_cases) auto
    finally show "strncpy dst src (length (x # xs) + 1) m j =
      (if dst \<le> j \<and> j \<le> dst + length (x # xs) then m (src + (j - dst)) else m j)" .
  qed
qed

text \<open>
  \<open>entry_added s s' z k nm np xs ino\<close>: entry \<open>k\<close> of the block has the number and the name, the other entries are unchanged.
\<close>

definition entry_added :: "kernel \<Rightarrow> kernel \<Rightarrow> uint \<Rightarrow> nat \<Rightarrow> mem \<Rightarrow> nat \<Rightarrow> uchar list \<Rightarrow> uint \<Rightarrow> bool" where
  "entry_added s s' z k nm np xs ino \<longleftrightarrow> (\<exists>de. (\<forall>p<BLK. disk_blk s' z p =
      (if 32 * k \<le> p \<and> p < 32 * k + 32 then de (p - 32 * k) else disk_blk s z p)) \<and>
     (\<forall>i\<le>length xs. de (2 + i) = nm (np + i)) \<and> de 0 = byte16 (ucast ino) 0 \<and> de 1 = byte16 (ucast ino) 1)"

lemma link_entry_Ok:
  assumes h: "held_inv s {}" and d: "dir_at s dip z" "z \<noteq> 0" "separate s dip 0"
    and k: "k < 32" "32 * k + 32 \<le> unat (i_size (k_inode s dip))" "get16 (disk_blk s z) (32 * k) = 0"
      "\<forall>i<k. get16 (disk_blk s z) (32 * i) \<noteq> 0"
    and x: "cstr nm np xs" "length xs \<le> NAMELEN"
  shows "\<exists>s'. link_entry dip nm np (length xs) ino s = Ok ino s' \<and> held_inv s' {} \<and> bio_frame s s' \<and> dir_at s' dip z \<and>
    entry_added s s' z k nm np xs ino"
proof -
  let ?de = "\<lambda>j. if j < 32 then (case map (\<lambda>i. Some (disk_blk s z (32 * k + i))) [0..<32] ! j of Some b \<Rightarrow> b | None \<Rightarrow> 0) else nm (j - 32)"
  define de where "de = (strncpy 2 (32 + np) (length xs + 1) ?de)(0 := byte16 (ucast ino) 0, 1 := byte16 (ucast ino) 1)"
  have f: "file_ok s dip" "i_mode (k_inode s dip) AND S_IFMT = S_IFDIR" using d(1) by (simp_all add: dir_at_def)
  have "(32 * k + 32) div 32 \<le> (unat (i_size (k_inode s dip)) + 31) div 32" using k(2) by (intro div_le_mono) simp
  then have kn: "k < (unat (i_size (k_inode s dip)) + 31) div 32" by simp
  obtain s1 where s1: "link_scan dip (32 * ((unat (i_size (k_inode s dip)) + 31) div 32)) None
      (map (\<lambda>k. 32 * k) [0..<(unat (i_size (k_inode s dip)) + 31) div 32]) s =
      Ok (32 * k, Some (map (\<lambda>i. Some (disk_blk s z (32 * k + i))) [0..<32])) s1"
    "held_inv s1 {}" "bio_frame s s1" "disk_blk s1 = disk_blk s"
    using link_scan_found [OF h d(1,2) _ kn k(1,2,3)] k(4) by blast
  have d1: "dir_at s1 dip z" by (rule dir_at_frame [OF d(1) s1(3,4)])
  have i1: "k_inode s1 = k_inode s" by (rule bio_frame_fields(1) [OF s1(3)])
  have u: "unat (of_nat (32 * k) :: uint) = 32 * k"
    using k(1) by (simp add: unsigned_of_nat take_bit_nat_eq_self del: of_nat_mult)
  have "separate s1 dip 0" using d(3) sep_cong [of s1 dip s] i1 s1(4) by simp
  then have w: "writable s1 dip (32 * k) (32 * k + 32)"
    using dir_mapped [OF d1 d(2), of "32 * k + 32"] k(1) by (simp add: writable_def)
  obtain s2 where s2: "writei dip de (of_nat (32 * k)) 32 s1 = Ok 32 s2" "held_inv s2 {}" "bio_frame s1 s2"
    "stored s1 s2 dip de (32 * k) 32" "zmaps_ok s2 dip"
    using writei_Ok [OF s1(2), of dip "of_nat (32 * k)" 32 de] d1 w u k(2) i1 by (auto simp: dir_at_def simp del: of_nat_mult)
  have fr: "bio_frame s s2" using bio_frame_trans [OF s1(3) s2(3)] .
  have i2: "k_inode s2 = k_inode s" using bio_frame_fields(1) [OF fr] .
  have "link_entry dip nm np (length xs) ino s = Ok ino s2"
    using s1(1) s2(1) f(2) x(2) unfolding de_def
    by (simp add: link_entry_def kop_simps Let_def min_absorb1 del: upt.simps of_nat_mult strncpy.simps)
  have d2: "dir_at s2 dip z"
    using d1 s2(4,5) i1 i2 by (simp add: dir_at_def file_ok_def stored_def)
  have bt: "disk_blk s2 z p = (if 32 * k \<le> p \<and> p < 32 * k + 32 then de (p - 32 * k) else disk_blk s z p)" if "p < BLK" for p
    using s2(4) dir_byte [OF d2 that] dir_byte [OF d1 that] d1 that s1(4) by (auto simp: stored_def dir_at_def)
  have de: "de (2 + i) = nm (np + i)" if "i \<le> length xs" for i
  proof -
    have "cstr ?de (32 + np) xs = cstr nm np xs" by (auto simp: cstr_nth)
    then have "strncpy 2 (32 + np) (length xs + 1) ?de (2 + i) = ?de (32 + np + i)"
      using strncpy_cstr [of ?de "32 + np" xs 2] x that by (simp del: strncpy.simps)
    then show ?thesis by (simp add: de_def del: strncpy.simps)
  qed
  moreover have "de 0 = byte16 (ucast ino) 0" "de 1 = byte16 (ucast ino) 1" by (simp_all add: de_def del: strncpy.simps)
  ultimately have "entry_added s s2 z k nm np xs ino" using bt unfolding entry_added_def by blast
  then show ?thesis using \<open>link_entry dip nm np (length xs) ino s = Ok ino s2\<close> s2(2) fr d2 by blast
qed

lemma entry_added_names:
  assumes e: "entry_added s s' z k nm np xs ino" and k: "k < 32" and n: "dir_names (disk_blk s z) k ns"
    and x: "cstr nm np xs" "length xs \<le> NAMELEN"
  shows "dir_names (disk_blk s' z) (Suc k) (ns(k := xs))" "get16 (disk_blk s' z) (32 * k) = ucast ino"
    "j < k \<Longrightarrow> get16 (disk_blk s' z) (32 * j) = get16 (disk_blk s z) (32 * j)"
proof -
  obtain de where bt: "\<And>p. p < BLK \<Longrightarrow> disk_blk s' z p = (if 32 * k \<le> p \<and> p < 32 * k + 32 then de (p - 32 * k) else disk_blk s z p)"
    and de: "\<And>i. i \<le> length xs \<Longrightarrow> de (2 + i) = nm (np + i)" "de 0 = byte16 (ucast ino) 0" "de 1 = byte16 (ucast ino) 1"
    using e unfolding entry_added_def by blast
  have "cstr (disk_blk s' z) (32 * k + 2) xs"
  proof -
    have "disk_blk s' z (32 * k + 2 + i) = nm (np + i)" if "i \<le> length xs" for i
      using bt [of "32 * k + 2 + i"] de(1) [OF that] that x(2) k by simp
    then show ?thesis using x(1) by (auto simp: cstr_nth)
  qed
  moreover have "disk_blk s' z (32 * j + i) = disk_blk s z (32 * j + i)" if "j < k" "i < 32" for j i
    using bt [of "32 * j + i"] that k by simp
  ultimately show "dir_names (disk_blk s' z) (Suc k) (ns(k := xs))"
    using n x(2) k dir_names_cong [OF n, of "disk_blk s' z"] by (auto simp: dir_names_def less_Suc_eq)
  show "get16 (disk_blk s' z) (32 * k) = ucast ino"
    using bt [of "32 * k"] bt [of "32 * k + 1"] k de(2,3) by (intro get16_byte16) simp_all
  show "get16 (disk_blk s' z) (32 * j) = get16 (disk_blk s z) (32 * j)" if "j < k"
    using bt [of "32 * j"] bt [of "32 * j + 1"] that k by (simp add: get16_def)
qed

section \<open>Properties\<close>

text \<open>
  C11: looking up a name. In a directory whose first block has the name in entry \<open>k\<close> and in
  no entry before it, \<^verbatim>\<open>find_entry\<close> returns the inode number stored in entry \<open>k\<close> and changes
  nothing. \<^verbatim>\<open>unlink_entry\<close> returns the same number and clears it on the disk, after which the
  name is not found, every other entry is found as before, and no other block has changed.
\<close>

theorem find_unlink_entry:
  assumes inv: "bio_inv s {}" and d: "dir_at s dip z" "separate s dip 0"
    and n: "dir_names (disk_blk s z) n ns" "k < n" and x: "name_at nm np xs" "first_named ns xs k"
    and y: "name_at nm' np' ys" "first_named ns ys j" "j < n" "ys \<noteq> xs"
  shows "\<exists>s1 s2 s3 s4. find_entry dip nm np (length xs) s = Ok (ucast (get16 (disk_blk s z) (32 * k))) s1 \<and>
    disk_blk s1 = disk_blk s \<and> bio_inv s1 {} \<and> bio_frame s s1 \<and>
    unlink_entry dip nm np (length xs) s = Ok (uint (get16 (disk_blk s z) (32 * k))) s2 \<and> bio_inv s2 {} \<and> bio_frame s s2 \<and>
    (\<forall>m. blk_ok m \<longrightarrow> m \<noteq> z \<longrightarrow> disk_blk s2 m = disk_blk s m) \<and>
    find_entry dip nm np (length xs) s2 = Ok 0 s3 \<and>
    find_entry dip nm' np' (length ys) s2 = Ok (ucast (get16 (disk_blk s z) (32 * j))) s4"
proof -
  have h: "held_inv s {}" using inv held_empty(1) by blast
  obtain s1 where s1: "find_entry dip nm np (length xs) s = Ok (ucast (get16 (disk_blk s z) (32 * k))) s1"
    "held_inv s1 {}" "bio_frame s s1" "disk_blk s1 = disk_blk s"
    using find_entry_Ok [OF h d(1) n x] by blast
  obtain s2 where s2: "unlink_entry dip nm np (length xs) s = Ok (uint (get16 (disk_blk s z) (32 * k))) s2"
    "held_inv s2 {}" "bio_frame s s2" "disk_upd s s2 z (put (32 * k) 2 (\<lambda>_. 0) (disk_blk s z))"
    using unlink_entry_Ok [OF h d(1) n x] by blast
  have same: "same_blk (disk_blk s2 z) (put (32 * k) 2 (\<lambda>_. 0) (disk_blk s z))" using s2(4) by (simp add: disk_upd_def)
  have k: "k < 32" "n \<le> 32" using n by (simp_all add: dir_names_def)
  have kj: "k \<noteq> j" "j < 32" using x(2) y k by (auto simp: first_named_def)
  have d2: "dir_at s2 dip z" using dir_at_upd [OF d(1) s2(4) _ d(2)] bio_frame_fields(1) [OF s2(3)] by simp
  have eq: "disk_blk s2 z (32 * l + i) = disk_blk s z (32 * l + i)" if "l < 32" "i < 32" "l \<noteq> k \<or> 2 \<le> i" for l i
  proof -
    have "\<not> (32 * k \<le> 32 * l + i \<and> 32 * l + i < 32 * k + 2)" using that by (cases l k rule: linorder_cases) auto
    then show ?thesis using same that by (auto simp: same_blk_def put_def)
  qed
  have n2: "dir_names (disk_blk s2 z) n ns" by (rule dir_names_cong [OF n(1)]) (use eq k(2) in auto)
  have "get16 (disk_blk s2 z) (32 * k) = 0"
    using same k(1) by (simp add: get16_zero same_blk_def put_def)
  then obtain s3 where s3: "find_entry dip nm np (length xs) s2 = Ok 0 s3"
    using find_entry_Ok [OF s2(2) d2 n2 n(2) x] by auto
  have "get16 (disk_blk s2 z) (32 * j) = get16 (disk_blk s z) (32 * j)"
    using eq [of j 0] eq [of j 1] kj by (simp add: get16_def)
  then obtain s4 where "find_entry dip nm' np' (length ys) s2 = Ok (ucast (get16 (disk_blk s z) (32 * j))) s4"
    using find_entry_Ok [OF s2(2) d2 n2 y(3,1,2)] by auto
  note s4 = this
  have i: "bio_inv s1 {}" "bio_inv s2 {}" using s1(2) s2(2) held_empty(1) by auto
  have "\<forall>m. blk_ok m \<longrightarrow> m \<noteq> z \<longrightarrow> disk_blk s2 m = disk_blk s m" using s2(4) by (simp add: disk_upd_def)
  then show ?thesis using i s1(1,3,4) s2(1,3) s3 s4 by (intro exI conjI) assumption+
qed

text \<open>
  C10: adding a name. In a directory whose first unused entry \<open>k\<close> lies in its first block,
  \<^verbatim>\<open>link_entry\<close> stores the number and the name there: \<^verbatim>\<open>find_entry\<close> of the name then
  returns the number, and all entries before \<open>k\<close> are found as before.
\<close>

theorem link_then_find_entry:
  assumes inv: "bio_inv s {}" and d: "dir_at s dip z" "z \<noteq> 0" "separate s dip 0"
    and k: "k < 32" "32 * k + 32 \<le> unat (i_size (k_inode s dip))" "get16 (disk_blk s z) (32 * k) = 0"
      "\<forall>i<k. get16 (disk_blk s z) (32 * i) \<noteq> 0"
    and n: "dir_names (disk_blk s z) k ns" "\<forall>j<k. ns j \<noteq> xs"
    and x: "cstr nm np xs" "length xs \<le> NAMELEN" and ino: "ino < 0x10000"
  shows "\<exists>s1 s2. link_entry dip nm np (length xs) ino s = Ok ino s1 \<and> bio_inv s1 {} \<and> bio_frame s s1 \<and>
    find_entry dip nm np (length xs) s1 = Ok ino s2 \<and>
    (\<forall>j ys nm' np'. j < k \<longrightarrow> name_at nm' np' ys \<longrightarrow> first_named ns ys j \<longrightarrow>
      (\<exists>s3. find_entry dip nm' np' (length ys) s1 = Ok (ucast (get16 (disk_blk s z) (32 * j))) s3))"
proof -
  have h: "held_inv s {}" using inv held_empty(1) by blast
  obtain s1 where s1: "link_entry dip nm np (length xs) ino s = Ok ino s1" "held_inv s1 {}" "bio_frame s s1" "dir_at s1 dip z"
    "entry_added s s1 z k nm np xs ino"
    using link_entry_Ok [OF h d k x] by blast
  note a = entry_added_names [OF s1(5) k(1) n(1) x]
  have nx: "name_at nm np xs" using bytes_cstr [OF x(1)] x by (auto simp: name_at_def cstr_nth in_set_conv_nth)
  have "unat ino < 65536" using ino by (simp add: word_less_nat_alt)
  then have "ucast (ucast ino :: ushort) = ino"
    by (simp add: word_unat_eq_iff unsigned_ucast_eq take_bit_nat_eq_self unsigned_take_bit_eq)
  then obtain s2 where "find_entry dip nm np (length xs) s1 = Ok ino s2"
    using find_entry_Ok [OF s1(2,4) a(1) _ nx, of k] n(2) a(2) by (auto simp: first_named_def)
  moreover have "\<exists>s3. find_entry dip nm' np' (length ys) s1 = Ok (ucast (get16 (disk_blk s z) (32 * j))) s3"
    if j: "j < k" "name_at nm' np' ys" "first_named ns ys j" for j ys nm' np'
  proof -
    have "first_named (ns(k := xs)) ys j" using j(1,3) by (simp add: first_named_def)
    then show ?thesis using find_entry_Ok [OF s1(2,4) a(1) _ j(2), of j] j(1) a(3) [OF j(1)] by auto
  qed
  ultimately show ?thesis using s1(1-3) held_empty(1) by blast
qed

section \<open>Witnesses\<close>

text \<open>A directory in zone 10 with the entries \<^verbatim>\<open>.\<close> and \<^verbatim>\<open>a\<close>, and a third one unused.\<close>

definition dir_block :: block where
  "dir_block = (\<lambda>_. 0)(0 := 1, 2 := 46, 32 := 7, 34 := 97)"

definition dir_inode :: inode where
  "dir_inode = zero_inode\<lparr>i_mode := S_IFDIR, i_size := 96, i_nlink := 1,
     i_zone := (\<lambda>_. 0)(0 := 10), i_count := 1, i_dev := rootdev, i_num := 2\<rparr>"

definition small_dir :: kernel where
  "small_dir = ino_mod 5 (\<lambda>_. dir_inode) (fs_state (\<lambda>n. if n = 10 then dir_block else (\<lambda>_. 0)) two_procs)"

definition small_names :: "nat \<Rightarrow> uchar list" where
  "small_names j = (if j = 0 then [46] else [97])"

lemma small_dir_Ok:
  "bio_inv small_dir {}" "dir_at small_dir 5 10" "separate small_dir 5 0" "disk_blk small_dir 10 = dir_block"
  "i_size (k_inode small_dir 5) = 96"
proof -
  have "b_flag (k_buf two_procs Hdtab) = 0" "k_proc two_procs (k_cu two_procs) \<noteq> None"
    by (simp_all add: two_procs_def boot_kernel_def zero_buf_def)
  note f = fs_state_Ok [OF this]
  show "bio_inv small_dir {}" "disk_blk small_dir 10 = dir_block" using f(1,2) by (simp_all add: small_dir_def)
  have i: "k_inode small_dir 5 = dir_inode" by (simp add: small_dir_def)
  then show "i_size (k_inode small_dir 5) = 96" by (simp add: dir_inode_def)
  have z: "i_zone dir_inode 7 = 0" "i_zone dir_inode 8 = 0" by (simp_all add: dir_inode_def)
  have zo: "zone_of small_dir 5 nr = (if nr = 0 then 10 else 0)" for nr
    by (simp add: zone_of_def i Let_def z) (simp add: dir_inode_def)
  have "file_ok small_dir 5" by (simp add: file_ok_def zmaps_ok_def i z) (simp add: dir_inode_def)
  then show "dir_at small_dir 5 10" by (simp add: dir_at_def zo i) (simp add: dir_inode_def)
  have "map_zones small_dir 5 = {}" by (auto simp: map_zones_def Let_def i z)
  then show "separate small_dir 5 0" by (simp add: separate_def zo)
qed

lemma less_two: "(j :: nat) < 2 \<longleftrightarrow> j = 0 \<or> j = 1"
  by auto

lemma small_names_Ok: "dir_names dir_block 2 small_names"
  by (auto simp: dir_names_def small_names_def dir_block_def less_two)

theorem find_unlink_entry_witness:
  "\<exists>s1 s2 s3. find_entry 5 two_strings 0 1 small_dir = Ok 7 s1 \<and> unlink_entry 5 two_strings 0 1 small_dir = Ok 7 s2 \<and>
    find_entry 5 two_strings 0 1 s2 = Ok 0 s3"
proof -
  have "name_at two_strings 0 [97]" by (simp add: name_at_def two_strings_def bytes_def)
  moreover have "name_at ((\<lambda>_. 0)(0 := 46)) 0 [46]" by (simp add: name_at_def bytes_def)
  moreover have "first_named small_names [97] 1" "first_named small_names [46] 0" by (simp_all add: first_named_def small_names_def)
  ultimately show ?thesis
    using find_unlink_entry [OF small_dir_Ok(1-3), of 2 small_names 1 two_strings 0 "[97]" "(\<lambda>_. 0)(0 := 46)" 0 "[46]" 0]
      small_names_Ok by (auto simp: small_dir_Ok(4) get16_def dir_block_def)
qed

theorem link_then_find_entry_witness:
  "\<exists>s1 s2. link_entry 5 two_strings 8 2 9 small_dir = Ok 9 s1 \<and> find_entry 5 two_strings 8 2 s1 = Ok 9 s2"
proof -
  have c: "cstr two_strings 8 [97, 99]" by (simp add: two_strings_def)
  have g: "get16 (disk_blk small_dir 10) (32 * 2) = 0" "\<forall>i<2. get16 (disk_blk small_dir 10) (32 * i) \<noteq> 0"
    by (auto simp: get16_def dir_block_def less_two small_dir_Ok(4))
  have n: "dir_names (disk_blk small_dir 10) 2 small_names" "\<forall>j<2. small_names j \<noteq> [97, 99]"
    using small_names_Ok by (simp_all add: small_dir_Ok(4) small_names_def)
  have "\<exists>s1 s2. link_entry 5 two_strings 8 (length [97, 99 :: uchar]) 9 small_dir = Ok 9 s1 \<and>
      find_entry 5 two_strings 8 (length [97, 99 :: uchar]) s1 = Ok 9 s2"
    using link_then_find_entry [OF small_dir_Ok(1,2) _ small_dir_Ok(3) _ _ g n c, of 9] small_dir_Ok(5) by force
  then show ?thesis by (simp add: numeral_2_eq_2)
qed

end
