(* ===== verification/Qbuf.thy ===== *)
theory Qbuf
  imports Kernel
begin

text \<open>
  The cyclic character queues of the terminals (\<^verbatim>\<open>putq\<close>, \<^verbatim>\<open>getq\<close>, \<^verbatim>\<open>eraseq\<close> of
  \<^verbatim>\<open>src/chr/tty.c\<close>) and the interface their clients rely on: a bounded list to which a
  character is appended, from which the first one is taken and the last one erased. The
  interface is the locale \<open>line_queue\<close>; the ring buffer is an instance of it.
\<close>

section \<open>Definitions\<close>

definition putq :: "qbuf \<Rightarrow> uchar \<Rightarrow> int \<times> qbuf" where
  "putq qb ch =
     (if q_count qb = QBUFSIZ then (-1, qb)
      else (0, qb\<lparr>q_char := (q_char qb)(unat (q_end qb) := ch),
                  q_end := (q_end qb + 1) mod QBUFSIZ,
                  q_count := q_count qb + 1\<rparr>))"

definition getq :: "qbuf \<Rightarrow> uchar \<times> qbuf" where
  "getq qb =
     (if q_count qb = 0 then (-1, qb)
      else (q_char qb (unat (q_start qb)),
            qb\<lparr>q_start := (q_start qb + 1) mod QBUFSIZ, q_count := q_count qb - 1\<rparr>))"

definition eraseq :: "qbuf \<Rightarrow> uchar \<times> qbuf" where
  "eraseq qb =
     (if q_count qb = 0 then (-1, qb)
      else (0, qb\<lparr>q_end := (q_end qb - 1 + QBUFSIZ) mod QBUFSIZ, q_count := q_count qb - 1\<rparr>))"

section \<open>The interface\<close>

locale line_queue =
  fixes inv :: "'q \<Rightarrow> bool"
    and list :: "'q \<Rightarrow> 'c list"
    and cap :: nat
    and put :: "'q \<Rightarrow> 'c \<Rightarrow> int \<times> 'q"
    and get :: "'q \<Rightarrow> 'c \<times> 'q"
    and erase :: "'q \<Rightarrow> 'r \<times> 'q"
  assumes within_cap: "inv q \<Longrightarrow> length (list q) \<le> cap"
    and put_room: "inv q \<Longrightarrow> length (list q) < cap \<Longrightarrow>
      fst (put q c) = 0 \<and> inv (snd (put q c)) \<and> list (snd (put q c)) = list q @ [c]"
    and put_full: "inv q \<Longrightarrow> length (list q) = cap \<Longrightarrow> put q c = (-1, q)"
    and get_some: "inv q \<Longrightarrow> list q \<noteq> [] \<Longrightarrow>
      fst (get q) = hd (list q) \<and> inv (snd (get q)) \<and> list (snd (get q)) = tl (list q)"
    and get_none: "inv q \<Longrightarrow> list q = [] \<Longrightarrow> snd (get q) = q"
    and erase_last: "inv q \<Longrightarrow> inv (snd (erase q)) \<and> list (snd (erase q)) = butlast (list q)"
begin

lemma put_inv: "inv q \<Longrightarrow> inv (snd (put q c))"
  using put_room put_full within_cap by (metis le_neq_implies_less snd_conv)

lemma put_list: "inv q \<Longrightarrow> list (snd (put q c)) = take cap (list q @ [c])"
proof -
  assume q: "inv q"
  show ?thesis
  proof (cases "length (list q) < cap")
    case True
    with q show ?thesis by (simp add: put_room)
  next
    case False
    with within_cap[OF q] have "length (list q) = cap" by simp
    with q show ?thesis by (simp add: put_full)
  qed
qed

lemma puts_inv_list:
  "inv q \<Longrightarrow> inv (foldl (\<lambda>q c. snd (put q c)) q cs) \<and>
    list (foldl (\<lambda>q c. snd (put q c)) q cs) = take cap (list q @ cs)"
proof (induction cs arbitrary: q)
  case Nil
  then show ?case by (simp add: within_cap)
next
  case (Cons c cs)
  have "take cap (take cap (list q @ [c]) @ cs) = take cap (list q @ c # cs)"
    by (cases "length (list q) < cap") (simp_all add: min_def)
  with Cons show ?case by (simp add: put_inv put_list)
qed

text \<open>Whatever was queued comes out in the order it went in.\<close>

lemma fifo:
  assumes "inv q" and "list q = []" and "length cs \<le> cap"
  shows "list (foldl (\<lambda>q c. snd (put q c)) q cs) = cs"
  using assms puts_inv_list[of q cs] by simp

end

section \<open>The ring buffer implements it\<close>

definition q_inv :: "qbuf \<Rightarrow> bool" where
  "q_inv q \<longleftrightarrow> unat (q_start q) < 1024 \<and> unat (q_count q) \<le> 1024 \<and>
     unat (q_end q) = (unat (q_start q) + unat (q_count q)) mod 1024"

definition q_list :: "qbuf \<Rightarrow> uchar list" where
  "q_list q = map (\<lambda>i. q_char q ((unat (q_start q) + i) mod 1024)) [0..<unat (q_count q)]"

lemma length_q_list [simp]: "length (q_list q) = unat (q_count q)"
  by (simp add: q_list_def)

lemma q_list_Nil: "q_list q = [] \<longleftrightarrow> q_count q = 0"
  by (simp add: q_list_def unat_eq_zero)

lemma unat_inc_mod: "unat x < 1024 \<Longrightarrow> unat ((x + 1) mod 1024 :: uint) = (unat x + 1) mod 1024"
  by (simp add: unat_mod unat_word_ariths)

text \<open>Positions of the ring: distinct offsets below the size are distinct places.\<close>

lemma ring_distinct: "i < n \<Longrightarrow> n < c \<Longrightarrow> (s + i) mod c \<noteq> (s + n) mod (c :: nat)"
  using mod_eq_dvd_iff_nat[of "s + i" "s + n" c] by (auto dest: dvd_imp_le)

lemma ring_shift: "0 < n \<Longrightarrow> ((s + 1) mod c + (n - 1)) mod c = (s + n) mod (c :: nat)"
  by (cases n) (simp_all add: mod_add_left_eq)

lemma ring_back: "0 < n \<Longrightarrow> ((s + n) mod 1024 + 1023) mod 1024 = (s + (n - 1)) mod (1024 :: nat)"
proof (cases n)
  case (Suc m)
  have "((s + n) mod 1024 + 1023) mod 1024 = ((s + m) + 1024) mod 1024"
    using Suc by (simp add: mod_add_left_eq)
  then show ?thesis using Suc by simp
qed simp

lemma putq_room:
  assumes q: "q_inv q" and room: "unat (q_count q) < 1024"
  shows "fst (putq q c) = 0" "q_inv (snd (putq q c))" "q_list (snd (putq q c)) = q_list q @ [c]"
proof -
  let ?s = "unat (q_start q)" and ?n = "unat (q_count q)"
  have cnt: "q_count q \<noteq> 1024" using room by auto
  have n1: "unat (q_count q + 1) = ?n + 1" using room by (simp add: unat_word_ariths)
  have e: "unat (q_end q) = (?s + ?n) mod 1024" using q by (simp add: q_inv_def)
  have e1: "unat ((q_end q + 1) mod 1024) = (?s + (?n + 1)) mod 1024"
    by (simp add: unat_inc_mod e mod_simps)
  show "fst (putq q c) = 0" using cnt by (simp add: putq_def)
  show "q_inv (snd (putq q c))" using q room cnt by (simp add: putq_def q_inv_def n1 e1)
  have "(?s + i) mod 1024 \<noteq> (?s + ?n) mod 1024" if "i < ?n" for i
    using that room by (rule ring_distinct)
  then show "q_list (snd (putq q c)) = q_list q @ [c]"
    using cnt by (auto simp: putq_def q_list_def n1 e)
qed

lemma getq_some:
  assumes q: "q_inv q" and ne: "q_count q \<noteq> 0"
  shows "fst (getq q) = hd (q_list q)" "q_inv (snd (getq q))" "q_list (snd (getq q)) = tl (q_list q)"
proof -
  let ?s = "unat (q_start q)" and ?n = "unat (q_count q)"
  have pos: "0 < ?n" using ne by (simp add: unat_gt_0)
  have n1: "unat (q_count q - 1) = ?n - 1" using ne by (simp add: unat_minus_one)
  have s: "?s < 1024" using q by (simp add: q_inv_def)
  have s1: "unat ((q_start q + 1) mod 1024) = (?s + 1) mod 1024" by (rule unat_inc_mod[OF s])
  show "fst (getq q) = hd (q_list q)"
    using ne pos s by (simp add: getq_def q_list_def hd_map)
  show "q_inv (snd (getq q))"
    using q ne pos ring_shift[OF pos, of ?s 1024] by (auto simp: getq_def q_inv_def n1 s1)
  have "tl (q_list q) = map (\<lambda>i. q_char q ((?s + i) mod 1024)) [1..<?n]"
    using pos by (simp add: q_list_def map_tl[symmetric] tl_upt)
  also have "\<dots> = map (\<lambda>i. q_char q ((?s + Suc i) mod 1024)) [0..<?n - 1]"
    using pos by (auto intro!: nth_equalityI)
  finally show "q_list (snd (getq q)) = tl (q_list q)"
    using ne by (simp add: getq_def q_list_def n1 s1 mod_simps)
qed

lemma eraseq_last:
  assumes q: "q_inv q"
  shows "q_inv (snd (eraseq q))" "q_list (snd (eraseq q)) = butlast (q_list q)"
proof -
  let ?s = "unat (q_start q)" and ?n = "unat (q_count q)"
  have e: "unat (q_end q) = (?s + ?n) mod 1024" using q by (simp add: q_inv_def)
  have e1: "unat ((1023 + q_end q) mod 1024) = (?s + (?n - 1)) mod 1024" if "q_count q \<noteq> 0"
  proof -
    have "0 < ?n" using that by (simp add: unat_gt_0)
    moreover have "unat (1023 + q_end q) = unat (q_end q) + 1023"
    proof -
      have "unat (q_end q) < 1024" using e by simp
      then show ?thesis by (simp add: unat_word_ariths)
    qed
    ultimately show ?thesis using ring_back[of ?n ?s] by (simp add: unat_mod e)
  qed
  have n1: "unat (q_count q - 1) = ?n - 1" if "q_count q \<noteq> 0"
    using that by (simp add: unat_minus_one)
  show "q_inv (snd (eraseq q))" using q by (auto simp: eraseq_def q_inv_def n1 e1)
  show "q_list (snd (eraseq q)) = butlast (q_list q)"
    by (rule nth_equalityI) (auto simp: eraseq_def q_list_def n1 nth_butlast)
qed

interpretation lq: line_queue q_inv q_list 1024 putq getq eraseq
proof
  show "length (q_list q) \<le> 1024" if "q_inv q" for q
    using that by (simp add: q_inv_def)
  show "fst (putq q c) = 0 \<and> q_inv (snd (putq q c)) \<and> q_list (snd (putq q c)) = q_list q @ [c]"
    if "q_inv q" "length (q_list q) < 1024" for q c
    using that by (simp add: putq_room)
  show "putq q c = (-1, q)" if "q_inv q" "length (q_list q) = 1024" for q c
  proof -
    have "q_count q = 1024" using that(2) by (simp add: word_unat_eq_iff)
    then show ?thesis by (simp add: putq_def)
  qed
  show "fst (getq q) = hd (q_list q) \<and> q_inv (snd (getq q)) \<and> q_list (snd (getq q)) = tl (q_list q)"
    if "q_inv q" "q_list q \<noteq> []" for q
    using that by (simp add: getq_some q_list_Nil)
  show "snd (getq q) = q" if "q_inv q" "q_list q = []" for q
    using that by (simp add: getq_def q_list_Nil)
  show "q_inv (snd (eraseq q)) \<and> q_list (snd (eraseq q)) = butlast (q_list q)" if "q_inv q" for q
    using that by (simp add: eraseq_last)
qed

end
