(* ===== verification/Signal.thy ===== *)
theory Signal
  imports Sched
begin

unbundle bit_operations_syntax

text \<open>
  Posting and selecting signals, \<^verbatim>\<open>src/kern/signal.c\<close>: \<^verbatim>\<open>sigsend\<close>, \<^verbatim>\<open>sigsend_g\<close>,
  \<^verbatim>\<open>do_kill\<close>, \<^verbatim>\<open>do_signal\<close>, \<^verbatim>\<open>issig\<close> and \<^verbatim>\<open>usigsav\<close>. Signal \<open>n\<close> is bit \<open>n - 1\<close> of
  \<^verbatim>\<open>p_sig\<close>. The reads \<^verbatim>\<open>proc[pid]\<close> and \<^verbatim>\<open>p_sigact[n-1]\<close> happen before the bounds
  are known to hold in the code, so outside the arrays they are faults of the model.
\<close>

section \<open>Definitions\<close>

definition sigsend :: "int \<Rightarrow> int \<Rightarrow> bool \<Rightarrow> int kop" where
  "sigsend pid n priv =
     (if pid < 0 \<or> pid \<ge> int NPROC then kstop (Fault ''proc[pid]'') else
      kbind (kget (\<lambda>s. k_proc s (nat pid))) (\<lambda>q.
      case q of None \<Rightarrow> syserr EINVAL
      | Some p \<Rightarrow>
       if pid = 0 \<or> n < 0 \<or> n \<ge> int NSIG then syserr EINVAL else
       kbind (cu_get p_euid) (\<lambda>euid.
       kbind suser (\<lambda>su.
       if \<not> (priv \<or> euid = p_euid p \<or> su \<noteq> 0) then syserr EPERM
       else if n = 0 then kstop (Fault ''p_sigact[-1]'')
       else if sa_handler (p_sigact p (nat n - 1)) = SIG_IGN \<and> n \<noteq> uint SIGKILL then kret (-1)
       else kthen (kmod (proc_mod (nat pid) (\<lambda>p. p\<lparr>p_sig := p_sig p OR shl1 (word_of_int n - 1)\<rparr>)))
             (kthen (kwhen (p_stat p = SWAIT) (setrun (nat pid))) (kret 0))))))"

definition sigsend_g :: "uint \<Rightarrow> int \<Rightarrow> bool \<Rightarrow> int kop" where
  "sigsend_g pgrp n priv =
     kthen (kfor [0..<NPROC] (\<lambda>nr. kbind (kget (\<lambda>s. k_proc s nr)) (\<lambda>q.
       case q of None \<Rightarrow> kret ()
       | Some p \<Rightarrow> if p_pgrp p = pgrp then kthen (sigsend (sint (p_pid p)) n priv) (kret ())
                   else kret ())))
     (kret 0)"

text \<open>
  The loop of \<^verbatim>\<open>kill(-1, sig)\<close> keeps the result of the last call; \<open>None\<close> is the variable
  before its first assignment.
\<close>

primrec kill_all :: "nat list \<Rightarrow> int \<Rightarrow> int option \<Rightarrow> int option kop" where
  "kill_all [] sig r = kret r"
| "kill_all (nr # nrs) sig r = kbind (kget (\<lambda>s. k_proc s nr)) (\<lambda>q.
     case q of None \<Rightarrow> kill_all nrs sig r
     | Some p \<Rightarrow> kbind (sigsend (int nr) sig False) (\<lambda>r'. kill_all nrs sig (Some r')))"

definition do_kill :: "int \<Rightarrow> int \<Rightarrow> int kop" where
  "do_kill pid sig =
     (if pid > 0 then sigsend pid sig False
      else if pid = 0 then kbind (cu_get p_pid) (\<lambda>g. sigsend_g g sig False)
      else if pid < -1 then sigsend_g (word_of_int (- pid)) sig False
      else kbind (kill_all [1..<NPROC] sig None) (\<lambda>r. kderef ''ret'' r kret))"

definition do_signal :: "int \<Rightarrow> uint \<Rightarrow> int kop" where
  "do_signal sig ufunc =
     (if sig < 1 \<or> sig > int NSIG \<or> sig = uint SIGKILL then syserr EINVAL
      else kthen (cu_mod (\<lambda>p. p\<lparr>
               p_sigact := (p_sigact p)(nat sig - 1 := (p_sigact p (nat sig - 1))\<lparr>
                 sa_handler := ufunc, sa_flags := SA_ONESHOT OR SA_NOMASK, sa_mask := 0\<rparr>),
               p_sigmask := 0\<rparr>))
             (kret 0))"

text \<open>
  The search of \<^verbatim>\<open>issig\<close> starts at 0, where \<^verbatim>\<open>1<<(n-1)\<close> is bit 31 on the x86.
\<close>

definition sig_pending :: "proc \<Rightarrow> nat \<Rightarrow> bool" where
  "sig_pending p n \<longleftrightarrow> p_sig p AND shl1 (of_nat n - 1) \<noteq> 0 \<and> p_pid p \<noteq> 0"

definition issig :: "nat kop" where
  "issig = kbind (cu_get id) (\<lambda>p.
     if p_sig p = 0 then kret 0
     else case scan (sig_pending p) 0 32 of None \<Rightarrow> kret 0
     | Some n \<Rightarrow>
        if n = 0 then kstop (Fault ''p_sigact[-1]'')
        else if sa_handler (p_sigact p (n - 1)) = SIG_IGN \<and> n \<noteq> unat SIGKILL then
          kthen (cu_mod (\<lambda>p. p\<lparr>p_sig := p_sig p AND NOT (shl1 (of_nat n - 1))\<rparr>)) (kret 0)
        else if p_sigmask p AND shl1 (of_nat n - 1) \<noteq> 0 \<and> n \<noteq> unat SIGKILL then kret 0
        else kthen (cu_mod (\<lambda>p. p\<lparr>p_cursig := of_nat n\<rparr>)) (kret n))"

definition usigsav :: "trap \<Rightarrow> uint \<Rightarrow> jmp_buf" where
  "usigsav tf msk = \<lparr>jb_eip = tf_eip tf, jb_esp = tf_esp tf, jb_ebx = tf_ebx tf,
     jb_ecx = tf_ecx tf, jb_edx = tf_edx tf, jb_esi = tf_esi tf, jb_edi = tf_edi tf,
     jb_ebp = tf_ebp tf, jb_sigmask = msk\<rparr>"

section \<open>The process table is kept\<close>

lemma proc_wf_syserr: "preserves proc_wf (syserr e)"
  unfolding syserr_def by (intro preserves_intros) (auto simp: proc_wf_def split: if_splits)

lemma proc_wf_setrun: "preserves proc_wf (setrun nr)"
  unfolding setrun_def
  by (intro preserves_intros proc_wf_proc_mod) (auto dest: proc_wfD)

lemma proc_wf_sigsend: "preserves proc_wf (sigsend pid n priv)"
  unfolding sigsend_def suser_def
  by (intro preserves_intros proc_wf_syserr proc_wf_setrun proc_wf_proc_mod) (auto dest: proc_wfD)

lemma proc_wf_sigsend_g: "preserves proc_wf (sigsend_g pgrp n priv)"
  unfolding sigsend_g_def by (intro preserves_intros proc_wf_sigsend)

section \<open>Bits of the signal word\<close>

lemma shl1_bit: "1 \<le> n \<Longrightarrow> n \<le> 32 \<Longrightarrow> shl1 (of_nat n - 1) = push_bit (n - 1) 1"
proof -
  assume "1 \<le> n" "n \<le> 32"
  then obtain m where n: "n = Suc m" and m: "m < 32" by (cases n) auto
  have "(of_nat m :: uint) AND 31 = take_bit 5 (of_nat m)"
    by (simp add: take_bit_eq_mask mask_eq_exp_minus_1)
  moreover have "unat (take_bit 5 (of_nat m :: uint)) = m"
    using m by (simp add: unsigned_take_bit_eq unat_of_nat take_bit_nat_eq_self)
  ultimately show ?thesis by (simp add: shl1_def n)
qed

lemma and_shl1: "1 \<le> n \<Longrightarrow> n \<le> 32 \<Longrightarrow> (w AND shl1 (of_nat n - 1) \<noteq> 0) = bit (w :: uint) (n - 1)"
  by (simp add: shl1_bit bit_iff_and_push_bit_not_eq_0)

section \<open>Properties\<close>

text \<open>What a caller without privileges leaves alone: another user's process.\<close>

definition untouched :: "nat \<Rightarrow> uint \<Rightarrow> nat \<Rightarrow> proc \<Rightarrow> kernel \<Rightarrow> bool" where
  "untouched me euid j p s \<longleftrightarrow> k_cu s = me \<and> k_proc s j = Some p \<and>
     (\<exists>c. k_proc s me = Some c \<and> p_euid c = euid) \<and> proc_wf s"

lemma untouched_syserr: "j \<noteq> me \<Longrightarrow> preserves (untouched me euid j p) (syserr e)"
  unfolding syserr_def untouched_def
  by (intro preserves_intros) (auto simp: proc_wf_def split: if_splits)

lemma untouched_proc_mod:
  "nr \<noteq> j \<Longrightarrow> (\<And>p. p_pid (f p) = p_pid p) \<Longrightarrow> (\<And>p. p_pri (f p) = p_pri p) \<Longrightarrow>
    (\<And>p. p_euid (f p) = p_euid p) \<Longrightarrow>
    untouched me euid j p s \<Longrightarrow> untouched me euid j p (proc_mod nr f s)"
  by (auto simp: untouched_def intro!: proc_wf_proc_mod dest: proc_wfD)

lemma untouched_sigsend:
  assumes "j \<noteq> me" and "euid \<noteq> 0" and "p_euid p \<noteq> euid"
  shows "preserves (untouched me euid j p) (sigsend pid n False)"
proof (rule preservesI)
  fix s assume u: "untouched me euid j p s"
  obtain c where c: "k_proc s me = Some c" "p_euid c = euid" "k_cu s = me" "k_proc s j = Some p"
    using u by (auto simp: untouched_def)
  show "untouched me euid j p (final (sigsend pid n False s))"
  proof (cases "nat pid = j")
    case True
    then have "final (sigsend pid n False s) = s \<or>
        (\<exists>e. final (sigsend pid n False s) = final (syserr e s))"
      using c assms by (auto simp: sigsend_def kop_simps)
    then show ?thesis using u preservesD[OF untouched_syserr[OF assms(1)] u] by metis
  next
    case False
    have "preserves (untouched me euid j p) (sigsend pid n False)"
      unfolding sigsend_def suser_def setrun_def
      by (intro preserves_intros untouched_syserr[OF assms(1)] untouched_proc_mod[OF False]) auto
    then show ?thesis using u by (rule preservesD)
  qed
qed

lemma untouched_sigsend_g:
  "j \<noteq> me \<Longrightarrow> euid \<noteq> 0 \<Longrightarrow> p_euid p \<noteq> euid \<Longrightarrow>
    preserves (untouched me euid j p) (sigsend_g pgrp n False)"
  unfolding sigsend_g_def by (intro preserves_intros untouched_sigsend)

lemma untouched_kill_all:
  "j \<noteq> me \<Longrightarrow> euid \<noteq> 0 \<Longrightarrow> p_euid p \<noteq> euid \<Longrightarrow>
    preserves (untouched me euid j p) (kill_all nrs n r)"
  by (induction nrs arbitrary: r) (auto intro!: preserves_intros untouched_sigsend)

text \<open>
  C32: signal permissions. Whatever process, group or broadcast argument an unprivileged
  process passes to \<^verbatim>\<open>kill\<close>, and however the call ends, a process that belongs to
  another effective user is left exactly as it was: no signal is posted to it and it is
  not woken.
\<close>

theorem do_kill_respects_owner:
  assumes "proc_wf s" and "k_proc s (k_cu s) = Some c" and "p_euid c \<noteq> 0"
    and "k_proc s j = Some p" and "p_euid p \<noteq> p_euid c"
  shows "k_proc (final (do_kill pid sig s)) j = Some p"
proof -
  have j: "j \<noteq> k_cu s" using assms(2,4,5) by auto
  have u: "untouched (k_cu s) (p_euid c) j p s" using assms by (auto simp: untouched_def)
  have "preserves (untouched (k_cu s) (p_euid c) j p) (do_kill pid sig)"
    unfolding do_kill_def using assms(3,5) j
    by (intro preserves_intros untouched_sigsend untouched_sigsend_g untouched_kill_all) auto
  from preservesD[OF this u] show ?thesis by (simp add: untouched_def)
qed

text \<open>
  Posting a signal. A permitted \<^verbatim>\<open>sigsend\<close> of a signal the target does not ignore
  succeeds: it adds exactly that signal to the target's pending set, makes an
  interruptibly sleeping target runnable, and changes no other process.
\<close>

theorem sigsend_posts:
  assumes "k_proc s (k_cu s) = Some c" and "k_proc s (nat pid) = Some p"
    and "0 < pid" and "pid < int NPROC" and "0 < n" and "n < int NSIG"
    and "priv \<or> p_euid c = p_euid p \<or> p_euid c = 0"
    and "sa_handler (p_sigact p (nat n - 1)) \<noteq> SIG_IGN \<or> n = 9"
  shows "\<exists>s' p'. sigsend pid n priv s = Ok 0 s' \<and> k_proc s' = (k_proc s)(nat pid \<mapsto> p') \<and>
    (\<forall>i < NSIG. bit (p_sig p') i = (bit (p_sig p) i \<or> Suc i = nat n)) \<and>
    p_stat p' = (if p_stat p = SWAIT then SRUN else p_stat p)"
proof -
  obtain m where m: "n = int m" "1 \<le> m" "m \<le> 32"
    using assms(5,6) by (cases n) auto
  have "bit (p_sig p OR shl1 (of_nat m - 1)) i \<longleftrightarrow> bit (p_sig p) i \<or> Suc i = m"
    if "i < NSIG" for i
    using that m by (auto simp: shl1_bit bit_simps)
  with assms m show ?thesis
    by (cases "p_stat p = SWAIT")
      (auto simp: sigsend_def setrun_def kwhen_def kop_simps proc_mod_def)
qed

text \<open>
  C33: selecting a signal. If \<^verbatim>\<open>issig()\<close> reports signal \<open>n\<close>, then \<open>n\<close> is pending, no
  lower-numbered signal is, \<open>n\<close> is neither blocked nor ignored unless it is
  \<^verbatim>\<open>SIGKILL\<close>, and the only change is that \<open>n\<close> becomes the current signal. Conversely the
  least pending signal is reported whenever it is deliverable.
\<close>

theorem issig_reports_deliverable:
  assumes "k_proc s (k_cu s) = Some p" and "p_pid p \<noteq> 0" and "\<not> bit (p_sig p) 31"
    and "0 < n"
  shows "issig s = Ok n t \<longleftrightarrow>
      n < 32 \<and> bit (p_sig p) (n - 1) \<and> (\<forall>m < n - 1. \<not> bit (p_sig p) m) \<and>
      (n \<noteq> 9 \<longrightarrow> \<not> bit (p_sigmask p) (n - 1) \<and> sa_handler (p_sigact p (n - 1)) \<noteq> SIG_IGN) \<and>
      t = s\<lparr>k_proc := (k_proc s)(k_cu s \<mapsto> p\<lparr>p_cursig := of_nat n\<rparr>)\<rparr>"
proof -
  have pend: "sig_pending p k \<longleftrightarrow> bit (p_sig p) (k - 1)" if "1 \<le> k" "k \<le> 32" for k
    using that assms(2) and_shl1[of k "p_sig p"] by (simp add: sig_pending_def)
  have "shl1 (- 1) = push_bit 31 1"
    by (simp add: shl1_def)
  then have pend0: "\<not> sig_pending p 0"
    using assms(3) by (simp add: sig_pending_def bit_iff_and_push_bit_not_eq_0)
  have least: "scan (sig_pending p) 0 32 = Some k \<longleftrightarrow>
      1 \<le> k \<and> k < 32 \<and> bit (p_sig p) (k - 1) \<and> (\<forall>m < k - 1. \<not> bit (p_sig p) m)" for k
  proof -
    have "(\<forall>j < k. \<not> sig_pending p j) \<longleftrightarrow> (\<forall>m < k - 1. \<not> bit (p_sig p) m)" if "1 \<le> k" "k < 32"
    proof
      assume *: "\<forall>j < k. \<not> sig_pending p j"
      have "\<not> bit (p_sig p) m" if "m < k - 1" for m
        using *[rule_format, of "Suc m"] that \<open>k < 32\<close> pend[of "Suc m"] by auto
      then show "\<forall>m < k - 1. \<not> bit (p_sig p) m" by blast
    next
      assume *: "\<forall>m < k - 1. \<not> bit (p_sig p) m"
      have "\<not> sig_pending p j" if "j < k" for j
        using *[rule_format, of "j - 1"] that \<open>k < 32\<close> pend[of j] pend0 by (cases j) auto
      then show "\<forall>j < k. \<not> sig_pending p j" by blast
    qed
    then show ?thesis using pend[of k] pend0 by (cases k) (auto simp: scan_Some_iff)
  qed
  have nz: "bit (p_sig p) i \<Longrightarrow> p_sig p \<noteq> 0" for i by auto
  show ?thesis
  proof (cases "scan (sig_pending p) 0 32")
    case None
    then have "\<not> (n < 32 \<and> bit (p_sig p) (n - 1) \<and> (\<forall>m < n - 1. \<not> bit (p_sig p) m))"
      using least[of n] assms(4) by auto
    with None assms(1,4) show ?thesis by (auto simp: issig_def kop_simps)
  next
    case (Some k)
    note k = Some[unfolded least]
    have uniq: "n < 32 \<and> bit (p_sig p) (n - 1) \<and> (\<forall>m < n - 1. \<not> bit (p_sig p) m) \<longleftrightarrow> n = k"
      using least[of n] Some assms(4) by auto
    have "p_sig p \<noteq> 0" using k nz by blast
    with Some k uniq assms(1,4) and_shl1[of k "p_sigmask p"] show ?thesis
      by (auto simp: issig_def kop_simps)
  qed
qed

text \<open>
  A weakness of the selection. A blocked signal with a lower number hides a pending
  \<^verbatim>\<open>SIGKILL\<close>: \<^verbatim>\<open>issig()\<close> reports nothing, although the kill signal can be neither
  blocked nor ignored.
\<close>

theorem issig_blocked_hides_kill:
  "\<exists>s p. k_proc s (k_cu s) = Some p \<and> p_pid p \<noteq> 0 \<and> bit (p_sig p) 8 \<and> issig s = Ok 0 s"
proof -
  let ?p = "zero_proc\<lparr>p_pid := 1, p_sig := 0x102, p_sigmask := 0x2\<rparr>"
  let ?s = "boot_kernel\<lparr>k_proc := [1 \<mapsto> ?p], k_cu := 1\<rparr>"
  have "scan (sig_pending ?p) 0 32 = Some 2"
    by (simp add: scan_step sig_pending_def shl1_def)
  then have "issig ?s = Ok 0 ?s"
    by (simp add: issig_def kop_simps shl1_def zero_proc_def zero_sigaction_def)
  then show ?thesis by (intro exI[of _ ?s] exI[of _ ?p]) simp
qed

section \<open>Witnesses\<close>

text \<open>Three processes of three users; the one in slot 1 runs.\<close>

definition three_procs :: kernel where
  "three_procs = boot_kernel\<lparr>k_proc := [0 \<mapsto> zero_proc\<lparr>p_stat := SRUN, p_pri := 120\<rparr>,
     1 \<mapsto> zero_proc\<lparr>p_stat := SRUN, p_pid := 1, p_euid := 5, p_sig := 4\<rparr>,
     2 \<mapsto> zero_proc\<lparr>p_stat := SWAIT, p_pid := 2, p_euid := 7\<rparr>], k_cu := 1\<rparr>"

lemma proc_wf_three_procs: "proc_wf three_procs"
  by (auto simp: proc_wf_def three_procs_def zero_proc_def split: if_splits)

theorem do_kill_respects_owner_witness:
  "k_proc (final (do_kill (-1) 9 three_procs)) 2 = k_proc three_procs 2"
  using do_kill_respects_owner[OF proc_wf_three_procs, of _ 2 _ "-1" 9]
  by (simp add: three_procs_def)

theorem sigsend_posts_witness:
  "\<exists>s' p'. sigsend 2 9 True three_procs = Ok 0 s' \<and> k_proc s' = (k_proc three_procs)(2 \<mapsto> p') \<and>
    (\<forall>i < NSIG. bit (p_sig p') i = (i = 8)) \<and> p_stat p' = SRUN"
proof -
  have c: "k_proc three_procs (k_cu three_procs) =
      Some (zero_proc\<lparr>p_stat := SRUN, p_pid := 1, p_euid := 5, p_sig := 4\<rparr>)"
    by (simp add: three_procs_def)
  have p: "k_proc three_procs (nat 2) =
      Some (zero_proc\<lparr>p_stat := SWAIT, p_pid := 2, p_euid := 7\<rparr>)"
    by (simp add: three_procs_def)
  have z: "p_sig zero_proc = 0" by (simp add: zero_proc_def)
  show ?thesis
    using sigsend_posts[OF c p, of 9 True] by (simp add: z eval_nat_numeral)
qed

theorem issig_reports_deliverable_witness:
  "issig three_procs = Ok 3 (three_procs\<lparr>k_proc := (k_proc three_procs)(1 \<mapsto>
     zero_proc\<lparr>p_stat := SRUN, p_pid := 1, p_euid := 5, p_sig := 4, p_cursig := 3\<rparr>)\<rparr>)"
proof -
  have c: "k_proc three_procs (k_cu three_procs) =
      Some (zero_proc\<lparr>p_stat := SRUN, p_pid := 1, p_euid := 5, p_sig := 4\<rparr>)"
    by (simp add: three_procs_def)
  have bits: "bit (4 :: uint) 2" "\<not> bit (4 :: uint) 31" "\<forall>m < 2. \<not> bit (4 :: uint) m"
    by (simp_all add: numeral_2_eq_2 less_Suc_eq)
  have cu: "k_cu three_procs = 1" by (simp add: three_procs_def)
  show ?thesis
    using issig_reports_deliverable[OF c, of 3] bits
    by (simp add: cu zero_proc_def zero_sigaction_def)
qed

end
