(* ===== verification/Tty.thy ===== *)
theory Tty
  imports Vga Qbuf Signal
begin

unbundle bit_operations_syntax

text \<open>
  The terminal driver, \<^verbatim>\<open>src/chr/tty.c\<close>: the line discipline between the raw and the
  canonical queue, echo and output, and the interrupt side \<^verbatim>\<open>tty_input\<close>. The user
  buffer of \<^verbatim>\<open>tty_write\<close> is the list of its bytes. \<^verbatim>\<open>tty_read\<close> sleeps interruptibly
  and is defined where \<^verbatim>\<open>psig()\<close> is.
\<close>

section \<open>Definitions\<close>

definition tty_mod :: "nat \<Rightarrow> (tty \<Rightarrow> tty) \<Rightarrow> kernel \<Rightarrow> kernel" where
  "tty_mod i f s = s\<lparr>k_tty := (k_tty s)(i := f (k_tty s i))\<rparr>"

text \<open>The tab expansion \<^verbatim>\<open>for (i = 0; i < 4 - (col % 4); i++) putq(q, ' ')\<close>.\<close>

definition put_spaces :: "int \<Rightarrow> qbuf \<Rightarrow> qbuf" where
  "put_spaces col q = foldl (\<lambda>q c. snd (putq q c)) q (replicate (nat (4 - (col smod 4))) 0x20)"

text \<open>
  The loops of \<^verbatim>\<open>tty_canon\<close>. Each round takes a character off the raw queue, and an
  empty queue ends the loop, so the number of queued characters shrinks.
\<close>

lemma getq_shrinks: "schar (fst (getq q)) \<ge> 0 \<Longrightarrow> unat (q_count (snd (getq q))) < unat (q_count q)"
  by (auto simp: getq_def schar_def unat_minus_one unat_gt_0 split: if_splits)

function canon_raw :: "qbuf \<Rightarrow> qbuf \<Rightarrow> qbuf \<times> qbuf" where
  "canon_raw raw can =
     (if schar (fst (getq raw)) \<ge> 0
      then canon_raw (snd (getq raw)) (snd (putq can (fst (getq raw))))
      else (snd (getq raw), can))"
  by pat_completeness auto
termination
  by (relation "measure (\<lambda>(raw, can). unat (q_count raw))") (auto intro: getq_shrinks)

function canon_line :: "int \<Rightarrow> qbuf \<Rightarrow> qbuf \<Rightarrow> qbuf \<times> qbuf" where
  "canon_line col raw can =
     (let ch = fst (getq raw); raw' = snd (getq raw) in
      if schar ch \<ge> 0 then
        if ch = 9 then (raw', put_spaces col can)
        else if ch = CERASE then canon_line col raw' (snd (eraseq can))
        else canon_line col raw' (snd (putq can ch))
      else (raw', can))"
  by pat_completeness auto
termination
  by (relation "measure (\<lambda>(col, raw, can). unat (q_count raw))") (auto intro: getq_shrinks)

declare canon_raw.simps [simp del] canon_line.simps [simp del]

definition tty_canon :: "nat \<Rightarrow> int kop" where
  "tty_canon i = kthen (kmod (tty_mod i (\<lambda>tp.
     let (raw, can) = (if t_flag tp AND TTY_RAW \<noteq> 0 then canon_raw (t_rawq tp) (t_canq tp)
                       else canon_line (t_col tp) (t_rawq tp) (t_canq tp))
     in tp\<lparr>t_rawq := raw, t_canq := can\<rparr>))) (kret 0)"

definition tty_output :: "nat \<Rightarrow> uchar \<Rightarrow> int kop" where
  "tty_output i ch = kthen (kmod (tty_mod i (\<lambda>tp.
     tp\<lparr>t_outq := (if ch = 9 then put_spaces (t_col tp) (t_outq tp)
                   else snd (putq (t_outq tp) ch))\<rparr>))) (kret 0)"

text \<open>
  \<^verbatim>\<open>tty_start\<close> drains the output queue through the terminal's output routine. Every
  round takes one character, so as many rounds as there are characters, and one that
  finds the queue empty, are enough.
\<close>

primrec tty_drain :: "nat \<Rightarrow> putc_fn \<Rightarrow> nat \<Rightarrow> unit kop" where
  "tty_drain 0 f i = kstop Spin"
| "tty_drain (Suc k) f i =
     kbind (kget (\<lambda>s. getq (t_outq (k_tty s i)))) (\<lambda>(ch, q).
     kthen (kmod (tty_mod i (\<lambda>tp. tp\<lparr>t_outq := q\<rparr>)))
       (if schar ch \<ge> 0
        then kthen (case f of Putc_null \<Rightarrow> kstop (Fault ''t_putc'') | Putch \<Rightarrow> putch ch)
               (tty_drain k f i)
        else kret ()))"

declare tty_drain.simps [simp del]

definition tty_start :: "nat \<Rightarrow> int kop" where
  "tty_start i = kbind (kget (\<lambda>s. k_tty s i)) (\<lambda>tp.
     kthen (tty_drain (Suc (unat (q_count (t_outq tp)))) (t_putc tp) i) (kret 0))"

definition tty_input :: "nat \<Rightarrow> uchar \<Rightarrow> int kop" where
  "tty_input i ch =
     kthen (kmod (tty_mod i (\<lambda>tp. tp\<lparr>t_rawq := snd (putq (t_rawq tp) ch)\<rparr>)))
     (kbind (kget (\<lambda>s. q_count (t_canq (k_tty s i)))) (\<lambda>cnt.
      kthen (tty_canon i)
      (kbind (kget (\<lambda>s. t_flag (k_tty s i))) (\<lambda>flag.
       if flag AND TTY_ECHO \<noteq> 0 \<and> ch = CERASE \<and> cnt \<le> 0 then kret 0
       else
        kthen (if flag AND TTY_ECHO \<noteq> 0 then kthen (tty_output i ch) (tty_start i) else kret 0)
        (kbind (kget (\<lambda>s. t_pgrp (k_tty s i))) (\<lambda>pgrp.
         kthen (if flag AND TTY_RAW = 0 \<and> ch = CINTR then sigsend_g pgrp (uint SIGINT) False
                else kret 0)
         (if ch = CEOF \<or> ch = 10 then
            kthen (kmod (tty_mod i (\<lambda>tp. tp\<lparr>t_canq := snd (eraseq (t_canq tp))\<rparr>)))
              (kthen (wakeup (Ch_tty i)) (kret 0))
          else kret 0)))))))"

definition tty_open :: "ushort \<Rightarrow> int kop" where
  "tty_open dev =
     (if unat (MINOR dev) \<ge> NTTY then syserr ENODEV
      else kbind (cu_get p_pgrp) (\<lambda>pgrp.
        kthen (kmod (tty_mod (unat (MINOR dev)) (\<lambda>tp. tp\<lparr>t_flag := TTY_ECHO, t_putc := Putch,
            t_rawq := (t_rawq tp)\<lparr>q_count := 0\<rparr>, t_canq := (t_canq tp)\<lparr>q_count := 0\<rparr>,
            t_outq := (t_outq tp)\<lparr>q_count := 0\<rparr>, t_pgrp := pgrp\<rparr>)))
        (kret 0)))"

definition tty_close :: "ushort \<Rightarrow> int kop" where
  "tty_close dev = kret 0"

definition tty_write :: "ushort \<Rightarrow> uchar list \<Rightarrow> int kop" where
  "tty_write dev bytes =
     (if unat (MINOR dev) \<ge> NTTY then syserr ENODEV
      else let i = unat (MINOR dev) in
        kthen (kfor bytes (\<lambda>c. kthen (tty_output i c) (kret ())))
          (kthen (tty_start i) (kret 0)))"

definition tty_init :: "unit kop" where
  "tty_init = kmod (tty_mod 0 (\<lambda>tp. tp\<lparr>t_flag := TTY_ECHO, t_putc := Putch,
     t_rawq := (t_rawq tp)\<lparr>q_count := 0\<rparr>, t_canq := (t_canq tp)\<lparr>q_count := 0\<rparr>,
     t_outq := (t_outq tp)\<lparr>q_count := 0\<rparr>\<rparr>))"

section \<open>The line discipline on lists\<close>

text \<open>
  What the two modes mean, on plain character lists: \<open>cook\<close> consumes the raw characters
  and edits the line, and gives what is left of the raw input and the new line. A byte
  that is negative as a \<^verbatim>\<open>char\<close> is dropped and ends the pass, as does a tab.
\<close>

fun cook :: "int \<Rightarrow> uchar list \<Rightarrow> uchar list \<Rightarrow> uchar list \<times> uchar list" where
  "cook col [] line = ([], line)"
| "cook col (c # cs) line =
     (if schar c < 0 then (cs, line)
      else if c = 9 then (cs, take 1024 (line @ replicate (nat (4 - (col smod 4))) 0x20))
      else if c = CERASE then cook col cs (butlast line)
      else cook col cs (take 1024 (line @ [c])))"

fun pass_raw :: "uchar list \<Rightarrow> uchar list \<Rightarrow> uchar list \<times> uchar list" where
  "pass_raw [] line = ([], line)"
| "pass_raw (c # cs) line =
     (if schar c < 0 then (cs, line) else pass_raw cs (take 1024 (line @ [c])))"

lemma put_spaces_list:
  "q_inv q \<Longrightarrow> q_inv (put_spaces col q) \<and>
    q_list (put_spaces col q) = take 1024 (q_list q @ replicate (nat (4 - (col smod 4))) 0x20)"
  unfolding put_spaces_def by (rule lq.puts_inv_list)

lemma getq_empty: "q_list q = [] \<Longrightarrow> schar (fst (getq q)) < 0 \<and> snd (getq q) = q"
  by (simp add: q_list_Nil getq_def schar_def)

lemma canon_line_cook:
  "q_inv raw \<Longrightarrow> q_inv can \<Longrightarrow>
    q_inv (fst (canon_line col raw can)) \<and> q_inv (snd (canon_line col raw can)) \<and>
    (q_list (fst (canon_line col raw can)), q_list (snd (canon_line col raw can))) =
      cook col (q_list raw) (q_list can)"
proof (induction col raw can rule: canon_line.induct)
  case (1 col raw can)
  show ?case
  proof (cases "q_list raw")
    case Nil
    then show ?thesis
      using "1.prems" getq_empty[of raw] by (simp add: canon_line.simps[of col raw] Let_def)
  next
    case (Cons c cs)
    then have g: "fst (getq raw) = c" "q_inv (snd (getq raw))" "q_list (snd (getq raw)) = cs"
      using lq.get_some[OF "1.prems"(1)] by auto
    show ?thesis
      using "1.IH" "1.prems" Cons g
      by (simp add: canon_line.simps[of col raw] put_spaces_list lq.erase_last lq.put_inv lq.put_list
          Let_def)
  qed
qed

lemma canon_raw_pass:
  "q_inv raw \<Longrightarrow> q_inv can \<Longrightarrow>
    q_inv (fst (canon_raw raw can)) \<and> q_inv (snd (canon_raw raw can)) \<and>
    (q_list (fst (canon_raw raw can)), q_list (snd (canon_raw raw can))) =
      pass_raw (q_list raw) (q_list can)"
proof (induction raw can rule: canon_raw.induct)
  case (1 raw can)
  show ?case
  proof (cases "q_list raw")
    case Nil
    then show ?thesis
      using "1.prems" getq_empty[of raw] by (simp add: canon_raw.simps[of raw])
  next
    case (Cons c cs)
    then have g: "fst (getq raw) = c" "q_inv (snd (getq raw))" "q_list (snd (getq raw)) = cs"
      using lq.get_some[OF "1.prems"(1)] by auto
    show ?thesis
      using "1.IH" "1.prems" Cons g
      by (simp add: canon_raw.simps[of raw] lq.put_inv lq.put_list)
  qed
qed

section \<open>What the screen output leaves alone\<close>

definition still :: "tty \<Rightarrow> tty" where
  "still tp = tp\<lparr>t_col := 0, t_row := 0\<rparr>"

definition moved :: "kernel \<Rightarrow> kernel \<Rightarrow> bool" where
  "moved s t \<longleftrightarrow> k_proc t = k_proc s \<and> k_cu t = k_cu s \<and>
     (\<forall>i. still (k_tty t i) = still (k_tty s i))"

lemma moved_refl: "moved s s"
  by (simp add: moved_def)

lemma moved_trans: "moved s t \<Longrightarrow> moved t u \<Longrightarrow> moved s u"
  by (simp add: moved_def)

lemma moved_upd:
  "moved s t \<Longrightarrow> moved s (set_px x t)" "moved s t \<Longrightarrow> moved s (set_py x t)"
  "moved s (t\<lparr>k_vga := v\<rparr>) = moved s t" "moved s (t\<lparr>k_csr := c\<rparr>) = moved s t"
  by (simp_all add: moved_def set_px_def set_py_def still_def)

lemma moved_putch: "preserves (moved s) (putch c)"
proof -
  have "preserves (moved s) (vga_store x)" for x
    by (auto simp: preserves_def vga_store_def moved_upd)
  then show ?thesis
    unfolding putch_def scroll_def flush_csr_def Let_def
    by (intro preserves_intros) (auto simp: moved_upd)
qed

lemma putch_moved: "vga_inv s \<Longrightarrow> \<exists>t. putch c s = Ok () t \<and> vga_inv t \<and> moved s t"
  using putch_Ok[of s c] preserves_Ok[OF moved_putch moved_refl] by blast

lemma moved_tty:
  assumes "moved s t"
  shows "t_rawq (k_tty t i) = t_rawq (k_tty s i)" "t_canq (k_tty t i) = t_canq (k_tty s i)"
    "t_outq (k_tty t i) = t_outq (k_tty s i)" "t_flag (k_tty t i) = t_flag (k_tty s i)"
    "t_putc (k_tty t i) = t_putc (k_tty s i)" "t_pgrp (k_tty t i) = t_pgrp (k_tty s i)"
    "k_proc t = k_proc s" "k_cu t = k_cu s"
proof -
  have *: "still (k_tty t i) = still (k_tty s i)"
    using assms by (simp add: moved_def)
  have sel: "t_rawq (still tp) = t_rawq tp" "t_canq (still tp) = t_canq tp"
    "t_outq (still tp) = t_outq tp" "t_flag (still tp) = t_flag tp"
    "t_putc (still tp) = t_putc tp" "t_pgrp (still tp) = t_pgrp tp" for tp
    by (simp_all add: still_def)
  show "t_rawq (k_tty t i) = t_rawq (k_tty s i)" using * by (metis sel(1))
  show "t_canq (k_tty t i) = t_canq (k_tty s i)" using * by (metis sel(2))
  show "t_outq (k_tty t i) = t_outq (k_tty s i)" using * by (metis sel(3))
  show "t_flag (k_tty t i) = t_flag (k_tty s i)" using * by (metis sel(4))
  show "t_putc (k_tty t i) = t_putc (k_tty s i)" using * by (metis sel(5))
  show "t_pgrp (k_tty t i) = t_pgrp (k_tty s i)" using * by (metis sel(6))
  show "k_proc t = k_proc s" "k_cu t = k_cu s" using assms by (simp_all add: moved_def)
qed

lemma still_outq: "still (tp\<lparr>t_outq := q\<rparr>) = (still tp)\<lparr>t_outq := q\<rparr>"
  by (simp add: still_def)

lemma tty_mod_simps [simp]:
  "k_tty (tty_mod i f s) = (k_tty s)(i := f (k_tty s i))"
  "k_proc (tty_mod i f s) = k_proc s" "k_cu (tty_mod i f s) = k_cu s"
  "px (tty_mod i f s) = (if i = 0 then t_col (f (k_tty s 0)) else px s)"
  "py (tty_mod i f s) = (if i = 0 then t_row (f (k_tty s 0)) else py s)"
  by (simp_all add: tty_mod_def px_def py_def)

lemma moved_outq:
  assumes "moved (tty_mod i (\<lambda>tp. tp\<lparr>t_outq := q0\<rparr>) s) t"
  shows "moved (tty_mod i (\<lambda>tp. tp\<lparr>t_outq := q\<rparr>) s) (tty_mod i (\<lambda>tp. tp\<lparr>t_outq := q\<rparr>) t)"
proof -
  have "still (k_tty t i)\<lparr>t_outq := q\<rparr> = (still (k_tty s i)\<lparr>t_outq := q0\<rparr>)\<lparr>t_outq := q\<rparr>"
    using assms by (simp add: moved_def still_outq)
  then show ?thesis using assms by (simp add: moved_def still_outq)
qed

lemma vga_inv_tty_mod:
  "(\<And>tp. t_col (f tp) = t_col tp) \<Longrightarrow> (\<And>tp. t_row (f tp) = t_row tp) \<Longrightarrow>
    vga_inv (tty_mod i f s) = vga_inv s"
  by (simp add: vga_inv_def) (simp add: px_def py_def)

text \<open>
  Draining: with an output routine set and only non-negative characters queued, the
  queue runs empty and every character has been shown.
\<close>

lemma tty_drain_empties:
  "vga_inv s \<Longrightarrow> q_inv (t_outq (k_tty s i)) \<Longrightarrow> \<forall>c \<in> set (q_list (t_outq (k_tty s i))). 0 \<le> schar c \<Longrightarrow>
    length (q_list (t_outq (k_tty s i))) < k \<Longrightarrow>
    \<exists>t q. tty_drain k Putch i s = Ok () t \<and> vga_inv t \<and> q_inv q \<and> q_list q = [] \<and>
      moved (tty_mod i (\<lambda>tp. tp\<lparr>t_outq := q\<rparr>) s) t"
proof (induction k arbitrary: s)
  case 0
  then show ?case by simp
next
  case (Suc k)
  let ?q = "t_outq (k_tty s i)"
  show ?case
  proof (cases "q_list ?q")
    case Nil
    then show ?thesis
      using Suc.prems getq_empty[of ?q]
      by (intro exI[of _ "tty_mod i (\<lambda>tp. tp\<lparr>t_outq := ?q\<rparr>) s"] exI[of _ ?q])
        (simp add: tty_drain.simps kop_simps split_beta moved_refl vga_inv_tty_mod)
  next
    case (Cons c cs)
    then have g: "fst (getq ?q) = c" "q_inv (snd (getq ?q))" "q_list (snd (getq ?q)) = cs"
      using lq.get_some[OF Suc.prems(2)] by auto
    let ?s = "tty_mod i (\<lambda>tp. tp\<lparr>t_outq := snd (getq ?q)\<rparr>) s"
    have "vga_inv ?s" using Suc.prems(1) by (simp add: vga_inv_tty_mod)
    then obtain u where u: "putch c ?s = Ok () u" "vga_inv u" "moved ?s u"
      using putch_moved by blast
    have out: "t_outq (k_tty u i) = snd (getq ?q)" using moved_tty(3)[OF u(3)] by simp
    with Suc.IH[OF u(2)] Suc.prems(3,4) Cons g obtain t q where
      t: "tty_drain k Putch i u = Ok () t" "vga_inv t" "q_inv q" "q_list q = []"
        "moved (tty_mod i (\<lambda>tp. tp\<lparr>t_outq := q\<rparr>) u) t"
      by auto
    have "moved (tty_mod i (\<lambda>tp. tp\<lparr>t_outq := q\<rparr>) s) (tty_mod i (\<lambda>tp. tp\<lparr>t_outq := q\<rparr>) u)"
      using moved_outq[OF u(3), of q] by simp
    with t(5) have "moved (tty_mod i (\<lambda>tp. tp\<lparr>t_outq := q\<rparr>) s) t"
      using moved_trans by blast
    moreover have "tty_drain (Suc k) Putch i s = Ok () t"
      using Suc.prems(3) Cons g(1) u(1) t(1)
      by (simp add: tty_drain.simps kop_simps split_beta)
    ultimately show ?thesis using t(2-4) by blast
  qed
qed

lemma wakeup_wakes:
  "\<exists>t. wakeup ch s = Ok () t \<and> k_tty t = k_tty s \<and>
    (\<forall>j p. j < NPROC \<and> k_proc s j = Some p \<and> p_chan p = ch \<longrightarrow>
       map_option p_stat (k_proc t j) = Some SRUN)"
  by (auto simp: wakeup_eq)

section \<open>Typing a line\<close>

text \<open>An open terminal in canonical mode with echo, between two keystrokes.\<close>

definition tty_ready :: "nat \<Rightarrow> kernel \<Rightarrow> bool" where
  "tty_ready i s \<longleftrightarrow> t_flag (k_tty s i) = TTY_ECHO \<and> t_putc (k_tty s i) = Putch \<and>
     q_inv (t_rawq (k_tty s i)) \<and> q_inv (t_canq (k_tty s i)) \<and> q_inv (t_outq (k_tty s i)) \<and>
     q_list (t_rawq (k_tty s i)) = [] \<and> q_list (t_outq (k_tty s i)) = [] \<and> vga_inv s"

lemma tty_echo:
  assumes "vga_inv s" and "t_putc (k_tty s i) = Putch" and "q_inv (t_outq (k_tty s i))"
    and "q_list (t_outq (k_tty s i)) = []" and "0 \<le> schar c" and "c \<noteq> 9"
  shows "\<exists>t q. kthen (tty_output i c) (tty_start i) s = Ok 0 t \<and> vga_inv t \<and> q_inv q \<and>
    q_list q = [] \<and> moved (tty_mod i (\<lambda>tp. tp\<lparr>t_outq := q\<rparr>) s) t"
proof -
  let ?q = "snd (putq (t_outq (k_tty s i)) c)"
  let ?s = "tty_mod i (\<lambda>tp. tp\<lparr>t_outq := ?q\<rparr>) s"
  have q: "q_inv ?q" "q_list ?q = [c]"
    using assms(3,4) by (simp_all add: lq.put_inv lq.put_list)
  then have "\<exists>t q. tty_drain (Suc (unat (q_count ?q))) Putch i ?s = Ok () t \<and> vga_inv t \<and> q_inv q \<and>
      q_list q = [] \<and> moved (tty_mod i (\<lambda>tp. tp\<lparr>t_outq := q\<rparr>) ?s) t"
    using assms(1,5) length_q_list[of ?q] by (intro tty_drain_empties) (auto simp: vga_inv_tty_mod)
  then obtain t q where t: "tty_drain (Suc (unat (q_count ?q))) Putch i ?s = Ok () t" "vga_inv t"
    "q_inv q" "q_list q = []" "moved (tty_mod i (\<lambda>tp. tp\<lparr>t_outq := q\<rparr>) ?s) t"
    by blast
  have "tty_mod i (\<lambda>tp. tp\<lparr>t_outq := q\<rparr>) ?s = tty_mod i (\<lambda>tp. tp\<lparr>t_outq := q\<rparr>) s"
    by (simp add: tty_mod_def)
  moreover have "tty_output i c s = Ok 0 ?s"
    using assms(6) by (simp add: tty_output_def kop_simps tty_mod_def)
  moreover have "tty_start i ?s = Ok 0 t"
    using t(1) assms(2) by (simp add: tty_start_def kop_simps)
  ultimately show ?thesis using t(2-5) by (auto simp: kop_simps)
qed

text \<open>
  The common part of a keystroke that the line discipline keeps: the character goes
  through the raw queue to the end of the line and is echoed.
\<close>

lemma tty_input_echoed:
  assumes r: "tty_ready i s" and c: "0 \<le> schar c" "c \<noteq> 9" "c \<noteq> CERASE" "c \<noteq> CINTR"
  shows "\<exists>t. tty_ready i t \<and> q_list (t_canq (k_tty t i)) = take 1024 (q_list (t_canq (k_tty s i)) @ [c]) \<and>
    k_proc t = k_proc s \<and> k_cu t = k_cu s \<and>
    tty_input i c s = (if c = CEOF \<or> c = 10 then
            kthen (kmod (tty_mod i (\<lambda>tp. tp\<lparr>t_canq := snd (eraseq (t_canq tp))\<rparr>)))
              (kthen (wakeup (Ch_tty i)) (kret 0)) t
          else Ok 0 t)"
proof -
  let ?tp = "k_tty s i"
  let ?raw = "snd (putq (t_rawq ?tp) c)"
  obtain raw can where cl: "canon_line (t_col ?tp) ?raw (t_canq ?tp) = (raw, can)"
    by (cases "canon_line (t_col ?tp) ?raw (t_canq ?tp)")
  have raw0: "q_inv ?raw" "q_list ?raw = [c]"
    using r by (simp_all add: tty_ready_def lq.put_inv lq.put_list)
  have cooked: "q_inv raw" "q_inv can" "q_list raw = []"
    "q_list can = take 1024 (q_list (t_canq ?tp) @ [c])"
    using canon_line_cook[OF raw0(1), of "t_canq ?tp" "t_col ?tp"] r c raw0(2) cl
    by (simp_all add: tty_ready_def)
  let ?s1 = "tty_mod i (\<lambda>tp. tp\<lparr>t_rawq := snd (putq (t_rawq tp) c)\<rparr>) s"
  let ?s2 = "tty_mod i (\<lambda>tp. tp\<lparr>t_rawq := raw, t_canq := can\<rparr>) s"
  have can: "tty_canon i ?s1 = Ok 0 ?s2"
    using r cl by (simp add: tty_canon_def kop_simps tty_ready_def tty_mod_def)
  have "\<exists>t q. kthen (tty_output i c) (tty_start i) ?s2 = Ok 0 t \<and> vga_inv t \<and> q_inv q \<and>
      q_list q = [] \<and> moved (tty_mod i (\<lambda>tp. tp\<lparr>t_outq := q\<rparr>) ?s2) t"
    using r c by (intro tty_echo) (auto simp: tty_ready_def vga_inv_tty_mod)
  then obtain t q where t: "kthen (tty_output i c) (tty_start i) ?s2 = Ok 0 t" "vga_inv t"
    "q_inv q" "q_list q = []" "moved (tty_mod i (\<lambda>tp. tp\<lparr>t_outq := q\<rparr>) ?s2) t"
    by blast
  note m = moved_tty(1-6)[OF t(5), of i] moved_tty(7,8)[OF t(5)]
  have fl: "t_flag ?tp = TTY_ECHO" using r by (simp add: tty_ready_def)
  have "tty_ready i t" "q_list (t_canq (k_tty t i)) = take 1024 (q_list (t_canq ?tp) @ [c])"
    "k_proc t = k_proc s" "k_cu t = k_cu s"
    using m t(2-4) r cooked by (simp_all add: tty_ready_def)
  moreover have "tty_input i c s = (if c = CEOF \<or> c = 10 then
            kthen (kmod (tty_mod i (\<lambda>tp. tp\<lparr>t_canq := snd (eraseq (t_canq tp))\<rparr>)))
              (kthen (wakeup (Ch_tty i)) (kret 0)) t
          else Ok 0 t)"
    using can t(1) fl c by (simp add: tty_input_def kop_simps)
  ultimately show ?thesis by blast
qed

definition printable :: "uchar \<Rightarrow> bool" where
  "printable c \<longleftrightarrow> 32 \<le> schar c"

lemma printable_plain:
  "printable c \<Longrightarrow> 0 \<le> schar c \<and> c \<noteq> 9 \<and> c \<noteq> CERASE \<and> c \<noteq> CINTR \<and> c \<noteq> CEOF \<and> c \<noteq> 10"
  by (auto simp: printable_def schar_def)

lemma tty_type_plain:
  "tty_ready i s \<Longrightarrow> \<forall>c \<in> set w. printable c \<Longrightarrow>
    length (q_list (t_canq (k_tty s i))) + length w \<le> 1024 \<Longrightarrow>
    \<exists>t. kfor w (\<lambda>c. kthen (tty_input i c) (kret ())) s = Ok () t \<and> tty_ready i t \<and>
      q_list (t_canq (k_tty t i)) = q_list (t_canq (k_tty s i)) @ w \<and>
      k_proc t = k_proc s \<and> k_cu t = k_cu s"
proof (induction w arbitrary: s)
  case Nil
  then show ?case by (simp add: kop_simps)
next
  case (Cons c w)
  then obtain u where u: "tty_ready i u" "k_proc u = k_proc s" "k_cu u = k_cu s"
      "q_list (t_canq (k_tty u i)) = q_list (t_canq (k_tty s i)) @ [c]" "tty_input i c s = Ok 0 u"
    using tty_input_echoed[OF Cons.prems(1), of c] printable_plain[of c] by auto
  with Cons.IH[OF u(1)] Cons.prems show ?case by (auto simp: kop_simps)
qed

section \<open>Properties\<close>

text \<open>
  The cyclic buffer is a bounded queue. On a consistent buffer, \<^verbatim>\<open>putq\<close> appends a
  character unless 1024 are queued (and then returns -1 and changes nothing), \<^verbatim>\<open>getq\<close>
  removes and returns the oldest character, \<^verbatim>\<open>eraseq\<close> removes the newest one; the buffer
  stays consistent.
\<close>

theorem qbuf_is_bounded_queue:
  assumes "q_inv q"
  shows "q_inv (snd (putq q c)) \<and> q_inv (snd (getq q)) \<and> q_inv (snd (eraseq q)) \<and>
    q_list (snd (putq q c)) = take 1024 (q_list q @ [c]) \<and>
    (fst (putq q c) = 0 \<longleftrightarrow> length (q_list q) < 1024) \<and>
    q_list (snd (getq q)) = tl (q_list q) \<and> (q_list q \<noteq> [] \<longrightarrow> fst (getq q) = hd (q_list q)) \<and>
    q_list (snd (eraseq q)) = butlast (q_list q)"
proof -
  have "fst (putq q c) = 0 \<longleftrightarrow> length (q_list q) < 1024"
    using lq.put_room[OF assms] lq.put_full[OF assms] lq.within_cap[OF assms]
    by (metis fst_conv le_neq_implies_less less_irrefl zero_neq_neg_one)
  moreover have "q_inv (snd (getq q)) \<and> q_list (snd (getq q)) = tl (q_list q)"
    using lq.get_some[OF assms] lq.get_none[OF assms] assms by (cases "q_list q") auto
  ultimately show ?thesis
    using assms lq.get_some[OF assms] by (simp add: lq.put_inv lq.put_list lq.erase_last)
qed

text \<open>
  C34: the line discipline. In canonical mode \<^verbatim>\<open>tty_canon\<close> moves the raw characters to
  the line exactly as the reference \<open>cook\<close> does on lists (erase removes the last
  character of the line, a tab is expanded and ends the pass), in raw mode it passes
  them on unchanged; only the two queues of this terminal change.
\<close>

theorem tty_canon_refines_cook:
  assumes "q_inv (t_rawq (k_tty s i))" and "q_inv (t_canq (k_tty s i))"
  shows "\<exists>raw can. tty_canon i s = Ok 0 (s\<lparr>k_tty := (k_tty s)(i := (k_tty s i)\<lparr>t_rawq := raw, t_canq := can\<rparr>)\<rparr>) \<and>
    q_inv raw \<and> q_inv can \<and>
    (q_list raw, q_list can) =
      (if bit (t_flag (k_tty s i)) 0
       then pass_raw (q_list (t_rawq (k_tty s i))) (q_list (t_canq (k_tty s i)))
       else cook (t_col (k_tty s i)) (q_list (t_rawq (k_tty s i))) (q_list (t_canq (k_tty s i))))"
proof -
  have raw: "t_flag (k_tty s i) AND TTY_RAW \<noteq> 0 \<longleftrightarrow> bit (t_flag (k_tty s i)) 0"
    using bit_iff_and_push_bit_not_eq_0[of "t_flag (k_tty s i)" 0] by simp
  let ?qs = "if bit (t_flag (k_tty s i)) 0 then canon_raw (t_rawq (k_tty s i)) (t_canq (k_tty s i))
    else canon_line (t_col (k_tty s i)) (t_rawq (k_tty s i)) (t_canq (k_tty s i))"
  have "tty_canon i s = Ok 0 (s\<lparr>k_tty := (k_tty s)(i := (k_tty s i)\<lparr>t_rawq := fst ?qs, t_canq := snd ?qs\<rparr>)\<rparr>)"
    using raw by (simp add: tty_canon_def kop_simps tty_mod_def split_beta)
  moreover note canon_line_cook[OF assms, of "t_col (k_tty s i)"] canon_raw_pass[OF assms]
  ultimately show ?thesis by (intro exI[of _ "fst ?qs"] exI[of _ "snd ?qs"]) simp
qed


section \<open>Witnesses\<close>

definition tty_booted :: kernel where
  "tty_booted = final (tty_init boot_kernel)"

lemma q_zero: "q_inv zero_qbuf" "q_list zero_qbuf = []"
  by (simp_all add: q_inv_def q_list_def zero_qbuf_def)

lemma tty_booted_ready: "tty_ready 0 tty_booted" "t_canq (k_tty tty_booted 0) = zero_qbuf"
  using q_zero
  by (simp_all add: tty_ready_def tty_booted_def tty_init_def kop_simps boot_kernel_def zero_tty_def
      vga_inv_def px_def py_def zero_qbuf_def)

theorem qbuf_is_bounded_queue_witness:
  "q_list (snd (putq zero_qbuf 0x61)) = [0x61] \<and> q_list (snd (eraseq zero_qbuf)) = []"
  using qbuf_is_bounded_queue[OF q_zero(1), where c = "0x61"] by (simp add: q_zero)

theorem tty_canon_refines_cook_witness:
  "\<exists>raw can. q_list raw = [] \<and> q_list can = [] \<and>
    tty_canon 0 tty_booted = Ok 0 (tty_booted\<lparr>k_tty := (k_tty tty_booted)
      (0 := (k_tty tty_booted 0)\<lparr>t_rawq := raw, t_canq := can\<rparr>)\<rparr>)"
proof -
  have "q_inv (t_rawq (k_tty tty_booted 0))" "q_inv (t_canq (k_tty tty_booted 0))"
    "q_list (t_rawq (k_tty tty_booted 0)) = []" "q_list (t_canq (k_tty tty_booted 0)) = []"
    using tty_booted_ready q_zero by (simp_all add: tty_ready_def)
  moreover from this(1,2) obtain raw can where
    "tty_canon 0 tty_booted = Ok 0 (tty_booted\<lparr>k_tty := (k_tty tty_booted)
      (0 := (k_tty tty_booted 0)\<lparr>t_rawq := raw, t_canq := can\<rparr>)\<rparr>)"
    "(q_list raw, q_list can) =
      (if bit (t_flag (k_tty tty_booted 0)) 0
       then pass_raw (q_list (t_rawq (k_tty tty_booted 0))) (q_list (t_canq (k_tty tty_booted 0)))
       else cook (t_col (k_tty tty_booted 0)) (q_list (t_rawq (k_tty tty_booted 0)))
         (q_list (t_canq (k_tty tty_booted 0))))"
    using tty_canon_refines_cook[of tty_booted 0] by blast
  ultimately show ?thesis by (intro exI[of _ raw] exI[of _ can]) (simp split: if_splits)
qed


end
