(* ===== verification/Timer.thy ===== *)
theory Timer
  imports Sched
begin

unbundle bit_operations_syntax

text \<open>
  The clock, \<^verbatim>\<open>src/kern/timer.c\<close> with \<^verbatim>\<open>src/inc/cmos.h\<close>: reading the date from the
  real-time clock and the timer interrupt. The register file of the clock chip is the argument
  \<open>rtc\<close>; the macro \<^verbatim>\<open>BCD_TO_BIN\<close> reads the data port twice, and the model takes both
  reads to give the same byte. The programming of the interval timer is not represented, that of the interrupt
  controller is in \<open>Seg\<close>.
\<close>

section \<open>Definitions\<close>

abbreviation (input) RTC_SEC :: uchar where "RTC_SEC \<equiv> 0"
abbreviation (input) RTC_MIN :: uchar where "RTC_MIN \<equiv> 2"
abbreviation (input) RTC_HOUR :: uchar where "RTC_HOUR \<equiv> 4"
abbreviation (input) RTC_MDAY :: uchar where "RTC_MDAY \<equiv> 7"
abbreviation (input) RTC_MONTH :: uchar where "RTC_MONTH \<equiv> 8"
abbreviation (input) RTC_YEAR :: uchar where "RTC_YEAR \<equiv> 9"
abbreviation (input) RTC_CENTURY :: uchar where "RTC_CENTURY \<equiv> 0x32"

abbreviation (input) MINUTE :: int where "MINUTE \<equiv> 60"
abbreviation (input) HOUR :: int where "HOUR \<equiv> 60 * 60"
abbreviation (input) DAY :: int where "DAY \<equiv> 24 * 60 * 60"
abbreviation (input) YEAR :: int where "YEAR \<equiv> 365 * (24 * 60 * 60)"
abbreviation (input) HZ :: uint where "HZ \<equiv> 100"

definition BCD_TO_BIN :: "uchar \<Rightarrow> int" where
  "BCD_TO_BIN v = int (unat (v AND 15)) + int (unat (drop_bit 4 v)) * 10"

definition cmos_read :: "(uchar \<Rightarrow> uchar) \<Rightarrow> uchar \<Rightarrow> int" where
  "cmos_read rtc port = to_char (BCD_TO_BIN (rtc (port AND 0x7F)))"

text \<open>The value is a signed character, shifted as such; the port takes the low eight bits of the sum.\<close>

definition cmos_write :: "uchar \<Rightarrow> uchar \<Rightarrow> (uchar \<Rightarrow> uchar) \<Rightarrow> uchar \<Rightarrow> uchar" where
  "cmos_write port val rtc = rtc(port AND 0x7F := word_of_int (sint val mod 16 + sint val div 16 * 10))"

definition monthtab :: "int list" where
  "monthtab = [0, DAY * 31, DAY * (31 + 29), DAY * (31 + 29 + 31), DAY * (31 + 29 + 31 + 30),
     DAY * (31 + 29 + 31 + 30 + 31), DAY * (31 + 29 + 31 + 30 + 31 + 30),
     DAY * (31 + 29 + 31 + 30 + 31 + 30 + 31), DAY * (31 + 29 + 31 + 30 + 31 + 30 + 31 + 31),
     DAY * (31 + 29 + 31 + 30 + 31 + 30 + 31 + 31 + 30),
     DAY * (31 + 29 + 31 + 30 + 31 + 30 + 31 + 31 + 30 + 31),
     DAY * (31 + 29 + 31 + 30 + 31 + 30 + 31 + 31 + 30 + 31 + 30)]"

text \<open>The sums are 32-bit: every summand is reduced as it is added to the unsigned \<^verbatim>\<open>r\<close>.\<close>

definition cmos_time :: "(uchar \<Rightarrow> uchar) \<Rightarrow> uint kop" where
  "cmos_time rtc =
     (let year = cmos_read rtc RTC_CENTURY * 100 + cmos_read rtc RTC_YEAR - 1970;
          month = cmos_read rtc RTC_MONTH;
          mday = cmos_read rtc RTC_MDAY;
          hour = cmos_read rtc RTC_HOUR;
          min = cmos_read rtc RTC_MIN;
          sec = cmos_read rtc RTC_SEC;
          r0 = word_of_int (YEAR * year + DAY * ((year + 1) sdiv 4)) in
      if month - 1 < 0 \<or> month - 1 \<ge> 12 then kstop (Fault ''monthtab'') else
      let r1 = r0 + word_of_int (monthtab ! nat (month - 1));
          r2 = (if month > 1 \<and> (year + 2) smod 4 \<noteq> 0 then r1 - word_of_int DAY else r1) in
      kret (r2 + word_of_int (DAY * (mday - 1)) + word_of_int (HOUR * hour)
            + word_of_int (MINUTE * min) + word_of_int sec))"

definition time :: "uint kop" where
  "time = kget k_time"

definition do_timer :: "int kop" where
  "do_timer =
     kthen (kmod (\<lambda>s. s\<lparr>k_tick := k_tick s + 1\<rparr>))
     (kbind (cu_get p_cpu) (\<lambda>c.
      kthen (kwhen (c + 1 \<le> 127) (cu_mod (\<lambda>p. p\<lparr>p_cpu := p_cpu p + 1\<rparr>)))
      (kbind (kget k_tick) (\<lambda>t.
       kthen (kwhen (t mod HZ = 0) (kthen sched_cpu (kmod (\<lambda>s. s\<lparr>k_time := k_time s + 1\<rparr>))))
        (kret 0)))))"

definition timer_init :: "(uchar \<Rightarrow> uchar) \<Rightarrow> unit kop" where
  "timer_init rtc = kbind (cmos_time rtc) (\<lambda>t. kmod (\<lambda>s. s\<lparr>k_time := t\<rparr>))"

text \<open>
  \<^verbatim>\<open>cmos_write\<close> has no caller. It converts in the direction of a read, from decimal digits, where
  the register wants decimal digits: of the numbers below 100 those below 16 are read back.
\<close>

lemma cmos_write_read:
  assumes "n < 100"
  shows "cmos_read (cmos_write port (of_nat n) rtc) port = int n \<longleftrightarrow> n < 16"
proof -
  have "\<forall>n\<in>{..<100}. to_char (BCD_TO_BIN (word_of_int (int n mod 16 + int n div 16 * 10))) = int n \<longleftrightarrow> n < 16"
    by (simp add: lessThan_nat_numeral BCD_TO_BIN_def to_char_id)
  moreover have "sint (of_nat n :: uchar) = int n" using assms by (simp add: signed_of_nat signed_take_bit_int_eq_self)
  ultimately show ?thesis using assms by (simp add: cmos_read_def cmos_write_def)
qed

section \<open>Dates\<close>

text \<open>The civil calendar: seconds since the beginning of 1970.\<close>

definition leap :: "nat \<Rightarrow> bool" where
  "leap y \<longleftrightarrow> y mod 4 = 0 \<and> (y mod 100 \<noteq> 0 \<or> y mod 400 = 0)"

definition month_days :: "nat \<Rightarrow> nat \<Rightarrow> nat" where
  "month_days y m = (if m = 2 then if leap y then 29 else 28
     else if m \<in> {4, 6, 9, 11} then 30 else 31)"

fun year_start :: "nat \<Rightarrow> nat" where
  "year_start y = (if y \<le> 1970 then 0 else year_start (y - 1) + (if leap (y - 1) then 366 else 365))"

declare year_start.simps [simp del]

definition civil_seconds :: "nat \<Rightarrow> nat \<Rightarrow> nat \<Rightarrow> nat \<Rightarrow> nat \<Rightarrow> nat \<Rightarrow> nat" where
  "civil_seconds y mo d h mi se =
     (((year_start y + sum_list (map (month_days y) [1..<mo]) + (d - 1)) * 24 + h) * 60 + mi) * 60 + se"

definition to_bcd :: "nat \<Rightarrow> uchar" where
  "to_bcd n = of_nat (16 * (n div 10) + n mod 10)"

text \<open>The clock chip shows a date and time.\<close>

definition rtc_shows :: "(uchar \<Rightarrow> uchar) \<Rightarrow> nat \<Rightarrow> nat \<Rightarrow> nat \<Rightarrow> nat \<Rightarrow> nat \<Rightarrow> nat \<Rightarrow> bool" where
  "rtc_shows rtc y mo d h mi se \<longleftrightarrow>
     rtc RTC_CENTURY = to_bcd (y div 100) \<and> rtc RTC_YEAR = to_bcd (y mod 100) \<and>
     rtc RTC_MONTH = to_bcd mo \<and> rtc RTC_MDAY = to_bcd d \<and> rtc RTC_HOUR = to_bcd h \<and>
     rtc RTC_MIN = to_bcd mi \<and> rtc RTC_SEC = to_bcd se"

lemma leap_range: "1901 \<le> y \<Longrightarrow> y \<le> 2099 \<Longrightarrow> leap y \<longleftrightarrow> y mod 4 = 0"
proof -
  assume "1901 \<le> y" "y \<le> 2099"
  then have "y mod 100 = 0 \<Longrightarrow> y = 2000" by presburger
  then show ?thesis by (cases "y mod 100 = 0") (auto simp: leap_def)
qed

lemma year_start_range: "k \<le> 130 \<Longrightarrow> year_start (1970 + k) = 365 * k + (k + 1) div 4"
proof (induction k)
  case 0
  then show ?case by (simp add: year_start.simps)
next
  case (Suc k)
  have "leap (1970 + k) \<longleftrightarrow> (k + 2) mod 4 = 0"
    using Suc.prems by (subst leap_range) presburger+
  then show ?case
    using Suc by (subst year_start.simps) (simp, presburger)
qed

lemma BCD_to_bcd: "n < 100 \<Longrightarrow> BCD_TO_BIN (to_bcd n) = int n"
proof -
  assume "n < 100"
  have "(\<forall>n\<in>{..<100}. BCD_TO_BIN (to_bcd n) = int n)"
    by (simp add: lessThan_nat_numeral BCD_TO_BIN_def to_bcd_def)
  with \<open>n < 100\<close> show ?thesis by simp
qed

lemma cmos_read_bcd: "n < 100 \<Longrightarrow> rtc (port AND 0x7F) = to_bcd n \<Longrightarrow> cmos_read rtc port = int n"
  by (simp add: cmos_read_def BCD_to_bcd to_char_id)

lemma month_start:
  assumes "1 \<le> mo" "mo \<le> 12"
  shows "DAY * int (sum_list (map (month_days y) [1..<mo])) =
    monthtab ! (mo - 1) - (if mo > 2 \<and> \<not> leap y then DAY else 0)"
proof -
  have "mo \<in> {1, 2, 3, 4, 5, 6, 7, 8, 9, 10, 11, 12}" using assms by (simp, presburger)
  then show ?thesis
    by (elim insertE emptyE; hypsubst; simp add: monthtab_def month_days_def upt_rec)
qed

lemma sdiv_smod_nonneg: "(0::int) \<le> x \<Longrightarrow> x sdiv 4 = x div 4 \<and> x smod 4 = x mod 4"
  by (simp add: signed_divide_int_def signed_modulo_int_def sgn_if)

section \<open>The timer interrupt\<close>

definition cpu_ok :: "kernel \<Rightarrow> bool" where
  "cpu_ok s \<longleftrightarrow> (\<forall>i p. k_proc s i = Some p \<longrightarrow> 0 \<le> p_cpu p \<and> p_cpu p \<le> 127)"

text \<open>What a second's work keeps: the table, the usage bounds, and the two clock variables.\<close>

definition timer_inv :: "uint \<Rightarrow> uint \<Rightarrow> kernel \<Rightarrow> bool" where
  "timer_inv tick t s \<longleftrightarrow> proc_wf s \<and> cpu_ok s \<and> k_tick s = tick \<and> k_time s = t"

lemma proc_mod_other [simp]:
  "k_tick (proc_mod nr f s) = k_tick s" "k_time (proc_mod nr f s) = k_time s"
  by (simp_all add: proc_mod_def)

lemma cpu_half: "0 \<le> c \<Longrightarrow> c \<le> 127 \<Longrightarrow> 0 \<le> c sdiv 2 \<and> c sdiv 2 \<le> (127::int)"
  by (simp add: signed_divide_int_def sgn_if) presburger

lemma setpri_eq:
  assumes "k_proc s nr = Some p" "k_proc s (k_cu s) = Some c"
  shows "\<exists>n rr. setpri nr s = Ok () (proc_mod nr (\<lambda>p. p\<lparr>p_pri := n\<rparr>) (s\<lparr>k_runrun := rr\<rparr>))"
proof -
  let ?rr = "if nr \<noteq> k_cu s \<and> p_pri p < p_pri c then 1 else k_runrun s"
  let ?n0 = "p_cpu p sdiv 16 + PUSER + p_nice p"
  let ?n1 = "if ?n0 \<ge> 127 then 127 else ?n0"
  let ?n = "if ?n1 \<le> -126 then -126 else ?n1"
  have "setpri nr s = Ok () (proc_mod nr (\<lambda>p. p\<lparr>p_pri := ?n\<rparr>) (s\<lparr>k_runrun := ?rr\<rparr>))"
    using assms by (cases "nr \<noteq> k_cu s \<and> p_pri p < p_pri c")
      (auto simp: setpri_def kop_simps Let_def kwhen_def if_distribR)
  then show ?thesis by blast
qed

lemma runs_setpri:
  assumes "k_proc s nr = Some p" "timer_inv tick t s"
  shows "\<exists>s'. setpri nr s = Ok () s' \<and> timer_inv tick t s'"
proof -
  obtain c where c: "k_proc s (k_cu s) = Some c"
    using assms(2) by (auto simp: timer_inv_def proc_wf_def)
  then obtain n rr where s': "setpri nr s = Ok () (proc_mod nr (\<lambda>p. p\<lparr>p_pri := n\<rparr>) (s\<lparr>k_runrun := rr\<rparr>))"
    using setpri_eq [OF assms(1)] by blast
  moreover have "proc_wf (proc_mod nr (\<lambda>p. p\<lparr>p_pri := n\<rparr>) (s\<lparr>k_runrun := rr\<rparr>))"
    using preserves_Ok [OF proc_wf_setpri _ s'] assms(2) by (simp add: timer_inv_def)
  ultimately show ?thesis using assms by (auto simp: timer_inv_def cpu_ok_def)
qed

lemma runs_sched_cpu: "runs (timer_inv tick t) sched_cpu (\<lambda>_. timer_inv tick t)"
  unfolding sched_cpu_def
proof (rule runs_kfor)
  fix i
  have *: "timer_inv tick t (proc_mod i (\<lambda>p. p\<lparr>p_cpu := p_cpu p sdiv 2\<rparr>) s)"
    if "timer_inv tick t s" for s
    using that proc_wf_proc_mod [of "\<lambda>p. p\<lparr>p_cpu := p_cpu p sdiv 2\<rparr>" s i]
    by (auto simp: timer_inv_def cpu_ok_def cpu_half dest: proc_wfD)
  show "runs (timer_inv tick t) (kbind (kget (\<lambda>s. k_proc s i)) (\<lambda>q. case q of None \<Rightarrow> kret ()
     | Some p \<Rightarrow> kthen (kmod (proc_mod i (\<lambda>p. p\<lparr>p_cpu := p_cpu p sdiv 2\<rparr>)))
                   (kwhen (p_pri p > PUSER) (setpri i)))) (\<lambda>_. timer_inv tick t)"
    using runs_setpri [OF _ *]
    by (auto simp: runs_def kop_simps kwhen_def * split: option.splits)
qed

lemma do_timer_step:
  assumes "timer_inv tick t s"
  shows "\<exists>s'. do_timer s = Ok 0 s' \<and>
    timer_inv (tick + 1) (if (tick + 1) mod HZ = 0 then t + 1 else t) s'"
proof -
  obtain c where c: "k_proc s (k_cu s) = Some c"
    using assms by (auto simp: timer_inv_def proc_wf_def)
  define s1 where "s1 = (let s = s\<lparr>k_tick := k_tick s + 1\<rparr> in if p_cpu c + 1 \<le> 127
     then s\<lparr>k_proc := (k_proc s)(k_cu s \<mapsto> c\<lparr>p_cpu := p_cpu c + 1\<rparr>)\<rparr> else s)"
  have s1: "timer_inv (tick + 1) t s1"
    using assms c by (auto simp: s1_def timer_inv_def cpu_ok_def proc_wf_def Let_def)
  then obtain s2 where s2: "sched_cpu s1 = Ok () s2" "timer_inv (tick + 1) t s2"
    using runs_sched_cpu [of "tick + 1" t] by (auto simp: runs_def)
  have t: "k_tick s1 = tick + 1" using s1 by (simp add: timer_inv_def)
  have "do_timer s = kthen (kwhen (k_tick s1 mod HZ = 0)
     (kthen sched_cpu (kmod (\<lambda>s. s\<lparr>k_time := k_time s + 1\<rparr>)))) (kret 0) s1"
    using c by (simp add: do_timer_def kop_simps kwhen_def s1_def Let_def)
  then show ?thesis
    using s1 s2 t by (auto simp: kop_simps kwhen_def timer_inv_def cpu_ok_def proc_wf_def kthen_def kbind_def)
qed

lemma tick_mod: "n < 2 ^ 32 \<Longrightarrow> (of_nat n :: uint) mod HZ = 0 \<longleftrightarrow> n mod 100 = 0"
  by (simp add: unat_eq_zero [symmetric] unat_mod unat_of_nat del: unat_eq_zero)

section \<open>Properties\<close>

text \<open>
  C29: the system time at boot. For every valid date from 1970 to 2099 that the clock chip
  shows, \<^verbatim>\<open>cmos_time()\<close> returns the seconds since 1970 (as a 32-bit number), except in
  February of a year that is not a leap year, where the result is one day short: the
  adjustment for the missing 29 February tests \<^verbatim>\<open>month>1\<close> while months count from 1.
\<close>

theorem cmos_time_is_civil_time:
  assumes "rtc_shows rtc y mo d h mi se"
    and "1970 \<le> y" "y \<le> 2099" "1 \<le> mo" "mo \<le> 12" "1 \<le> d" "d \<le> month_days y mo"
    and "h < 24" "mi < 60" "se < 60"
  shows "cmos_time rtc s = Ok (word_of_int (int (civil_seconds y mo d h mi se)
    - (if mo = 2 \<and> \<not> leap y then 86400 else 0))) s"
proof -
  obtain k where y: "y = 1970 + k" and k: "k \<le> 129"
    using assms(2,3) that [of "y - 1970"] by simp
  have d: "d < 100" using assms(7) by (auto simp: month_days_def split: if_splits)
  have r: "cmos_read rtc RTC_CENTURY = int (y div 100)" "cmos_read rtc RTC_YEAR = int (y mod 100)"
    "cmos_read rtc RTC_MONTH = int mo" "cmos_read rtc RTC_MDAY = int d"
    "cmos_read rtc RTC_HOUR = int h" "cmos_read rtc RTC_MIN = int mi" "cmos_read rtc RTC_SEC = int se"
    using assms d by (auto intro!: cmos_read_bcd simp: rtc_shows_def)
  let ?off = "if mo > 2 \<and> \<not> leap y then DAY else 0"
  have "y div 100 * 100 + y mod 100 = 1970 + k" unfolding y by (rule div_mult_mod_eq)
  then have year: "int (y div 100) * 100 + int (y mod 100) - 1970 = int k" by linarith
  have m: "nat (int mo - 1) = mo - 1" "\<not> (int mo - 1 < 0 \<or> 12 \<le> int mo - 1)"
    using assms(4,5) by auto
  have leap: "(int k + 2) smod 4 \<noteq> 0 \<longleftrightarrow> \<not> leap y"
  proof -
    have "leap y \<longleftrightarrow> (1970 + k) mod 4 = 0" using leap_range [of y] assms(2,3) y by simp
    also have "\<dots> \<longleftrightarrow> (int k + 2) mod 4 = 0" by presburger
    finally show ?thesis by (simp add: sdiv_smod_nonneg)
  qed
  have st: "int (year_start y) = 365 * int k + (int k + 1) div 4"
    using year_start_range [of k] k y by (simp add: zdiv_int)
  have sum: "DAY * int (sum_list (map (month_days y) [1..<mo])) = monthtab ! (mo - 1) - ?off"
    using month_start assms(4,5) by blast
  have "int (civil_seconds y mo d h mi se) =
      DAY * int (year_start y) + DAY * int (sum_list (map (month_days y) [1..<mo])) +
      DAY * (int d - 1) + HOUR * int h + MINUTE * int mi + int se"
    using assms(6) by (simp add: civil_seconds_def of_nat_diff algebra_simps)
  also have "\<dots> = YEAR * int k + DAY * ((int k + 1) div 4) + monthtab ! (mo - 1) - ?off +
      DAY * (int d - 1) + HOUR * int h + MINUTE * int mi + int se"
    unfolding sum st by (simp add: algebra_simps)
  finally show ?thesis
    unfolding cmos_time_def r year Let_def m(1) leap if_not_P [OF m(2)]
    by (auto simp: kop_simps sdiv_smod_nonneg)
qed

theorem cmos_time_is_civil_time_witness:
  "cmos_time (\<lambda>r. if r = RTC_CENTURY then 0x20 else if r = RTC_YEAR then 0x12
      else if r = RTC_MONTH then 0x03 else if r = RTC_MDAY then 0x01 else 0) boot_kernel =
    Ok 1330560000 boot_kernel"
  using cmos_time_is_civil_time [of "\<lambda>r. if r = RTC_CENTURY then 0x20 else if r = RTC_YEAR then 0x12
      else if r = RTC_MONTH then 0x03 else if r = RTC_MDAY then 0x01 else 0" 2012 3 1 0 0 0 boot_kernel]
    year_start_range [of 42]
  by (simp add: rtc_shows_def to_bcd_def month_days_def leap_def civil_seconds_def upt_rec)

text \<open>
  Keeping time. Let \<open>n\<close> timer interrupts arrive after boot (fewer than a full turn of
  the 32-bit tick counter). Each returns, the tick counter is \<open>n\<close>, the clock has
  advanced by one second per hundred interrupts, the processor usage of every process
  stays between 0 and 127, and the process table stays well formed.
\<close>

theorem do_timer_keeps_time:
  assumes "proc_wf s" "cpu_ok s" "k_tick s = 0" "n < 2 ^ 32"
  shows "\<exists>s'. kfor [0..<n] (\<lambda>_. kthen do_timer (kret ())) s = Ok () s' \<and> proc_wf s' \<and> cpu_ok s' \<and>
    unat (k_tick s') = n \<and> k_time s' = k_time s + of_nat (n div 100)"
proof -
  have "\<exists>s'. kfor [0..<n] (\<lambda>_. kthen do_timer (kret ())) s = Ok () s' \<and>
    timer_inv (of_nat n) (k_time s + of_nat (n div 100)) s'"
    using assms(4)
  proof (induction n)
    case 0
    then show ?case using assms by (simp add: kop_simps timer_inv_def)
  next
    case (Suc n)
    then obtain s1 where s1: "kfor [0..<n] (\<lambda>_. kthen do_timer (kret ())) s = Ok () s1"
      "timer_inv (of_nat n) (k_time s + of_nat (n div 100)) s1" by auto
    have "(of_nat n + 1 :: uint) mod HZ = 0 \<longleftrightarrow> Suc n mod 100 = 0"
      using Suc.prems tick_mod [of "Suc n"] by (simp add: add.commute)
    then have t: "(if (of_nat n + 1 :: uint) mod HZ = 0 then k_time s + of_nat (n div 100) + 1
        else k_time s + of_nat (n div 100)) = k_time s + of_nat (Suc n div 100)"
      by (simp add: div_Suc)
    obtain s2 where s2: "do_timer s1 = Ok 0 s2"
      "timer_inv (of_nat n + 1) (k_time s + of_nat (Suc n div 100)) s2"
      using do_timer_step [OF s1(2)] unfolding t by blast
    have "kfor [0..<Suc n] (\<lambda>_. kthen do_timer (kret ())) s = kthen do_timer (kret ()) s1"
      using s1(1) by (simp add: kfor_snoc kthen_Ok)
    also have "\<dots> = Ok () s2" using s2(1) by (simp add: kthen_Ok kret_def)
    finally show ?case using s2(2) by (auto simp: add.commute)
  qed
  then show ?thesis using assms(4) by (auto simp: timer_inv_def unat_of_nat)
qed

definition idle_kernel :: kernel where
  "idle_kernel = boot_kernel\<lparr>k_proc := [0 \<mapsto> zero_proc\<lparr>p_stat := SRUN\<rparr>]\<rparr>"

theorem do_timer_keeps_time_witness:
  "\<exists>s'. kfor [0..<250] (\<lambda>_. kthen do_timer (kret ())) idle_kernel = Ok () s' \<and>
    unat (k_tick s') = 250 \<and> k_time s' = 2"
proof -
  have s: "k_proc idle_kernel = [0 \<mapsto> zero_proc\<lparr>p_stat := SRUN\<rparr>]" "k_cu idle_kernel = 0"
    "k_tick idle_kernel = 0" "k_time idle_kernel = 0"
    by (simp_all add: idle_kernel_def boot_kernel_def)
  then have "proc_wf idle_kernel" "cpu_ok idle_kernel"
    by (auto simp: proc_wf_def cpu_ok_def zero_proc_def split: if_splits)
  from do_timer_keeps_time [OF this s(3), of 250] s(4) show ?thesis by auto
qed

end
