(* ===== verification/File.thy ===== *)
theory File
  imports Namei Tty Timer
begin

text \<open>
  Open files: \<^verbatim>\<open>src/fs/open.c\<close>, \<^verbatim>\<open>src/fs/fcntl.c\<close>, \<^verbatim>\<open>src/fs/link.c\<close>,
  \<^verbatim>\<open>src/fs/mount.c\<close> and the seek operation of \<^verbatim>\<open>src/fs/rdwr.c\<close>. A descriptor is an
  index into the table of the process, whose entries are indices of the file table. An
  access to \<^verbatim>\<open>p_ofile\<close> with an index outside the table reads another field of the process
  structure; where the code goes on with such a pointer the operation is a fault.
\<close>

section \<open>Descriptors and file structures (open.c)\<close>

definition file_mod :: "nat \<Rightarrow> (kfile \<Rightarrow> kfile) \<Rightarrow> kernel \<Rightarrow> kernel" where
  "file_mod fp f s = s\<lparr>k_file := (k_file s)(fp := f (k_file s fp))\<rparr>"

abbreviation (input) O_RDONLY :: uint where "O_RDONLY \<equiv> 0x0"
abbreviation (input) O_WRONLY :: uint where "O_WRONLY \<equiv> 0x1"
abbreviation (input) O_CREAT :: uint where "O_CREAT \<equiv> 0x4"
abbreviation (input) O_TRUNC :: uint where "O_TRUNC \<equiv> 0x20"
abbreviation (input) O_APPEND :: uint where "O_APPEND \<equiv> 0x40"
abbreviation (input) FD_CLOEXEC :: uint where "FD_CLOEXEC \<equiv> 1"

definition ufalloc :: "int kop" where
  "ufalloc = kbind (cu_get p_ofile) (\<lambda>tab. case scan (\<lambda>i. tab i = None) 0 NOFILE of
       Some i \<Rightarrow> kret (int i)
     | None \<Rightarrow> kthen (syserr ENFILE) (kret (-1)))"

definition falloc :: "nat \<Rightarrow> nat kop" where
  "falloc fd = kbind (kget (\<lambda>s. scan (\<lambda>i. f_count (k_file s i) = 0) 0 NFILE)) (\<lambda>r. case r of
       Some fp \<Rightarrow> kthen (kmod (file_mod fp (\<lambda>f. f\<lparr>f_count := 1\<rparr>)))
         (kthen (cu_mod (\<lambda>p. p\<lparr>p_ofile := (p_ofile p)(fd \<mapsto> fp)\<rparr>))
          (kthen (kmod (file_mod fp (\<lambda>f. f\<lparr>f_offset := 0, f_oflag := 0\<rparr>))) (kret fp)))
     | None \<Rightarrow> kthen (syserr EMFILE) (panic (''no free file structure'' @ [CHR 0x0A])))"

text \<open>The open routines of the device tables: \<^verbatim>\<open>nulldev\<close> for the disk, \<^verbatim>\<open>tty_open\<close> for the terminals.\<close>

definition dev_open :: "ushort \<Rightarrow> ushort \<Rightarrow> unit kop" where
  "dev_open mode dev =
     (if mode AND S_IFMT = S_IFBLK then
        if MAJOR dev = 1 then kthen nulldev (kret ()) else kstop (Fault ''d_open'')
      else if mode AND S_IFMT = S_IFCHR then
        if MAJOR dev = 1 then kthen (tty_open dev) (kret ()) else kstop (Fault ''d_open'')
      else kret ())"

definition do_open :: "mem \<Rightarrow> nat \<Rightarrow> uint \<Rightarrow> uint \<Rightarrow> int kop" where
  "do_open pm path flag mode = kbind
     (if flag AND O_CREAT \<noteq> 0 then
        kbind (namei pm path 1) (\<lambda>ipo. kderef ''ip'' ipo (\<lambda>ip. kbind (kget (\<lambda>s. i_nlink (k_inode s ip))) (\<lambda>nl.
          kthen (kwhen (nl = 0)
            (kbind (cu_get p_euid) (\<lambda>euid. kbind (cu_get p_egid) (\<lambda>egid. kbind time (\<lambda>t.
              kthen (kmod (ino_mod ip (\<lambda>i. i\<lparr>i_mode := ucast mode, i_uid := ucast euid, i_gid := ucast egid,
                i_mtime := t, i_nlink := 1\<rparr>))) (iupdate ip))))))
           (kret (Some ip)))))
      else
        kbind (namei pm path 0) (\<lambda>ipo. case ipo of
          None \<Rightarrow> kthen (syserr ENFILE) (kret None)
        | Some ip \<Rightarrow> kbind (kget (\<lambda>s. k_inode s ip)) (\<lambda>i. kthen (dev_open (i_mode i) (i_zone i 0)) (kret (Some ip))))) (\<lambda>ipo.
     case ipo of None \<Rightarrow> kret (-1) | Some ip \<Rightarrow>
     kbind ufalloc (\<lambda>fd.
     if fd < 0 then kthen (iput (Some ip)) (kret (-1))
     else kbind (falloc (nat fd)) (\<lambda>fp.
       kthen (kwhen (flag AND O_TRUNC \<noteq> 0) (kthen (itrunc ip) (kret ())))
       (kthen (unlk_ino ip)
       (kthen (kmod (file_mod fp (\<lambda>f. f\<lparr>f_oflag := ucast flag, f_ino := Some ip\<rparr>)))
       (kthen (cu_mod (\<lambda>p. p\<lparr>p_fdflag := (p_fdflag p)(nat fd := FD_CLOEXEC)\<rparr>)) (kret fd)))))))"

text \<open>
  \<^verbatim>\<open>do_close\<close> lets the descriptor 16 pass, which is behind the table. The count is a signed
  byte.
\<close>

definition do_close :: "int \<Rightarrow> int kop" where
  "do_close fd =
     (if fd > int NOFILE \<or> fd < 0 then kthen (syserr EBADF) (kret (-1))
      else if fd = int NOFILE then kstop (Fault ''p_ofile[NOFILE]'')
      else kbind (cu_get (\<lambda>p. p_ofile p (nat fd))) (\<lambda>fpo. case fpo of
          None \<Rightarrow> kthen (syserr EBADF) (kret (-1))
        | Some fp \<Rightarrow>
          kthen (cu_mod (\<lambda>p. p\<lparr>p_ofile := (p_ofile p)(nat fd := None)\<rparr>))
          (kbind (kget (\<lambda>s. f_ino (k_file s fp))) (\<lambda>ino. kthen (iput ino)
          (kthen (kmod (file_mod fp (\<lambda>f. f\<lparr>f_count := f_count f - 1\<rparr>)))
          (kthen (kmod (file_mod fp (\<lambda>f. if schar (f_count f) \<le> 0 then f\<lparr>f_count := 0, f_oflag := 0, f_offset := 0\<rparr> else f)))
           (kret 0)))))))"

text \<open>One more reference to a file structure and its inode, through descriptor \<open>newfd\<close>.\<close>

definition dup_into :: "nat \<Rightarrow> int \<Rightarrow> int kop" where
  "dup_into fp newfd =
     kthen (kmod (file_mod fp (\<lambda>f. f\<lparr>f_count := f_count f + 1\<rparr>)))
     (kbind (kget (\<lambda>s. f_ino (k_file s fp))) (\<lambda>ino. kderef ''f_ino'' ino (\<lambda>ip.
      kthen (kmod (ino_mod ip (\<lambda>i. i\<lparr>i_count := i_count i + 1\<rparr>)))
       (if newfd < 0 \<or> newfd \<ge> int NOFILE then kstop (Fault ''p_ofile[newfd]'')
        else kthen (cu_mod (\<lambda>p. p\<lparr>p_ofile := (p_ofile p)(nat newfd \<mapsto> fp)\<rparr>)) (kret newfd)))))"

definition do_dup :: "int \<Rightarrow> int kop" where
  "do_dup fd =
     (if fd \<ge> int NOFILE then kthen (syserr EBADF) (kret (-1))
      else if fd < 0 then kstop (Fault ''p_ofile[fd]'')
      else kbind (cu_get (\<lambda>p. p_ofile p (nat fd))) (\<lambda>fpo. case fpo of
          None \<Rightarrow> kthen (syserr EBADF) (kret (-1))
        | Some fp \<Rightarrow> kbind ufalloc (\<lambda>newfd. if newfd < 0 then kret (-1) else dup_into fp newfd)))"

definition do_dup2 :: "int \<Rightarrow> int \<Rightarrow> int kop" where
  "do_dup2 fd newfd =
     (if fd \<ge> int NOFILE then kthen (syserr EBADF) (kret (-1))
      else if fd < 0 then kstop (Fault ''p_ofile[fd]'')
      else kbind (cu_get (\<lambda>p. p_ofile p (nat fd))) (\<lambda>fpo. case fpo of
          None \<Rightarrow> kthen (syserr EBADF) (kret (-1))
        | Some fp \<Rightarrow> kthen (do_close newfd) (dup_into fp newfd)))"

section \<open>Control, status and access (fcntl.c)\<close>

definition do_fcntl :: "int \<Rightarrow> uint \<Rightarrow> uint \<Rightarrow> int kop" where
  "do_fcntl fd cmd arg =
     (if fd \<ge> int NOFILE \<or> fd < 0 then kthen (syserr EBADF) (kret (-1))
      else kbind (cu_get (\<lambda>p. p_ofile p (nat fd))) (\<lambda>fpo. case fpo of
          None \<Rightarrow> kthen (syserr EBADF) (kret (-1))
        | Some fp \<Rightarrow>
          if cmd = 0 then do_dup fd
          else if cmd = 3 then kget (\<lambda>s. schar (f_oflag (k_file s fp)))
          else if cmd = 4 then kthen (kmod (file_mod fp (\<lambda>f. f\<lparr>f_oflag := ucast arg\<rparr>))) (kret 0)
          else if cmd = 1 then cu_get (\<lambda>p. sint (p_fdflag p (nat fd)))
          else if cmd = 2 then kthen (cu_mod (\<lambda>p. p\<lparr>p_fdflag := (p_fdflag p)(nat fd := arg)\<rparr>)) (kret 0)
          else kret (-1)))"

record stat =
  st_dev :: ushort st_ino :: ushort st_mode :: ushort st_nlink :: ushort st_uid :: ushort st_gid :: ushort
  st_rdev :: ushort st_size :: uint st_atime :: ushort st_mtime :: ushort st_ctime :: ushort

text \<open>The structure that \<^verbatim>\<open>do_stat\<close> stores through its pointer.\<close>

definition do_stat :: "nat \<Rightarrow> stat kop" where
  "do_stat ip = kget (\<lambda>s. let i = k_inode s ip in
     \<lparr>st_dev = i_dev i, st_ino = ucast (i_num i), st_mode = i_mode i, st_nlink = ucast (i_nlink i), st_uid = i_uid i,
      st_gid = ucast (i_gid i), st_rdev = i_zone i 0, st_size = i_size i, st_atime = i_atime i,
      st_mtime = ucast (i_mtime i), st_ctime = i_ctime i\<rparr>)"

abbreviation (input) X_OK :: uint where "X_OK \<equiv> 1"
abbreviation (input) W_OK :: uint where "W_OK \<equiv> 2"
abbreviation (input) R_OK :: uint where "R_OK \<equiv> 4"

definition do_access :: "nat option \<Rightarrow> uint \<Rightarrow> int kop" where
  "do_access ipo mode = (case ipo of None \<Rightarrow> kthen (syserr EACCES) (kret (-1)) | Some ip \<Rightarrow>
     kbind (if mode AND W_OK \<noteq> 0 then
         kbind (kget (\<lambda>s. i_dev (k_inode s ip))) (\<lambda>dev. kbind (getsp dev) (\<lambda>sp. kthen (unlk_sp sp)
         (kbind (kget (\<lambda>s. s_flag (k_mnt s sp))) (\<lambda>fl.
          if fl AND S_RDONLY \<noteq> 0 then kthen (syserr EROFS) (kret False)
          else kget (\<lambda>s. i_flag (k_inode s ip) AND I_TEXT = 0)))))
       else kret True) (\<lambda>ok.
     if \<not> ok then kret (-1)
     else kbind suser (\<lambda>su. kbind (kget (\<lambda>s. k_inode s ip)) (\<lambda>i.
       if su \<noteq> 0 \<and> mode AND X_OK \<noteq> 0 then
         if i_mode i AND 0x49 \<noteq> 0 then kthen (syserr EACCES) (kret (-1)) else kret 0
       else kbind (cu_get p_euid) (\<lambda>euid. kbind (cu_get p_egid) (\<lambda>egid.
         let m0 = (ucast (i_mode i AND 0x1FF) :: uint);
             m = (if euid = ucast (i_uid i) then drop_bit 6 m0 else if egid = ucast (i_gid i) then drop_bit 3 m0 else m0) in
         if m AND 7 AND mode = mode then kret 0 else kthen (syserr EACCES) (kret (-1))))))))"

definition do_creat :: "mem \<Rightarrow> nat \<Rightarrow> uint \<Rightarrow> int kop" where
  "do_creat pm path mode = do_open pm path (O_CREAT OR O_TRUNC) mode"

definition do_mknod :: "mem \<Rightarrow> nat \<Rightarrow> uint \<Rightarrow> ushort \<Rightarrow> int kop" where
  "do_mknod pm path mode dev = kbind (namei pm path 1) (\<lambda>ipo. case ipo of
       None \<Rightarrow> kthen (syserr ENOENT) (kthen (iput None) (kret (-1)))
     | Some ip \<Rightarrow> kbind (kget (\<lambda>s. i_nlink (k_inode s ip))) (\<lambda>nl.
         if nl \<noteq> 0 then kthen (syserr EEXIST) (kthen (iput (Some ip)) (kret (-1)))
         else
           kthen (kwhen (mode = ucast S_IFBLK \<or> mode = ucast S_IFCHR)
             (kmod (ino_mod ip (\<lambda>i. i\<lparr>i_zone := (i_zone i)(0 := dev)\<rparr>))))
           (kbind time (\<lambda>t. kbind (cu_get p_euid) (\<lambda>euid. kbind (cu_get p_egid) (\<lambda>egid.
            kthen (kmod (ino_mod ip (\<lambda>i. i\<lparr>i_mode := ucast mode, i_nlink := 1, i_mtime := t, i_uid := ucast euid, i_gid := ucast egid\<rparr>)))
             (kthen (iupdate ip) (kthen (iput (Some ip)) (kret 0)))))))))"

section \<open>Links (link.c)\<close>

text \<open>
  The checks on the last component, a string at \<open>np\<close>: \<open>None\<close> when its length is not
  below 12 or zero (or the pointer was never set), and whether it is a dot name.
\<close>

definition dot_mem :: "mem" where "dot_mem = (\<lambda>_. 0)(0 := 0x2E)"
definition dotdot_mem :: "mem" where "dotdot_mem = (\<lambda>_. 0)(0 := 0x2E, 1 := 0x2E)"

definition bad_len :: "nat \<Rightarrow> bool" where
  "bad_len l \<longleftrightarrow> l = 0 \<or> l \<ge> NAMELEN"

definition dot_name :: "mem \<Rightarrow> nat \<Rightarrow> bool" where
  "dot_name pm np \<longleftrightarrow> strcmp pm np dot_mem 0 = Some 0 \<or> strcmp pm np dotdot_mem 0 = Some 0"

text \<open>Both callers measure the name first; without a terminator they do not return.\<close>

definition with_name :: "mem \<Rightarrow> nat option \<Rightarrow> (nat \<Rightarrow> nat \<Rightarrow> 'a kop) \<Rightarrow> 'a kop" where
  "with_name pm npo f = kderef ''name'' npo (\<lambda>np. case strlen pm np of
     None \<Rightarrow> kstop (Fault ''name'') | Some l \<Rightarrow> f np l)"

definition link_undo :: "nat \<Rightarrow> nat option \<Rightarrow> int kop" where
  "link_undo tip dip =
     kthen (lock_ino tip) (kthen (kmod (ino_mod tip (\<lambda>i. i\<lparr>i_nlink := i_nlink i - 1\<rparr>)))
      (kthen (iupdate tip) (kthen (iput (Some tip)) (kthen (iput dip) (kret (-1))))))"

definition do_link :: "mem \<Rightarrow> nat \<Rightarrow> mem \<Rightarrow> nat \<Rightarrow> int kop" where
  "do_link pm1 path1 pm2 path2 = kbind (namei pm1 path1 0) (\<lambda>tipo. case tipo of
       None \<Rightarrow> kthen (iput None) (kthen (syserr ENOENT) (kret (-1)))
     | Some tip \<Rightarrow>
       kthen (kmod (ino_mod tip (\<lambda>i. i\<lparr>i_nlink := i_nlink i + 1\<rparr>)))
       (kthen (iupdate tip) (kthen (unlk_ino tip)
       (kbind (namei_parent pm2 path2) (\<lambda>(dipo, npo). with_name pm2 npo (\<lambda>np l.
         if bad_len l then kthen (syserr ENOENT) (link_undo tip dipo)
         else if dot_name pm2 np then kthen (syserr EPERM) (link_undo tip dipo)
         else kderef ''dip'' dipo (\<lambda>dip.
           kbind (find_entry dip pm2 np l) (\<lambda>r.
           if r \<noteq> 0 then kthen (syserr EEXIST) (link_undo tip (Some dip))
           else kthen (lock_ino tip) (kbind (kget (\<lambda>s. i_num (k_inode s tip))) (\<lambda>num.
             kbind (link_entry dip pm2 np l num) (\<lambda>r.
             if r = 0 then panic ''bad link. ''
             else kthen (iupdate tip) (kthen (iput (Some tip)) (kthen (iput (Some dip)) (kret 0))))))))))))))"

definition do_unlink :: "mem \<Rightarrow> nat \<Rightarrow> int kop" where
  "do_unlink pm path = kbind (namei_parent pm path) (\<lambda>(dipo, npo). with_name pm npo (\<lambda>np l.
     let bad = (\<lambda>d. kthen (iput d) (kthen (syserr EPERM) (kret (-1)))) in
     if bad_len l \<or> dot_name pm np then bad dipo
     else kderef ''dip'' dipo (\<lambda>dip.
       kbind (unlink_entry dip pm np l) (\<lambda>ino.
       if ino \<le> 0 then bad (Some dip)
       else kbind (kget (\<lambda>s. i_dev (k_inode s dip))) (\<lambda>dev. kbind (iget dev (word_of_int ino)) (\<lambda>ipo. kderef ''ip'' ipo (\<lambda>ip.
         kbind (kget (\<lambda>s. k_inode s ip)) (\<lambda>i.
         if i_mode i AND S_IFMT = S_IFDIR then
           kthen (link_entry dip pm np l (i_num i)) (kthen (iput (Some ip)) (kthen (iput (Some dip))
            (kthen (syserr EPERM) (kret (-1)))))
         else kthen (kmod (ino_mod ip (\<lambda>i. i\<lparr>i_nlink := i_nlink i - 1\<rparr>)))
           (kthen (iput (Some ip)) (kthen (iput (Some dip)) (kret 0)))))))))))"

section \<open>Mounting (mount.c)\<close>

definition mount_found :: "ushort \<Rightarrow> nat option \<Rightarrow> nat \<Rightarrow> nat option kop" where
  "mount_found dev ipo sp = kbind (kget (\<lambda>s. case ipo of None \<Rightarrow> False | Some ip \<Rightarrow> i_mode (k_inode s ip) AND S_IFMT \<noteq> S_IFDIR)) (\<lambda>bad.
     if bad then kthen (putsp sp) (kret None)
     else kthen (kwhen (dev = rootdev) (kmod (\<lambda>s. s\<lparr>k_rootsp := Some sp\<rparr>)))
       (kthen (case ipo of None \<Rightarrow> kret () | Some ip \<Rightarrow> kmod (ino_mod ip (\<lambda>i. i\<lparr>i_count := i_count i + 1\<rparr>)))
       (kthen (kmod (mnt_mod sp (\<lambda>p. p\<lparr>s_imnt := ipo\<rparr>))) (kthen (unlk_sp sp) (kret (Some sp))))))"

definition do_mount :: "ushort \<Rightarrow> nat option \<Rightarrow> nat option kop" where
  "do_mount dev ipo = kbind (kget (\<lambda>s. scan (\<lambda>i. sint (s_dev (k_mnt s i)) = uint dev) 0 NMOUNT)) (\<lambda>r. case r of
       Some sp \<Rightarrow> kthen (kmod (mnt_mod sp (\<lambda>p. p\<lparr>s_flag := s_flag p OR S_LOCK\<rparr>))) (mount_found dev ipo sp)
     | None \<Rightarrow> kbind (kget (\<lambda>s. scan (\<lambda>i. s_dev (k_mnt s i) = NODEV) 0 NMOUNT)) (\<lambda>q. case q of
         Some sp \<Rightarrow> kthen (kmod (mnt_mod sp (\<lambda>p. p\<lparr>s_dev := dev\<rparr>))) (kthen (spload sp) (mount_found dev ipo sp))
       | None \<Rightarrow> kthen (printk (\<lambda>_. []) (ascii ''no free mount slot'') []) (kret None)))"

definition do_umount :: "ushort \<Rightarrow> int kop" where
  "do_umount dev = kbind (getsp dev) (\<lambda>sp.
     kbind (kget (\<lambda>s. scan (\<lambda>i. i_num (k_inode s i) \<noteq> 0 \<and> i_dev (k_inode s i) = dev) 0 NINODE)) (\<lambda>r. case r of
       Some ip \<Rightarrow> kthen (syserr EBUSY) (kret (-1))
     | None \<Rightarrow> kthen (spupdate sp) (kthen (kmod (mnt_mod sp (\<lambda>p. p\<lparr>s_dev := 0, s_flag := 0\<rparr>)))
         (kbind (kget (\<lambda>s. s_imnt (k_mnt s sp))) (\<lambda>m. kthen (iput m) (kret 0))))))"

section \<open>Seeking (rdwr.c)\<close>

definition do_lseek :: "uint \<Rightarrow> int \<Rightarrow> int \<Rightarrow> int kop" where
  "do_lseek fd off whence =
     (if fd \<ge> 16 then kthen (syserr EBADF) (kret (-1))
      else kbind (cu_get (\<lambda>p. p_ofile p (unat fd))) (\<lambda>fpo. case fpo of
          None \<Rightarrow> kthen (syserr EBADF) (kret (-1))
        | Some fp \<Rightarrow> kbind (kget (\<lambda>s. f_ino (k_file s fp))) (\<lambda>ino. case ino of
            None \<Rightarrow> kthen (syserr EBADF) (kret (-1))
          | Some ip \<Rightarrow> kbind (kget (\<lambda>s. k_inode s ip)) (\<lambda>i.
              if i_mode i AND S_IFIFO \<noteq> 0 then kthen (syserr ESPIPE) (kret (-1))
              else kbind (kget (\<lambda>s. f_offset (k_file s fp))) (\<lambda>o0.
                let o1 = (word_of_int off :: uint);
                    einval = kthen (syserr EINVAL) (kret (-1));
                    set_off = (\<lambda>v. kthen (kmod (file_mod fp (\<lambda>f. f\<lparr>f_offset := v\<rparr>))) (kget (\<lambda>s. sint (f_offset (k_file s fp))))) in
                if whence = 0 then if off < 0 then einval else set_off o1
                else if whence = 1 then if o0 + o1 < o0 then einval else set_off (o0 + o1)
                else if whence = 2 then if i_size i + o1 < i_size i then einval else set_off (i_size i + o1)
                else kret (sint o0))))))"

end
