(* ===== verification/Pm.thy ===== *)
theory Pm
  imports Kernel
begin

unbundle bit_operations_syntax

text \<open>
  The physical page allocator, \<^verbatim>\<open>src/mm/pm.c\<close>: reference counted page frames and the
  free list threaded through \<^verbatim>\<open>coremap\<close>. The interface the rest of the kernel relies on is
  the locale \<open>page_allocator\<close>. The end of the kernel image, \<^verbatim>\<open>&__kend__\<close>, is an argument of
  the initialisation.
\<close>

section \<open>Definitions\<close>

definition page_mod :: "nat \<Rightarrow> (page \<Rightarrow> page) \<Rightarrow> kernel \<Rightarrow> kernel" where
  "page_mod pn f s = s\<lparr>k_coremap := (k_coremap s)(pn := f (k_coremap s pn))\<rparr>"

definition pgfind :: "uint \<Rightarrow> nat kop" where
  "pgfind pn = (if unat pn \<ge> NPAGE then panic ''pgfind(): bad page number.'' else kret (unat pn))"

definition pgalloc :: "nat kop" where
  "pgalloc = kbind (kget k_pgfree) (\<lambda>h.
     case h of None \<Rightarrow> panic ''no free page.''
     | Some pp \<Rightarrow>
        kthen (kmod (\<lambda>s. s\<lparr>k_pgfree := pg_next (k_coremap s pp)\<rparr>))
        (kthen (kmod (page_mod pp (\<lambda>p. p\<lparr>pg_count := 1\<rparr>))) (kret pp)))"

definition pgfree :: "nat \<Rightarrow> ushort kop" where
  "pgfree pp = kbind (kget (\<lambda>s. pg_count (k_coremap s pp))) (\<lambda>c.
     if c = 0 then panic ''freeing a free page.''
     else kthen (kmod (page_mod pp (\<lambda>p. p\<lparr>pg_count := pg_count p - 1\<rparr>)))
       (kthen (kwhen (c - 1 = 0)
          (kthen (kmod (\<lambda>s. page_mod pp (\<lambda>p. p\<lparr>pg_next := k_pgfree s\<rparr>) s))
                 (kmod (\<lambda>s. s\<lparr>k_pgfree := Some pp\<rparr>))))
        (kget (\<lambda>s. pg_num (k_coremap s pp)))))"

text \<open>One round of the marking loops, and of the loop that links the free pages behind \<^verbatim>\<open>ph\<close>.\<close>

definition pm_reserve :: "nat \<Rightarrow> kernel \<Rightarrow> kernel" where
  "pm_reserve pn = page_mod pn (\<lambda>p. p\<lparr>pg_num := of_nat pn, pg_flag := PG_RSVD, pg_count := 100\<rparr>)"

definition pm_link :: "nat \<Rightarrow> nat option \<times> kernel \<Rightarrow> nat option \<times> kernel" where
  "pm_link pn = (\<lambda>(ph, s).
     if pg_flag (k_coremap s pn) AND PG_RSVD \<noteq> 0 \<or> pg_count (k_coremap s pn) > 0 then (ph, s)
     else let s1 = page_mod pn (\<lambda>p. p\<lparr>pg_num := of_nat pn, pg_flag := 0, pg_count := 0, pg_next := None\<rparr>) s
       in (Some pn, case ph of None \<Rightarrow> s1\<lparr>k_pgfree := Some pn\<rparr>
                    | Some h \<Rightarrow> page_mod h (\<lambda>p. p\<lparr>pg_next := Some pn\<rparr>) s1))"

definition pm_init :: "uint \<Rightarrow> int kop" where
  "pm_init kend =
     (let hi = unat (PPN kend + 1) in
      if hi > NPAGE then kstop (Fault ''coremap'') else
      kthen (kmod (\<lambda>s. fold pm_reserve ([0..<1] @ [160..<hi]) s))
       (kthen (kmod (\<lambda>s. snd (fold pm_link [0..<NPAGE] (None, s)))) (kret 0)))"

section \<open>The interface of the page allocator\<close>

text \<open>
  What callers rely on: \<open>inv\<close> is kept, \<open>cnt\<close> is the number of references to a page,
  \<open>valid\<close> are the pages there are. An allocation returns a page that nobody refers to, and
  fails only when there is none; a page comes back when its last reference is dropped.
\<close>

locale page_allocator =
  fixes inv :: "'s \<Rightarrow> bool" and valid :: "'p \<Rightarrow> bool" and cnt :: "'s \<Rightarrow> 'p \<Rightarrow> nat"
    and alloc :: "'s \<Rightarrow> ('p, 's) res" and free :: "'p \<Rightarrow> 's \<Rightarrow> ('n, 's) res"
  assumes alloc_Ok: "inv s \<Longrightarrow> valid q \<Longrightarrow> cnt s q = 0 \<Longrightarrow>
      \<exists>p s'. alloc s = Ok p s' \<and> inv s' \<and> valid p \<and> cnt s p = 0 \<and> cnt s' = (cnt s)(p := 1)"
    and alloc_full: "inv s \<Longrightarrow> (\<And>q. valid q \<Longrightarrow> cnt s q \<noteq> 0) \<Longrightarrow> \<exists>x s'. alloc s = Stop x s'"
    and free_Ok: "inv s \<Longrightarrow> valid p \<Longrightarrow> cnt s p > 0 \<Longrightarrow>
      \<exists>n s'. free p s = Ok n s' \<and> inv s' \<and> cnt s' = (cnt s)(p := cnt s p - 1)"
    and free_unused: "inv s \<Longrightarrow> cnt s p = 0 \<Longrightarrow> \<exists>x. free p s = Stop x s"
begin

lemma alloc_cases:
  assumes "inv s"
  obtains p s' where "alloc s = Ok p s'" "inv s'" "valid p" "cnt s p = 0" "cnt s' = (cnt s)(p := 1)"
  | x s' where "alloc s = Stop x s'" "\<And>q. valid q \<Longrightarrow> cnt s q \<noteq> 0"
  using alloc_Ok[OF assms] alloc_full[OF assms] by (metis (no_types))

lemma alloc_fresh:
  "inv s \<Longrightarrow> alloc s = Ok p s' \<Longrightarrow> inv s' \<and> valid p \<and> cnt s p = 0 \<and> cnt s' = (cnt s)(p := 1)"
  by (erule alloc_cases[of s]) auto

lemma alloc_twice_distinct:
  assumes "inv s" "alloc s = Ok p s'" "alloc s' = Ok q s''"
  shows "p \<noteq> q"
  using alloc_fresh[OF assms(1,2)] alloc_fresh[of s' q s''] assms(3) by auto

text \<open>A page that was allocated and freed is free again, and no other page is affected.\<close>

lemma alloc_free:
  assumes "inv s" "alloc s = Ok p s'"
  shows "\<exists>n s''. free p s' = Ok n s'' \<and> inv s'' \<and> cnt s'' = cnt s"
  using alloc_fresh[OF assms] free_Ok[of s' p] by fastforce

lemma alloc_free_alloc:
  assumes "inv s" "alloc s = Ok p s'"
  shows "\<exists>n s'' q t. free p s' = Ok n s'' \<and> alloc s'' = Ok q t"
  using alloc_free[OF assms] alloc_fresh[OF assms] alloc_Ok by metis

text \<open>As many allocations succeed as there are free pages.\<close>

lemma alloc_card:
  assumes "inv s" "alloc s = Ok p s'" "finite {q. valid q \<and> cnt s q = 0}"
  shows "card {q. valid q \<and> cnt s' q = 0} = card {q. valid q \<and> cnt s q = 0} - 1"
proof -
  have "{q. valid q \<and> cnt s' q = 0} = {q. valid q \<and> cnt s q = 0} - {p}"
    using alloc_fresh[OF assms(1,2)] by auto
  then show ?thesis using alloc_fresh[OF assms(1,2)] assms(3) by simp
qed

end

section \<open>The free list\<close>

abbreviation page_next :: "kernel \<Rightarrow> nat \<Rightarrow> nat option" where
  "page_next s \<equiv> (\<lambda>pn. pg_next (k_coremap s pn))"

definition page_cnt :: "kernel \<Rightarrow> nat \<Rightarrow> nat" where
  "page_cnt s pn = unat (pg_count (k_coremap s pn))"

text \<open>
  The free list runs through exactly the page frames that have no reference, and every
  entry of \<^verbatim>\<open>coremap\<close> knows its number.
\<close>

definition pm_inv :: "kernel \<Rightarrow> bool" where
  "pm_inv s \<longleftrightarrow> (\<exists>xs. chain (page_next s) (k_pgfree s) xs \<and>
      set xs = {pn. pn < NPAGE \<and> page_cnt s pn = 0}) \<and>
    (\<forall>pn<NPAGE. pg_num (k_coremap s pn) = of_nat pn)"

lemma page_mod_simps [simp]:
  "k_coremap (page_mod pn f s) = (k_coremap s)(pn := f (k_coremap s pn))"
  "k_pgfree (page_mod pn f s) = k_pgfree s"
  by (simp_all add: page_mod_def)

lemma page_next_upd:
  "pg_next (f (k_coremap s pn)) = y \<Longrightarrow> page_next (page_mod pn f s) = (page_next s)(pn := y)"
  by (auto simp: fun_eq_iff)

lemma page_mod_twice: "page_mod pn f (page_mod pn g s) = page_mod pn (\<lambda>p. f (g p)) s"
  by (simp add: page_mod_def)

lemma pm_invE:
  assumes "pm_inv s"
  obtains xs where "chain (page_next s) (k_pgfree s) xs" "set xs = {pn. pn < NPAGE \<and> page_cnt s pn = 0}"
    "distinct xs" "\<forall>pn<NPAGE. pg_num (k_coremap s pn) = of_nat pn"
  using assms chain_distinct by (auto simp: pm_inv_def)

lemma pgalloc_step:
  assumes "chain (page_next s) (k_pgfree s) (p # xs)"
  shows "pgalloc s = Ok p (page_mod p (\<lambda>q. q\<lparr>pg_count := 1\<rparr>) (s\<lparr>k_pgfree := page_next s p\<rparr>))"
  using assms by (simp add: pgalloc_def kop_simps)

lemma page_cnt_mod:
  "page_cnt (page_mod pn f s) = (page_cnt s)(pn := unat (pg_count (f (k_coremap s pn))))"
  "page_cnt (s\<lparr>k_pgfree := h\<rparr>) = page_cnt s"
  by (auto simp: page_cnt_def)

text \<open>Dropping one of several references.\<close>

lemma page_drop:
  assumes inv: "pm_inv s" and p: "p < NPAGE" "page_cnt s p > 1"
  shows "page_cnt (page_mod p (\<lambda>q. q\<lparr>pg_count := pg_count q - 1\<rparr>) s) = (page_cnt s)(p := page_cnt s p - 1)"
    "pm_inv (page_mod p (\<lambda>q. q\<lparr>pg_count := pg_count q - 1\<rparr>) s)"
proof -
  let ?c = "pg_count (k_coremap s p)" and ?s' = "page_mod p (\<lambda>q. q\<lparr>pg_count := pg_count q - 1\<rparr>) s"
  have "?c \<noteq> 0" using p(2) by (auto simp: page_cnt_def)
  then have u: "unat (?c - 1) = unat ?c - 1" by (simp add: unat_minus_one)
  have nx: "page_next ?s' = page_next s" by (auto simp: fun_eq_iff)
  show "page_cnt ?s' = (page_cnt s)(p := page_cnt s p - 1)"
    by (simp add: page_cnt_mod u) (simp add: page_cnt_def)
  then show "pm_inv ?s'" using inv p unfolding pm_inv_def nx by (auto simp: page_cnt_mod)
qed

lemma pgfree_shared:
  assumes inv: "pm_inv s" and p: "p < NPAGE" "page_cnt s p > 1"
  shows "\<exists>n s'. pgfree p s = Ok n s' \<and> pm_inv s' \<and> page_cnt s' = (page_cnt s)(p := page_cnt s p - 1)"
proof -
  have "pg_count (k_coremap s p) \<noteq> 0" "pg_count (k_coremap s p) \<noteq> 1" using p(2) by (auto simp: page_cnt_def)
  then show ?thesis using page_drop [OF assms] by (simp add: pgfree_def kop_simps)
qed

lemma pgfree_last:
  assumes inv: "pm_inv s" and p: "p < NPAGE" "page_cnt s p = 1"
  shows "\<exists>n s'. pgfree p s = Ok n s' \<and> pm_inv s' \<and> page_cnt s' = (page_cnt s)(p := 0)"
proof -
  obtain xs where xs: "chain (page_next s) (k_pgfree s) xs"
      "set xs = {pn. pn < NPAGE \<and> page_cnt s pn = 0}" "distinct xs"
      "\<forall>pn<NPAGE. pg_num (k_coremap s pn) = of_nat pn"
    using inv by (rule pm_invE)
  have c: "pg_count (k_coremap s p) = 1" using p(2)
    by (metis page_cnt_def unat_1 word_unat_eq_iff)
  let ?s' = "(page_mod p (\<lambda>q. q\<lparr>pg_count := 0, pg_next := k_pgfree s\<rparr>) s)\<lparr>k_pgfree := Some p\<rparr>"
  have nx: "page_next ?s' = (page_next s)(p := k_pgfree s)" by (auto simp: fun_eq_iff)
  have cnt: "page_cnt ?s' = (page_cnt s)(p := 0)" by (simp add: page_cnt_mod)
  have "p \<notin> set xs" using p xs(2) by auto
  then have "pm_inv ?s'"
    unfolding pm_inv_def nx cnt
    using xs(1,2,4) p(1) by (intro conjI exI [of _ "p # xs"]) auto
  moreover have "pgfree p s = Ok (pg_num (k_coremap s p)) ?s'"
    using c by (simp add: pgfree_def kop_simps page_mod_twice) (simp add: page_mod_def)
  ultimately show ?thesis using cnt by blast
qed

interpretation pages: page_allocator pm_inv "\<lambda>pn. pn < NPAGE" page_cnt pgalloc pgfree
proof
  fix s :: kernel and q assume inv: "pm_inv s" and q: "q < NPAGE" "page_cnt s q = 0"
  obtain xs where xs: "chain (page_next s) (k_pgfree s) xs"
      "set xs = {pn. pn < NPAGE \<and> page_cnt s pn = 0}" "distinct xs"
      "\<forall>pn<NPAGE. pg_num (k_coremap s pn) = of_nat pn"
    using inv by (rule pm_invE)
  with q obtain p ys where ys: "xs = p # ys" by (cases xs) auto
  let ?s' = "page_mod p (\<lambda>q. q\<lparr>pg_count := 1\<rparr>) (s\<lparr>k_pgfree := page_next s p\<rparr>)"
  have nx: "page_next ?s' = page_next s" by (auto simp: fun_eq_iff)
  have p: "p < NPAGE" "page_cnt s p = 0" "p \<notin> set ys" using xs(2,3) ys by auto
  have ys': "set ys = {pn. pn < NPAGE \<and> page_cnt s pn = 0} - {p}" using xs(2,3) ys by auto
  have "pm_inv ?s'"
    unfolding pm_inv_def nx
    using xs(1,4) ys by (intro conjI exI [of _ ys]) (auto simp: ys' page_cnt_mod)
  then show "\<exists>p s'. pgalloc s = Ok p s' \<and> pm_inv s' \<and> p < NPAGE \<and> page_cnt s p = 0 \<and>
      page_cnt s' = (page_cnt s)(p := 1)"
    using pgalloc_step [of s p ys] xs(1) p by (auto simp: ys page_cnt_mod)
next
  fix s assume inv: "pm_inv s" and full: "\<And>q. q < NPAGE \<Longrightarrow> page_cnt s q \<noteq> 0"
  obtain xs where xs: "chain (page_next s) (k_pgfree s) xs"
      "set xs = {pn. pn < NPAGE \<and> page_cnt s pn = 0}" "distinct xs"
      "\<forall>pn<NPAGE. pg_num (k_coremap s pn) = of_nat pn"
    using inv by (rule pm_invE)
  have "set xs = {}" unfolding xs(2) using full by simp
  with xs(1) show "\<exists>x s'. pgalloc s = Stop x s'" by (simp add: pgalloc_def kop_simps)
next
  fix s :: kernel and p assume inv: "pm_inv s" and p: "p < NPAGE" "page_cnt s p > 0"
  show "\<exists>n s'. pgfree p s = Ok n s' \<and> pm_inv s' \<and> page_cnt s' = (page_cnt s)(p := page_cnt s p - 1)"
    using pgfree_shared [OF inv p(1)] pgfree_last [OF inv p(1)] p(2) by (cases "page_cnt s p = 1") auto
next
  fix s p assume "pm_inv s" "page_cnt s p = 0"
  then show "\<exists>x. pgfree p s = Stop x s"
    by (simp add: pgfree_def kop_simps page_cnt_def unat_eq_zero)
qed

section \<open>Initialisation\<close>

lemma fold_pm_reserve:
  "k_coremap (fold pm_reserve ns s) = (\<lambda>pn. if pn \<in> set ns then
     (k_coremap s pn)\<lparr>pg_num := of_nat pn, pg_flag := PG_RSVD, pg_count := 100\<rparr> else k_coremap s pn)"
  "k_pgfree (fold pm_reserve ns s) = k_pgfree s"
  by (induction ns arbitrary: s) (auto simp: pm_reserve_def fun_eq_iff)

definition rsvd :: "kernel \<Rightarrow> nat \<Rightarrow> bool" where
  "rsvd s pn \<longleftrightarrow> pg_flag (k_coremap s pn) AND PG_RSVD \<noteq> 0 \<or> pg_count (k_coremap s pn) > 0"

text \<open>The loop that links the free pages, after \<open>k\<close> rounds from state \<open>s0\<close>.\<close>

definition linked :: "kernel \<Rightarrow> nat \<Rightarrow> nat option \<times> kernel \<Rightarrow> bool" where
  "linked s0 k = (\<lambda>(ph, s).
     let xs = filter (\<lambda>pn. \<not> rsvd s0 pn) [0..<k] in
     chain (page_next s) (k_pgfree s) xs \<and> ph = (if xs = [] then None else Some (last xs)) \<and>
     (\<forall>pn. k \<le> pn \<or> rsvd s0 pn \<longrightarrow> k_coremap s pn = k_coremap s0 pn) \<and>
     (\<forall>pn<k. \<not> rsvd s0 pn \<longrightarrow> pg_num (k_coremap s pn) = of_nat pn \<and> pg_count (k_coremap s pn) = 0))"

lemma linked_step:
  assumes "linked s0 k x"
  shows "linked s0 (Suc k) (pm_link k x)"
proof -
  obtain ph s where x: "x = (ph, s)" by (cases x)
  let ?xs = "filter (\<lambda>pn. \<not> rsvd s0 pn) [0..<k]"
  have l: "chain (page_next s) (k_pgfree s) ?xs" "ph = (if ?xs = [] then None else Some (last ?xs))"
    "k_coremap s k = k_coremap s0 k"
    "\<And>pn. k \<le> pn \<or> rsvd s0 pn \<Longrightarrow> k_coremap s pn = k_coremap s0 pn"
    "\<And>pn. pn < k \<Longrightarrow> \<not> rsvd s0 pn \<Longrightarrow> pg_num (k_coremap s pn) = of_nat pn \<and> pg_count (k_coremap s pn) = 0"
    using assms by (auto simp: linked_def x Let_def)
  show ?thesis
  proof (cases "rsvd s0 k")
    case True
    then have "pm_link k x = x" using l(3) by (auto simp: pm_link_def x rsvd_def)
    then show ?thesis using True l by (auto simp: linked_def x less_Suc_eq)
  next
    case False
    let ?s1 = "page_mod k (\<lambda>p. p\<lparr>pg_num := of_nat k, pg_flag := 0, pg_count := 0, pg_next := None\<rparr>) s"
    have pm: "pm_link k x = (Some k, case ph of None \<Rightarrow> ?s1\<lparr>k_pgfree := Some k\<rparr>
        | Some h \<Rightarrow> page_mod h (\<lambda>p. p\<lparr>pg_next := Some k\<rparr>) ?s1)"
      using False l(3) by (auto simp: pm_link_def x rsvd_def Let_def)
    show ?thesis
    proof (cases "?xs = []")
      case True
      then show ?thesis using False l pm by (auto simp: linked_def Let_def less_Suc_eq)
    next
      case ne: False
      then obtain ys h where ys: "?xs = ys @ [h]" by (metis rev_exhaust)
      have "set (ys @ [h]) = {pn \<in> set [0..<k]. \<not> rsvd s0 pn}" unfolding ys [symmetric] by auto
      then have h: "h < k" "\<not> rsvd s0 h" "k \<notin> set (ys @ [h])" by auto
      let ?s2 = "page_mod h (\<lambda>p. p\<lparr>pg_next := Some k\<rparr>) ?s1"
      have "page_next ?s2 = (page_next s)(h := Some k, k := None)" using h by (auto simp: fun_eq_iff)
      then have "chain (page_next ?s2) (k_pgfree s) (ys @ [h, k])"
        using chain_snoc [OF l(1) [unfolded ys] h(3)] by simp
      then show ?thesis using False l pm ys h by (auto simp: linked_def Let_def less_Suc_eq)
    qed
  qed
qed

lemma linked_fold: "k_pgfree s = None \<Longrightarrow> linked s k (fold pm_link [0..<k] (None, s))"
  by (induction k) (simp_all add: linked_step, simp add: linked_def)

lemma pm_init_Ok:
  assumes "k_coremap s = (\<lambda>_. zero_page)" "k_pgfree s = None" "PPN kend < 0x8000"
  shows "\<exists>s'. pm_init kend s = Ok 0 s' \<and> pm_inv s' \<and> (\<forall>pn<NPAGE.
    page_cnt s' pn = (if pn = 0 \<or> 160 \<le> pn \<and> pn \<le> unat (PPN kend) then 100 else 0))"
proof -
  let ?R = "[0..<1] @ [160..<unat (PPN kend + 1)]"
  define s0 where "s0 = fold pm_reserve ?R s"
  define s1 where "s1 = snd (fold pm_link [0..<NPAGE] (None, s0))"
  have hi: "unat (PPN kend + 1) = unat (PPN kend) + 1" "unat (PPN kend) < NPAGE"
    using assms(3) by (auto simp: word_less_nat_alt unat_word_ariths)
  have s0: "k_coremap s0 pn = (if pn = 0 \<or> 160 \<le> pn \<and> pn \<le> unat (PPN kend)
      then zero_page\<lparr>pg_num := of_nat pn, pg_flag := PG_RSVD, pg_count := 100\<rparr> else zero_page)"
    "k_pgfree s0 = None" for pn
    unfolding s0_def fold_pm_reserve assms(1,2) hi(1) by auto
  then have r: "rsvd s0 pn \<longleftrightarrow> pn = 0 \<or> 160 \<le> pn \<and> pn \<le> unat (PPN kend)" for pn
    by (auto simp: rsvd_def zero_page_def)
  have l: "chain (page_next s1) (k_pgfree s1) (filter (\<lambda>pn. \<not> rsvd s0 pn) [0..<NPAGE])"
    "\<And>pn. rsvd s0 pn \<Longrightarrow> k_coremap s1 pn = k_coremap s0 pn"
    "\<And>pn. pn < NPAGE \<Longrightarrow> \<not> rsvd s0 pn \<Longrightarrow>
      pg_num (k_coremap s1 pn) = of_nat pn \<and> pg_count (k_coremap s1 pn) = 0"
    using linked_fold [OF s0(2), of NPAGE] by (auto simp: s1_def linked_def Let_def split_beta)
  have cnt: "page_cnt s1 pn = (if rsvd s0 pn then 100 else 0)" if "pn < NPAGE" for pn
    using l(2,3) [of pn] that s0(1) [of pn] by (auto simp: page_cnt_def r)
  have "pm_inv s1"
    unfolding pm_inv_def
  proof (intro conjI exI allI impI)
    show "chain (page_next s1) (k_pgfree s1) (filter (\<lambda>pn. \<not> rsvd s0 pn) [0..<NPAGE])" by (rule l(1))
    show "set (filter (\<lambda>pn. \<not> rsvd s0 pn) [0..<NPAGE]) = {pn. pn < NPAGE \<and> page_cnt s1 pn = 0}"
      by (auto simp: cnt)
    show "pg_num (k_coremap s1 pn) = of_nat pn" if "pn < NPAGE" for pn
      using l(2,3) [of pn] that s0(1) [of pn] by (cases "rsvd s0 pn") (auto simp: r)
  qed
  moreover have "pm_init kend s = Ok 0 s1"
    using hi by (simp add: pm_init_def Let_def kop_simps s0_def s1_def)
  ultimately show ?thesis using cnt by (auto simp: r)
qed

lemma k_bk_pm_init: "k_bk (final (pm_init kend s)) = k_bk s"
proof -
  have "k_bk (fold pm_reserve ns s) = k_bk s" for ns s
    by (induction ns arbitrary: s) (auto simp: pm_reserve_def page_mod_def)
  moreover have l: "k_bk (snd (pm_link k x)) = k_bk (snd x)" for k x
    by (cases x) (auto simp: pm_link_def Let_def page_mod_def split: option.splits)
  have "k_bk (snd (fold pm_link ns x)) = k_bk (snd x)" for ns x
    by (induction ns arbitrary: x) (simp_all add: l)
  ultimately show ?thesis by (simp add: pm_init_def Let_def kop_simps pm_reserve_def page_mod_def)
qed

section \<open>Properties\<close>

text \<open>
  Memory at boot. From the zeroed page table, and with the kernel image inside the
  128 MB of memory, \<^verbatim>\<open>pm_init\<close> returns with the allocator's invariant established: the
  free list runs through exactly the page frames outside page 0 and the range from 640 KB
  to the end of the kernel image, and those reserved frames hold 100 references.
\<close>

theorem pm_init_establishes_allocator:
  assumes "k_coremap s = (\<lambda>_. zero_page)" "k_pgfree s = None" "PPN kend < 0x8000"
  shows "\<exists>s'. pm_init kend s = Ok 0 s' \<and> pm_inv s' \<and> (\<forall>pn<NPAGE.
    page_cnt s' pn = (if pn = 0 \<or> 160 \<le> pn \<and> pn \<le> unat (PPN kend) then 100 else 0))"
  using assms by (rule pm_init_Ok)

text \<open>
  C25: page allocation is exclusive and complete. While the invariant holds, \<^verbatim>\<open>pgalloc\<close>
  returns a frame without references and gives it one reference, changing no other
  reference count, whenever any such frame exists; when none exists it panics. Two
  consecutive allocations return different frames, and freeing an allocated frame
  restores every reference count.
\<close>

theorem pgalloc_exclusive_complete:
  assumes inv: "pm_inv s"
  shows "(case pgalloc s of
      Ok p s' \<Rightarrow> p < NPAGE \<and> page_cnt s p = 0 \<and> page_cnt s' = (page_cnt s)(p := 1) \<and> pm_inv s' \<and>
        (\<exists>n s''. pgfree p s' = Ok n s'' \<and> pm_inv s'' \<and> page_cnt s'' = page_cnt s) \<and>
        (\<forall>q s''. pgalloc s' = Ok q s'' \<longrightarrow> q \<noteq> p)
    | Stop x s' \<Rightarrow> x = Panic ''no free page.'' \<and> (\<forall>q<NPAGE. page_cnt s q \<noteq> 0))"
proof (cases rule: pages.alloc_cases [OF inv])
  case (1 p s')
  then show ?thesis
    using pages.alloc_free [OF inv 1(1)] pages.alloc_twice_distinct [OF inv 1(1)] by auto
next
  case (2 x s')
  then have "x = Panic ''no free page.''"
    by (auto simp: pgalloc_def kop_simps split: option.splits)
  with 2 show ?thesis by simp
qed

text \<open>The allocator as it stands after initialisation, with the kernel image ending at 1 MB.\<close>

definition pm_booted :: kernel where
  "pm_booted = final (pm_init 0x100000 boot_kernel)"

lemma pm_booted_inv:
  "pm_inv pm_booted" "pn < NPAGE \<Longrightarrow> page_cnt pm_booted pn = (if pn = 0 \<or> 160 \<le> pn \<and> pn \<le> 256 then 100 else 0)"
  using pm_init_Ok [of boot_kernel "0x100000"] by (auto simp: pm_booted_def boot_kernel_def PPN_def)

theorem pm_init_establishes_allocator_witness:
  "pm_inv pm_booted \<and> page_cnt pm_booted 159 = 0 \<and> page_cnt pm_booted 160 = 100"
  using pm_init_establishes_allocator [of boot_kernel "0x100000"]
  by (auto simp: pm_booted_def boot_kernel_def PPN_def)

theorem pgalloc_exclusive_complete_witness:
  "(case pgalloc pm_booted of Ok p s' \<Rightarrow> page_cnt pm_booted p = 0 | Stop x s' \<Rightarrow> False)"
proof -
  have "pm_inv pm_booted" "page_cnt pm_booted 159 = 0"
    using pm_booted_inv by simp_all
  with pgalloc_exclusive_complete [OF this(1)] show ?thesis
    by (fastforce split: res.splits)
qed

end
