(* ===== verification/Malloc.thy ===== *)
theory Malloc
  imports Pm
begin

unbundle bit_operations_syntax

text \<open>
  The kernel memory allocator, \<^verbatim>\<open>src/mm/malloc.c\<close>: buckets of equally sized entries, one
  page per bucket, found through the table \<^verbatim>\<open>bktab\<close> of size classes, and whole pages taken
  directly from the page allocator. A block is its address; bucket structures and the
  links between free entries, which the code keeps inside the pages it manages, are stores of
  their own, indexed by address.
\<close>

section \<open>Definitions\<close>

definition bk_mod :: "bkptr \<Rightarrow> (bucket \<Rightarrow> bucket) \<Rightarrow> kernel \<Rightarrow> kernel" where
  "bk_mod b f s = s\<lparr>k_bk := (k_bk s)(b := f (k_bk s b))\<rparr>"

text \<open>\<^verbatim>\<open>(void*)(pg->pg_num * PAGE)\<close>\<close>

definition page_addr :: "nat \<Rightarrow> kernel \<Rightarrow> uint" where
  "page_addr pp s = ucast (pg_num (k_coremap s pp)) * PAGE"

definition bkslot :: "int \<Rightarrow> int" where
  "bkslot sz = (if sz \<le> 0 then -1
     else case scan (\<lambda>i. sz \<le> 32 * 2 ^ i) 0 8 of None \<Rightarrow> -1 | Some i \<Rightarrow> int i)"

definition bk_link :: "uint \<Rightarrow> bkptr \<times> kernel \<Rightarrow> bkptr \<times> kernel" where
  "bk_link a = (\<lambda>(bh, s). (Bk_at a,
     bk_mod (Bk_at a) (\<lambda>b. b\<lparr>bk_next := None\<rparr>) (bk_mod bh (\<lambda>b. b\<lparr>bk_next := Some (Bk_at a)\<rparr>) s)))"

text \<open>A page holds 256 bucket structures of 16 bytes.\<close>

definition bkalloc :: "bkptr kop" where
  "bkalloc = kthen
     (kbind (kget (\<lambda>s. bk_next (k_bk s Bkfreelist))) (\<lambda>h.
        kwhen (h = None)
          (kbind pgalloc (\<lambda>pg. kbind (kget (page_addr pg)) (\<lambda>page.
             kmod (\<lambda>s. snd (fold bk_link (map (\<lambda>i. page + of_nat (16 * i)) [0..<256]) (Bkfreelist, s))))))))
     (kbind (kget (\<lambda>s. bk_next (k_bk s Bkfreelist))) (\<lambda>h. kderef ''bkfreelist'' h (\<lambda>bk.
        kthen (kmod (\<lambda>s. bk_mod Bkfreelist (\<lambda>b. b\<lparr>bk_next := bk_next (k_bk s bk)\<rparr>) s)) (kret bk))))"

definition bkfree :: "bkptr \<Rightarrow> int kop" where
  "bkfree bk = kthen (kmod (\<lambda>s. bk_mod bk (\<lambda>b. b\<lparr>bk_next := bk_next (k_bk s Bkfreelist)\<rparr>) s))
     (kthen (kmod (bk_mod Bkfreelist (\<lambda>b. b\<lparr>bk_next := Some bk\<rparr>))) (kret 0))"

definition bke_link :: "uint \<Rightarrow> uint \<times> kernel \<Rightarrow> uint \<times> kernel" where
  "bke_link be = (\<lambda>(beh, s). (be, s\<lparr>k_bke := (k_bke s)(beh := Some be, be := None)\<rparr>))"

definition bkinit :: "bkptr \<Rightarrow> uint \<Rightarrow> int kop" where
  "bkinit bk sz = kbind pgalloc (\<lambda>pg. kbind (kget (page_addr pg)) (\<lambda>page.
     kthen (kmod (bk_mod bk (\<lambda>b. b\<lparr>bk_page := page, bk_size := sz, bk_entry := Some page\<rparr>)))
     (kthen (kmod (\<lambda>s. snd (fold bke_link (map (\<lambda>i. page + of_nat i * sz) [0..<unat (PAGE div sz)])
               (page, s))))
      (kret 0))))"

text \<open>
  The search loop of \<^verbatim>\<open>kmalloc\<close>; one unit of fuel is one evaluation of its condition. The
  argument \<open>bk\<close> is the loop variable, \<open>bh\<close> the head of the class.
\<close>

primrec kmalloc_find :: "nat \<Rightarrow> bkptr \<Rightarrow> uint \<Rightarrow> bkptr \<Rightarrow> uint kop" where
  "kmalloc_find 0 bh sz bk = kstop Spin"
| "kmalloc_find (Suc k) bh sz bk = kbind (kget (\<lambda>s. bk_next (k_bk s bk))) (\<lambda>nx.
     case nx of
       Some bk' \<Rightarrow> kbind (kget (\<lambda>s. bk_entry (k_bk s bk'))) (\<lambda>en.
         case en of
           Some be \<Rightarrow> kthen (kmod (\<lambda>s. bk_mod bk' (\<lambda>b. b\<lparr>bk_entry := k_bke s be\<rparr>) s)) (kret be)
         | None \<Rightarrow> kmalloc_find k bh sz bk')
     | None \<Rightarrow> kbind bkalloc (\<lambda>nb. kthen (bkinit nb sz)
         (kthen (kmod (\<lambda>s. bk_mod nb (\<lambda>b. b\<lparr>bk_next := bk_next (k_bk s bh)\<rparr>) s))
         (kthen (kmod (bk_mod bh (\<lambda>b. b\<lparr>bk_next := Some nb\<rparr>)))
          (kmalloc_find k bh sz nb)))))"

definition kmalloc :: "nat \<Rightarrow> uint \<Rightarrow> uint kop" where
  "kmalloc fuel sz = (let sn = bkslot (sint sz) in
     if sn < 0 then panic ''kmalloc(): bad size'' else
     let bh = Bktab (nat sn) in
     kbind (kget (\<lambda>s. bk_size (k_bk s bh))) (\<lambda>sz.
       if sz = PAGE then kbind pgalloc (\<lambda>pg. kget (page_addr pg))
       else kmalloc_find fuel bh sz bh))"

primrec kfree_find :: "nat \<Rightarrow> uint \<Rightarrow> uint \<Rightarrow> bkptr \<Rightarrow> int kop" where
  "kfree_find 0 page addr bk = kstop Spin"
| "kfree_find (Suc k) page addr bk = kbind (kget (\<lambda>s. bk_next (k_bk s bk))) (\<lambda>nx.
     case nx of
       None \<Rightarrow> panic ''kfree(): not avail addr''
     | Some bk' \<Rightarrow> kbind (kget (\<lambda>s. bk_page (k_bk s bk'))) (\<lambda>pg.
         if pg = page then
           kthen (kmod (\<lambda>s. s\<lparr>k_bke := (k_bke s)(addr := bk_entry (k_bk s bk'))\<rparr>))
           (kthen (kmod (bk_mod bk' (\<lambda>b. b\<lparr>bk_entry := Some addr\<rparr>))) (kret 0))
         else kfree_find k page addr bk'))"

definition kfree :: "nat \<Rightarrow> uint \<Rightarrow> uint \<Rightarrow> int kop" where
  "kfree fuel addr sz = (let sn = bkslot (sint sz) in
     if sn < 0 then panic ''kfree(): bad size'' else
     let bh = Bktab (nat sn) in
     kbind (kget (\<lambda>s. bk_size (k_bk s bh))) (\<lambda>sz.
       if sz = PAGE then kbind (pgfind (PPN addr)) (\<lambda>pg. kthen (pgfree pg) (kret 0))
       else kfree_find fuel (PPN addr * PAGE) addr bh))"

section \<open>Size classes\<close>

definition class_sizes :: "kernel \<Rightarrow> bool" where
  "class_sizes s \<longleftrightarrow> (\<forall>i<8. bk_size (k_bk s (Bktab i)) = push_bit i 32)"

lemma bkslot_least:
  "0 < sz \<Longrightarrow> sz \<le> 4096 \<Longrightarrow>
    \<exists>i<8. bkslot sz = int i \<and> sz \<le> 32 * 2 ^ i \<and> (\<forall>j<i. 32 * 2 ^ j < sz)"
proof -
  assume s: "0 < sz" "sz \<le> 4096"
  have "scan (\<lambda>i. sz \<le> 32 * 2 ^ i) 0 8 \<noteq> None"
    unfolding scan_None_iff using s by (auto intro!: exI [of _ 7])
  then obtain i where i: "scan (\<lambda>i. sz \<le> 32 * 2 ^ i) 0 8 = Some i" by auto
  then have "bkslot sz = int i" using s by (simp add: bkslot_def)
  then show ?thesis using i unfolding scan_Some_iff by (auto simp: not_le)
qed

lemma bkslot_bad: "sz \<le> 0 \<or> sz > 4096 \<Longrightarrow> bkslot sz = -1"
proof -
  assume s: "sz \<le> 0 \<or> sz > 4096"
  have "\<not> sz \<le> 32 * 2 ^ i" if "i < 8" "0 < sz" for i
  proof -
    have "(2::int) ^ i \<le> 2 ^ 7" using that by (intro power_increasing) auto
    with that s show ?thesis by simp
  qed
  then have "0 < sz \<Longrightarrow> scan (\<lambda>i. sz \<le> 32 * 2 ^ i) 0 8 = None" by (auto simp: scan_None_iff)
  then show ?thesis by (cases "sz \<le> 0") (simp_all add: bkslot_def)
qed

section \<open>Taking and returning entries\<close>

abbreviation bucket_next :: "kernel \<Rightarrow> bkptr \<Rightarrow> bkptr option" where
  "bucket_next s \<equiv> (\<lambda>b. bk_next (k_bk s b))"

text \<open>The buckets of size class \<open>sn\<close>, in the order of the search.\<close>

definition class_list :: "kernel \<Rightarrow> nat \<Rightarrow> bkptr list \<Rightarrow> bool" where
  "class_list s sn bs \<longleftrightarrow> chain (bucket_next s) (bk_next (k_bk s (Bktab sn))) bs"

lemma bk_mod_simps [simp]:
  "k_bk (bk_mod b f s) = (k_bk s)(b := f (k_bk s b))" "k_bke (bk_mod b f s) = k_bke s"
  "k_coremap (bk_mod b f s) = k_coremap s" "k_pgfree (bk_mod b f s) = k_pgfree s"
  by (simp_all add: bk_mod_def)

lemma kmalloc_find_hit:
  assumes "chain (bucket_next s) (bk_next (k_bk s bk)) (pre @ b # post)"
    and "\<forall>c \<in> set pre. bk_entry (k_bk s c) = None" "bk_entry (k_bk s b) = Some e"
    and "length pre < fuel"
  shows "kmalloc_find fuel bh sz bk s = Ok e (bk_mod b (\<lambda>b. b\<lparr>bk_entry := k_bke s e\<rparr>) s)"
  using assms
proof (induction pre arbitrary: bk fuel)
  case Nil
  then show ?case by (cases fuel) (simp_all add: kop_simps)
next
  case (Cons c pre)
  then show ?case by (cases fuel) (simp_all add: kop_simps)
qed

lemma kfree_find_hit:
  assumes "chain (bucket_next s) (bk_next (k_bk s bk)) (pre @ b # post)"
    and "\<forall>c \<in> set pre. bk_page (k_bk s c) \<noteq> page" "bk_page (k_bk s b) = page"
    and "length pre < fuel"
  shows "kfree_find fuel page addr bk s =
    Ok 0 (bk_mod b (\<lambda>b. b\<lparr>bk_entry := Some addr\<rparr>) (s\<lparr>k_bke := (k_bke s)(addr := bk_entry (k_bk s b))\<rparr>))"
  using assms
proof (induction pre arbitrary: bk fuel)
  case Nil
  then show ?case by (cases fuel) (auto simp: kop_simps fun_upd_def)
next
  case (Cons c pre)
  then show ?case by (cases fuel) (simp_all add: kop_simps)
qed

text \<open>A page-sized request goes to the page allocator and back.\<close>

lemma page_class: "2048 < sint sz \<Longrightarrow> sint sz \<le> 4096 \<Longrightarrow> bkslot (sint sz) = 7"
proof -
  assume s: "2048 < sint sz" "sint sz \<le> 4096"
  then obtain i where i: "i < 8" "bkslot (sint sz) = int i" "sint sz \<le> 32 * 2 ^ i"
    using bkslot_least [of "sint sz"] by auto
  have "\<not> i < 7"
  proof
    assume "i < 7"
    then have "(2::int) ^ i \<le> 2 ^ 6" by (intro power_increasing) auto
    with i(3) s show False by simp
  qed
  with i show ?thesis by simp
qed

lemma small_class:
  assumes "0 < sint sz" "sint sz \<le> 2048"
  shows "\<exists>i<7. bkslot (sint sz) = int i \<and> push_bit i (32 :: uint) \<noteq> PAGE"
proof -
  obtain i where i: "i < 8" "bkslot (sint sz) = int i" "\<forall>j<i. 32 * 2 ^ j < sint sz"
    using bkslot_least [of "sint sz"] assms by auto
  then have "i \<noteq> 7" using assms(2) by (auto dest!: spec [of _ 6])
  with i have "i \<in> {0, 1, 2, 3, 4, 5, 6}" by auto
  with i show ?thesis by auto
qed

lemma kmalloc_page:
  assumes "class_sizes s" "2048 < sint sz" "sint sz \<le> 4096"
  shows "kmalloc fuel sz s = kbind pgalloc (\<lambda>pg. kget (page_addr pg)) s"
  using assms page_class [of sz] by (simp add: kmalloc_def kop_simps class_sizes_def Let_def)

lemma kfree_page:
  assumes "class_sizes s" "2048 < sint sz" "sint sz \<le> 4096"
  shows "kfree fuel addr sz s = kbind (pgfind (PPN addr)) (\<lambda>pg. kthen (pgfree pg) (kret 0)) s"
  using assms page_class [of sz] by (simp add: kfree_def kop_simps class_sizes_def Let_def)

lemma PPN_page_addr:
  assumes "pm_inv s" "p < NPAGE"
  shows "page_addr p s = of_nat (p * 4096)" "unat (PPN (page_addr p s)) = p"
    "PG_ADDR (page_addr p s) = page_addr p s"
proof -
  have "pg_num (k_coremap s p) = of_nat p" using assms by (auto simp: pm_inv_def)
  then have "page_addr p s = ucast (of_nat p :: ushort) * 4096" by (simp add: page_addr_def)
  also have "(ucast (of_nat p :: ushort) :: uint) = of_nat p"
    using assms(2) by (simp add: word_eq_iff_unsigned unsigned_of_nat unsigned_ucast_eq take_bit_nat_eq_self)
  finally show a: "page_addr p s = of_nat (p * 4096)" by simp
  then have b: "page_addr p s = push_bit 12 (of_nat p)" by (simp add: push_bit_eq_mult)
  have "unat (PPN (page_addr p s)) = unat (page_addr p s) div 4096"
    by (simp add: PPN_def drop_bit_eq_div unat_div)
  also have "unat (page_addr p s) = p * 4096" using assms(2) unfolding a by (simp add: unat_of_nat del: of_nat_mult)
  finally show "unat (PPN (page_addr p s)) = p" by simp
  have m: "(0xFFF :: uint) = mask 12" by (simp add: mask_eq_exp_minus_1)
  show "PG_ADDR (page_addr p s) = page_addr p s"
    unfolding PG_ADDR_def b m by (rule bit_word_eqI) (auto simp: bit_simps)
qed

text \<open>The page allocator leaves the buckets alone.\<close>

lemma pgalloc_frame: "pgalloc s = Ok p s' \<Longrightarrow> k_bk s' = k_bk s \<and> page_addr q s' = page_addr q s"
  by (auto simp: pgalloc_def kop_simps page_mod_def page_addr_def split: option.splits)

lemma kmalloc_page_Ok:
  assumes "class_sizes s" "2048 < sint sz" "sint sz \<le> 4096" "pgalloc s = Ok p s'"
  shows "kmalloc fuel sz s = Ok (page_addr p s) s'"
  using assms pgalloc_frame [OF assms(4)] by (simp add: kmalloc_page kop_simps)

section \<open>Properties\<close>

text \<open>
  Page-sized blocks. A request of more than 2048 and at most 4096 bytes returns the
  page-aligned address of a page frame that had no reference, which it now has, or panics
  when no frame is left; freeing the block with the same size restores every reference
  count.
\<close>

theorem kmalloc_page_roundtrip:
  assumes cs: "class_sizes s" and inv: "pm_inv s" and sz: "2048 < sint sz" "sint sz \<le> 4096"
  shows "case kmalloc fuel sz s of
      Ok a s' \<Rightarrow> PG_ADDR a = a \<and> unat (PPN a) < NPAGE \<and> page_cnt s (unat (PPN a)) = 0 \<and>
        page_cnt s' = (page_cnt s)(unat (PPN a) := 1) \<and> pm_inv s' \<and>
        (\<exists>s''. kfree fuel' a sz s' = Ok 0 s'' \<and> pm_inv s'' \<and> page_cnt s'' = page_cnt s)
    | Stop x s' \<Rightarrow> x = Panic ''no free page.'' \<and> (\<forall>q<NPAGE. page_cnt s q \<noteq> 0)"
proof (cases rule: pages.alloc_cases [OF inv])
  case (1 p s')
  have a: "unat (PPN (page_addr p s)) = p" "PG_ADDR (page_addr p s) = page_addr p s"
    using PPN_page_addr [OF inv 1(3)] by auto
  have "class_sizes s'" using cs pgalloc_frame [OF 1(1)] by (simp add: class_sizes_def)
  moreover obtain n s'' where f: "pgfree p s' = Ok n s''" "pm_inv s''" "page_cnt s'' = page_cnt s"
    using pages.alloc_free [OF inv 1(1)] by auto
  ultimately have "kfree fuel' (page_addr p s) sz s' = Ok 0 s''"
    using sz a(1) 1(3) by (simp add: kfree_page pgfind_def kop_simps)
  with f kmalloc_page_Ok [OF cs sz 1(1)] 1 a show ?thesis by auto
next
  case (2 x s')
  then have "x = Panic ''no free page.''"
    by (auto simp: pgalloc_def kop_simps split: option.splits)
  with 2 cs sz show ?thesis by (simp add: kmalloc_page kop_simps)
qed

text \<open>
  C26: small blocks. For a request of at most 2048 bytes, let \<open>b\<close> be the first bucket of the
  smallest fitting size class that has a free entry. The request takes the entry at the
  head of that bucket's list, and freeing the block puts the allocator back into exactly the
  state before the request.
\<close>

theorem kmalloc_kfree_entry:
  assumes "0 < sint sz" "sint sz \<le> 2048" "class_sizes s"
    and "class_list s (nat (bkslot (sint sz))) (pre @ b # post)"
    and "\<forall>c \<in> set pre. bk_entry (k_bk s c) = None \<and> bk_page (k_bk s c) \<noteq> PPN e * PAGE"
    and "bk_entry (k_bk s b) = Some e" "bk_page (k_bk s b) = PPN e * PAGE" "length pre < fuel"
  shows "\<exists>s'. kmalloc fuel sz s = Ok e s' \<and> kfree fuel e sz s' = Ok 0 s"
proof -
  obtain i where i: "i < 7" "bkslot (sint sz) = int i" "push_bit i 32 \<noteq> PAGE"
    using small_class [OF assms(1,2)] by blast
  let ?s' = "bk_mod b (\<lambda>b. b\<lparr>bk_entry := k_bke s e\<rparr>) s"
  have nx: "bucket_next ?s' = bucket_next s" "bk_size (k_bk ?s' c) = bk_size (k_bk s c)"
    "bk_page (k_bk ?s' c) = bk_page (k_bk s c)" "bk_next (k_bk ?s' c) = bk_next (k_bk s c)" for c
    by (auto simp: fun_eq_iff)
  have size: "bk_size (k_bk s (Bktab i)) = push_bit i 32" using assms(3) i(1) by (simp add: class_sizes_def)
  have "kmalloc fuel sz s = Ok e ?s'"
    using kmalloc_find_hit [of s "Bktab i" pre b post e fuel "Bktab i"] assms(4-8) i size
    by (simp add: kmalloc_def class_list_def kop_simps Let_def)
  moreover have "kfree fuel e sz ?s' = kfree_find fuel (PPN e * PAGE) e (Bktab i) ?s'"
    using i size nx(2) [of "Bktab i"] by (simp add: kfree_def kop_simps Let_def del: bk_mod_simps)
  moreover have "\<dots> = Ok 0 (bk_mod b (\<lambda>b. b\<lparr>bk_entry := Some e\<rparr>)
      (?s'\<lparr>k_bke := (k_bke ?s')(e := bk_entry (k_bk ?s' b))\<rparr>))"
    using assms(4,5,7,8) i(2) nx(3)
    by (intro kfree_find_hit [where pre = pre and post = post])
      (auto simp: class_list_def nx simp del: bk_mod_simps)
  moreover have "bk_mod b (\<lambda>b. b\<lparr>bk_entry := Some e\<rparr>)
      (?s'\<lparr>k_bke := (k_bke ?s')(e := bk_entry (k_bk ?s' b))\<rparr>) = s"
    using assms(6) by (simp add: bk_mod_def fun_upd_idem)
  ultimately show ?thesis by auto
qed

text \<open>A bucket of 32-byte entries in page 2, with the entries 1 and 3 free.\<close>

definition one_bucket :: kernel where
  "one_bucket = boot_kernel\<lparr>
     k_bk := bktab0(Bktab 0 := (bktab0 (Bktab 0))\<lparr>bk_next := Some (Bk_at 0x1000)\<rparr>,
       Bk_at 0x1000 := \<lparr>bk_size = 32, bk_page = 0x2000, bk_next = None, bk_entry = Some 0x2020\<rparr>),
     k_bke := [0x2020 \<mapsto> 0x2060]\<rparr>"

theorem kmalloc_page_roundtrip_witness:
  "\<exists>a s'. kmalloc 0 4096 pm_booted = Ok a s' \<and> page_cnt pm_booted (unat (PPN a)) = 0"
proof -
  have "class_sizes pm_booted"
    by (simp add: class_sizes_def pm_booted_def k_bk_pm_init boot_kernel_def bktab0_def)
  from kmalloc_page_roundtrip [OF this pm_booted_inv(1), of 4096 0] pm_booted_inv(2) [of 1]
  show ?thesis by (fastforce split: res.splits)
qed

theorem kmalloc_kfree_entry_witness:
  "\<exists>s'. kmalloc 1 20 one_bucket = Ok 0x2020 s' \<and> kfree 1 0x2020 20 s' = Ok 0 one_bucket"
proof (rule kmalloc_kfree_entry)
  have "bkslot (sint (20 :: uint)) = 0" by (simp add: bkslot_def scan_step)
  then show "class_list one_bucket (nat (bkslot (sint (20 :: uint)))) ([] @ Bk_at 0x1000 # [])"
    by (simp add: class_list_def one_bucket_def)
qed (simp_all add: class_sizes_def one_bucket_def bktab0_def PPN_def)

end
