(* ===== verification/Pte.thy ===== *)
theory Pte
  imports Malloc
begin

unbundle bit_operations_syntax

text \<open>
  Page tables, \<^verbatim>\<open>src/mm/pte.c\<close> and \<^verbatim>\<open>pgattach\<close> of \<^verbatim>\<open>src/mm/pm.c\<close>. A page directory and a
  page table are named by the number of the page that holds them, a pointer to a table
  entry is the pair of table and index. Page-sized requests to \<^verbatim>\<open>kmalloc\<close> never enter its
  search loop, so its fuel is 0 here.
\<close>

section \<open>Definitions\<close>

definition pde_mod :: "nat \<Rightarrow> nat \<Rightarrow> (pde \<Rightarrow> pde) \<Rightarrow> kernel \<Rightarrow> kernel" where
  "pde_mod pgd i f s = s\<lparr>k_pgd := (k_pgd s)(pgd := (k_pgd s pgd)(i := f (k_pgd s pgd i)))\<rparr>"

definition pte_mod :: "nat \<Rightarrow> nat \<Rightarrow> (pte \<Rightarrow> pte) \<Rightarrow> kernel \<Rightarrow> kernel" where
  "pte_mod pt i f s = s\<lparr>k_pt := (k_pt s)(pt := (k_pt s pt)(i := f (k_pt s pt i)))\<rparr>"

definition lpgd :: "nat \<Rightarrow> unit kop" where
  "lpgd pgd = kmod (\<lambda>s. s\<lparr>k_cr3 := pgd\<rparr>)"

definition flmmu :: "unit kop" where
  "flmmu = kbind (cu_get (\<lambda>p. vm_pgd (p_vm p))) lpgd"

definition find_pte :: "nat \<Rightarrow> uint \<Rightarrow> bool \<Rightarrow> (nat \<times> nat) option kop" where
  "find_pte pgd vaddr creat =
     (if vaddr < KMEM_END then panic ''find_pte(): don't touch kernel's address space.''
      else kbind (kget (\<lambda>s. k_pgd s pgd (PDX vaddr))) (\<lambda>pde.
        if pd_flag pde AND PTE_P = 0 \<and> \<not> creat then kret None
        else kthen
          (kwhen (pd_flag pde AND PTE_P = 0)
            (kbind pgalloc (\<lambda>pg. kbind (kget (\<lambda>s. pg_num (k_coremap s pg))) (\<lambda>num.
               kthen (kmod (pde_mod pgd (PDX vaddr) (\<lambda>e. e\<lparr>pd_flag := PTE_P OR PTE_U OR PTE_W, pd_off := ucast num\<rparr>)))
               (kthen (kmod (\<lambda>s. s\<lparr>k_pt := (k_pt s)(unat num := (\<lambda>_. zero_pte))\<rparr>)) flmmu)))))
          (kget (\<lambda>s. Some (unat (pd_off (k_pgd s pgd (PDX vaddr))), PTX vaddr)))))"

definition pgattach :: "nat \<Rightarrow> uint \<Rightarrow> nat \<Rightarrow> 9 word \<Rightarrow> (nat \<times> nat) kop" where
  "pgattach pgd vaddr pp flag = kbind (find_pte pgd vaddr True) (\<lambda>r. kderef ''pte'' r (\<lambda>(pt, i).
     kbind (kget (\<lambda>s. pg_num (k_coremap s pp))) (\<lambda>num.
     kthen (kmod (pte_mod pt i (\<lambda>e. e\<lparr>pt_off := ucast num, pt_flag := flag\<rparr>)))
     (kthen (lpgd pgd) (kret (pt, i))))))"

text \<open>128 MB are 32 directory entries of 4 MB.\<close>

definition pgd_init :: "nat \<Rightarrow> int kop" where
  "pgd_init pgd =
     kthen (kfor [0..<32] (\<lambda>pn. kmod (pde_mod pgd pn (\<lambda>e. e\<lparr>pd_off := push_bit 10 (of_nat pn),
              pd_flag := PTE_PS OR PTE_P OR PTE_W\<rparr>))))
     (kthen (kfor [32..<1024] (\<lambda>pn. kmod (pde_mod pgd pn (\<lambda>e. e\<lparr>pd_off := 0, pd_flag := PTE_U\<rparr>))))
      (kret 0))"

definition pt_copy_pte :: "nat \<Rightarrow> nat \<Rightarrow> nat \<Rightarrow> unit kop" where
  "pt_copy_pte old_pt new_pt pn = kbind (kget (\<lambda>s. k_pt s old_pt pn)) (\<lambda>opte.
     kthen (kmod (pte_mod new_pt pn (\<lambda>e. e\<lparr>pt_off := pt_off opte, pt_flag := pt_flag opte\<rparr>)))
      (kwhen (pt_flag opte AND PTE_P \<noteq> 0)
        (kthen (kmod (pte_mod new_pt pn (\<lambda>e. e\<lparr>pt_flag := pt_flag e AND NOT PTE_W\<rparr>)))
        (kthen (kmod (pte_mod old_pt pn (\<lambda>e. e\<lparr>pt_flag := pt_flag e AND NOT PTE_W\<rparr>)))
         (kbind (kget (\<lambda>s. pt_off (k_pt s old_pt pn))) (\<lambda>off. kbind (pgfind (ucast off)) (\<lambda>pg.
          kmod (page_mod pg (\<lambda>p. p\<lparr>pg_count := pg_count p + 1\<rparr>)))))))))"

definition pt_copy_pde :: "nat \<Rightarrow> nat \<Rightarrow> nat \<Rightarrow> unit kop" where
  "pt_copy_pde npgd opgd pdn = kbind (kget (\<lambda>s. k_pgd s opgd pdn)) (\<lambda>opde.
     kthen (kmod (pde_mod npgd pdn (\<lambda>e. e\<lparr>pd_flag := pd_flag opde\<rparr>)))
      (kwhen (pd_flag opde AND PTE_P \<noteq> 0)
        (kbind (kmalloc 0 PAGE) (\<lambda>new_pt.
         kthen (kmod (pde_mod npgd pdn (\<lambda>e. e\<lparr>pd_off := ucast (PPN new_pt)\<rparr>)))
          (kfor [0..<1024] (pt_copy_pte (unat (pd_off opde)) (unat (PPN new_pt))))))))"

definition pt_copy :: "nat \<Rightarrow> nat \<Rightarrow> int kop" where
  "pt_copy npgd opgd = kthen (kfor [PDX KMEM_END..<1024] (pt_copy_pde npgd opgd)) (kret 0)"

definition pt_free :: "nat \<Rightarrow> int kop" where
  "pt_free pgd =
     kthen (kfor [PDX KMEM_END..<1024] (\<lambda>pdn. kbind (kget (\<lambda>s. k_pgd s pgd pdn)) (\<lambda>pde.
       kwhen (pd_flag pde AND PTE_P \<noteq> 0)
         (kthen (kfor [0..<1024] (\<lambda>pn. kbind (kget (\<lambda>s. k_pt s (unat (pd_off pde)) pn)) (\<lambda>pte.
             kwhen (pt_flag pte AND PTE_P \<noteq> 0)
               (kbind (pgfind (ucast (pt_off pte))) (\<lambda>pg. kthen (pgfree pg) (kret ()))))))
           (kthen (kfree 0 (ucast (pd_off pde) * PAGE) PAGE) (kret ()))))))
     (kret 0)"

section \<open>Copying one table\<close>

definition present :: "pte \<Rightarrow> bool" where
  "present e \<longleftrightarrow> pt_flag e AND PTE_P \<noteq> 0"

definition protect :: "pte \<Rightarrow> pte" where
  "protect e = (if present e then e\<lparr>pt_flag := pt_flag e AND NOT PTE_W\<rparr> else e)"

text \<open>How many of the first \<open>k\<close> entries of a table refer to frame \<open>f\<close>.\<close>

definition refs :: "nat \<Rightarrow> (nat \<Rightarrow> pte) \<Rightarrow> nat \<Rightarrow> nat" where
  "refs k t f = length (filter (\<lambda>pn. present (t pn) \<and> unat (pt_off (t pn)) = f) [0..<k])"

lemma refs_simps [simp]:
  "refs 0 t f = 0"
  "refs (Suc k) t f = refs k t f + (if present (t k) \<and> unat (pt_off (t k)) = f then 1 else 0)"
  by (simp_all add: refs_def)

text \<open>The state after \<open>k\<close> rounds of the inner loop of \<^verbatim>\<open>pt_copy\<close>.\<close>

definition copied :: "nat \<Rightarrow> nat \<Rightarrow> nat \<Rightarrow> kernel \<Rightarrow> kernel" where
  "copied k old new s = (let t = k_pt s old in
     s\<lparr>k_pt := (k_pt s)(old := (\<lambda>pn. if pn < k then protect (t pn) else t pn),
        new := (\<lambda>pn. if pn < k then (k_pt s new pn)\<lparr>pt_off := pt_off (t pn), pt_flag := pt_flag (protect (t pn))\<rparr>
                     else k_pt s new pn)),
       k_coremap := (\<lambda>f. (k_coremap s f)\<lparr>pg_count := pg_count (k_coremap s f) + of_nat (refs k t f)\<rparr>)\<rparr>)"

lemma tables_eqI:
  "t = t' \<Longrightarrow> c = c' \<Longrightarrow> s\<lparr>k_pt := t, k_coremap := c\<rparr> = s\<lparr>k_pt := t', k_coremap := c'\<rparr>"
  by simp

lemma pt_copy_pte_step:
  assumes "old \<noteq> new" "present (k_pt s old k) \<Longrightarrow> unat (pt_off (k_pt s old k)) < NPAGE"
  shows "pt_copy_pte old new k (copied k old new s) = Ok () (copied (Suc k) old new s)"
proof (cases "present (k_pt s old k)")
  case False
  then show ?thesis using assms(1)
    by (simp add: pt_copy_pte_def copied_def pte_mod_def kop_simps Let_def present_def)
      (auto simp: fun_eq_iff less_Suc_eq protect_def present_def)
next
  case True
  have u: "unat (ucast (pt_off (k_pt s old k)) :: uint) = unat (pt_off (k_pt s old k))"
    by (simp add: unat_ucast_up)
  show ?thesis using True assms
    by (simp add: pt_copy_pte_def copied_def pte_mod_def page_mod_def kop_simps Let_def present_def
        pgfind_def u, intro tables_eqI)
      (auto simp: fun_eq_iff less_Suc_eq protect_def present_def)
qed

lemma kfor_pt_copy_pte:
  assumes "old \<noteq> new" "\<And>pn. pn < k \<Longrightarrow> present (k_pt s old pn) \<Longrightarrow> unat (pt_off (k_pt s old pn)) < NPAGE"
  shows "kfor [0..<k] (pt_copy_pte old new) s = Ok () (copied k old new s)"
  using assms(2)
proof (induction k)
  case 0
  then show ?case by (simp add: kop_simps copied_def Let_def fun_upd_idem)
next
  case (Suc k)
  then show ?case using pt_copy_pte_step [OF assms(1), of s k]
    by (simp add: kfor_snoc kthen_Ok)
qed

section \<open>Copying an address space\<close>

definition pd_present :: "pde \<Rightarrow> bool" where
  "pd_present e \<longleftrightarrow> pd_flag e AND PTE_P \<noteq> 0"

abbreviation table_of :: "kernel \<Rightarrow> nat \<Rightarrow> nat \<Rightarrow> nat" where
  "table_of s pgd pdn \<equiv> unat (pd_off (k_pgd s pgd pdn))"

text \<open>The references to frame \<open>f\<close> from the user tables in the first \<open>k\<close> directory entries of \<open>pgd\<close>.\<close>

definition user_refs :: "nat \<Rightarrow> kernel \<Rightarrow> nat \<Rightarrow> nat \<Rightarrow> nat" where
  "user_refs k s pgd f = sum_list (map (\<lambda>pdn. if pd_present (k_pgd s pgd pdn)
     then refs 1024 (k_pt s (table_of s pgd pdn)) f else 0) [32..<k])"

text \<open>
  A directory whose user tables are allocated pages, one per present entry, and whose
  present pages are allocated frames whose reference count leaves room for a copy.
\<close>

definition space_wf :: "kernel \<Rightarrow> nat \<Rightarrow> bool" where
  "space_wf s pgd \<longleftrightarrow>
     (\<forall>i j. 32 \<le> i \<and> i < j \<and> j < 1024 \<and> pd_present (k_pgd s pgd i) \<and> pd_present (k_pgd s pgd j) \<longrightarrow>
        table_of s pgd i \<noteq> table_of s pgd j) \<and>
     (\<forall>i pn. 32 \<le> i \<and> i < 1024 \<and> pd_present (k_pgd s pgd i) \<longrightarrow>
        table_of s pgd i < NPAGE \<and> 0 < page_cnt s (table_of s pgd i) \<and>
        (pn < 1024 \<and> present (k_pt s (table_of s pgd i) pn) \<longrightarrow>
          unat (pt_off (k_pt s (table_of s pgd i) pn)) < NPAGE \<and>
          0 < page_cnt s (unat (pt_off (k_pt s (table_of s pgd i) pn))))) \<and>
     (\<forall>f. page_cnt s f + user_refs 1024 s pgd f < 256)"

text \<open>What the outer loop has done when it reaches directory entry \<open>k\<close>, from state \<open>s0\<close> to \<open>s\<close>.\<close>

definition copy_inv :: "kernel \<Rightarrow> nat \<Rightarrow> nat \<Rightarrow> nat \<Rightarrow> kernel \<Rightarrow> bool" where
  "copy_inv s0 npgd opgd k s \<longleftrightarrow> pm_inv s \<and> class_sizes s \<and> k_pgd s opgd = k_pgd s0 opgd \<and>
     k_mem s = k_mem s0 \<and> k_proc s = k_proc s0 \<and>
     (\<forall>i j. 32 \<le> i \<and> i < j \<and> j < k \<and> pd_present (k_pgd s0 opgd i) \<and> pd_present (k_pgd s0 opgd j) \<longrightarrow>
        table_of s npgd i \<noteq> table_of s npgd j) \<and>
     (\<forall>i. 32 \<le> i \<and> i < k \<longrightarrow> pd_flag (k_pgd s npgd i) = pd_flag (k_pgd s0 opgd i)) \<and>
     (\<forall>i. 32 \<le> i \<and> i < 1024 \<and> pd_present (k_pgd s0 opgd i) \<longrightarrow>
        (\<forall>pn<1024. k_pt s (table_of s0 opgd i) pn =
          (if i < k then protect (k_pt s0 (table_of s0 opgd i) pn) else k_pt s0 (table_of s0 opgd i) pn)) \<and>
        (i < k \<longrightarrow> page_cnt s0 (table_of s npgd i) = 0 \<and> page_cnt s (table_of s npgd i) > 0 \<and>
          (\<forall>pn<1024. pt_off (k_pt s (table_of s npgd i) pn) = pt_off (k_pt s0 (table_of s0 opgd i) pn) \<and>
             pt_flag (k_pt s (table_of s npgd i) pn) = pt_flag (protect (k_pt s0 (table_of s0 opgd i) pn))))) \<and>
     (\<forall>f. page_cnt s0 f > 0 \<longrightarrow> page_cnt s f = page_cnt s0 f + user_refs k s0 opgd f)"

lemma pm_inv_cong:
  assumes "pm_inv s" "k_pgfree s' = k_pgfree s" "page_next s' = page_next s"
    and "\<And>pn. pn < NPAGE \<Longrightarrow> page_cnt s' pn = 0 \<longleftrightarrow> page_cnt s pn = 0"
    and "\<And>pn. pg_num (k_coremap s' pn) = pg_num (k_coremap s pn)"
  shows "pm_inv s'"
proof -
  have "{pn. pn < NPAGE \<and> page_cnt s' pn = 0} = {pn. pn < NPAGE \<and> page_cnt s pn = 0}"
    using assms(4) by blast
  then show ?thesis using assms(1) unfolding pm_inv_def assms(2,3,5) by simp
qed

lemma pde_mod_simps [simp]:
  "k_coremap (pde_mod d i f s) = k_coremap s" "k_pgfree (pde_mod d i f s) = k_pgfree s"
  "k_bk (pde_mod d i f s) = k_bk s" "k_mem (pde_mod d i f s) = k_mem s" "k_proc (pde_mod d i f s) = k_proc s"
  "k_pt (pde_mod d i f s) = k_pt s"
  "k_pgd (pde_mod d i f s) = (k_pgd s)(d := (k_pgd s d)(i := f (k_pgd s d i)))"
  "page_cnt (pde_mod d i f s) = page_cnt s" "class_sizes (pde_mod d i f s) = class_sizes s"
  "pm_inv (pde_mod d i f s) = pm_inv s"
  by (auto simp: pde_mod_def page_cnt_def class_sizes_def pm_inv_def fun_eq_iff)

lemma pgalloc_frame_all:
  "pgalloc s = Ok p s' \<Longrightarrow> k_pt s' = k_pt s \<and> k_pgd s' = k_pgd s \<and> k_bk s' = k_bk s \<and>
    k_mem s' = k_mem s \<and> k_proc s' = k_proc s"
  by (auto simp: pgalloc_def kop_simps page_mod_def split: option.splits)

lemma copied_simps [simp]:
  "k_pgfree (copied k old new s) = k_pgfree s" "k_bk (copied k old new s) = k_bk s"
  "k_mem (copied k old new s) = k_mem s" "k_proc (copied k old new s) = k_proc s"
  "k_pgd (copied k old new s) = k_pgd s" "page_next (copied k old new s) = page_next s"
  "pg_num (k_coremap (copied k old new s) f) = pg_num (k_coremap s f)"
  by (simp_all add: copied_def Let_def)

lemma page_cnt_copied:
  "page_cnt s f + refs k (k_pt s old) f < 256 \<Longrightarrow>
    page_cnt (copied k old new s) f = page_cnt s f + refs k (k_pt s old) f"
  by (simp add: page_cnt_def copied_def Let_def unat_word_ariths unat_of_nat)

lemma page_cnt_less: "page_cnt s f < 256"
  using unsigned_less [of "pg_count (k_coremap s f)"] by (simp add: page_cnt_def)

lemma refs_cong: "(\<And>pn. pn < k \<Longrightarrow> t pn = t' pn) \<Longrightarrow> refs k t f = refs k t' f"
  unfolding refs_def by (rule arg_cong [where f = length], rule filter_cong) auto

lemma refs_pos: "refs k t f > 0 \<Longrightarrow> \<exists>pn<k. present (t pn) \<and> unat (pt_off (t pn)) = f"
  by (auto simp: refs_def filter_empty_conv)

lemma user_refs_Suc:
  "32 \<le> k \<Longrightarrow> user_refs (Suc k) s pgd f = user_refs k s pgd f +
    (if pd_present (k_pgd s pgd k) then refs 1024 (k_pt s (table_of s pgd k)) f else 0)"
  by (simp add: user_refs_def)

lemma user_refs_mono: "k \<le> l \<Longrightarrow> user_refs k s pgd f \<le> user_refs l s pgd f"
proof (induction l)
  case (Suc l)
  then show ?case
  proof (cases "k = Suc l")
    case False
    with Suc have "user_refs k s pgd f \<le> user_refs l s pgd f" by simp
    also have "\<dots> \<le> user_refs (Suc l) s pgd f" by (simp add: user_refs_def)
    finally show ?thesis .
  qed simp
qed (simp add: user_refs_def)

lemma copy_inv_absent:
  assumes "copy_inv s0 npgd opgd k s" "32 \<le> k" "npgd \<noteq> opgd" "\<not> pd_present (k_pgd s0 opgd k)"
  shows "\<exists>s'. pt_copy_pde npgd opgd k s = Ok () s' \<and> copy_inv s0 npgd opgd (Suc k) s'"
proof -
  let ?s' = "pde_mod npgd k (\<lambda>e. e\<lparr>pd_flag := pd_flag (k_pgd s opgd k)\<rparr>) s"
  have o: "k_pgd s opgd = k_pgd s0 opgd" using assms(1) by (simp add: copy_inv_def)
  have "pt_copy_pde npgd opgd k s = Ok () ?s'"
    using assms(4) o by (simp add: pt_copy_pde_def kop_simps pd_present_def)
  moreover have "copy_inv s0 npgd opgd (Suc k) ?s'"
    using assms o by (auto simp: copy_inv_def user_refs_Suc less_Suc_eq)
  ultimately show ?thesis by blast
qed

text \<open>The references of one table of a well-formed space.\<close>

lemma space_wfD:
  assumes "space_wf s pgd" "32 \<le> i" "i < 1024" "pd_present (k_pgd s pgd i)"
  shows "table_of s pgd i < NPAGE" "0 < page_cnt s (table_of s pgd i)"
    "pn < 1024 \<Longrightarrow> present (k_pt s (table_of s pgd i) pn) \<Longrightarrow>
      unat (pt_off (k_pt s (table_of s pgd i) pn)) < NPAGE \<and>
      0 < page_cnt s (unat (pt_off (k_pt s (table_of s pgd i) pn)))"
    "refs 1024 (k_pt s (table_of s pgd i)) f > 0 \<Longrightarrow> page_cnt s f > 0"
    "page_cnt s f + user_refs i s pgd f + refs 1024 (k_pt s (table_of s pgd i)) f < 256"
    "32 \<le> j \<Longrightarrow> j < 1024 \<Longrightarrow> j \<noteq> i \<Longrightarrow> pd_present (k_pgd s pgd j) \<Longrightarrow> table_of s pgd i \<noteq> table_of s pgd j"
proof -
  show p: "table_of s pgd i < NPAGE" "0 < page_cnt s (table_of s pgd i)"
    "\<And>pn. pn < 1024 \<Longrightarrow> present (k_pt s (table_of s pgd i) pn) \<Longrightarrow>
      unat (pt_off (k_pt s (table_of s pgd i) pn)) < NPAGE \<and>
      0 < page_cnt s (unat (pt_off (k_pt s (table_of s pgd i) pn)))"
    using assms by (auto simp: space_wf_def)
  show "refs 1024 (k_pt s (table_of s pgd i)) f > 0 \<Longrightarrow> page_cnt s f > 0"
    using refs_pos p(3) by blast
  have "user_refs (Suc i) s pgd f \<le> user_refs 1024 s pgd f" using assms(3) by (intro user_refs_mono) simp
  moreover have "page_cnt s f + user_refs 1024 s pgd f < 256" using assms(1) by (auto simp: space_wf_def)
  ultimately show "page_cnt s f + user_refs i s pgd f + refs 1024 (k_pt s (table_of s pgd i)) f < 256"
    using user_refs_Suc [OF assms(2), of s pgd f] assms(4) by simp
  show "32 \<le> j \<Longrightarrow> j < 1024 \<Longrightarrow> j \<noteq> i \<Longrightarrow> pd_present (k_pgd s pgd j) \<Longrightarrow>
      table_of s pgd i \<noteq> table_of s pgd j"
    using assms by (cases "i < j") (simp add: space_wf_def, metis linorder_neqE_nat space_wf_def)
qed

text \<open>The heart of the step: a fresh table page \<open>p\<close> is filled from the table of entry \<open>k\<close>.\<close>

lemma copy_inv_table:
  assumes inv: "copy_inv s0 npgd opgd k s" and k: "32 \<le> k" "k < 1024" and ne: "npgd \<noteq> opgd"
    and wf: "space_wf s0 opgd" and pr: "pd_present (k_pgd s0 opgd k)"
    and s2: "k_pt s2 = k_pt s" "k_pgd s2 = (k_pgd s)(npgd := (k_pgd s npgd)(k := e))" "k_bk s2 = k_bk s"
      "k_mem s2 = k_mem s" "k_proc s2 = k_proc s"
      "pd_flag e = pd_flag (k_pgd s0 opgd k)" "unat (pd_off e) = p"
      "page_cnt s p = 0" "page_cnt s2 = (page_cnt s)(p := 1)" "pm_inv s2"
  shows "copy_inv s0 npgd opgd (Suc k) (copied 1024 (table_of s0 opgd k) p s2)"
proof -
  define ot where "ot = table_of s0 opgd k"
  define s3 where "s3 = copied 1024 ot p s2"
  note w = space_wfD [OF wf k pr, folded ot_def]
  have i: "\<And>i pn. 32 \<le> i \<Longrightarrow> i < 1024 \<Longrightarrow> pd_present (k_pgd s0 opgd i) \<Longrightarrow> pn < 1024 \<Longrightarrow>
      k_pt s (table_of s0 opgd i) pn = (if i < k then protect (k_pt s0 (table_of s0 opgd i) pn)
        else k_pt s0 (table_of s0 opgd i) pn)"
    and n: "\<And>i. 32 \<le> i \<Longrightarrow> i < k \<Longrightarrow> pd_present (k_pgd s0 opgd i) \<Longrightarrow>
      page_cnt s0 (table_of s npgd i) = 0 \<and> page_cnt s (table_of s npgd i) > 0 \<and>
      (\<forall>pn<1024. pt_off (k_pt s (table_of s npgd i) pn) = pt_off (k_pt s0 (table_of s0 opgd i) pn) \<and>
        pt_flag (k_pt s (table_of s npgd i) pn) = pt_flag (protect (k_pt s0 (table_of s0 opgd i) pn)))"
    and c: "\<And>f. page_cnt s0 f > 0 \<Longrightarrow> page_cnt s f = page_cnt s0 f + user_refs k s0 opgd f"
    and misc: "class_sizes s" "k_pgd s opgd = k_pgd s0 opgd"
      "\<And>i. 32 \<le> i \<Longrightarrow> i < k \<Longrightarrow> pd_flag (k_pgd s npgd i) = pd_flag (k_pgd s0 opgd i)"
    and frame: "k_mem s3 = k_mem s0" "k_proc s3 = k_proc s0"
    and apart: "\<And>i j. 32 \<le> i \<Longrightarrow> i < j \<Longrightarrow> j < k \<Longrightarrow> pd_present (k_pgd s0 opgd i) \<Longrightarrow>
      pd_present (k_pgd s0 opgd j) \<Longrightarrow> table_of s npgd i \<noteq> table_of s npgd j"
    using inv k(2) s2(4,5) unfolding copy_inv_def s3_def by auto
  have p0: "page_cnt s0 p = 0" using c [of p] s2(8) by (cases "page_cnt s0 p") auto
  have R: "refs 1024 (k_pt s2 ot) f = refs 1024 (k_pt s0 ot) f" for f
    using i [OF k pr] unfolding s2(1) ot_def by (intro refs_cong) simp
  have cnt: "page_cnt s3 f = page_cnt s2 f + refs 1024 (k_pt s0 ot) f" for f
  proof -
    have "page_cnt s2 f + refs 1024 (k_pt s0 ot) f < 256"
    proof (cases "refs 1024 (k_pt s0 ot) f > 0")
      case True
      with w(4) have f: "page_cnt s0 f > 0" by blast
      then have "f \<noteq> p" using p0 by auto
      with w(5) [of f] c [OF f] s2(9) show ?thesis by simp
    next
      case False
      then show ?thesis using page_cnt_less [of s2 f] by simp
    qed
    then show ?thesis unfolding s3_def by (simp add: page_cnt_copied R)
  qed
  have np: "T \<noteq> p" if "page_cnt s0 T > 0" for T using that p0 by auto
  have pt_other: "k_pt s3 T = k_pt s T" if "T \<noteq> ot" "T \<noteq> p" for T
    using that s2(1) by (simp add: s3_def copied_def Let_def)
  have pt_o: "k_pt s3 ot pn = protect (k_pt s0 ot pn)" if "pn < 1024" for pn
    using that s2(1) np [OF w(2)] i [OF k pr that] by (simp add: s3_def copied_def Let_def ot_def)
  have pt_p: "pt_off (k_pt s3 p pn) = pt_off (k_pt s0 ot pn) \<and>
      pt_flag (k_pt s3 p pn) = pt_flag (protect (k_pt s0 ot pn))" if "pn < 1024" for pn
    using that s2(1) i [OF k pr that] by (simp add: s3_def copied_def Let_def ot_def)
  have pgd: "k_pgd s3 opgd = k_pgd s0 opgd" "k_pgd s3 npgd = (k_pgd s npgd)(k := e)"
    using s2(2) misc(2) ne by (simp_all add: s3_def)
  have "pm_inv s3"
  proof (rule pm_inv_cong [OF s2(10)])
    fix pn
    show "page_cnt s3 pn = 0 \<longleftrightarrow> page_cnt s2 pn = 0"
      using w(4) [of pn] c [of pn] s2(8,9) cnt [of pn] p0
      by (cases "refs 1024 (k_pt s0 ot) pn > 0") auto
  qed (simp_all add: s3_def)
  moreover have "class_sizes s3" using misc(1) s2(3) by (simp add: class_sizes_def s3_def)
  moreover have "table_of s3 npgd i \<noteq> table_of s3 npgd j"
    if "32 \<le> i" "i < j" "j < Suc k" "pd_present (k_pgd s0 opgd i)" "pd_present (k_pgd s0 opgd j)" for i j
  proof (cases "j = k")
    case True
    then have "page_cnt s (table_of s npgd i) > 0" using n [of i] that by auto
    then have "table_of s npgd i \<noteq> p" using s2(8) by auto
    then show ?thesis using that True s2(7) by (simp add: pgd)
  next
    case False
    then show ?thesis using that apart [of i j] by (simp add: pgd)
  qed
  moreover have "pd_flag (k_pgd s3 npgd i) = pd_flag (k_pgd s0 opgd i)" if "32 \<le> i" "i < Suc k" for i
    using that misc(3) s2(6) by (cases "i = k") (auto simp: pgd)
  moreover have "k_pt s3 (table_of s0 opgd i) pn = (if i < Suc k
      then protect (k_pt s0 (table_of s0 opgd i) pn) else k_pt s0 (table_of s0 opgd i) pn)"
    if "32 \<le> i" "i < 1024" "pd_present (k_pgd s0 opgd i)" "pn < 1024" for i pn
  proof (cases "i = k")
    case True
    then show ?thesis using pt_o [OF that(4)] by (simp add: ot_def)
  next
    case False
    have "table_of s0 opgd i \<noteq> ot" using w(6) [of i] that False by (auto simp: ot_def)
    moreover have "table_of s0 opgd i \<noteq> p" using np space_wfD(2) [OF wf that(1-3)] by blast
    ultimately show ?thesis using i [OF that] False by (auto simp: pt_other)
  qed
  moreover have "page_cnt s0 (table_of s3 npgd i) = 0 \<and> page_cnt s3 (table_of s3 npgd i) > 0 \<and>
      (\<forall>pn<1024. pt_off (k_pt s3 (table_of s3 npgd i) pn) = pt_off (k_pt s0 (table_of s0 opgd i) pn) \<and>
        pt_flag (k_pt s3 (table_of s3 npgd i) pn) = pt_flag (protect (k_pt s0 (table_of s0 opgd i) pn)))"
    if "32 \<le> i" "i < Suc k" "pd_present (k_pgd s0 opgd i)" for i
  proof (cases "i = k")
    case True
    then show ?thesis using pt_p p0 cnt [of p] s2(7,9) by (simp add: pgd ot_def)
  next
    case False
    then have t: "table_of s3 npgd i = table_of s npgd i" by (simp add: pgd)
    from False that have ni: "page_cnt s0 (table_of s npgd i) = 0" "page_cnt s (table_of s npgd i) > 0"
      using n [of i] by auto
    have "table_of s npgd i \<noteq> ot" "table_of s npgd i \<noteq> p" using ni w(2) s2(8) by auto
    then show ?thesis using n [of i] that False ni cnt [of "table_of s npgd i"] s2(9)
      by (simp add: t pt_other)
  qed
  moreover have "page_cnt s3 f = page_cnt s0 f + user_refs (Suc k) s0 opgd f" if "page_cnt s0 f > 0" for f
    using cnt [of f] c [OF that] s2(9) that p0 pr by (auto simp: user_refs_Suc [OF k(1)] ot_def)
  ultimately show ?thesis using pgd(1) frame unfolding copy_inv_def s3_def [unfolded ot_def, symmetric] by auto
qed

lemma copy_inv_present:
  assumes inv: "copy_inv s0 npgd opgd k s" and k: "32 \<le> k" "k < 1024" and ne: "npgd \<noteq> opgd"
    and wf: "space_wf s0 opgd" and pr: "pd_present (k_pgd s0 opgd k)"
  shows "(\<exists>s'. pt_copy_pde npgd opgd k s = Ok () s' \<and> copy_inv s0 npgd opgd (Suc k) s') \<or>
    (\<exists>s'. pt_copy_pde npgd opgd k s = Stop (Panic ''no free page.'') s')"
proof -
  let ?e = "k_pgd s opgd k" and ?T = "table_of s0 opgd k"
  define s1 where "s1 = pde_mod npgd k (\<lambda>e. e\<lparr>pd_flag := pd_flag ?e\<rparr>) s"
  have o: "k_pgd s opgd = k_pgd s0 opgd" and pm: "pm_inv s1" and cs: "class_sizes s1"
    using inv by (simp_all add: copy_inv_def s1_def)
  have body: "pt_copy_pde npgd opgd k s = kbind (kmalloc 0 PAGE) (\<lambda>a.
      kthen (kmod (pde_mod npgd k (\<lambda>e. e\<lparr>pd_off := ucast (PPN a)\<rparr>)))
        (kfor [0..<1024] (pt_copy_pte ?T (unat (PPN a))))) s1"
    using pr o by (simp add: pt_copy_pde_def kop_simps pd_present_def s1_def)
  show ?thesis
  proof (cases rule: pages.alloc_cases [OF pm])
    case (1 p s2)
    define s3 where "s3 = pde_mod npgd k (\<lambda>e. e\<lparr>pd_off := ucast (PPN (page_addr p s1))\<rparr>) s2"
    have a: "unat (PPN (page_addr p s1)) = p" using PPN_page_addr(2) [OF pm 1(3)] .
    have fr: "k_pt s2 = k_pt s" "k_pgd s2 = k_pgd s1" "k_bk s2 = k_bk s" "k_mem s2 = k_mem s" "k_proc s2 = k_proc s"
      using pgalloc_frame_all [OF 1(1)] by (simp_all add: s1_def)
    have "unat (ucast (PPN (page_addr p s1)) :: 20 word) = p"
      using 1(3) a by (simp add: unsigned_ucast_eq take_bit_nat_eq_self)
    moreover have cp: "page_cnt s p = 0" "page_cnt s2 = (page_cnt s)(p := 1)"
      using 1(4,5) by (simp_all add: s1_def)
    ultimately have ci: "copy_inv s0 npgd opgd (Suc k) (copied 1024 ?T p s3)"
      using inv k ne wf pr fr 1(2) o
      by (intro copy_inv_table [where s = s and e = "(k_pgd s1 npgd k)\<lparr>pd_off := ucast (PPN (page_addr p s1))\<rparr>"])
        (simp_all add: s3_def s1_def)
    have T: "k_pt s ?T pn = k_pt s0 ?T pn" if "pn < 1024" for pn
      using inv k pr that by (simp add: copy_inv_def)
    have "?T \<noteq> p"
      using space_wfD(2) [OF wf k pr] cp(1) inv by (auto simp: copy_inv_def)
    then have "kfor [0..<1024] (pt_copy_pte ?T p) s3 = Ok () (copied 1024 ?T p s3)"
      using space_wfD(3) [OF wf k pr] T fr(1) by (intro kfor_pt_copy_pte) (auto simp: s3_def)
    then have "pt_copy_pde npgd opgd k s = Ok () (copied 1024 ?T p s3)"
      unfolding body using kmalloc_page_Ok [OF cs _ _ 1(1), of PAGE 0] a
      by (simp add: kbind_Ok kthen_simps s3_def)
    with ci show ?thesis by blast
  next
    case (2 x s2)
    then have "x = Panic ''no free page.''"
      by (auto simp: pgalloc_def kop_simps split: option.splits)
    with 2 cs body show ?thesis by (simp add: kmalloc_page kbind_Stop)
  qed
qed

lemma PDX_KMEM_END: "PDX KMEM_END = 32"
  by (simp add: PDX_def)

lemma pt_copy_loop:
  assumes "copy_inv s0 npgd opgd 32 s" "npgd \<noteq> opgd" "space_wf s0 opgd" "32 \<le> k" "k \<le> 1024"
  shows "(\<exists>s'. kfor [32..<k] (pt_copy_pde npgd opgd) s = Ok () s' \<and> copy_inv s0 npgd opgd k s') \<or>
    (\<exists>s'. kfor [32..<k] (pt_copy_pde npgd opgd) s = Stop (Panic ''no free page.'') s')"
  using assms(4,5)
proof (induction k rule: dec_induct)
  case base
  then show ?case using assms(1) by (simp add: kop_simps)
next
  case (step k)
  have e: "[32..<Suc k] = [32..<k] @ [k]" using step.hyps by simp
  from step.IH step.prems consider
    (ok) s' where "kfor [32..<k] (pt_copy_pde npgd opgd) s = Ok () s'" "copy_inv s0 npgd opgd k s'"
  | (no) s' where "kfor [32..<k] (pt_copy_pde npgd opgd) s = Stop (Panic ''no free page.'') s'"
    by auto
  then show ?case
  proof cases
    case ok
    then show ?thesis
      using copy_inv_absent [OF ok(2) step.hyps(1) assms(2)] copy_inv_present [OF ok(2) step.hyps(1) _ assms(2,3)]
        step.prems unfolding e kfor_snoc
      by (cases "pd_present (k_pgd s0 opgd k)") (auto simp: kthen_Ok)
  next
    case no
    then show ?thesis unfolding e kfor_snoc by (simp add: kthen_Stop)
  qed
qed

lemma pt_copy_cases:
  assumes "pm_inv s" "class_sizes s" "space_wf s opgd" "npgd \<noteq> opgd"
  obtains s' where "pt_copy npgd opgd s = Ok 0 s'" "copy_inv s npgd opgd 1024 s'"
  | s' where "pt_copy npgd opgd s = Stop (Panic ''no free page.'') s'"
proof -
  have "copy_inv s npgd opgd 32 s" using assms(1,2) by (auto simp: copy_inv_def user_refs_def)
  note l = pt_copy_loop [OF this assms(4,3), of 1024, OF _ order_refl]
  consider
    (ok) s' where "kfor [32..<1024] (pt_copy_pde npgd opgd) s = Ok () s'" "copy_inv s npgd opgd 1024 s'"
  | (no) s' where "kfor [32..<1024] (pt_copy_pde npgd opgd) s = Stop (Panic ''no free page.'') s'"
    by (rule disjE [OF l]) (simp, blast, blast)
  then show thesis
    by cases (use that in \<open>simp_all only: pt_copy_def PDX_KMEM_END kthen_Ok kthen_Stop kret_def\<close>)
qed

section \<open>Address translation\<close>

text \<open>What the processor finds for a user address: the frame and whether it may be written.\<close>

definition walk :: "kernel \<Rightarrow> nat \<Rightarrow> uint \<Rightarrow> (nat \<times> bool) option" where
  "walk s pgd va = (let d = k_pgd s pgd (PDX va); e = k_pt s (unat (pd_off d)) (PTX va) in
     if pd_present d \<and> present e then Some (unat (pt_off e), pt_flag e AND PTE_W \<noteq> 0) else None)"

lemma ten_bits: "unat ((w :: uint) AND 0x3FF) = unat w mod 1024"
proof -
  have m: "(0x3FF :: uint) = mask 10" by (simp add: mask_eq_exp_minus_1)
  show ?thesis unfolding m
    by (simp only: take_bit_eq_mask [symmetric] unsigned_take_bit_eq) (simp add: take_bit_eq_mod)
qed

lemma PTX_less: "PTX va < 1024"
  by (simp add: PTX_def ten_bits)

lemma PDX_user: "KMEM_END \<le> va \<Longrightarrow> 32 \<le> PDX va \<and> PDX va < 1024"
proof -
  assume "KMEM_END \<le> va"
  then have "0x8000000 \<le> unat va" by (simp add: word_le_nat_alt)
  then have "0x8000000 div 4194304 \<le> unat va div 4194304" by (rule div_le_mono)
  moreover have "unat va < 2 ^ LENGTH(32)" by (rule unsigned_less)
  then have "unat va div 4194304 < 1024" by (simp add: less_mult_imp_div_less)
  moreover have "PDX va = (unat va div 4194304) mod 1024"
    by (simp add: PDX_def ten_bits drop_bit_eq_div unat_div)
  ultimately show ?thesis by simp
qed

lemma protect_walk:
  "present (protect e) = present e" "pt_off (protect e) = pt_off e"
  "present e \<Longrightarrow> pt_flag (protect e) AND PTE_W = 0"
proof -
  have m: "(-3 :: 9 word) = NOT 2" by simp
  have "(x AND -3) AND 1 = x AND 1" "(x AND -3) AND 2 = 0" for x :: "9 word"
    unfolding m by (auto intro!: bit_word_eqI simp: bit_simps bit_numeral_rec simp del: not_numeral_eq)
  then show "present (protect e) = present e" "pt_off (protect e) = pt_off e"
    "present e \<Longrightarrow> pt_flag (protect e) AND PTE_W = 0"
    by (auto simp: protect_def present_def)
qed

lemma present_cong: "pt_flag e = pt_flag e' \<Longrightarrow> present e = present e'"
  by (simp add: present_def)

lemma copy_invD:
  assumes "copy_inv s0 npgd opgd k s"
  shows "k_pgd s opgd = k_pgd s0 opgd"
    "32 \<le> i \<Longrightarrow> i < k \<Longrightarrow> pd_flag (k_pgd s npgd i) = pd_flag (k_pgd s0 opgd i)"
    "32 \<le> i \<Longrightarrow> i < k \<Longrightarrow> k \<le> 1024 \<Longrightarrow> pd_present (k_pgd s0 opgd i) \<Longrightarrow> pn < 1024 \<Longrightarrow>
      k_pt s (table_of s0 opgd i) pn = protect (k_pt s0 (table_of s0 opgd i) pn) \<and>
      pt_off (k_pt s (table_of s npgd i) pn) = pt_off (k_pt s0 (table_of s0 opgd i) pn) \<and>
      pt_flag (k_pt s (table_of s npgd i) pn) = pt_flag (protect (k_pt s0 (table_of s0 opgd i) pn))"
  using assms unfolding copy_inv_def by simp_all

lemma walk_copied:
  assumes "copy_inv s npgd opgd 1024 s'" "KMEM_END \<le> va"
  shows "walk s' npgd va = map_option (\<lambda>(f, w). (f, False)) (walk s opgd va) \<and>
    walk s' opgd va = map_option (\<lambda>(f, w). (f, False)) (walk s opgd va)"
proof -
  let ?d = "PDX va" and ?t = "PTX va"
  let ?o = "table_of s opgd ?d" and ?n = "table_of s' npgd ?d"
  have d: "32 \<le> ?d" "?d < 1024" "?t < 1024" using PDX_user [OF assms(2)] PTX_less by auto
  have f: "k_pgd s' opgd = k_pgd s opgd" "pd_flag (k_pgd s' npgd ?d) = pd_flag (k_pgd s opgd ?d)"
    using copy_invD(1,2) [OF assms(1)] d by simp_all
  then have pd: "pd_present (k_pgd s' npgd ?d) = pd_present (k_pgd s opgd ?d)" by (simp add: pd_present_def)
  show ?thesis
  proof (cases "pd_present (k_pgd s opgd ?d)")
    case True
    then have e: "k_pt s' ?o ?t = protect (k_pt s ?o ?t)" "pt_off (k_pt s' ?n ?t) = pt_off (k_pt s ?o ?t)"
      "pt_flag (k_pt s' ?n ?t) = pt_flag (protect (k_pt s ?o ?t))"
      using copy_invD(3) [OF assms(1) d(1,2) _ True d(3)] by simp_all
    from present_cong [OF e(3)] True pd show ?thesis
      by (auto simp: walk_def f(1) e protect_walk Let_def)
  next
    case False
    with pd show ?thesis by (simp add: walk_def f(1) Let_def)
  qed
qed

section \<open>Attaching a page\<close>

lemma pte_mod_simps [simp]:
  "k_pt (pte_mod t i f s) = (k_pt s)(t := (k_pt s t)(i := f (k_pt s t i)))"
  "k_pgd (pte_mod t i f s) = k_pgd s" "k_coremap (pte_mod t i f s) = k_coremap s"
  by (simp_all add: pte_mod_def)

lemma find_pte_present:
  assumes "KMEM_END \<le> va" "pd_present (k_pgd s pgd (PDX va))"
  shows "find_pte pgd va c s = Ok (Some (table_of s pgd (PDX va), PTX va)) s"
  using assms by (simp add: find_pte_def kop_simps pd_present_def not_less [symmetric])

lemma find_pte_create:
  assumes "KMEM_END \<le> va" "\<not> pd_present (k_pgd s pgd (PDX va))" "pm_inv s"
    and "k_proc s (k_cu s) = Some c" "pgalloc s = Ok p s1"
  shows "\<exists>s' d. find_pte pgd va True s = Ok (Some (p, PTX va)) s' \<and> pd_present d \<and> unat (pd_off d) = p \<and>
    k_pgd s' = (k_pgd s)(pgd := (k_pgd s pgd)(PDX va := d)) \<and> k_pt s' = (k_pt s)(p := (\<lambda>_. zero_pte)) \<and>
    k_coremap s' = k_coremap s1"
proof -
  have p: "p < NPAGE" "pm_inv s1" using pages.alloc_fresh [OF assms(3,5)] by auto
  then have num: "pg_num (k_coremap s1 p) = of_nat p" by (auto simp: pm_inv_def)
  let ?d = "(k_pgd s pgd (PDX va))\<lparr>pd_flag := PTE_P OR PTE_U OR PTE_W, pd_off := ucast (of_nat p :: ushort)\<rparr>"
  have u: "unat (of_nat p :: ushort) = p" using p(1) by (simp add: unat_of_nat)
  then have "unat (pd_off ?d) = p" by (simp add: unat_ucast_up)
  moreover have "k_pgd s1 = k_pgd s" "k_pt s1 = k_pt s" "k_proc s1 = k_proc s" "k_cu s1 = k_cu s"
    using assms(5) by (auto simp: pgalloc_def kop_simps page_mod_def split: option.splits)
  ultimately show ?thesis
    using assms num u
    by (intro exI [of _ "(pde_mod pgd (PDX va) (\<lambda>e. e\<lparr>pd_flag := PTE_P OR PTE_U OR PTE_W,
          pd_off := ucast (of_nat p :: ushort)\<rparr>) s1)\<lparr>k_pt := (k_pt s1)(p := (\<lambda>_. zero_pte)),
          k_cr3 := vm_pgd (p_vm c)\<rparr>"] exI [of _ ?d])
      (simp add: find_pte_def kop_simps pd_present_def flmmu_def lpgd_def not_less [symmetric] kthen_def
        kbind_def cu_get_def pde_mod_def)
qed

text \<open>Two addresses in different pages differ in their directory or table index.\<close>

lemma page_index:
  "PG_ADDR va \<noteq> PG_ADDR vb \<Longrightarrow> PDX va = PDX vb \<Longrightarrow> PTX va \<noteq> PTX vb"
proof
  assume ne: "PG_ADDR va \<noteq> PG_ADDR vb" and d: "PDX va = PDX vb" and t: "PTX va = PTX vb"
  have dx: "unat v div 4096 div 1024 = PDX v" and tx: "unat v div 4096 mod 1024 = PTX v" for v :: uint
  proof -
    have "unat v < 2 ^ LENGTH(32)" by (rule unsigned_less)
    then have "unat v div 4194304 < 1024" by (simp add: less_mult_imp_div_less)
    then show "unat v div 4096 div 1024 = PDX v"
      by (simp add: PDX_def ten_bits drop_bit_eq_div unat_div div_mult2_eq [symmetric])
    show "unat v div 4096 mod 1024 = PTX v"
      by (simp add: PTX_def ten_bits drop_bit_eq_div unat_div)
  qed
  have "unat va div 4096 = unat vb div 4096"
    using dx [of va] dx [of vb] tx [of va] tx [of vb] d t by (metis div_mult_mod_eq)
  then have "drop_bit 12 va = drop_bit 12 vb"
    by (simp add: word_unat_eq_iff drop_bit_eq_div unat_div)
  moreover have "PG_ADDR v = push_bit 12 (drop_bit 12 v)" for v
  proof -
    have m: "(0xFFF :: uint) = mask 12" by (simp add: mask_eq_exp_minus_1)
    show ?thesis unfolding PG_ADDR_def m by (rule bit_word_eqI) (auto simp: bit_simps)
  qed
  ultimately show False using ne by simp
qed

lemma walk_attach:
  assumes t: "pd_present (k_pgd s pgd (PDX va))" "table_of s pgd (PDX va) = t"
    and others: "\<And>i. 32 \<le> i \<Longrightarrow> i < 1024 \<Longrightarrow> i \<noteq> PDX va \<Longrightarrow> pd_present (k_pgd s pgd i) \<Longrightarrow> table_of s pgd i \<noteq> t"
    and s': "k_pgd s' = k_pgd s" "k_pt s' = (k_pt s)(t := (k_pt s t)(PTX va := e))" and e: "present e"
  shows "walk s' pgd va = Some (unat (pt_off e), pt_flag e AND PTE_W \<noteq> 0)"
    "KMEM_END \<le> vb \<Longrightarrow> PG_ADDR vb \<noteq> PG_ADDR va \<Longrightarrow> walk s' pgd vb = walk s pgd vb"
proof -
  show "walk s' pgd va = Some (unat (pt_off e), pt_flag e AND PTE_W \<noteq> 0)"
    using t e by (simp add: walk_def s' Let_def)
  assume vb: "KMEM_END \<le> vb" "PG_ADDR vb \<noteq> PG_ADDR va"
  have "\<not> pd_present (k_pgd s pgd (PDX vb)) \<or>
      k_pt s' (table_of s pgd (PDX vb)) (PTX vb) = k_pt s (table_of s pgd (PDX vb)) (PTX vb)"
  proof (cases "PDX vb = PDX va")
    case True
    then show ?thesis using page_index [OF vb(2)] t by (simp add: s')
  next
    case False
    then show ?thesis using others [of "PDX vb"] PDX_user [OF vb(1)] by (auto simp: s')
  qed
  then show "walk s' pgd vb = walk s pgd vb" by (auto simp: walk_def s'(1) Let_def)
qed

lemma pgattach_Ok:
  assumes "find_pte pgd va True s = Ok (Some (t, PTX va)) s1" "pg_num (k_coremap s1 pp) = of_nat pp"
    "pp < NPAGE"
  shows "\<exists>s' e. pgattach pgd va pp flag s = Ok (t, PTX va) s' \<and> k_pgd s' = k_pgd s1 \<and>
    k_pt s' = (k_pt s1)(t := (k_pt s1 t)(PTX va := e)) \<and> unat (pt_off e) = pp \<and> pt_flag e = flag"
proof -
  have "unat (of_nat pp :: ushort) = pp" using assms(3) by (simp add: unat_of_nat)
  then have "unat (ucast (of_nat pp :: ushort) :: 20 word) = pp" by (simp add: unat_ucast_up)
  then show ?thesis using assms(1,2)
    by (intro exI [of _ "(pte_mod t (PTX va) (\<lambda>e. e\<lparr>pt_off := ucast (of_nat pp :: ushort), pt_flag := flag\<rparr>) s1)\<lparr>k_cr3 := pgd\<rparr>"]
        exI [of _ "(k_pt s1 t (PTX va))\<lparr>pt_off := ucast (of_nat pp :: ushort), pt_flag := flag\<rparr>"])
      (simp add: pgattach_def kop_simps lpgd_def)
qed

section \<open>Properties\<close>

text \<open>
  Copying an address space for a fork. From a well-formed directory, \<^verbatim>\<open>pt_copy\<close>
  either runs out of memory (a panic) or returns with both directories translating every
  user address to the frame the original had before, now write-protected in both, and
  with the reference count of every frame in use raised by exactly the number of its mappings.
  The allocator's invariant is kept, and the new tables are pages that were free before.
\<close>

theorem pt_copy_shares_protected:
  assumes "pm_inv s" "class_sizes s" "space_wf s opgd" "npgd \<noteq> opgd"
  shows "(\<exists>s'. pt_copy npgd opgd s = Ok 0 s' \<and> pm_inv s' \<and>
      (\<forall>va \<ge> KMEM_END. walk s' npgd va = map_option (\<lambda>(f, w). (f, False)) (walk s opgd va) \<and>
                      walk s' opgd va = map_option (\<lambda>(f, w). (f, False)) (walk s opgd va)) \<and>
      (\<forall>f. 0 < page_cnt s f \<longrightarrow> page_cnt s' f = page_cnt s f + user_refs 1024 s opgd f)) \<or>
    (\<exists>s'. pt_copy npgd opgd s = Stop (Panic ''no free page.'') s')"
proof (cases rule: pt_copy_cases [OF assms])
  case (1 s')
  have "walk s' npgd va = map_option (\<lambda>(f, w). (f, False)) (walk s opgd va) \<and>
      walk s' opgd va = map_option (\<lambda>(f, w). (f, False)) (walk s opgd va)" if "KMEM_END \<le> va" for va
    using walk_copied [OF 1(2) that] by blast
  moreover have "pm_inv s'" "\<forall>f. 0 < page_cnt s f \<longrightarrow> page_cnt s' f = page_cnt s f + user_refs 1024 s opgd f"
    using 1(2) unfolding copy_inv_def by simp_all
  ultimately show ?thesis using 1(1) by blast
qed blast

text \<open>
  Attaching a page. In a well-formed space, \<^verbatim>\<open>pgattach\<close> at a user address either finds
  no free page for a table it needs (a panic) or returns, and then the address
  translates to the attached frame with the given write permission, and no other page of
  the space translates differently than before.
\<close>

theorem pgattach_maps_only_its_page:
  assumes inv: "pm_inv s" and wf: "space_wf s pgd" and va: "KMEM_END \<le> va"
    and cu: "k_proc s (k_cu s) = Some c" and pp: "pp < NPAGE" and fl: "flag AND PTE_P \<noteq> 0"
  shows "(\<exists>e s'. pgattach pgd va pp flag s = Ok e s' \<and>
      walk s' pgd va = Some (pp, flag AND PTE_W \<noteq> 0) \<and>
      (\<forall>vb \<ge> KMEM_END. PG_ADDR vb \<noteq> PG_ADDR va \<longrightarrow> walk s' pgd vb = walk s pgd vb)) \<or>
    (\<exists>s'. pgattach pgd va pp flag s = Stop (Panic ''no free page.'') s')"
proof (cases "pd_present (k_pgd s pgd (PDX va))")
  case True
  have d: "32 \<le> PDX va" "PDX va < 1024" using PDX_user [OF va] by auto
  have num: "pg_num (k_coremap s pp) = of_nat pp" using inv pp by (auto simp: pm_inv_def)
  obtain s' e where s': "pgattach pgd va pp flag s = Ok (table_of s pgd (PDX va), PTX va) s'"
    "k_pgd s' = k_pgd s" "k_pt s' = (k_pt s)(table_of s pgd (PDX va) := (k_pt s (table_of s pgd (PDX va)))(PTX va := e))"
    "unat (pt_off e) = pp" "pt_flag e = flag"
    using pgattach_Ok [OF find_pte_present [OF va True] num pp] by blast
  have "present e" using s'(5) fl by (simp add: present_def)
  note w = walk_attach [OF True refl _ s'(2,3) this]
  show ?thesis using w s'(1,4,5) space_wfD(6) [OF wf d True] by metis
next
  case False
  show ?thesis
  proof (cases rule: pages.alloc_cases [OF inv])
    case (1 p s0)
    obtain s1 d where s1: "find_pte pgd va True s = Ok (Some (p, PTX va)) s1" "pd_present d" "unat (pd_off d) = p"
      "k_pgd s1 = (k_pgd s)(pgd := (k_pgd s pgd)(PDX va := d))" "k_pt s1 = (k_pt s)(p := (\<lambda>_. zero_pte))"
      "k_coremap s1 = k_coremap s0"
      using find_pte_create [OF va False inv cu 1(1)] by blast
    have num: "pg_num (k_coremap s1 pp) = of_nat pp" using 1(2) pp s1(6) by (auto simp: pm_inv_def)
    obtain s' e where s': "pgattach pgd va pp flag s = Ok (p, PTX va) s'" "k_pgd s' = k_pgd s1"
      "k_pt s' = (k_pt s1)(p := (k_pt s1 p)(PTX va := e))" "unat (pt_off e) = pp" "pt_flag e = flag"
      using pgattach_Ok [OF s1(1) num pp] by blast
    have fresh: "table_of s pgd i \<noteq> p" if "32 \<le> i" "i < 1024" "pd_present (k_pgd s pgd i)" for i
      using space_wfD(2) [OF wf that] 1(4) by auto
    have e: "present e" using s'(5) fl by (simp add: present_def)
    have d: "pd_present (k_pgd s1 pgd (PDX va))" "table_of s1 pgd (PDX va) = p" using s1(2-4) by simp_all
    have "table_of s1 pgd i \<noteq> p" if "32 \<le> i" "i < 1024" "i \<noteq> PDX va" "pd_present (k_pgd s1 pgd i)" for i
      using fresh [of i] that by (simp add: s1(4))
    note w = walk_attach [OF d this s'(2,3) e]
    have "walk s' pgd va = Some (pp, flag AND PTE_W \<noteq> 0)"
      and "\<And>vb. KMEM_END \<le> vb \<Longrightarrow> PG_ADDR vb \<noteq> PG_ADDR va \<Longrightarrow> walk s' pgd vb = walk s1 pgd vb"
      using w s'(4,5) by auto
    moreover have "walk s1 pgd vb = walk s pgd vb" if "KMEM_END \<le> vb" for vb
      using fresh [of "PDX vb"] PDX_user [OF that] False s1(3)
      by (auto simp: walk_def s1(4,5) Let_def present_def zero_pte_def)
    ultimately show ?thesis using s'(1) by auto
  next
    case (2 x s0)
    then have "x = Panic ''no free page.''"
      by (auto simp: pgalloc_def kop_simps split: option.splits)
    with 2 False va show ?thesis
      by (simp add: pgattach_def find_pte_def kop_simps pd_present_def kthen_def kbind_def)
  qed
qed

text \<open>
  A space with one writable page at 128 MB: directory in page 10, table in page 4, frame 2;
  page 3 is the only free one.
\<close>

definition small_space :: kernel where
  "small_space = boot_kernel\<lparr>
     k_coremap := (\<lambda>pn. zero_page\<lparr>pg_num := of_nat pn, pg_count := (if pn = 3 then 0 else 1)\<rparr>),
     k_pgfree := Some 3,
     k_pgd := (\<lambda>_ _. zero_pde)(10 := (\<lambda>_. zero_pde)(32 := zero_pde\<lparr>pd_flag := PTE_P, pd_off := 4\<rparr>)),
     k_pt := (\<lambda>_ _. zero_pte)(4 := (\<lambda>_. zero_pte)(0 := zero_pte\<lparr>pt_flag := PTE_P OR PTE_W, pt_off := 2\<rparr>))\<rparr>"

lemma small_space_present:
  "pd_present (k_pgd small_space 10 i) \<longleftrightarrow> i = 32" "table_of small_space 10 32 = 4"
  "present (k_pt small_space 4 pn) \<longleftrightarrow> pn = 0" "pt_off (k_pt small_space 4 0) = 2"
  by (simp_all add: small_space_def pd_present_def present_def zero_pde_def zero_pte_def)

lemma small_space_cnt: "page_cnt small_space pn = (if pn = 3 then 0 else 1)"
  by (simp add: small_space_def page_cnt_def)

lemma small_space_pm: "pm_inv small_space"
  unfolding pm_inv_def
proof (intro conjI exI [of _ "[3]"])
  show "set [3] = {pn. pn < NPAGE \<and> page_cnt small_space pn = 0}" by (auto simp: small_space_cnt)
qed (simp_all add: small_space_def zero_page_def)

lemma small_space_refs: "user_refs k small_space 10 f \<le> (if k \<le> 32 then 0 else 1)"
proof (induction k)
  case 0
  then show ?case by (simp add: user_refs_def)
next
  case (Suc k)
  have "refs m (k_pt small_space 4) f \<le> (if m = 0 then 0 else 1)" for m
    by (induction m) (auto simp: small_space_present split: if_splits)
  then have "refs 1024 (k_pt small_space 4) f \<le> 1" by (metis zero_neq_numeral)
  moreover have "k < 32 \<Longrightarrow> user_refs (Suc k) small_space 10 f = 0" by (simp add: user_refs_def)
  ultimately show ?case using Suc
    by (cases "32 \<le> k") (auto simp: user_refs_Suc small_space_present split: if_splits)
qed

lemma small_space_wf: "space_wf small_space 10"
proof -
  have "page_cnt small_space f + user_refs 1024 small_space 10 f < 256" for f
    using small_space_refs [of 1024 f] small_space_cnt [of f] by (simp split: if_splits)
  then show ?thesis
    unfolding space_wf_def small_space_present by (auto simp: small_space_present small_space_cnt)
qed

theorem pt_copy_shares_protected_witness:
  "(\<exists>s'. pt_copy 11 10 small_space = Ok 0 s' \<and> walk s' 11 KMEM_END = Some (2, False)) \<or>
   (\<exists>s'. pt_copy 11 10 small_space = Stop (Panic ''no free page.'') s')"
proof -
  have "class_sizes small_space" by (simp add: class_sizes_def small_space_def boot_kernel_def bktab0_def)
  moreover have "walk small_space 10 KMEM_END = Some (2, True)"
    by (simp add: walk_def PDX_KMEM_END small_space_present PTX_def Let_def)
      (simp add: small_space_def)
  ultimately show ?thesis
    using pt_copy_shares_protected [OF small_space_pm _ small_space_wf, of 11] by fastforce
qed

theorem pgattach_maps_only_its_page_witness:
  "(\<exists>e s'. pgattach 10 0x8001000 5 (PTE_P OR PTE_W) (small_space\<lparr>k_proc := [0 \<mapsto> zero_proc]\<rparr>) = Ok e s' \<and>
     walk s' 10 0x8001000 = Some (5, True)) \<or>
   (\<exists>s'. pgattach 10 0x8001000 5 (PTE_P OR PTE_W) (small_space\<lparr>k_proc := [0 \<mapsto> zero_proc]\<rparr>) =
     Stop (Panic ''no free page.'') s')"
proof -
  let ?s = "small_space\<lparr>k_proc := [0 \<mapsto> zero_proc]\<rparr>"
  have c: "page_cnt ?s = page_cnt small_space" "user_refs k ?s d f = user_refs k small_space d f" for k d f
    by (auto simp: page_cnt_def user_refs_def cong: if_cong)
  have "pm_inv ?s" using small_space_pm unfolding pm_inv_def c(1) by simp
  moreover have "space_wf ?s 10" using small_space_wf unfolding space_wf_def c by simp
  moreover have "k_proc ?s (k_cu ?s) = Some zero_proc" by (simp add: small_space_def boot_kernel_def)
  ultimately show ?thesis
    using pgattach_maps_only_its_page [of ?s 10 "0x8001000" zero_proc 5 "PTE_P OR PTE_W"] by fastforce
qed

end
