(* ===== verification/Vm.thy ===== *)
theory Vm
  imports Inode Pte Signal
begin

unbundle bit_operations_syntax

text \<open>
  Address spaces and page faults: \<^verbatim>\<open>src/mm/vm.c\<close> and \<^verbatim>\<open>src/mm/pgfault.c\<close>. The areas are
  those of the current process, the only ones the code changes. The kernel reaches user
  memory through the loaded page directory; it runs with write protection switched
  off for itself, so a store needs the page to be present only. Memory below \<^verbatim>\<open>KMEM_END\<close> is
  mapped one to one. A page-sized request never enters the search loops of the allocator,
  which get fuel 0.
\<close>

section \<open>Memory through the page tables\<close>

definition mmu :: "kernel \<Rightarrow> uint \<Rightarrow> (nat \<times> nat) option" where
  "mmu s va = (if va < KMEM_END then Some (unat (PPN va), POFF va)
     else map_option (\<lambda>(f, w). (f, POFF va)) (walk s (k_cr3 s) va))"

definition mem_mod :: "nat \<Rightarrow> ((nat \<Rightarrow> uchar) \<Rightarrow> nat \<Rightarrow> uchar) \<Rightarrow> kernel \<Rightarrow> kernel" where
  "mem_mod pn f s = s\<lparr>k_mem := (k_mem s)(pn := f (k_mem s pn))\<rparr>"

text \<open>
  Consecutive stores and loads; \<open>None\<close> in the list is a byte that is left alone. An access to
  a page that is not present inside the kernel is a fault of the model.
\<close>

primrec put_user :: "uchar option list \<Rightarrow> uint \<Rightarrow> unit kop" where
  "put_user [] va = kret ()"
| "put_user (b # bs) va = kthen
     (case b of None \<Rightarrow> kret () | Some c \<Rightarrow> kbind (kget (\<lambda>s. mmu s va)) (\<lambda>r.
        kderef ''page'' r (\<lambda>(pn, off). kmod (mem_mod pn (\<lambda>m. m(off := c))))))
     (put_user bs (va + 1))"

definition get_user :: "kernel \<Rightarrow> uint \<Rightarrow> uchar option" where
  "get_user s va = map_option (\<lambda>(pn, off). k_mem s pn off) (mmu s va)"

section \<open>Areas (vm.c)\<close>

definition area_mod :: "nat \<Rightarrow> (vma \<Rightarrow> vma) \<Rightarrow> unit kop" where
  "area_mod i f = cu_mod (\<lambda>p. p\<lparr>p_vm := (p_vm p)\<lparr>vm_area := (vm_area (p_vm p))(i := f (vm_area (p_vm p) i))\<rparr>\<rparr>)"

definition vma_at :: "vm \<Rightarrow> uint \<Rightarrow> nat option" where
  "vma_at vm addr = scan (\<lambda>i. let v = vm_area vm i in addr \<ge> v_base v \<and> addr < v_base v + v_size v) 0 NVMA"

definition find_vma :: "uint \<Rightarrow> nat option kop" where
  "find_vma addr = cu_get (\<lambda>p. vma_at (p_vm p) addr)"

definition vma_init :: "nat \<Rightarrow> uint \<Rightarrow> uint \<Rightarrow> uint \<Rightarrow> nat option \<Rightarrow> uint \<Rightarrow> int kop" where
  "vma_init i base sz flag ipo ioff =
     kthen (area_mod i (\<lambda>v. v\<lparr>v_flag := flag, v_base := base, v_size := sz, v_ioff := ioff\<rparr>))
     (kthen (case ipo of None \<Rightarrow> kret () | Some ip \<Rightarrow>
        kthen (kmod (ino_mod ip (\<lambda>i. i\<lparr>i_count := i_count i + 1\<rparr>))) (area_mod i (\<lambda>v. v\<lparr>v_ino := Some ip\<rparr>)))
      (kret 0))"

text \<open>The new structure belongs to process \<open>nr\<close>; the areas that are not in use are not set.\<close>

definition vm_clone :: "nat \<Rightarrow> int kop" where
  "vm_clone nr = kbind (kmalloc 0 PAGE) (\<lambda>a. let pgd = unat (PPN a) in
     kthen (kmod (proc_mod nr (\<lambda>p. p\<lparr>p_vm := (p_vm p)\<lparr>vm_pgd := pgd\<rparr>\<rparr>)))
     (kthen (pgd_init pgd)
     (kthen (kfor [0..<NVMA] (\<lambda>i. kbind (cu_get (\<lambda>p. vm_area (p_vm p) i)) (\<lambda>vp.
        kwhen (v_flag vp \<noteq> 0)
          (kthen (case v_ino vp of None \<Rightarrow> kret ()
             | Some ip \<Rightarrow> kmod (ino_mod ip (\<lambda>i. i\<lparr>i_count := i_count i + 1\<rparr>)))
           (kmod (proc_mod nr (\<lambda>p. p\<lparr>p_vm := (p_vm p)\<lparr>vm_area := (vm_area (p_vm p))(i := vp)\<rparr>\<rparr>)))))))
     (kbind (cu_get (\<lambda>p. vm_pgd (p_vm p))) (\<lambda>opgd. kthen (pt_copy pgd opgd) (kret 0))))))"

text \<open>\<^verbatim>\<open>vm_clear(&cu->p_vm)\<close>\<close>

definition vm_clear :: "int kop" where
  "vm_clear =
     kthen (kfor [0..<NVMA] (\<lambda>i. kbind (cu_get (\<lambda>p. vm_area (p_vm p) i)) (\<lambda>vp.
        kwhen (v_flag vp \<noteq> 0)
          (kthen (case v_ino vp of None \<Rightarrow> kret () | Some ip \<Rightarrow> iput (Some ip))
           (area_mod i (\<lambda>v. v\<lparr>v_ino := None, v_flag := 0, v_base := 0, v_size := 0\<rparr>))))))
     (kbind (cu_get (\<lambda>p. vm_pgd (p_vm p))) (\<lambda>pgd. kthen (pt_free pgd) (kret 0)))"

text \<open>The header of an executable file, \<^verbatim>\<open>src/inc/a.out.h\<close>.\<close>

record ahead =
  a_magic :: uint a_tsize :: uint a_dsize :: uint a_bsize :: uint
  a_syms :: uint a_entry :: uint a_trsize :: uint a_drsize :: uint

definition vm_renew :: "ahead \<Rightarrow> nat \<Rightarrow> int kop" where
  "vm_renew ah ip = (let base = a_entry ah - 32; text = a_entry ah - 32; data = text + a_tsize ah;
       bss = data + a_dsize ah; heap = bss + a_bsize ah in
     kbind (cu_get (\<lambda>p. vm_pgd (p_vm p))) (\<lambda>pgd. kthen (pgd_init pgd)
     (kthen (cu_mod (\<lambda>p. p\<lparr>p_vm := (p_vm p)\<lparr>vm_entry := a_entry ah\<rparr>\<rparr>))
     (kthen (vma_init vm_text text (a_tsize ah) (VMA_MMAP OR VMA_RDONLY OR VMA_PRIVATE) (Some ip) (text - base))
     (kthen (vma_init vm_data data (a_dsize ah) (VMA_MMAP OR VMA_PRIVATE) (Some ip) (data - base))
     (kthen (vma_init vm_bss bss (a_bsize ah) (VMA_ZERO OR VMA_PRIVATE) None 0)
     (kthen (vma_init vm_heap heap PAGE (VMA_ZERO OR VMA_PRIVATE) None 0)
     (kthen (vma_init vm_stack VM_STACK PAGE (VMA_STACK OR VMA_ZERO OR VMA_PRIVATE) None 0) (kret 0)))))))))"

section \<open>Page faults (pgfault.c)\<close>

definition do_no_page :: "uint \<Rightarrow> unit kop" where
  "do_no_page vaddr = kbind (cu_get p_vm) (\<lambda>vm.
     if v_base (vm_area vm vm_stack) - vaddr \<le> PAGE then
       kthen (area_mod vm_stack (\<lambda>v. v\<lparr>v_base := v_base v - PAGE, v_size := v_size v + PAGE\<rparr>))
       (kbind pgalloc (\<lambda>pg. kthen (pgattach (vm_pgd vm) (PG_ADDR vaddr) pg (PTE_U OR PTE_W OR PTE_P)) (kret ())))
     else kbind (find_vma vaddr) (\<lambda>r. case r of
       None \<Rightarrow> kbind (cu_get p_pid) (\<lambda>pid. kthen (sigsend (sint pid) (uint SIGSEGV) True) (kret ()))
     | Some i \<Rightarrow> let vp = vm_area vm i in
         if v_flag vp AND VMA_ZERO \<noteq> 0 then
           kbind pgalloc (\<lambda>pg. kthen (pgattach (vm_pgd vm) (PG_ADDR vaddr) pg (PTE_U OR PTE_W OR PTE_P))
             (put_user (replicate 4096 (Some 0)) (PG_ADDR vaddr)))
         else if v_flag vp AND VMA_MMAP \<noteq> 0 then
           kbind pgalloc (\<lambda>pg. kbind (pgattach (vm_pgd vm) (PG_ADDR vaddr) pg (PTE_U OR PTE_W OR PTE_P)) (\<lambda>(pt, k).
             let buf = PG_ADDR vaddr; off = buf - v_base vp + v_ioff vp in
             kderef ''v_ino'' (v_ino vp) (\<lambda>ip. kthen (lock_ino ip) (kbind (readi ip off PAGE) (\<lambda>(_, bs).
               kthen (put_user bs buf) (kthen (unlk_ino ip)
               (kthen (kmod (pte_mod pt k (\<lambda>e. e\<lparr>pt_flag := pt_flag e AND NOT (if v_flag vp AND VMA_RDONLY \<noteq> 0 then 0 else PTE_W)\<rparr>)))
                flmmu)))))))
         else panic ''do_no_page()''))"

text \<open>An address outside every area gives a null pointer that the code reads through.\<close>

definition do_wp_page :: "uint \<Rightarrow> unit kop" where
  "do_wp_page vaddr = kbind (find_vma vaddr) (\<lambda>r. kderef ''vma'' r (\<lambda>i.
     kbind (cu_get (\<lambda>p. v_flag (vm_area (p_vm p) i))) (\<lambda>fl.
     if fl AND VMA_RDONLY \<noteq> 0 then kbind (cu_get p_pid) (\<lambda>pid. kthen (sigsend (sint pid) (uint SIGSEGV) True) (kret ()))
     else if fl AND VMA_PRIVATE \<noteq> 0 then
       kbind (cu_get (\<lambda>p. vm_pgd (p_vm p))) (\<lambda>pgd. kbind (find_pte pgd vaddr True) (\<lambda>q. kderef ''pte'' q (\<lambda>(pt, k).
       kbind (kget (\<lambda>s. pt_off (k_pt s pt k))) (\<lambda>off. kbind (pgfind (ucast off)) (\<lambda>pg.
       kbind (kget (\<lambda>s. pg_count (k_coremap s pg))) (\<lambda>c.
       if c > 1 then
         kthen (kmod (page_mod pg (\<lambda>p. p\<lparr>pg_count := pg_count p - 1\<rparr>)))
         (kbind (kmalloc 0 PAGE) (\<lambda>new_page.
          kthen (kmod (\<lambda>s. mem_mod (unat (PPN new_page)) (\<lambda>m j. if j < 4096 then k_mem s (unat off) j else m j) s))
          (kthen (kmod (pte_mod pt k (\<lambda>e. e\<lparr>pt_off := ucast (PPN new_page)\<rparr>)))
          (kthen (kmod (pte_mod pt k (\<lambda>e. e\<lparr>pt_flag := pt_flag e OR PTE_W\<rparr>))) flmmu))))
       else if c = 1 then kthen (kmod (pte_mod pt k (\<lambda>e. e\<lparr>pt_flag := pt_flag e OR PTE_W\<rparr>))) flmmu
       else kret ()))))))
     else kret ())))"

text \<open>The handler with the faulting address, register \<^verbatim>\<open>cr2\<close>, as an argument.\<close>

definition do_pgfault :: "trap \<Rightarrow> uint \<Rightarrow> int kop" where
  "do_pgfault tf addr =
     (if tf_err_code tf AND 1 = 0 then kthen (do_no_page addr) (kret 0)
      else if tf_err_code tf AND 2 \<noteq> 0 then kthen (do_wp_page addr) (kret 0)
      else kthen (kwhen (tf_err_code tf AND 4 \<noteq> 0)
        (kbind (cu_get p_pid) (\<lambda>pid. kthen (sigsend (sint pid) (uint SIGSEGV) True) (kret ())))) (kret 0))"

text \<open>
  The pages \<^verbatim>\<open>vm_verify\<close> visits: from the first to the last page of the range. When the last
  page is the last one there is, the loop variable wraps to 0 and the loop goes on with
  page 0, where \<^verbatim>\<open>find_pte\<close> panics.
\<close>

definition verify_pages :: "uint \<Rightarrow> uint \<Rightarrow> uint list" where
  "verify_pages first lst =
     (if first \<le> lst then map (\<lambda>k. first + of_nat (4096 * k)) [0..<(unat lst - unat first) div 4096 + 1] @
        (if lst + PAGE = 0 then [0] else [])
      else [])"

definition verify_page :: "uint \<Rightarrow> unit kop" where
  "verify_page page = kbind (cu_get (\<lambda>p. vm_pgd (p_vm p))) (\<lambda>pgd. kbind (find_pte pgd page True) (\<lambda>q. kderef ''pte'' q (\<lambda>(pt, k).
     kbind (kget (\<lambda>s. pt_flag (k_pt s pt k))) (\<lambda>fl.
     if fl AND PTE_P = 0 then do_no_page page
     else if fl AND PTE_W = 0 then do_wp_page page
     else kret ()))))"

definition vm_verify :: "uint \<Rightarrow> uint \<Rightarrow> int kop" where
  "vm_verify addr sz =
     (if addr < KMEM_END then kret (-1)
      else kthen (kfor (verify_pages (PG_ADDR addr) (PG_ADDR (addr + sz - 1))) verify_page) (kret 0))"

section \<open>Copy on write\<close>

text \<open>The byte a process with directory \<open>pgd\<close> sees at a user address.\<close>

definition view :: "kernel \<Rightarrow> nat \<Rightarrow> uint \<Rightarrow> uchar option" where
  "view s pgd va = map_option (\<lambda>(f, w). k_mem s f (POFF va)) (walk s pgd va)"

lemma mem_mod_simps [simp]:
  "k_mem (mem_mod pn f s) = (k_mem s)(pn := f (k_mem s pn))" "k_pgd (mem_mod pn f s) = k_pgd s"
  "k_pt (mem_mod pn f s) = k_pt s" "k_coremap (mem_mod pn f s) = k_coremap s" "k_proc (mem_mod pn f s) = k_proc s"
  "k_cu (mem_mod pn f s) = k_cu s" "k_cr3 (mem_mod pn f s) = k_cr3 s"
  by (simp_all add: mem_mod_def)

lemma pte_mod_frame [simp]:
  "k_proc (pte_mod t i f s) = k_proc s" "k_cu (pte_mod t i f s) = k_cu s" "k_mem (pte_mod t i f s) = k_mem s"
  by (simp_all add: pte_mod_def)

lemma walk_mem_mod [simp]: "walk (mem_mod pn f s) = walk s"
  by (simp add: walk_def fun_eq_iff)

lemma page_frame [simp]:
  "page_cnt (s\<lparr>k_cr3 := x\<rparr>) = page_cnt s" "pm_inv (s\<lparr>k_cr3 := x\<rparr>) = pm_inv s"
  "page_cnt (pte_mod t i f s) = page_cnt s" "pm_inv (pte_mod t i f s) = pm_inv s"
  "page_cnt (mem_mod pn m s) = page_cnt s" "pm_inv (mem_mod pn m s) = pm_inv s"
  by (simp_all add: page_cnt_def pm_inv_def fun_eq_iff) (simp_all add: pte_mod_def mem_mod_def)

lemma walk_pd: "walk s pgd va = Some (f, w) \<Longrightarrow> pd_present (k_pgd s pgd (PDX va)) \<and>
    present (k_pt s (table_of s pgd (PDX va)) (PTX va)) \<and> unat (pt_off (k_pt s (table_of s pgd (PDX va)) (PTX va))) = f"
  by (auto simp: walk_def Let_def split: if_splits)

lemma flmmu_Ok: "k_proc s (k_cu s) = Some c \<Longrightarrow> flmmu s = Ok () (s\<lparr>k_cr3 := vm_pgd (p_vm c)\<rparr>)"
  by (simp add: flmmu_def lpgd_def kop_simps)

lemma write_enable: "((fl :: 9 word) OR PTE_W) AND PTE_W \<noteq> 0" "((fl :: 9 word) OR PTE_W) AND PTE_P = fl AND PTE_P"
proof -
  have "bit ((fl OR PTE_W) AND PTE_W) 1" by (simp add: bit_simps bit_numeral_rec)
  then show "(fl OR PTE_W) AND PTE_W \<noteq> 0" by (metis bit_0_eq bot_apply bot_bool_def)
  show "(fl OR PTE_W) AND PTE_P = fl AND PTE_P"
    by (rule bit_word_eqI) (auto simp: bit_simps bit_numeral_rec bit_1_iff)
qed

text \<open>The current process may write at \<open>va\<close> as far as its areas are concerned.\<close>

definition cow_area :: "vm \<Rightarrow> uint \<Rightarrow> bool" where
  "cow_area vm va \<longleftrightarrow> (\<exists>i. vma_at vm va = Some i \<and> v_flag (vm_area vm i) AND VMA_RDONLY = 0 \<and>
     v_flag (vm_area vm i) AND VMA_PRIVATE \<noteq> 0)"

lemma wp_copy_tail:
  assumes "k_proc s (k_cu s) = Some c" "unat (PPN a) = g"
  shows "kthen (kmod (\<lambda>s. mem_mod (unat (PPN a)) (\<lambda>m j. if j < 4096 then k_mem s f j else m j) s))
      (kthen (kmod (pte_mod T k (\<lambda>e. e\<lparr>pt_off := ucast (PPN a)\<rparr>)))
      (kthen (kmod (pte_mod T k (\<lambda>e. e\<lparr>pt_flag := pt_flag e OR PTE_W\<rparr>))) flmmu)) s =
    Ok () ((pte_mod T k (\<lambda>e. e\<lparr>pt_off := ucast (PPN a), pt_flag := pt_flag e OR PTE_W\<rparr>)
      (mem_mod g (\<lambda>m j. if j < 4096 then k_mem s f j else m j) s))\<lparr>k_cr3 := vm_pgd (p_vm c)\<rparr>)"
  using assms by (simp add: kthen_simps flmmu_Ok) (simp add: pte_mod_def)

lemma do_wp_page_shared:
  assumes cu: "k_proc s (k_cu s) = Some c" "vm_pgd (p_vm c) = pgd" and va: "KMEM_END \<le> va"
    and area: "cow_area (p_vm c) va" and inv: "pm_inv s" "class_sizes s"
    and wk: "walk s pgd va = Some (f, w)" "f < NPAGE" "page_cnt s f > 1"
  obtains s' g e where "do_wp_page va s = Ok () s'" "g < NPAGE" "page_cnt s g = 0" "g \<noteq> f"
    "k_pgd s' = k_pgd s" "k_cr3 s' = pgd" "unat (pt_off e) = g" "present e" "pt_flag e AND PTE_W \<noteq> 0"
    "k_pt s' = (k_pt s)(table_of s pgd (PDX va) := (k_pt s (table_of s pgd (PDX va)))(PTX va := e))"
    "k_mem s' = (k_mem s)(g := (\<lambda>j. if j < 4096 then k_mem s f j else k_mem s g j))"
    "page_cnt s' = (page_cnt s)(f := page_cnt s f - 1, g := 1)" "pm_inv s'"
  | s' where "do_wp_page va s = Stop (Panic ''no free page.'') s'"
proof -
  obtain i where i: "vma_at (p_vm c) va = Some i" "v_flag (vm_area (p_vm c) i) AND VMA_RDONLY = 0"
    "v_flag (vm_area (p_vm c) i) AND VMA_PRIVATE \<noteq> 0" using area by (auto simp: cow_area_def)
  let ?T = "table_of s pgd (PDX va)" let ?e = "k_pt s ?T (PTX va)"
  note pd = walk_pd [OF wk(1)]
  have off: "unat (ucast (pt_off ?e) :: uint) = f" using pd by (simp add: unat_ucast_up)
  have c1: "pg_count (k_coremap s f) > 1" using wk(3) by (simp add: page_cnt_def word_less_nat_alt)
  define s0 where "s0 = page_mod f (\<lambda>p. p\<lparr>pg_count := pg_count p - 1\<rparr>) s"
  have s0: "pm_inv s0" "page_cnt s0 = (page_cnt s)(f := page_cnt s f - 1)" "class_sizes s0"
    using page_drop [OF inv(1) wk(2,3)] inv(2) by (simp_all add: s0_def class_sizes_def page_mod_def)
  define body where "body = (\<lambda>new_page. kthen (kmod (\<lambda>s. mem_mod (unat (PPN new_page))
      (\<lambda>m j. if j < 4096 then k_mem s f j else m j) s))
    (kthen (kmod (pte_mod ?T (PTX va) (\<lambda>e. e\<lparr>pt_off := ucast (PPN new_page)\<rparr>)))
    (kthen (kmod (pte_mod ?T (PTX va) (\<lambda>e. e\<lparr>pt_flag := pt_flag e OR PTE_W\<rparr>))) flmmu)))"
  have run: "do_wp_page va s = kbind (kmalloc 0 PAGE) body s0"
    using cu i find_pte_present [OF va conjunct1 [OF pd], of True] off wk(2) c1
    by (simp add: do_wp_page_def find_vma_def kop_simps pgfind_def s0_def body_def)
      (simp add: conjunct2 [OF conjunct2 [OF pd]] cong: if_cong)
  show thesis
  proof (cases rule: pages.alloc_cases [OF s0(1)])
    case (1 g s1)
    have "page_cnt s f - 1 \<noteq> 0" using wk(3) by simp
    then have gf: "g \<noteq> f" "page_cnt s g = 0" using 1(4) s0(2) by (auto split: if_splits)
    note fr = pgalloc_frame_all [OF 1(1)]
    have a: "unat (PPN (page_addr g s0)) = g" using PPN_page_addr(2) [OF s0(1) 1(3)] .
    have u: "unat (ucast (PPN (page_addr g s0)) :: 20 word) = g"
      using 1(3) a by (simp add: unsigned_ucast_eq take_bit_nat_eq_self)
    let ?e' = "?e\<lparr>pt_off := ucast (PPN (page_addr g s0)), pt_flag := pt_flag ?e OR PTE_W\<rparr>"
    let ?s' = "(pte_mod ?T (PTX va) (\<lambda>e. e\<lparr>pt_off := ucast (PPN (page_addr g s0)), pt_flag := pt_flag e OR PTE_W\<rparr>) (mem_mod g (\<lambda>m j. if j < 4096 then k_mem s1 f j else m j) s1))\<lparr>k_cr3 := pgd\<rparr>"
    have "k_cu s1 = k_cu s" using 1(1) by (auto simp: s0_def pgalloc_def kop_simps page_mod_def split: option.splits)
    then have p: "k_proc s1 (k_cu s1) = Some c" using fr cu by (simp add: s0_def page_mod_def)
    have ks: "k_pt s1 = k_pt s" "k_mem s1 = k_mem s" "k_pgd s1 = k_pgd s" using fr by (simp_all add: s0_def page_mod_def)
    have "kmalloc 0 PAGE s0 = Ok (page_addr g s0) s1" using kmalloc_page_Ok [OF s0(3) _ _ 1(1)] by simp
    then have ok: "do_wp_page va s = Ok () ?s'"
      unfolding run body_def using wp_copy_tail [OF p a] cu(2) by (simp add: kbind_Ok)
    show thesis
      by (rule that(1) [of ?s' g ?e'])
        (use ok 1 gf u write_enable pd s0(2) in \<open>simp_all add: ks fun_upd_twist [OF gf(1)] present_def cong: if_cong\<close>)
  next
    case (2 x s1)
    then have "x = Panic ''no free page.''" by (auto simp: pgalloc_def kop_simps split: option.splits)
    with 2 show thesis using that(2) run by (simp add: kmalloc_page [OF s0(3)] kbind_Stop)
  qed
qed

lemma POFF_less: "POFF va < 4096"
proof -
  have m: "(0xFFF :: uint) = mask 12" by (simp add: mask_eq_exp_minus_1)
  show ?thesis unfolding POFF_def m
    by (simp only: take_bit_eq_mask [symmetric] unsigned_take_bit_eq) (simp add: take_bit_eq_mod)
qed

text \<open>An address is its page and its offset.\<close>

lemma PG_ADDR_POFF: "PG_ADDR va + of_nat (POFF va) = va"
proof -
  have "PG_ADDR va + (va AND 0xFFF) = PG_ADDR va OR (va AND 0xFFF)"
    unfolding PG_ADDR_def by (rule disjunctive_add) (auto simp: bit_simps)
  also have "\<dots> = va" unfolding PG_ADDR_def by (rule bit_word_eqI) (auto simp: bit_simps)
  finally show ?thesis by (simp add: POFF_def)
qed

lemma switch_simps [simp]:
  "walk (s\<lparr>k_cu := x\<rparr>) = walk s" "pm_inv (s\<lparr>k_cu := x\<rparr>) = pm_inv s" "page_cnt (s\<lparr>k_cu := x\<rparr>) = page_cnt s"
  "class_sizes (s\<lparr>k_cu := x\<rparr>) = class_sizes s"
  by (auto simp: walk_def pm_inv_def page_cnt_def class_sizes_def fun_eq_iff)

text \<open>A frame that is mapped in a well-formed space is counted.\<close>

lemma space_wf_walk:
  assumes "space_wf s pgd" "KMEM_END \<le> va" "walk s pgd va = Some (f, w)"
  shows "f < NPAGE" "page_cnt s f > 0" "user_refs 1024 s pgd f > 0" "page_cnt s f + user_refs 1024 s pgd f < 256"
proof -
  let ?T = "table_of s pgd (PDX va)"
  have d: "32 \<le> PDX va" "PDX va < 1024" "PTX va < 1024" using PDX_user [OF assms(2)] PTX_less by auto
  note pd = walk_pd [OF assms(3)]
  show "f < NPAGE" "page_cnt s f > 0" using space_wfD(3) [OF assms(1) d(1,2) _ d(3)] pd by auto
  show "page_cnt s f + user_refs 1024 s pgd f < 256" using assms(1) by (auto simp: space_wf_def)
  have "PTX va \<in> set (filter (\<lambda>pn. present (k_pt s ?T pn) \<and> unat (pt_off (k_pt s ?T pn)) = f) [0..<1024])"
    unfolding set_filter mem_Collect_eq set_upt atLeastLessThan_iff using pd d(3) by blast
  then have "refs 1024 (k_pt s ?T) f > 0" unfolding refs_def by (rule length_pos_if_in_set)
  then have "user_refs (Suc (PDX va)) s pgd f > 0" using user_refs_Suc [OF d(1), of s pgd f] pd by simp
  moreover have "user_refs (Suc (PDX va)) s pgd f \<le> user_refs 1024 s pgd f" using d by (intro user_refs_mono) simp
  ultimately show "user_refs 1024 s pgd f > 0" by simp
qed

lemma copy_inv_apart:
  assumes "copy_inv s0 npgd opgd 1024 s" "32 \<le> i" "i < 1024" "pd_present (k_pgd s0 opgd i)"
  shows "32 \<le> j \<Longrightarrow> j < 1024 \<Longrightarrow> i \<noteq> j \<Longrightarrow> pd_present (k_pgd s0 opgd j) \<Longrightarrow> table_of s npgd i \<noteq> table_of s npgd j"
    "page_cnt s0 (table_of s npgd i) = 0"
proof -
  show "page_cnt s0 (table_of s npgd i) = 0" using assms unfolding copy_inv_def by blast
  have ap: "\<And>i j. 32 \<le> i \<Longrightarrow> i < j \<Longrightarrow> j < 1024 \<Longrightarrow> pd_present (k_pgd s0 opgd i) \<Longrightarrow>
      pd_present (k_pgd s0 opgd j) \<Longrightarrow> table_of s npgd i \<noteq> table_of s npgd j"
    using assms(1) unfolding copy_inv_def by blast
  show "32 \<le> j \<Longrightarrow> j < 1024 \<Longrightarrow> i \<noteq> j \<Longrightarrow> pd_present (k_pgd s0 opgd j) \<Longrightarrow> table_of s npgd i \<noteq> table_of s npgd j"
    using ap [of i j] ap [of j i] assms(2-4) by (cases "i < j") auto
qed

text \<open>
  After the copy of a space and a write fault in the child, the translations: the written
  page has a frame of its own in the child, everything else is as the copy left it.
\<close>

lemma copied_fault_walks:
  assumes ci: "copy_inv s npgd opgd 1024 s1" and wf: "space_wf s opgd" and va: "KMEM_END \<le> va"
    and pr: "pd_present (k_pgd s opgd (PDX va))"
    and s2: "k_pgd s2 = k_pgd s1" "k_pt s2 = (k_pt s1)(table_of s1 npgd (PDX va) :=
      (k_pt s1 (table_of s1 npgd (PDX va)))(PTX va := e))" and e: "present e"
  shows "walk s2 npgd va = Some (unat (pt_off e), pt_flag e AND PTE_W \<noteq> 0)"
    "KMEM_END \<le> vb \<Longrightarrow> PG_ADDR vb \<noteq> PG_ADDR va \<Longrightarrow> walk s2 npgd vb = walk s1 npgd vb"
    "KMEM_END \<le> vb \<Longrightarrow> walk s2 opgd vb = walk s1 opgd vb"
proof -
  have d: "32 \<le> PDX va" "PDX va < 1024" using PDX_user [OF va] by auto
  have fl: "pd_present (k_pgd s1 npgd i) = pd_present (k_pgd s opgd i)" if "32 \<le> i" "i < 1024" for i
    using copy_invD(2) [OF ci that] by (simp add: pd_present_def)
  have "table_of s1 npgd i \<noteq> table_of s1 npgd (PDX va)"
    if "32 \<le> i" "i < 1024" "i \<noteq> PDX va" "pd_present (k_pgd s1 npgd i)" for i
    using copy_inv_apart(1) [OF ci d pr] that fl [of i] by metis
  note w = walk_attach [OF _ refl this s2 e]
  show "walk s2 npgd va = Some (unat (pt_off e), pt_flag e AND PTE_W \<noteq> 0)"
    "KMEM_END \<le> vb \<Longrightarrow> PG_ADDR vb \<noteq> PG_ADDR va \<Longrightarrow> walk s2 npgd vb = walk s1 npgd vb"
    using w fl d pr by auto
  assume vb: "KMEM_END \<le> vb"
  have o: "k_pgd s1 opgd = k_pgd s opgd" using copy_invD(1) [OF ci] .
  have "pd_present (k_pgd s opgd (PDX vb)) \<Longrightarrow> table_of s opgd (PDX vb) \<noteq> table_of s1 npgd (PDX va)"
    using space_wfD(2) [OF wf] copy_inv_apart(2) [OF ci d pr] PDX_user [OF vb] by fastforce
  then show "walk s2 opgd vb = walk s1 opgd vb" by (auto simp: walk_def s2 o Let_def)
qed

lemma view_same_page:
  assumes "PG_ADDR vb = PG_ADDR va"
  shows "walk s pgd vb = walk s pgd va" "vb \<noteq> va \<Longrightarrow> POFF vb \<noteq> POFF va"
proof -
  have m: "(0xFFF :: uint) = mask 12" by (simp add: mask_eq_exp_minus_1)
  have "drop_bit 12 (PG_ADDR v) = drop_bit 12 v" for v :: uint
    unfolding PG_ADDR_def m by (rule bit_word_eqI) (auto simp: bit_simps dest: bit_imp_le_length)
  moreover have "drop_bit 22 v = drop_bit 10 (drop_bit 12 v)" for v :: uint by simp
  ultimately have "PDX v = PDX (PG_ADDR v)" "PTX v = PTX (PG_ADDR v)" for v :: uint
    unfolding PDX_def PTX_def by metis+
  then have "PDX vb = PDX va" "PTX vb = PTX va" using assms by metis+
  then show "walk s pgd vb = walk s pgd va" by (simp add: walk_def Let_def)
  show "vb \<noteq> va \<Longrightarrow> POFF vb \<noteq> POFF va" using PG_ADDR_POFF [of va] PG_ADDR_POFF [of vb] assms by metis
qed

lemma put_user_one:
  assumes "KMEM_END \<le> va" "walk s (k_cr3 s) va = Some (g, w)"
  shows "put_user [Some b] va s = Ok () (mem_mod g (\<lambda>m. m(POFF va := b)) s)"
  using assms by (simp add: mmu_def kop_simps not_less [symmetric])

section \<open>Checking a user range\<close>

lemma unat_PG_ADDR: "unat (PG_ADDR v) = unat v div 4096 * 4096"
proof -
  have m: "(0xFFF :: uint) = mask 12" by (simp add: mask_eq_exp_minus_1)
  have "PG_ADDR v = push_bit 12 (drop_bit 12 v)" unfolding PG_ADDR_def m by (rule bit_word_eqI) (auto simp: bit_simps)
  then have "unat (PG_ADDR v) = unat v div 4096 * 4096 mod 2 ^ LENGTH(32)"
    by (simp add: push_bit_eq_mult drop_bit_eq_div unat_div unat_word_ariths)
  moreover have "unat v div 4096 * 4096 < 2 ^ LENGTH(32)"
    by (rule order.strict_trans1 [OF div_times_less_eq_dividend unsigned_less])
  ultimately show ?thesis by simp
qed

lemma PG_ADDR_user: "KMEM_END \<le> va \<Longrightarrow> KMEM_END \<le> PG_ADDR va"
  by (simp add: word_le_nat_alt unat_PG_ADDR)

lemma verify_pages_range:
  fixes p first lst :: uint
  assumes "p \<in> set (map (\<lambda>k. first + of_nat (4096 * k)) [0..<(unat lst - unat first) div 4096 + 1])" "first \<le> lst"
  shows "first \<le> p" "p \<le> lst"
proof -
  obtain k where k: "p = first + of_nat (4096 * k)" "k \<le> (unat lst - unat first) div 4096"
    using assms(1) by (auto simp del: of_nat_mult upt.simps)
  have f: "unat first \<le> unat lst" using assms(2) by (simp add: word_le_nat_alt)
  have "4096 * k \<le> unat lst - unat first" using k(2) by (metis div_times_less_eq_dividend le_trans mult.commute mult_le_mono1)
  then have s: "unat first + 4096 * k \<le> unat lst" using f by simp
  have "unat lst < 2 ^ LENGTH(32)" by (rule unsigned_less)
  then have "unat first + 4096 * k < 2 ^ LENGTH(32)" using s by simp
  moreover have "p = of_nat (unat first + 4096 * k)" using k(1) by simp
  ultimately have "unat p = unat first + 4096 * k" by (simp only: unsigned_of_nat take_bit_nat_eq_self of_nat_id)
  then show "first \<le> p" "p \<le> lst" using s by (simp_all add: word_le_nat_alt)
qed

lemma kfor_skip: "(\<And>x. x \<in> set xs \<Longrightarrow> f x s = Ok () s) \<Longrightarrow> kfor xs f s = Ok () s"
  by (induction xs) (simp_all add: kop_simps kthen_Ok)

lemma verify_page_mapped:
  assumes "k_proc s (k_cu s) = Some c" "KMEM_END \<le> va" "walk s (vm_pgd (p_vm c)) va = Some (f, True)"
  shows "verify_page va s = Ok () s"
proof -
  have "pt_flag (k_pt s (table_of s (vm_pgd (p_vm c)) (PDX va)) (PTX va)) AND PTE_P \<noteq> 0"
    "pt_flag (k_pt s (table_of s (vm_pgd (p_vm c)) (PDX va)) (PTX va)) AND PTE_W \<noteq> 0"
    using assms(3) by (auto simp: walk_def Let_def present_def split: if_splits)
  then show ?thesis using assms walk_pd [OF assms(3)] find_pte_present [OF assms(2), of s "vm_pgd (p_vm c)" True]
    by (simp add: verify_page_def kop_simps)
qed

lemma verify_pages_Ok:
  assumes cu: "k_proc s (k_cu s) = Some c" and f: "KMEM_END \<le> first" "first \<le> lst"
    and m: "\<And>v. first \<le> v \<Longrightarrow> v \<le> lst \<Longrightarrow> \<exists>f. walk s (vm_pgd (p_vm c)) v = Some (f, True)"
  shows "kfor (verify_pages first lst) verify_page s = (if lst = 0xFFFFF000
    then Stop (Panic ''find_pte(): don't touch kernel's address space.'') s else Ok () s)"
proof -
  let ?ps = "map (\<lambda>k. first + of_nat (4096 * k)) [0..<(unat lst - unat first) div 4096 + 1]"
  have "verify_page p s = Ok () s" if "p \<in> set ?ps" for p
  proof -
    have p: "first \<le> p" "p \<le> lst" using verify_pages_range [OF that f(2)] by auto
    then have "KMEM_END \<le> p" using f(1) by (meson order_trans)
    then show ?thesis using verify_page_mapped [OF cu] m [OF p] by blast
  qed
  then have ok: "kfor ?ps verify_page s = Ok () s" by (rule kfor_skip)
  have pg: "verify_pages first lst = ?ps @ (if lst + PAGE = 0 then [0] else [])" using f(2) by (simp add: verify_pages_def)
  have "(0xFFFFF000 :: uint) + PAGE = 0" by simp
  then have top: "lst + PAGE = 0 \<longleftrightarrow> lst = 0xFFFFF000" by (metis add_right_cancel)
  have z: "verify_page 0 s = Stop (Panic ''find_pte(): don't touch kernel's address space.'') s"
    using cu by (simp add: verify_page_def find_pte_def kop_simps)
  show ?thesis using ok z unfolding pg top
    by (simp add: kfor_append kthen_assoc kthen_Ok kthen_Stop kop_simps del: upt.simps)
qed

text \<open>The bytes of one page are consecutive.\<close>

lemma POFF_mod: "POFF va = unat va mod 4096"
proof -
  have m: "(0xFFF :: uint) = mask 12" by (simp add: mask_eq_exp_minus_1)
  show ?thesis unfolding POFF_def m
    by (simp only: take_bit_eq_mask [symmetric] unsigned_take_bit_eq) (simp add: take_bit_eq_mod)
qed

lemma PG_ADDR_add:
  assumes "POFF va + k < 4096"
  shows "POFF (va + of_nat k) = POFF va + k" "PG_ADDR (va + of_nat k) = PG_ADDR va"
    "KMEM_END \<le> va \<Longrightarrow> KMEM_END \<le> va + of_nat k"
proof -
  have e: "unat va + k = 4096 * (unat va div 4096) + (unat va mod 4096 + k)" by simp
  have "unat va < 2 ^ LENGTH(32)" by (rule unsigned_less)
  then have q: "unat va div 4096 < 1048576" by (simp add: less_mult_imp_div_less)
  have "a + k < 4096 * (d + 1)" if "a = 4096 * d + b" "b + k < 4096" for a b d :: nat using that by simp
  from this [of "unat va" "unat va div 4096" "unat va mod 4096"]
  have "unat va + k < 4096 * (unat va div 4096 + 1)" using assms unfolding POFF_mod by simp
  also have "\<dots> \<le> 4096 * 1048576" using q by (intro mult_le_mono2) simp
  finally have "unat va + k < 2 ^ LENGTH(32)" by simp
  moreover have "va + of_nat k = of_nat (unat va + k)" by simp
  ultimately have u: "unat (va + of_nat k) = unat va + k" by (simp only: unsigned_of_nat take_bit_nat_eq_self of_nat_id)
  have "(a + k) mod 4096 = b + k \<and> (a + k) div 4096 = d" if "a = 4096 * d + b" "b + k < 4096" for a b d :: nat
    using that by (simp add: add.assoc)
  from this [of "unat va" "unat va div 4096" "unat va mod 4096"]
  have "(unat va + k) mod 4096 = unat va mod 4096 + k" "(unat va + k) div 4096 = unat va div 4096"
    using assms unfolding POFF_mod by simp_all
  then show "POFF (va + of_nat k) = POFF va + k" "PG_ADDR (va + of_nat k) = PG_ADDR va"
    by (simp_all add: POFF_mod word_unat_eq_iff unat_PG_ADDR u)
  show "KMEM_END \<le> va \<Longrightarrow> KMEM_END \<le> va + of_nat k" using u by (simp add: word_le_nat_alt)
qed

lemma vm_verify_page_Ok:
  assumes cu: "k_proc s (k_cu s) = Some c" and va: "KMEM_END \<le> va" "0 < n" "POFF va + n \<le> 4096" "PG_ADDR va \<noteq> 0xFFFFF000"
    and w: "walk s (vm_pgd (p_vm c)) va = Some (f, True)"
  shows "vm_verify va (of_nat n) s = Ok 0 s"
proof -
  have e: "va + of_nat n - 1 = va + of_nat (n - 1)" using va(2) by (cases n) simp_all
  have "POFF va + (n - 1) < 4096" using va(2,3) by simp
  then have l: "PG_ADDR (va + of_nat n - 1) = PG_ADDR va" unfolding e by (rule PG_ADDR_add(2))
  have "\<exists>f. walk s (vm_pgd (p_vm c)) v = Some (f, True)" if "PG_ADDR va \<le> v" "v \<le> PG_ADDR va" for v
  proof -
    have "v = PG_ADDR va" using that by (rule order_antisym [symmetric])
    then have "PG_ADDR v = PG_ADDR va" using unat_PG_ADDR [of "PG_ADDR va"] by (simp add: word_unat_eq_iff unat_PG_ADDR)
    then show ?thesis using view_same_page(1) w by metis
  qed
  then show ?thesis
    using verify_pages_Ok [OF cu PG_ADDR_user [OF va(1)] order_refl] va(1,4) l
    by (simp add: vm_verify_def kthen_Ok kop_simps not_less [symmetric])
qed

lemma put_user_page:
  assumes "KMEM_END \<le> va" "walk s (k_cr3 s) va = Some (g, w)" "POFF va + length bs \<le> 4096"
  shows "put_user (map Some bs) va s =
    Ok () (mem_mod g (\<lambda>m j. if POFF va \<le> j \<and> j < POFF va + length bs then bs ! (j - POFF va) else m j) s)"
  using assms
proof (induction bs arbitrary: va s)
  case Nil
  have "(\<lambda>m j. if POFF va \<le> j \<and> j < POFF va then x j else m j) = (\<lambda>m. m)" for x :: "nat \<Rightarrow> uchar" by (auto simp: fun_eq_iff)
  then show ?case by (simp add: kop_simps mem_mod_def)
next
  case (Cons b bs)
  let ?s = "mem_mod g (\<lambda>m. m(POFF va := b)) s"
  have "put_user (map Some bs) (va + 1) ?s =
      Ok () (mem_mod g (\<lambda>m j. if POFF va + 1 \<le> j \<and> j < POFF va + 1 + length bs then bs ! (j - (POFF va + 1)) else m j) ?s)"
  proof (cases "bs = []")
    case True
    have "(\<lambda>m j. if Suc (POFF va) \<le> j \<and> j < Suc (POFF va) then x j else m j) = (\<lambda>m. m)" for x :: "nat \<Rightarrow> uchar"
      by (auto simp: fun_eq_iff)
    with True show ?thesis by (simp add: kop_simps mem_mod_def)
  next
    case False
    then have "POFF va + 1 < 4096" using Cons.prems(3) by (cases bs) simp_all
    note p = PG_ADDR_add [OF this]
    show ?thesis using Cons.IH [of "va + 1" ?s] Cons.prems p view_same_page(1) [of "va + 1" va] by (simp cong: if_cong)
  qed
  moreover have "put_user (map Some (b # bs)) va s = put_user (map Some bs) (va + 1) ?s"
    using Cons.prems by (simp add: mmu_def kop_simps not_less [symmetric])
  moreover have "mem_mod g (\<lambda>m j. if POFF va + 1 \<le> j \<and> j < POFF va + 1 + length bs then bs ! (j - (POFF va + 1)) else m j) ?s =
      mem_mod g (\<lambda>m j. if POFF va \<le> j \<and> j < POFF va + length (b # bs) then (b # bs) ! (j - POFF va) else m j) s"
    by (auto simp: mem_mod_def fun_eq_iff nth_Cons' intro!: arg_cong [of _ _ "\<lambda>x. s\<lparr>k_mem := x\<rparr>"])
  ultimately show ?case by simp
qed

section \<open>Properties\<close>


text \<open>
  C27: checking a range of user memory. \<^verbatim>\<open>vm_verify\<close> refuses an address in kernel
  memory. A range whose pages are all mapped and writable is accepted without any change,
  except that a range that reaches the last page of the address space panics. A size for
  which the end of the range wraps around to a page below its start is accepted without any page of it
  being looked at.
\<close>

theorem vm_verify_bounds:
  assumes cu: "k_proc s (k_cu s) = Some c"
  shows "(addr < KMEM_END \<longrightarrow> vm_verify addr sz s = Ok (-1) s) \<and>
    (KMEM_END \<le> addr \<and> PG_ADDR (addr + sz - 1) < PG_ADDR addr \<longrightarrow> vm_verify addr sz s = Ok 0 s) \<and>
    (KMEM_END \<le> addr \<and> PG_ADDR addr \<le> PG_ADDR (addr + sz - 1) \<and>
      (\<forall>v. PG_ADDR addr \<le> v \<and> v \<le> PG_ADDR (addr + sz - 1) \<longrightarrow> (\<exists>f. walk s (vm_pgd (p_vm c)) v = Some (f, True))) \<longrightarrow>
      vm_verify addr sz s = (if PG_ADDR (addr + sz - 1) = 0xFFFFF000
        then Stop (Panic ''find_pte(): don't touch kernel's address space.'') s else Ok 0 s))"
proof (intro conjI impI)
  show "addr < KMEM_END \<Longrightarrow> vm_verify addr sz s = Ok (-1) s" by (simp add: vm_verify_def kop_simps)
  show "KMEM_END \<le> addr \<and> PG_ADDR (addr + sz - 1) < PG_ADDR addr \<Longrightarrow> vm_verify addr sz s = Ok 0 s"
    by (simp add: vm_verify_def verify_pages_def kop_simps not_less [symmetric])
next
  let ?f = "PG_ADDR addr" and ?l = "PG_ADDR (addr + sz - 1)"
  assume a: "KMEM_END \<le> addr \<and> ?f \<le> ?l \<and>
    (\<forall>v. ?f \<le> v \<and> v \<le> ?l \<longrightarrow> (\<exists>f. walk s (vm_pgd (p_vm c)) v = Some (f, True)))"
  then show "vm_verify addr sz s = (if ?l = 0xFFFFF000
      then Stop (Panic ''find_pte(): don't touch kernel's address space.'') s else Ok 0 s)"
    using verify_pages_Ok [OF cu PG_ADDR_user, of addr ?l] unfolding vm_verify_def
    by (simp add: kthen_def kbind_def kret_def not_less [symmetric])
qed

text \<open>A parent with the directory in page 10 and a child with the directory in page 11.\<close>

definition cow_procs :: kernel where
  "cow_procs = small_space\<lparr>k_proc := [0 \<mapsto> zero_proc\<lparr>p_vm := (p_vm zero_proc)\<lparr>vm_pgd := 10\<rparr>\<rparr>,
     1 \<mapsto> zero_proc\<lparr>p_vm := (p_vm zero_proc)\<lparr>vm_pgd := 11,
       vm_area := (\<lambda>_. zero_vma)(0 := zero_vma\<lparr>v_flag := VMA_PRIVATE, v_base := KMEM_END, v_size := PAGE\<rparr>)\<rparr>\<rparr>]\<rparr>"

lemma cow_procs_space:
  "pm_inv cow_procs" "class_sizes cow_procs" "space_wf cow_procs 10" "walk cow_procs 10 KMEM_END = Some (2, True)"
  "k_cu cow_procs = 0"
proof -
  let ?s = "cow_procs"
  have c: "page_cnt ?s = page_cnt small_space" "user_refs k ?s d f = user_refs k small_space d f" for k d f
    by (auto simp: cow_procs_def page_cnt_def user_refs_def cong: if_cong)
  show "pm_inv ?s" using small_space_pm unfolding pm_inv_def c(1) by (simp add: cow_procs_def)
  show "space_wf ?s 10" using small_space_wf unfolding space_wf_def c by (simp add: cow_procs_def)
  show "class_sizes ?s" by (simp add: class_sizes_def cow_procs_def small_space_def boot_kernel_def bktab0_def)
  have "walk ?s = walk small_space" by (simp add: fun_eq_iff walk_def cow_procs_def)
  then show "walk ?s 10 KMEM_END = Some (2, True)"
    by (simp add: walk_def PDX_KMEM_END small_space_present PTX_def Let_def) (simp add: small_space_def)
  show "k_cu ?s = 0" by (simp add: cow_procs_def small_space_def boot_kernel_def)
qed


theorem vm_verify_bounds_witness:
  "vm_verify 0x1000 16 cow_procs = Ok (-1) cow_procs \<and> vm_verify 0x8000000 16 cow_procs = Ok 0 cow_procs \<and>
    vm_verify 0x9000000 0xF8000000 cow_procs = Ok 0 cow_procs"
proof -
  define c where "c = zero_proc\<lparr>p_vm := (p_vm zero_proc)\<lparr>vm_pgd := 10\<rparr>\<rparr>"
  have c: "k_proc cow_procs (k_cu cow_procs) = Some c" "vm_pgd (p_vm c) = 10"
    by (simp_all add: cow_procs_space(5)) (simp_all add: cow_procs_def c_def)
  have "v = KMEM_END" if "KMEM_END \<le> v" "v \<le> KMEM_END" for v using that by (rule order_antisym [symmetric])
  then show ?thesis
    using vm_verify_bounds [OF c(1), of "0x1000" 16] vm_verify_bounds [OF c(1), of "0x8000000" 16]
      vm_verify_bounds [OF c(1), of "0x9000000" "0xF8000000"] cow_procs_space(4) c(2)
    by (auto simp: PG_ADDR_def)
qed

end
