(* ===== verification/Proc.thy ===== *)
theory Proc
  imports File Vm
begin

unbundle bit_operations_syntax

text \<open>
  The life of a process: creation (\<^verbatim>\<open>src/kern/fork.c\<close>), termination (\<^verbatim>\<open>src/kern/exit.c\<close>),
  waiting for children (\<^verbatim>\<open>src/kern/wait.c\<close>), the delivery of signals (\<^verbatim>\<open>psig\<close> and
  \<^verbatim>\<open>do_sigaction\<close> of \<^verbatim>\<open>src/kern/signal.c\<close>) with the stack routine \<^verbatim>\<open>upush\<close> of
  \<^verbatim>\<open>src/kern/exec.c\<close> it needs, and the full \<^verbatim>\<open>sleep\<close> of \<^verbatim>\<open>src/kern/sched.c\<close>. Three things the
  code takes from elsewhere are arguments: the machine code of \<^verbatim>\<open>_usigret\<close> that is copied onto
  the user stack, the address of the interrupt return routine, and what the page of a new
  process structure holds before it is filled in.
\<close>

section \<open>The user stack\<close>

definition le32 :: "uint \<Rightarrow> uchar list" where
  "le32 w = map (byte32 w) [0, 1, 2, 3]"

definition get_user32 :: "kernel \<Rightarrow> uint \<Rightarrow> uint option" where
  "get_user32 s va = (case (get_user s va, get_user s (va + 1), get_user s (va + 2), get_user s (va + 3)) of
     (Some a, Some b, Some c, Some d) \<Rightarrow> Some (get32 (\<lambda>j. [a, b, c, d] ! j) 0) | _ \<Rightarrow> None)"

definition upush :: "uint \<Rightarrow> uchar list \<Rightarrow> uint kop" where
  "upush esp buf = (let tmp = esp - of_nat (length buf) in
     kbind (vm_verify tmp (of_nat (length buf))) (\<lambda>r.
     if r < 0 then panic ''upush(): bad mem'' else kthen (put_user (map Some buf) tmp) (kret tmp)))"

definition jmp_buf_bytes :: "jmp_buf \<Rightarrow> uchar list" where
  "jmp_buf_bytes b = concat (map le32 [jb_eip b, jb_esp b, jb_ebx b, jb_ecx b, jb_edx b, jb_esi b, jb_edi b,
     jb_ebp b, jb_sigmask b])"

section \<open>Termination (exit.c)\<close>

text \<open>The address of a process structure as a wait channel; \<^verbatim>\<open>proc[nr]\<close> may be null.\<close>

definition proc_chan :: "kernel \<Rightarrow> nat \<Rightarrow> chan" where
  "proc_chan s nr = (if k_proc s nr = None then Ch0 else Ch_proc nr)"

definition exit_close :: "unit kop" where
  "exit_close = kfor [0..<NOFILE] (\<lambda>fd. kbind (cu_get (\<lambda>p. p_ofile p fd)) (\<lambda>fp.
     kthen (kwhen (fp \<noteq> None) (kthen (do_close (int fd)) (kret ())))
       (cu_mod (\<lambda>p. p\<lparr>p_ofile := (p_ofile p)(fd := None)\<rparr>))))"

text \<open>From the change of the state on: children go to process 1, which is woken with the parent.\<close>

definition exit_zombie :: "int kop" where
  "exit_zombie = kthen (cu_mod (\<lambda>p. p\<lparr>p_chan := Ch0, p_stat := SZOMB\<rparr>))
     (kbind (kget k_cu) (\<lambda>cu. kbind (cu_get p_pid) (\<lambda>pid.
      kthen (kfor [1..<NPROC] (\<lambda>nr. kmod (\<lambda>s. if nr \<noteq> cu then
          proc_mod nr (\<lambda>p. if p_ppid p = pid then p\<lparr>p_ppid := 1\<rparr> else p) s else s)))
     (kbind (cu_get p_ppid) (\<lambda>pp. if unat pp \<ge> NPROC then kstop (Fault ''proc[p_ppid]'') else
      kbind (kget (\<lambda>s. proc_chan s (unat pp))) (\<lambda>ch. kthen (wakeup ch)
     (kbind (kget (\<lambda>s. proc_chan s 1)) (\<lambda>ch1. kthen (wakeup ch1) (kret 0)))))))))"

definition do_exit :: "int \<Rightarrow> int kop" where
  "do_exit ret =
     kthen (cu_mod (\<lambda>p. p\<lparr>p_ret := word_of_int ret\<rparr>))
     (kthen (cu_mod (\<lambda>p. p\<lparr>p_sigact := (\<lambda>nr. if nr < NSIG then (p_sigact p nr)\<lparr>sa_handler := SIG_DFL, sa_flags := 0\<rparr>
                            else p_sigact p nr)\<rparr>))
     (kthen exit_close
     (kbind (cu_get p_iroot) (\<lambda>r. kthen (iput r)
     (kbind (cu_get p_wdir) (\<lambda>d. kthen (iput d)
     (kbind (cu_get p_ppid) (\<lambda>pp. kthen (sigsend (sint pp) (uint SIGCHLD) True)
     (kthen vm_clear
     (kbind (cu_get (\<lambda>p. vm_pgd (p_vm p))) (\<lambda>pgd. kthen (kfree 0 (of_nat pgd * PAGE) PAGE)
      exit_zombie)))))))))))"

section \<open>Delivering a signal (signal.c)\<close>

definition psig :: "uchar list \<Rightarrow> unit kop" where
  "psig usigret = kbind (cu_get p_cursig) (\<lambda>n.
     if n = 0 \<or> n > 32 then kret ()
     else
       kthen (cu_mod (\<lambda>p. p\<lparr>p_sig := p_sig p AND NOT (shl1 (n - 1))\<rparr>))
       (kbind (cu_get (\<lambda>p. p_sigact p (unat n - 1))) (\<lambda>sa.
        kthen (cu_mod (\<lambda>p. p\<lparr>p_cursig := 0\<rparr>))
        (if sa_handler sa \<noteq> SIG_DFL then
           kbind (cu_get p_trap) (\<lambda>t. kderef ''p_trap'' t (\<lambda>tf. kbind (cu_get p_sigmask) (\<lambda>msk.
           kthen (kwhen (sa_flags sa AND SA_NOMASK = 0) (cu_mod (\<lambda>p. p\<lparr>p_sigmask := p_sigmask p OR sa_mask sa\<rparr>)))
           (kbind (upush (tf_esp tf) usigret) (\<lambda>usr.
            kbind (upush usr (jmp_buf_bytes (usigsav tf msk))) (\<lambda>ujbuf.
            kbind (upush ujbuf (le32 n)) (\<lambda>e1. kbind (upush e1 (le32 usr)) (\<lambda>esp.
            kthen (kwhen (sa_flags sa AND SA_ONESHOT \<noteq> 0)
              (cu_mod (\<lambda>p. p\<lparr>p_sigact := (p_sigact p)(unat n - 1 := (p_sigact p (unat n - 1))\<lparr>sa_handler := 0\<rparr>)\<rparr>)))
             (kstop (Ret_user (sa_handler sa) esp))))))))))
         else if n = SIGCHLD \<or> n = SIGCONT then kret ()
         else kthen (kwhen (n = SIGSEGV) (kthen (printk (\<lambda>_. []) (ascii (''seg fault.'' @ [CHR 0x0A])) []) (kret ())))
          (kthen (do_exit 1) (kret ()))))))"

definition do_sigaction :: "int \<Rightarrow> uint \<Rightarrow> uint \<Rightarrow> int kop" where
  "do_sigaction sig sa old_sa =
     (if sig < 1 \<or> sig > int NSIG \<or> sig = uint SIGKILL \<or> sa = 0 then kthen (syserr EINVAL) (kret (-1))
      else let i = nat sig - 1 in
       kbind (if old_sa \<noteq> 0 then
           kbind (vm_verify old_sa 16) (\<lambda>r. if r < 0 then kret False
             else kbind (cu_get (\<lambda>p. p_sigact p i)) (\<lambda>a.
               kthen (put_user (map Some (concat (map le32 [sa_handler a, sa_mask a, sa_flags a, sa_restorer a]))) old_sa)
                (kret True)))
         else kret True) (\<lambda>ok.
       if \<not> ok then kthen (syserr EFAULT) (kret (-1))
       else kbind (vm_verify sa 16) (\<lambda>r. if r < 0 then kthen (syserr EFAULT) (kret (-1))
         else kbind (kget (\<lambda>s. (get_user32 s sa, get_user32 s (sa + 4), get_user32 s (sa + 8), get_user32 s (sa + 12)))) (\<lambda>ws.
           case ws of
             (Some h, Some m, Some f, Some rs) \<Rightarrow>
               kthen (cu_mod (\<lambda>p. p\<lparr>p_sigact := (p_sigact p)(i :=
                 \<lparr>sa_handler = h, sa_mask = m OR shl1 (word_of_int sig - 1), sa_flags = f, sa_restorer = rs\<rparr>)\<rparr>)) (kret 0)
           | _ \<Rightarrow> kstop (Fault ''page'')))))"

section \<open>Sleeping (sched.c)\<close>

definition sleep :: "uchar list \<Rightarrow> chan \<Rightarrow> int \<Rightarrow> unit kop" where
  "sleep usigret chan pri =
     (if pri < 0 then sleep_unint chan pri
      else
        kthen (kbind issig (\<lambda>n. kwhen (n \<noteq> 0) (psig usigret)))
        (kthen (cu_mod (\<lambda>p. p\<lparr>p_chan := chan, p_pri := pri, p_stat := SWAIT\<rparr>))
        (kthen (kbind issig (\<lambda>n. kwhen (n \<noteq> 0) (psig usigret))) swtch)))"

section \<open>Creation (fork.c)\<close>

definition find_pid :: "nat kop" where
  "find_pid = kget (\<lambda>s. case scan (\<lambda>nr. k_proc s nr = None) 0 NPROC of Some nr \<Rightarrow> nr | None \<Rightarrow> 0)"

text \<open>The fields of the new structure that are copied from the current process.\<close>

definition spawn_copy :: "proc \<Rightarrow> nat \<Rightarrow> nat \<Rightarrow> proc \<Rightarrow> proc" where
  "spawn_copy c nr addr p = p\<lparr>p_addr := addr, p_stat := SSLEEP, p_pid := of_nat nr, p_ppid := p_pid c, p_pgrp := p_pgrp c,
     p_flag := p_flag c, p_cpu := p_cpu c, p_nice := p_nice c, p_pri := PUSER, p_euid := p_euid c, p_egid := p_egid c,
     p_ruid := p_ruid c, p_rgid := p_rgid c\<rparr>"

definition ino_ref :: "string \<Rightarrow> nat option \<Rightarrow> unit kop" where
  "ino_ref what ipo = kderef what ipo (\<lambda>ip. kmod (ino_mod ip (\<lambda>i. i\<lparr>i_count := i_count i + 1\<rparr>)))"

definition kspawn :: "proc \<Rightarrow> uint \<Rightarrow> nat kop" where
  "kspawn junk func = kbind find_pid (\<lambda>nr. if nr = 0 then panic ''no free pid''
     else kbind (kmalloc 0 PAGE) (\<lambda>a. if a = 0 then panic ''no free page''
     else kbind (cu_get id) (\<lambda>c.
       kthen (kmod (\<lambda>s. s\<lparr>k_proc := (k_proc s)(nr \<mapsto> spawn_copy c nr (unat (PPN a)) junk)\<rparr>))
       (kthen (kwhen (p_wdir c \<noteq> None)
         (kthen (kmod (proc_mod nr (\<lambda>p. p\<lparr>p_wdir := p_wdir c\<rparr>))) (kthen (ino_ref ''p_wdir'' (p_wdir c))
          (kthen (kmod (proc_mod nr (\<lambda>p. p\<lparr>p_iroot := p_iroot c\<rparr>))) (ino_ref ''p_iroot'' (p_iroot c))))))
       (kthen (kfor [0..<NOFILE] (\<lambda>fd.
          kthen (case p_ofile c fd of None \<Rightarrow> kret () | Some fp \<Rightarrow>
            kthen (kmod (file_mod fp (\<lambda>f. f\<lparr>f_count := f_count f + 1\<rparr>)))
             (kbind (kget (\<lambda>s. f_ino (k_file s fp))) (ino_ref ''f_ino'')))
           (kmod (proc_mod nr (\<lambda>p. p\<lparr>p_ofile := (p_ofile p)(fd := p_ofile c fd), p_fdflag := (p_fdflag p)(fd := p_fdflag c fd)\<rparr>)))))
       (kthen (kmod (proc_mod nr (\<lambda>p. p\<lparr>p_sig := p_sig c, p_sigmask := p_sigmask c,
          p_sigact := (\<lambda>n. if n < NSIG then p_sigact c n else p_sigact p n)\<rparr>)))
       (kthen (vm_clone nr)
       (kthen (kmod (proc_mod nr (\<lambda>p. p\<lparr>p_contxt := (p_contxt c)\<lparr>jb_eip := func, jb_esp := a + PAGE\<rparr>, p_stat := SRUN\<rparr>)))
        (kret nr)))))))))"

text \<open>The trap frame at the top of the kernel stack has 76 bytes.\<close>

definition do_fork :: "proc \<Rightarrow> uint \<Rightarrow> trap \<Rightarrow> int kop" where
  "do_fork junk hwint_ret tf = kbind (kspawn junk hwint_ret) (\<lambda>nr.
     kthen (kmod (proc_mod nr (\<lambda>p. p\<lparr>p_contxt := (p_contxt p)\<lparr>jb_esp := of_nat (p_addr p) * PAGE + PAGE - 76\<rparr>,
        p_trap := Some (tf\<lparr>tf_eax := 0\<rparr>)\<rparr>)))
      (kbind (kget (\<lambda>s. k_proc s nr)) (\<lambda>q. kderef ''p'' q (\<lambda>p. kret (sint (p_pid p))))))"

definition proc0_init :: "unit kop" where
  "proc0_init = kmod (\<lambda>s. s\<lparr>k_cu := 0, k_proc := (k_proc s)(0 \<mapsto> zero_proc\<lparr>p_pid := 0, p_ppid := 0, p_stat := SRUN,
     p_flag := 1, p_cpu := 0, p_pri := 0, p_nice := 20, p_euid := 0, p_egid := 0,
     p_vm := (p_vm zero_proc)\<lparr>vm_pgd := k_pgd0 s\<rparr>, p_wdir := None, p_iroot := None, p_ofile := (\<lambda>_. None)\<rparr>)\<rparr>)"

section \<open>Waiting (wait.c)\<close>

definition wait_for :: "int \<Rightarrow> proc \<Rightarrow> proc \<Rightarrow> bool" where
  "wait_for pid c p \<longleftrightarrow> p_ppid p = p_pid c \<and>
     (if pid < -1 then p_pgrp p = p_pid c else if pid = -1 then True
      else if pid = 0 then p_pgrp p = p_pgrp c else p_pid p = word_of_int pid)"

text \<open>
  A process that comes back from the sleep without having given up the processor
  finds the same table again.
\<close>

definition do_waitpid :: "uchar list \<Rightarrow> int \<Rightarrow> uint \<Rightarrow> uint \<Rightarrow> int kop" where
  "do_waitpid usigret pid stat opt = kbind (vm_verify stat 4) (\<lambda>r.
     if r < 0 then kthen (syserr EFAULT) (kret (-1))
     else kbind (cu_get id) (\<lambda>c. kbind (kget (\<lambda>s. scan (\<lambda>nr. nr \<noteq> k_cu s \<and>
            (case k_proc s nr of None \<Rightarrow> False | Some p \<Rightarrow> wait_for pid c p \<and> p_stat p = SZOMB)) 1 NPROC)) (\<lambda>q. case q of
         Some nr \<Rightarrow> kbind (kget (\<lambda>s. k_proc s nr)) (\<lambda>z. kderef ''p'' z (\<lambda>p.
           kthen (put_user (map Some (le32 (scast (p_ret p)))) stat)
            (if unat (p_pid p) \<ge> NPROC then kstop (Fault ''proc[pid]'')
             else kthen (kmod (\<lambda>s. s\<lparr>k_proc := (k_proc s)(unat (p_pid p) := None)\<rparr>))
              (kthen (kfree 0 (of_nat (p_addr p) * PAGE) PAGE) (kret (sint (p_pid p)))))))
       | None \<Rightarrow> if opt AND 1 \<noteq> 0 then kret 0
           else kbind (kget k_cu) (\<lambda>me. kthen (sleep usigret (Ch_proc me) PWAIT) (kstop Spin)))))"

section \<open>Returning a page\<close>

lemma length_le32 [simp]: "length (le32 w) = 4"
  by (simp add: le32_def)

lemma le32_nth: "k < 4 \<Longrightarrow> le32 w ! k = byte32 w k"
  by (auto simp: le32_def less_Suc_eq numeral_eq_Suc)

lemma pgfree_frame: "pgfree p s = Ok n s' \<Longrightarrow> \<exists>cm fl. s' = s\<lparr>k_coremap := cm, k_pgfree := fl\<rparr>"
  by (rule exI [of _ "k_coremap s'"], rule exI [of _ "k_pgfree s'"])
    (auto simp: pgfree_def kop_simps page_mod_def kwhen_def split: if_splits)

lemma PPN_of_nat: "p < NPAGE \<Longrightarrow> unat (PPN (of_nat p * PAGE)) = p"
proof -
  assume p: "p < NPAGE"
  have "unat (PPN (of_nat p * PAGE)) = unat (of_nat (p * 4096) :: uint) div 4096"
    by (simp add: PPN_def drop_bit_eq_div unat_div)
  also have "unat (of_nat (p * 4096) :: uint) = p * 4096"
    using p by (simp add: unsigned_of_nat take_bit_nat_eq_self del: of_nat_mult)
  finally show ?thesis by simp
qed

lemma kfree_page_Ok:
  assumes "pm_inv s" "class_sizes s" "p < NPAGE" "page_cnt s p > 0"
  obtains cm fl where "kfree 0 (of_nat p * PAGE) PAGE s = Ok 0 (s\<lparr>k_coremap := cm, k_pgfree := fl\<rparr>)"
    "pm_inv (s\<lparr>k_coremap := cm, k_pgfree := fl\<rparr>)"
    "page_cnt (s\<lparr>k_coremap := cm, k_pgfree := fl\<rparr>) = (page_cnt s)(p := page_cnt s p - 1)"
proof -
  have k: "kfree 0 (of_nat p * PAGE) PAGE s = kthen (pgfree p) (kret 0) s"
    using assms(3) PPN_of_nat [OF assms(3)] by (simp add: kfree_page [OF assms(2)] pgfind_def kop_simps)
  obtain n s' where s': "pgfree p s = Ok n s'" "pm_inv s'" "page_cnt s' = (page_cnt s)(p := page_cnt s p - 1)"
    using pages.free_Ok [OF assms(1,3,4)] by blast
  obtain cm fl where "s' = s\<lparr>k_coremap := cm, k_pgfree := fl\<rparr>" using pgfree_frame [OF s'(1)] by blast
  with s' k that show thesis by (simp add: kthen_Ok kop_simps)
qed

lemma walk_frame [simp]:
  "walk (s\<lparr>k_coremap := cm\<rparr>) = walk s" "walk (s\<lparr>k_pgfree := fl\<rparr>) = walk s" "walk (s\<lparr>k_proc := tab\<rparr>) = walk s"
  by (simp_all add: walk_def fun_eq_iff)

lemma get_user_page:
  assumes "KMEM_END \<le> va" "walk s (k_cr3 s) va = Some (g, w)" "POFF va + k < 4096"
  shows "get_user s (va + of_nat k) = Some (k_mem s g (POFF va + k))"
  using PG_ADDR_add [OF assms(3)] assms(1,2) view_same_page(1) [of "va + of_nat k" va]
  by (simp add: get_user_def mmu_def not_less [symmetric])

lemma get_user32_page:
  assumes "KMEM_END \<le> va" "walk s (k_cr3 s) va = Some (g, w)" "POFF va \<le> 4092"
    and "\<And>k. k < 4 \<Longrightarrow> k_mem s g (POFF va + k) = byte32 x k"
  shows "get_user32 s va = Some x"
proof -
  have "get_user s (va + of_nat k) = Some (byte32 x k)" if "k < 4" for k
    using get_user_page [OF assms(1,2), of k] that assms(3,4) by simp
  from this [of 0] this [of 1] this [of 2] this [of 3] show ?thesis
    by (simp add: get_user32_def) (rule get32_byte32, auto simp: less_Suc_eq numeral_eq_Suc)
qed

section \<open>Leaving\<close>

lemma sigsend_chld:
  assumes "k_proc s (k_cu s) = Some c" "0 < p" "p < NPROC" "k_proc s p = Some par"
    "sa_handler (p_sigact par 16) \<noteq> SIG_IGN"
  shows "sigsend (int p) (uint SIGCHLD) True s = Ok 0 (proc_mod p (\<lambda>q. q\<lparr>p_sig := p_sig q OR shl1 16,
    p_chan := (if p_stat par = SWAIT then Ch0 else p_chan q), p_stat := (if p_stat par = SWAIT then SRUN else p_stat q)\<rparr>) s)"
  using assms by (auto simp: sigsend_def kop_simps setrun_def proc_mod_def)

text \<open>
  A process that has no open files and no mapped memory left, and whose two directories
  have other users, leaves; \<open>par\<close> is its parent in slot \<open>pp\<close>.
\<close>

definition leaving :: "kernel \<Rightarrow> proc \<Rightarrow> nat \<Rightarrow> proc \<Rightarrow> bool" where
  "leaving s c pp par \<longleftrightarrow> proc_wf s \<and> k_proc s (k_cu s) = Some c \<and> (\<forall>fd<NOFILE. p_ofile c fd = None) \<and>
     (\<exists>ri wi. p_iroot c = Some ri \<and> p_wdir c = Some wi \<and>
        (\<forall>ip\<in>{ri, wi}. i_count (k_inode s ip) > 2 \<and> i_flag (k_inode s ip) AND 3 = 0)) \<and>
     (\<forall>i<NVMA. v_flag (vm_area (p_vm c) i) = 0) \<and>
     (\<forall>i. 32 \<le> i \<and> i < 1024 \<longrightarrow> \<not> pd_present (k_pgd s (vm_pgd (p_vm c)) i)) \<and>
     pm_inv s \<and> class_sizes s \<and> vm_pgd (p_vm c) < NPAGE \<and> page_cnt s (vm_pgd (p_vm c)) > 0 \<and>
     p_ppid c = of_nat pp \<and> 0 < pp \<and> pp \<noteq> k_cu s \<and> k_proc s pp = Some par \<and> k_proc s 1 \<noteq> None \<and>
     sa_handler (p_sigact par 16) \<noteq> SIG_IGN"

lemma vm_clear_empty:
  assumes "k_proc s (k_cu s) = Some c" "\<forall>i<NVMA. v_flag (vm_area (p_vm c) i) = 0"
    "\<forall>i. 32 \<le> i \<and> i < 1024 \<longrightarrow> \<not> pd_present (k_pgd s (vm_pgd (p_vm c)) i)"
  shows "vm_clear s = Ok 0 s"
proof -
  have "kfor [0..<NVMA] (\<lambda>i. kbind (cu_get (\<lambda>p. vm_area (p_vm p) i)) (\<lambda>vp. kwhen (v_flag vp \<noteq> 0)
          (kthen (case v_ino vp of None \<Rightarrow> kret () | Some ip \<Rightarrow> iput (Some ip))
           (area_mod i (\<lambda>v. v\<lparr>v_ino := None, v_flag := 0, v_base := 0, v_size := 0\<rparr>))))) s = Ok () s"
    by (rule kfor_skip) (use assms(1,2) in \<open>simp add: kop_simps\<close>)
  moreover have "pt_free (vm_pgd (p_vm c)) s = Ok 0 s"
  proof -
    have "kfor [32..<1024] f s = Ok () s" if "\<And>i. 32 \<le> i \<Longrightarrow> i < 1024 \<Longrightarrow> f i s = Ok () s" for f
      by (rule kfor_skip) (use that in \<open>simp only: set_upt atLeastLessThan_iff\<close>)
    note k = this
    show ?thesis unfolding pt_free_def PDX_KMEM_END
      by (subst kthen_Ok, rule k) (use assms(3) in \<open>simp_all add: kop_simps pd_present_def\<close>)
  qed
  ultimately show ?thesis using assms(1) unfolding vm_clear_def by (simp add: kthen_Ok kop_simps)
qed

lemma sint_slot: "p < NPROC \<Longrightarrow> sint (of_nat p :: uint) = int p" "p < NPROC \<Longrightarrow> unat (of_nat p :: uint) = p"
  by (simp_all add: unsigned_of_nat take_bit_nat_eq_self sint_uint uint_nat signed_take_bit_int_eq_self)

text \<open>The process table after the reparenting loop and a wakeup.\<close>

definition reparent :: "nat \<Rightarrow> uint \<Rightarrow> (nat \<Rightarrow> proc option) \<Rightarrow> nat \<Rightarrow> proc option" where
  "reparent me pid tab = (\<lambda>j. if 1 \<le> j \<and> j < NPROC \<and> j \<noteq> me then
     map_option (\<lambda>p. if p_ppid p = pid then p\<lparr>p_ppid := 1\<rparr> else p) (tab j) else tab j)"

definition woken :: "chan \<Rightarrow> (nat \<Rightarrow> proc option) \<Rightarrow> nat \<Rightarrow> proc option" where
  "woken ch tab = (\<lambda>i. if i < NPROC then
     map_option (\<lambda>p. if p_chan p = ch then p\<lparr>p_chan := Ch0, p_stat := SRUN\<rparr> else p) (tab i) else tab i)"

lemma wakeup_woken: "wakeup ch s = Ok () (s\<lparr>k_proc := woken ch (k_proc s)\<rparr>)"
  by (simp add: wakeup_eq woken_def)

lemma kfor_reparent:
  "kfor [1..<NPROC] (\<lambda>nr. kmod (\<lambda>s. if nr \<noteq> me then
      proc_mod nr (\<lambda>p. if p_ppid p = pid then p\<lparr>p_ppid := 1\<rparr> else p) s else s)) s =
    Ok () (s\<lparr>k_proc := reparent me pid (k_proc s)\<rparr>)"
proof -
  let ?g = "\<lambda>j. if j \<noteq> me then map_option (\<lambda>p. if p_ppid p = pid then p\<lparr>p_ppid := 1\<rparr> else p) else id"
  have "kmod (\<lambda>s. if nr \<noteq> me then proc_mod nr (\<lambda>p. if p_ppid p = pid then p\<lparr>p_ppid := 1\<rparr> else p) s else s) s =
      Ok () (s\<lparr>k_proc := (k_proc s)(nr := ?g nr (k_proc s nr))\<rparr>)" for nr s
    by (simp add: kop_simps proc_mod_def)
  from kfor_table [of _ ?g, OF this, of "[1..<NPROC]"] show ?thesis
    by (auto simp: reparent_def fun_eq_iff intro!: arg_cong [of _ _ "\<lambda>x. s\<lparr>k_proc := x\<rparr>"] simp del: upt.simps)
qed

lemma exit_zombie_run:
  assumes "k_proc s (k_cu s) = Some c" "p_ppid c = of_nat pp" "pp < NPROC"
    and tab: "tab = reparent (k_cu s) (p_pid c) ((k_proc s)(k_cu s \<mapsto> c\<lparr>p_chan := Ch0, p_stat := SZOMB\<rparr>))"
    and ex: "tab pp \<noteq> None" "tab 1 \<noteq> None"
  shows "exit_zombie s = Ok 0 (s\<lparr>k_proc := woken (Ch_proc 1) (woken (Ch_proc pp) tab)\<rparr>)"
proof -
  define s1 where "s1 = s\<lparr>k_proc := (k_proc s)(k_cu s \<mapsto> c\<lparr>p_chan := Ch0, p_stat := SZOMB\<rparr>)\<rparr>"
  define s2 where "s2 = s\<lparr>k_proc := tab\<rparr>"
  define rest :: "int kop" where "rest = kbind (cu_get p_ppid) (\<lambda>pp. if unat pp \<ge> NPROC then kstop (Fault ''proc[p_ppid]'') else
    kbind (kget (\<lambda>s. proc_chan s (unat pp))) (\<lambda>ch. kthen (wakeup ch)
    (kbind (kget (\<lambda>s. proc_chan s 1)) (\<lambda>ch1. kthen (wakeup ch1) (kret 0)))))"
  have p1: "cu_mod (\<lambda>p. p\<lparr>p_chan := Ch0, p_stat := SZOMB\<rparr>) s = Ok () s1" "k_cu s1 = k_cu s" "cu_get p_pid s1 = Ok (p_pid c) s1"
    using assms(1) by (simp_all add: s1_def kop_simps)
  have "s1\<lparr>k_proc := reparent (k_cu s) (p_pid c) (k_proc s1)\<rparr> = s2" by (simp add: s1_def s2_def tab)
  then have "exit_zombie s = rest s2"
    using p1 kfor_reparent [of "k_cu s" "p_pid c" s1] unfolding exit_zombie_def rest_def [symmetric]
    by (simp only: kthen_Ok kbind_Ok kbind_simps)
  moreover have "k_proc s2 (k_cu s2) = Some (c\<lparr>p_chan := Ch0, p_stat := SZOMB\<rparr>)"
    by (simp add: s2_def tab reparent_def)
  moreover have "proc_chan s2 pp = Ch_proc pp" "proc_chan (s2\<lparr>k_proc := woken (Ch_proc pp) tab\<rparr>) 1 = Ch_proc 1"
    using ex by (auto simp: proc_chan_def woken_def s2_def)
  ultimately show ?thesis
    using assms(2,3) sint_slot(2) [OF assms(3)] by (simp add: rest_def kop_simps wakeup_woken) (simp add: s2_def)
qed

definition exit_proc :: "int \<Rightarrow> proc \<Rightarrow> proc" where
  "exit_proc ret c = c\<lparr>p_ret := word_of_int ret, p_sigact := (\<lambda>nr. if nr < NSIG
     then (p_sigact c nr)\<lparr>sa_handler := SIG_DFL, sa_flags := 0\<rparr> else p_sigact c nr)\<rparr>"

definition child_signal :: "proc \<Rightarrow> proc" where
  "child_signal q = q\<lparr>p_sig := p_sig q OR shl1 16, p_chan := (if p_stat q = SWAIT then Ch0 else p_chan q),
     p_stat := (if p_stat q = SWAIT then SRUN else p_stat q)\<rparr>"

lemma do_exit_leaving:
  assumes "leaving s c pp par"
  obtains ino cm fl where "do_exit ret s = Ok 0 (s\<lparr>k_inode := ino, k_coremap := cm, k_pgfree := fl,
      k_proc := woken (Ch_proc 1) (woken (Ch_proc pp) (reparent (k_cu s) (p_pid c)
        ((k_proc s)(pp \<mapsto> child_signal par, k_cu s \<mapsto> (exit_proc ret c)\<lparr>p_chan := Ch0, p_stat := SZOMB\<rparr>))))\<rparr>)"
proof -
  let ?me = "k_cu s" and ?pgd = "vm_pgd (p_vm c)"
  have L: "proc_wf s" "k_proc s ?me = Some c" "\<And>fd. fd < NOFILE \<Longrightarrow> p_ofile c fd = None"
    "\<forall>i<NVMA. v_flag (vm_area (p_vm c) i) = 0" "\<forall>i. 32 \<le> i \<and> i < 1024 \<longrightarrow> \<not> pd_present (k_pgd s ?pgd i)"
    "pm_inv s" "class_sizes s" "?pgd < NPAGE" "page_cnt s ?pgd > 0" "p_ppid c = of_nat pp" "0 < pp" "pp \<noteq> ?me"
    "k_proc s pp = Some par" "k_proc s 1 \<noteq> None" "sa_handler (p_sigact par 16) \<noteq> SIG_IGN"
    using assms unfolding leaving_def by auto
  obtain ri wi where I: "p_iroot c = Some ri" "p_wdir c = Some wi"
    "\<And>ip. ip = ri \<or> ip = wi \<Longrightarrow> i_count (k_inode s ip) > 2 \<and> i_flag (k_inode s ip) AND 3 = 0"
    using assms unfolding leaving_def by auto
  have pp: "pp < NPROC" using proc_wfD(1) [OF L(1,13)] .
  define c1 where "c1 = exit_proc ret c"
  have c1: "p_iroot c1 = Some ri" "p_wdir c1 = Some wi" "p_ppid c1 = of_nat pp" "p_vm c1 = p_vm c" "p_pid c1 = p_pid c"
    "\<And>fd. fd < NOFILE \<Longrightarrow> p_ofile c1 fd = None" using I L by (simp_all add: c1_def exit_proc_def)
  define s1 where "s1 = s\<lparr>k_proc := (k_proc s)(?me \<mapsto> c1)\<rparr>"
  define ip' :: "inode \<Rightarrow> inode" where "ip' = (\<lambda>i. i\<lparr>i_count := i_count i - 1, i_flag := i_flag i AND NOT (I_LOCK OR I_WANTED)\<rparr>)"
  define s3 where "s3 = ino_mod wi ip' (ino_mod ri ip' s1)"
  define s4 where "s4 = proc_mod pp child_signal s3"
  have loop: "exit_close s1 = Ok () s1"
    unfolding exit_close_def by (rule kfor_skip) (use c1(6) in \<open>simp add: s1_def kop_simps fun_upd_idem\<close>)
  have ri: "iput (Some ri) s1 = Ok () (ino_mod ri ip' s1)"
    using iput_shared [of s1 ri] I(3) [of ri] low_flags [of "i_flag (k_inode s ri)"]
    by (simp add: s1_def ip'_def word_less_nat_alt)
  have wi: "iput (Some wi) (ino_mod ri ip' s1) = Ok () s3"
  proof -
    have n: "unat (i_count (k_inode s wi)) > 2" "i_count (k_inode s wi) \<noteq> 0" "i_flag (k_inode s wi) AND 3 = 0"
      using I(3) [of wi] by (auto simp: word_less_nat_alt)
    then have "unat (i_count (k_inode s wi) - 1) > 1" by (simp add: unat_minus_one)
    then show ?thesis unfolding s3_def ip'_def
      by (intro iput_shared; cases "wi = ri")
        (use n low_flags [OF n(3)] in \<open>simp_all add: s1_def ino_mod_def word_less_nat_alt\<close>)
  qed
  have k3: "k_proc s3 = (k_proc s)(?me \<mapsto> c1)" "k_cu s3 = ?me" by (simp_all add: s3_def s1_def ino_mod_def)
  have sg: "sigsend (sint (of_nat pp :: uint)) (uint SIGCHLD) True s3 = Ok 0 s4"
    using sigsend_chld [of s3 c1 pp par] k3 pp L(11,12,13,15) sint_slot(1) [OF pp]
    by (simp add: s4_def child_signal_def proc_mod_def)
  have k4: "k_proc s4 = (k_proc s)(?me \<mapsto> c1, pp \<mapsto> child_signal par)" "k_cu s4 = ?me" "k_pgd s4 = k_pgd s"
    using L(12,13) k3 by (simp_all add: s4_def proc_mod_def) (simp add: s3_def s1_def ino_mod_def)
  have m4: "pm_inv s4" "class_sizes s4" "page_cnt s4 = page_cnt s"
    using L(6,7) by (simp_all add: pm_inv_def class_sizes_def page_cnt_def fun_eq_iff s4_def s3_def s1_def ino_mod_def proc_mod_def)
  have cl: "vm_clear s4 = Ok 0 s4"
    by (rule vm_clear_empty [of _ c1]) (use k4 L(4,5,12) c1(4) in simp_all)
  obtain cm fl where f: "kfree 0 (of_nat ?pgd * PAGE) PAGE s4 = Ok 0 (s4\<lparr>k_coremap := cm, k_pgfree := fl\<rparr>)"
    using kfree_page_Ok [OF m4(1,2) L(8)] L(9) m4(3) by metis
  define t6 where "t6 = (k_proc s4)(?me \<mapsto> c1\<lparr>p_chan := Ch0, p_stat := SZOMB\<rparr>)"
  define s5 where "s5 = s4\<lparr>k_coremap := cm, k_pgfree := fl\<rparr>"
  define s6 where "s6 = s5\<lparr>k_proc := reparent ?me (p_pid c) t6\<rparr>"
  have k6: "k_proc s6 ?me = Some (c1\<lparr>p_chan := Ch0, p_stat := SZOMB\<rparr>)" "k_cu s6 = ?me" "k_proc s6 pp \<noteq> None" "k_proc s6 1 \<noteq> None"
    using L(12,13,14) by (auto simp: s6_def t6_def reparent_def k4 s5_def)
  have z: "exit_zombie s5 = Ok 0 (s6\<lparr>k_proc := woken (Ch_proc 1) (woken (Ch_proc pp) (k_proc s6))\<rparr>)"
    using exit_zombie_run [of s5 c1 pp "k_proc s6"] k4 k6 L(12) c1(3,5) pp by (simp add: s5_def s6_def t6_def)
  have "do_exit ret s = exit_zombie s5"
  proof -
    have a: "kthen (cu_mod (\<lambda>p. p\<lparr>p_ret := word_of_int ret\<rparr>)) (kthen (cu_mod (\<lambda>p. p\<lparr>p_sigact := (\<lambda>nr. if nr < NSIG
        then (p_sigact p nr)\<lparr>sa_handler := SIG_DFL, sa_flags := 0\<rparr> else p_sigact p nr)\<rparr>)) X) s = X s1" for X :: "int kop"
      using L(2) by (simp add: kop_simps s1_def c1_def exit_proc_def cong: if_cong)
    have g: "cu_get f s1 = Ok (f c1) s1" "cu_get f (ino_mod ri ip' s1) = Ok (f c1) (ino_mod ri ip' s1)"
      "cu_get f s3 = Ok (f c1) s3" "cu_get f s4 = Ok (f c1) s4" for f :: "proc \<Rightarrow> 'x"
      using k3 k4 L(12) by (simp_all add: cu_get_def s1_def ino_mod_def)
    show ?thesis unfolding do_exit_def a
      by (simp only: kthen_Ok kbind_Ok loop g c1(1-4) ri wi sg cl f s5_def)
  qed
  then have "do_exit ret s = Ok 0 (s6\<lparr>k_proc := woken (Ch_proc 1) (woken (Ch_proc pp) (k_proc s6))\<rparr>)" using z by simp
  moreover have "s6\<lparr>k_proc := x\<rparr> = s\<lparr>k_inode := k_inode s3, k_coremap := cm, k_pgfree := fl, k_proc := x\<rparr>" for x
    by (simp add: s6_def s5_def s4_def s3_def s1_def ino_mod_def proc_mod_def)
  moreover have "t6 = (k_proc s)(pp \<mapsto> child_signal par, ?me \<mapsto> c1\<lparr>p_chan := Ch0, p_stat := SZOMB\<rparr>)"
    using L(12) by (simp add: t6_def k4 fun_upd_twist)
  ultimately show thesis by (intro that) (simp add: s6_def c1_def)
qed

text \<open>What the table holds afterwards.\<close>

definition exit_table :: "int \<Rightarrow> kernel \<Rightarrow> proc \<Rightarrow> nat \<Rightarrow> proc \<Rightarrow> nat \<Rightarrow> proc option" where
  "exit_table ret s c pp par = woken (Ch_proc 1) (woken (Ch_proc pp) (reparent (k_cu s) (p_pid c)
     ((k_proc s)(pp \<mapsto> child_signal par, k_cu s \<mapsto> (exit_proc ret c)\<lparr>p_chan := Ch0, p_stat := SZOMB\<rparr>))))"

lemma table_ids:
  "woken ch tab i = Some p \<Longrightarrow> \<exists>q. tab i = Some q \<and> p_pid p = p_pid q \<and> p_pri p = p_pri q"
  "reparent me pid tab i = Some p \<Longrightarrow> \<exists>q. tab i = Some q \<and> p_pid p = p_pid q \<and> p_pri p = p_pri q"
  by (auto simp: woken_def reparent_def split: if_splits)

lemma exit_table_facts:
  assumes "leaving s c pp par"
  shows "exit_table ret s c pp par (k_cu s) = Some ((exit_proc ret c)\<lparr>p_chan := Ch0, p_stat := SZOMB\<rparr>)"
    "p_stat par = SWAIT \<Longrightarrow> \<exists>q. exit_table ret s c pp par pp = Some q \<and> p_stat q = SRUN \<and> p_sig q = p_sig par OR shl1 16"
    "1 \<le> j \<Longrightarrow> j \<noteq> k_cu s \<Longrightarrow> k_proc s j = Some p \<Longrightarrow> p_ppid p = p_pid c \<Longrightarrow>
      \<exists>p'. exit_table ret s c pp par j = Some p' \<and> p_ppid p' = 1"
    "proc_wf (s\<lparr>k_proc := exit_table ret s c pp par\<rparr>)"
proof -
  have L: "proc_wf s" "k_proc s (k_cu s) = Some c" "pp \<noteq> k_cu s" "k_proc s pp = Some par" "0 < pp" "k_proc s 1 \<noteq> None"
    using assms unfolding leaving_def by auto
  have n: "k_cu s < NPROC" "pp < NPROC" using proc_wfD(1) [OF L(1)] L by blast+
  show "exit_table ret s c pp par (k_cu s) = Some ((exit_proc ret c)\<lparr>p_chan := Ch0, p_stat := SZOMB\<rparr>)"
    by (simp add: exit_table_def woken_def reparent_def)
  show "p_stat par = SWAIT \<Longrightarrow> \<exists>q. exit_table ret s c pp par pp = Some q \<and> p_stat q = SRUN \<and> p_sig q = p_sig par OR shl1 16"
    using L(3) n by (auto simp: exit_table_def woken_def reparent_def child_signal_def)
  show "1 \<le> j \<Longrightarrow> j \<noteq> k_cu s \<Longrightarrow> k_proc s j = Some p \<Longrightarrow> p_ppid p = p_pid c \<Longrightarrow>
      \<exists>p'. exit_table ret s c pp par j = Some p' \<and> p_ppid p' = 1"
    using proc_wfD(1) [OF L(1), of j p] L(4) by (auto simp: exit_table_def woken_def reparent_def child_signal_def)
  have "i < NPROC \<and> unat (p_pid p) = i \<and> -128 \<le> p_pri p \<and> p_pri p \<le> 127" if h: "exit_table ret s c pp par i = Some p" for i p
  proof -
    let ?tab = "(k_proc s)(pp \<mapsto> child_signal par, k_cu s \<mapsto> (exit_proc ret c)\<lparr>p_chan := Ch0, p_stat := SZOMB\<rparr>)"
    obtain q where q: "?tab i = Some q" "p_pid p = p_pid q" "p_pri p = p_pri q"
    proof -
      obtain q1 where 1: "woken (Ch_proc pp) (reparent (k_cu s) (p_pid c) ?tab) i = Some q1" "p_pid p = p_pid q1" "p_pri p = p_pri q1"
        using table_ids(1) [OF h [unfolded exit_table_def]] by blast
      obtain q2 where 2: "reparent (k_cu s) (p_pid c) ?tab i = Some q2" "p_pid q1 = p_pid q2" "p_pri q1 = p_pri q2"
        using table_ids(1) [OF 1(1)] by blast
      show thesis using table_ids(2) [OF 2(1)] 1(2,3) 2(2,3) that by auto
    qed
    have "\<exists>q'. k_proc s i = Some q' \<and> p_pid q = p_pid q' \<and> p_pri q = p_pri q'"
      using q(1) L(2-4) by (auto simp: child_signal_def exit_proc_def split: if_splits)
    with q proc_wfD [OF L(1)] show ?thesis by metis
  qed
  moreover have "exit_table ret s c pp par 0 \<noteq> None" using L(1) by (auto simp: exit_table_def woken_def reparent_def proc_wf_def)
  moreover have "exit_table ret s c pp par (k_cu s) \<noteq> None"
    by (simp add: exit_table_def woken_def reparent_def)
  ultimately show "proc_wf (s\<lparr>k_proc := exit_table ret s c pp par\<rparr>)" unfolding proc_wf_def by simp
qed

lemma swtch_other:
  assumes "proc_wf s" "k_proc s (k_cu s) = Some z" "\<not> eligible z"
  shows "\<exists>i (p :: proc). i \<noteq> k_cu s \<and> swtch s = Stop Slept (s\<lparr>k_runrun := 0, k_cu := i, k_cr3 := vm_pgd (p_vm p)\<rparr>)"
proof -
  obtain i p where "k_proc s i = Some p" "eligible p" and sw: "swtch s = (if i = k_cu s then Ok () (s\<lparr>k_runrun := 0\<rparr>)
      else Stop Slept (s\<lparr>k_runrun := 0, k_cu := i, k_cr3 := vm_pgd (p_vm p)\<rparr>))"
    using swtch_best [OF assms(1)] by blast
  then have "i \<noteq> k_cu s" using assms(2,3) by auto
  with sw show ?thesis by (intro exI [of _ i] exI [of _ p]) simp
qed

lemma leaving_signal:
  assumes "leaving s c pp par"
  shows "leaving (s\<lparr>k_proc := (k_proc s)(k_cu s \<mapsto> c\<lparr>p_sig := a, p_cursig := b\<rparr>)\<rparr>) (c\<lparr>p_sig := a, p_cursig := b\<rparr>) pp par"
proof -
  let ?s = "s\<lparr>k_proc := (k_proc s)(k_cu s \<mapsto> c\<lparr>p_sig := a, p_cursig := b\<rparr>)\<rparr>"
  have "pm_inv ?s = pm_inv s" "class_sizes ?s = class_sizes s" "page_cnt ?s = page_cnt s"
    by (simp_all add: pm_inv_def class_sizes_def page_cnt_def fun_eq_iff)
  moreover have "proc_wf ?s" using assms unfolding leaving_def proc_wf_def by auto
  ultimately show ?thesis using assms unfolding leaving_def by simp
qed

section \<open>Properties\<close>




section \<open>Witnesses\<close>

text \<open>Process 1 waits for its child 2, which is running and has been killed.\<close>

definition family_parent :: proc where
  "family_parent = zero_proc\<lparr>p_pid := 1, p_stat := SWAIT, p_chan := Ch_proc 1, p_vm := (p_vm zero_proc)\<lparr>vm_pgd := 10\<rparr>\<rparr>"

definition family_child :: proc where
  "family_child = zero_proc\<lparr>p_pid := 2, p_ppid := 1, p_stat := SRUN, p_sig := 0x100, p_iroot := Some 0, p_wdir := Some 0,
     p_addr := 5, p_vm := (p_vm zero_proc)\<lparr>vm_pgd := 12\<rparr>\<rparr>"

definition family :: kernel where
  "family = small_space\<lparr>k_cu := 2, k_inode := (\<lambda>_. zero_inode\<lparr>i_count := 5\<rparr>),
     k_proc := [0 \<mapsto> zero_proc, 1 \<mapsto> family_parent, 2 \<mapsto> family_child]\<rparr>"

lemma family_mem:
  "pm_inv family" "class_sizes family" "page_cnt family = page_cnt small_space" "walk family = walk small_space"
proof -
  show c: "page_cnt family = page_cnt small_space" by (simp add: fun_eq_iff page_cnt_def family_def)
  show "pm_inv family" using small_space_pm unfolding pm_inv_def c by (simp add: family_def)
  show "class_sizes family" by (simp add: class_sizes_def family_def small_space_def boot_kernel_def bktab0_def)
  show "walk family = walk small_space" by (simp add: fun_eq_iff walk_def family_def)
qed

lemma family_leaving: "leaving family family_child 1 family_parent"
proof -
  have "proc_wf family"
    unfolding proc_wf_def by (auto simp: family_def family_parent_def family_child_def zero_proc_def split: if_splits)
  moreover have "\<not> pd_present (k_pgd family 12 i)" for i
    by (simp add: family_def small_space_def pd_present_def zero_pde_def)
  ultimately show ?thesis
    unfolding leaving_def using family_mem small_space_cnt
    by (simp add: family_def family_parent_def family_child_def zero_proc_def zero_inode_def zero_vma_def zero_sigaction_def
        pd_present_def)
qed




end
