(* ===== verification/Rdwr.thy ===== *)
theory Rdwr
  imports Proc
begin

unbundle bit_operations_syntax

text \<open>
  Reading and writing through a descriptor, \<^verbatim>\<open>do_read\<close> and \<^verbatim>\<open>do_write\<close> of
  \<^verbatim>\<open>src/fs/rdwr.c\<close>, with the reading side of the terminals, \<^verbatim>\<open>tty_read\<close> of
  \<^verbatim>\<open>src/chr/tty.c\<close>. The buffer is a user address. A result that the code reads from a
  variable it never set is a fault of the model.
\<close>

section \<open>Reading from a terminal\<close>

text \<open>The loop that runs after the sleep, on the remaining count and the index.\<close>

primrec tty_take :: "nat \<Rightarrow> uint \<Rightarrow> nat \<Rightarrow> nat \<Rightarrow> int kop" where
  "tty_take t buf 0 i = kret (int i + 1)"
| "tty_take t buf (Suc n) i = kbind (kget (\<lambda>s. getq (t_canq (k_tty s t)))) (\<lambda>(ch, q).
     kthen (kmod (tty_mod t (\<lambda>tp. tp\<lparr>t_canq := q\<rparr>)))
      (if schar ch < 0 then kret (int i + 1)
       else kthen (put_user [Some ch] (buf + of_nat i)) (tty_take t buf n (Suc i))))"

definition tty_read :: "uchar list \<Rightarrow> ushort \<Rightarrow> uint \<Rightarrow> uint \<Rightarrow> int kop" where
  "tty_read usigret dev buf cnt =
     (if unat (MINOR dev) \<ge> NTTY then kthen (syserr ENODEV) (kret (-1))
      else let t = unat (MINOR dev) in
        kthen (kbind (kget (\<lambda>s. q_count (t_canq (k_tty s t)))) (\<lambda>c.
          kwhen (c < cnt) (sleep usigret (Ch_tty t) PRITTY)))
         (tty_take t buf (unat cnt) 0))"

section \<open>Reading and writing through a descriptor\<close>

definition fd_file :: "int \<Rightarrow> (nat \<Rightarrow> int kop) \<Rightarrow> int kop" where
  "fd_file fd f =
     (if fd < 0 \<or> fd > int NOFILE then kthen (syserr ENFILE) (kret (-1))
      else if fd = int NOFILE then kstop (Fault ''p_ofile[NOFILE]'')
      else kbind (cu_get (\<lambda>p. p_ofile p (nat fd))) (\<lambda>fpo. case fpo of
          None \<Rightarrow> kthen (syserr ENFILE) (kret (-1)) | Some fp \<Rightarrow> f fp))"

definition do_read :: "uchar list \<Rightarrow> int \<Rightarrow> uint \<Rightarrow> int \<Rightarrow> int kop" where
  "do_read usigret fd buf cnt = fd_file fd (\<lambda>fp. kbind (kget (\<lambda>s. k_file s fp)) (\<lambda>f.
     if f_oflag f AND 1 \<noteq> 0 then kthen (syserr EBADF) (kret (-1))
     else kderef ''f_ino'' (f_ino f) (\<lambda>ip. kbind (kget (\<lambda>s. k_inode s ip)) (\<lambda>i.
       kbind (if i_mode i AND S_IFMT = S_IFBLK then kstop (Fault ''r'')
         else if i_mode i AND S_IFMT = S_IFCHR then
           if MAJOR (i_zone i 0) = 1 then tty_read usigret (i_zone i 0) buf (word_of_int cnt) else kstop (Fault ''d_read'')
         else kthen (lock_ino ip) (kbind (kget (\<lambda>s. f_offset (k_file s fp))) (\<lambda>off.
           kbind (readi ip off (word_of_int cnt)) (\<lambda>(r, bs). kthen (put_user bs buf) (kret r))))) (\<lambda>r.
       if r < 0 then kthen (unlk_ino ip) (kret (-1))
       else kthen (kmod (file_mod fp (\<lambda>f. f\<lparr>f_offset := f_offset f + word_of_int cnt\<rparr>))) (kthen (unlk_ino ip) (kret r)))))))"

text \<open>
  The bytes to be written; the access of the whole buffer is checked before the first one
  is stored.
\<close>

definition user_bytes :: "kernel \<Rightarrow> uint \<Rightarrow> nat \<Rightarrow> uchar list option" where
  "user_bytes s va n = those (map (\<lambda>j. get_user s (va + of_nat j)) [0..<n])"

text \<open>
  \<^verbatim>\<open>O_RDONLY\<close> is 0, so the test for a descriptor that is open for reading only never
  holds.
\<close>

definition do_write :: "int \<Rightarrow> uint \<Rightarrow> int \<Rightarrow> int kop" where
  "do_write fd buf cnt = fd_file fd (\<lambda>fp. kbind (kget (\<lambda>s. k_file s fp)) (\<lambda>f.
     if f_oflag f AND 0 \<noteq> 0 then kthen (syserr EBADF) (kret (-1))
     else kderef ''f_ino'' (f_ino f) (\<lambda>ip. kbind (kget (\<lambda>s. k_inode s ip)) (\<lambda>i.
       let off = (if f_oflag f AND 0x40 \<noteq> 0 then i_size i else f_offset f) in
       kbind (if i_mode i AND S_IFMT = S_IFBLK then kstop (Fault ''r'')
         else if i_mode i AND S_IFMT = S_IFCHR then
           if MAJOR (i_zone i 0) = 1 then
             kbind (kget (\<lambda>s. user_bytes s buf (unat (word_of_int cnt :: uint)))) (\<lambda>bs.
               kderef ''page'' bs (\<lambda>bs. tty_write (i_zone i 0) bs))
           else kstop (Fault ''d_write'')
         else kthen (lock_ino ip) (kbind (kget (\<lambda>s. user_bytes s buf (unat (word_of_int cnt :: uint)))) (\<lambda>bs.
           kderef ''page'' bs (\<lambda>bs. writei ip (\<lambda>j. bs ! j) off (word_of_int cnt))))) (\<lambda>r.
       if r < 0 then kthen (unlk_ino ip) (kret (-1))
       else kthen (kmod (file_mod fp (\<lambda>f. f\<lparr>f_offset := off + word_of_int cnt\<rparr>))) (kthen (unlk_ino ip) (kret r)))))))"

section \<open>Reading a regular file\<close>

lemma bio_frame_space:
  assumes "bio_frame s s'"
  shows "k_pgd s' = k_pgd s" "k_pt s' = k_pt s" "k_cr3 s' = k_cr3 s" "walk s' = walk s"
proof -
  show f: "k_pgd s' = k_pgd s" "k_pt s' = k_pt s" "k_cr3 s' = k_cr3 s"
    using arg_cong [OF assms [unfolded bio_frame_def], of k_pgd] arg_cong [OF assms [unfolded bio_frame_def], of k_pt]
      arg_cong [OF assms [unfolded bio_frame_def], of k_cr3] by (simp_all add: non_bio_def)
  show "walk s' = walk s" by (simp add: walk_def fun_eq_iff f)
qed

text \<open>The lock bit of an inode does not matter for what its file holds.\<close>

lemma locked_file:
  fixes f :: "uint \<Rightarrow> uint" and ip :: nat
  defines "t \<equiv> \<lambda>s. ino_mod ip (\<lambda>i. i\<lparr>i_flag := f (i_flag i)\<rparr>) s"
  shows "bio_inv (t s) H = bio_inv s H" "file_ok (t s) ip = file_ok s ip" "mapped (t s) ip = mapped s ip"
    "file_byte (t s) ip = file_byte s ip" "disk_blk (t s) = disk_blk s" "walk (t s) = walk s"
proof -
  show "bio_inv (t s) H = bio_inv s H" by (rule bio_inv_cong) (simp_all add: t_def ino_mod_def)
  show d: "disk_blk (t s) = disk_blk s" by (simp add: t_def ino_mod_def disk_blk_def fun_eq_iff)
  have z: "zone_of (t s) ip = zone_of s ip" by (simp add: zone_of_def fun_eq_iff zent_def d Let_def) (simp add: t_def ino_mod_def)
  show "file_byte (t s) ip = file_byte s ip" by (simp add: file_byte_def fun_eq_iff z d)
  show "mapped (t s) ip = mapped s ip" by (simp add: mapped_def fun_eq_iff z)
  have "zmaps_ok (t s) ip = zmaps_ok s ip" by (simp add: zmaps_ok_def zent_def d) (simp add: t_def ino_mod_def)
  then show "file_ok (t s) ip = file_ok s ip" by (simp add: file_ok_def) (simp add: t_def ino_mod_def)
  show "walk (t s) = walk s" by (simp add: t_def ino_mod_def walk_def fun_eq_iff)
qed

lemma bio_frame_upds: "bio_frame s t \<Longrightarrow> bio_frame (s\<lparr>k_inode := i, k_file := f, k_mem := m\<rparr>) (t\<lparr>k_inode := i, k_file := f, k_mem := m\<rparr>)"
proof -
  have n: "non_bio (r\<lparr>k_inode := i, k_file := f, k_mem := m\<rparr>) = (non_bio r)\<lparr>k_inode := i, k_file := f, k_mem := m\<rparr>" for r by (simp add: non_bio_def)
  assume "bio_frame s t"
  then show ?thesis unfolding bio_frame_def n by simp
qed

lemma do_read_file:
  assumes cu: "k_proc s (k_cu s) = Some c" and fd: "0 \<le> fd" "fd < int NOFILE" "p_ofile c (nat fd) = Some fp"
    and f: "f_oflag (k_file s fp) AND 1 = 0" "f_ino (k_file s fp) = Some ip"
    and i: "i_mode (k_inode s ip) AND S_IFMT = S_IFREG" "i_flag (k_inode s ip) AND 3 = 0"
    and inv: "bio_inv s {}" "file_ok s ip"
    and off: "off = unat (f_offset (k_file s fp))" "off \<le> unat (i_size (k_inode s ip))" "0 \<le> cnt" "int off + cnt < 2 ^ 31"
    and n: "n = min (nat cnt) (unat (i_size (k_inode s ip)) - off)" "mapped s ip off (off + n)"
    and buf: "KMEM_END \<le> buf" "walk s (k_cr3 s) buf = Some (g, w)" "POFF buf + n \<le> 4096"
  shows "\<exists>s'. do_read usigret fd buf cnt s = Ok (int n) s' \<and>
    (\<forall>j<n. get_user s' (buf + of_nat j) = Some (file_byte s ip (off + j))) \<and> bio_inv s' {} \<and> disk_blk s' = disk_blk s \<and>
    k_file s' = (k_file s)(fp := (k_file s fp)\<lparr>f_offset := f_offset (k_file s fp) + word_of_int cnt\<rparr>) \<and>
    bio_frame (s\<lparr>k_file := k_file s', k_mem := k_mem s'\<rparr>) s'"
proof -
  let ?i = "k_inode s ip" and ?o = "f_offset (k_file s fp)" and ?c = "word_of_int cnt :: uint"
  let ?bs = "map (\<lambda>j. file_byte s ip (off + j)) [0..<n]"
  have fl: "i_flag ?i AND 1 = 0" "(i_flag ?i OR 1) AND 2 = 0" "(i_flag ?i OR 1) AND NOT 3 = i_flag ?i"
    using low_flags [OF i(2)] by (simp_all add: bit.conj_disj_distrib2)
  define s1 where "s1 = ino_mod ip (\<lambda>i. i\<lparr>i_flag := i_flag i OR I_LOCK\<rparr>) s"
  note lf = locked_file [of ip "\<lambda>x. x OR I_LOCK" s, folded s1_def]
  have k1: "i_size (k_inode s1 ip) = i_size ?i" "k_file s1 = k_file s" "k_cr3 s1 = k_cr3 s" by (simp_all add: s1_def ino_mod_def)
  have uc: "unat ?c = nat cnt" using off(3,4) by (simp add: unsigned_of_int take_bit_int_eq_self)
  have "off + nat cnt < 2 ^ 32" using off(3,4) by simp
  then have sm: "unat ?o + unat ?c < 2 ^ 32" "unat ?o = off" using off(1) uc by simp_all
  have nn: "n = min (unat ?c) (unat (i_size (k_inode s1 ip)) - unat ?o)" "mapped s1 ip (unat ?o) (unat ?o + n)"
    using n uc k1(1) sm(2) lf(3) by simp_all
  obtain s2 where s2: "readi ip ?o ?c s1 = Ok (int n, map (\<lambda>j. Some (file_byte s ip (off + j))) [0..<n]) s2" "bio_frame s1 s2"
    "bio_inv s2 {}" "disk_blk s2 = disk_blk s1"
    using readi_Ok [OF _ _ _ sm(1) nn] inv lf(1,2,4) k1(1) off(2) sm(2) held_empty(1) by auto
  define s3 where "s3 = mem_mod g (\<lambda>m j. if POFF buf \<le> j \<and> j < POFF buf + n then ?bs ! (j - POFF buf) else m j) s2"
  have w2: "walk s2 (k_cr3 s2) buf = Some (g, w)"
    using bio_frame_space(3,4) [OF s2(2)] lf(6) k1(3) buf(2) by simp
  have pu: "put_user (map (\<lambda>j. Some (file_byte s ip (off + j))) [0..<n]) buf s2 = Ok () s3"
    using put_user_page [OF buf(1) w2, of ?bs] buf(3) by (simp add: s3_def comp_def)
  have k3: "k_inode s3 = k_inode s1" "k_file s3 = k_file s" "k_cr3 s3 = k_cr3 s2" "walk s3 = walk s2"
    using bio_frame_fields [OF s2(2)] k1(2) by (simp_all add: s3_def mem_mod_def walk_def fun_eq_iff)
  define s4 where "s4 = ino_mod ip (\<lambda>i. i\<lparr>i_flag := i_flag i AND NOT (I_LOCK OR I_WANTED)\<rparr>)
    (file_mod fp (\<lambda>f. f\<lparr>f_offset := f_offset f + ?c\<rparr>) s3)"
  have "do_read usigret fd buf cnt s = Ok (int n) s4"
  proof -
    have l: "lock_ino ip s = Ok () s1" using fl(1) by (simp add: lock_ino_def kop_simps s1_def)
    have u: "unlk_ino ip (file_mod fp (\<lambda>f. f\<lparr>f_offset := f_offset f + ?c\<rparr>) s3) = Ok () s4"
      using fl(2) k3(1) by (simp add: unlk_ino_def kop_simps s4_def file_mod_def s1_def ino_mod_def)
    have nb: "i_mode ?i AND S_IFMT \<noteq> S_IFBLK" "i_mode ?i AND S_IFMT \<noteq> S_IFCHR" using i(1) by simp_all
    show ?thesis
      using cu fd f nb l s2(1) pu u k1(2) unfolding do_read_def fd_file_def by (simp add: kop_simps kbind_assoc)
  qed
  moreover have "get_user s4 (buf + of_nat j) = Some (file_byte s ip (off + j))" if "j < n" for j
  proof -
    have "k_cr3 s4 = k_cr3 s3" "walk s4 = walk s3" "k_mem s4 = k_mem s3"
      by (simp_all add: s4_def ino_mod_def file_mod_def walk_def fun_eq_iff)
    then show ?thesis using get_user_page [OF buf(1), of s4 g w j] w2 k3(3,4) that buf(3) by (simp add: s3_def)
  qed
  moreover have k4: "k_inode s4 = k_inode s" "k_file s4 = (k_file s)(fp := (k_file s fp)\<lparr>f_offset := ?o + ?c\<rparr>)"
    using fl(3) k3(1,2) by (simp_all add: s4_def s1_def ino_mod_def file_mod_def)
  moreover have "bio_inv s4 {}"
    using s2(3) by (subst bio_inv_cong [of _ s2]) (simp_all add: s4_def s3_def ino_mod_def file_mod_def mem_mod_def)
  moreover have "disk_blk s4 = disk_blk s"
    using s2(4) lf(5) disk_blk_cong [of s4 s2] by (simp add: s4_def s3_def ino_mod_def file_mod_def mem_mod_def)
  moreover have "bio_frame (s\<lparr>k_file := k_file s4, k_mem := k_mem s4\<rparr>) s4"
  proof -
    have "s4 = s2\<lparr>k_inode := k_inode s4, k_file := k_file s4, k_mem := k_mem s4\<rparr>"
      by (simp add: s4_def s3_def ino_mod_def file_mod_def mem_mod_def)
    moreover have "bio_frame (s1\<lparr>k_inode := i, k_file := f, k_mem := m\<rparr>) (s2\<lparr>k_inode := i, k_file := f, k_mem := m\<rparr>)" for i f m
      by (rule bio_frame_upds [OF s2(2)])
    ultimately have "bio_frame (s1\<lparr>k_inode := k_inode s, k_file := k_file s4, k_mem := k_mem s4\<rparr>) s4" using k4(1) by metis
    then show ?thesis by (simp add: s1_def ino_mod_def)
  qed
  ultimately show ?thesis by (intro exI [of _ s4]) simp
qed

text \<open>Behind the end of the file there is nothing to read: the call fails and changes only the error code.\<close>

lemma do_read_past_end:
  assumes cu: "k_proc s (k_cu s) = Some c" and fd: "0 \<le> fd" "fd < int NOFILE" "p_ofile c (nat fd) = Some fp"
    and f: "f_oflag (k_file s fp) AND 1 = 0" "f_ino (k_file s fp) = Some ip"
    and i: "i_mode (k_inode s ip) AND S_IFMT = S_IFREG" "i_flag (k_inode s ip) AND 3 = 0"
    and off: "i_size (k_inode s ip) < f_offset (k_file s fp)"
  shows "do_read usigret fd buf cnt s = Ok (-1) (s\<lparr>k_proc := (k_proc s)(k_cu s \<mapsto> c\<lparr>p_error := E2BIG\<rparr>)\<rparr>)"
proof -
  let ?i = "k_inode s ip"
  have fl: "i_flag ?i AND 1 = 0" "(i_flag ?i OR 1) AND 2 = 0" "(i_flag ?i OR 1) AND NOT 3 = i_flag ?i"
    using low_flags [OF i(2)] by (simp_all add: bit.conj_disj_distrib2)
  have nb: "i_mode ?i AND S_IFMT \<noteq> S_IFBLK" "i_mode ?i AND S_IFMT \<noteq> S_IFCHR" using i(1) by simp_all
  define s1 where "s1 = ino_mod ip (\<lambda>i. i\<lparr>i_flag := i_flag i OR I_LOCK\<rparr>) s"
  define s2 where "s2 = s1\<lparr>k_proc := (k_proc s)(k_cu s \<mapsto> c\<lparr>p_error := E2BIG\<rparr>)\<rparr>"
  have l: "lock_ino ip s = Ok () s1" using fl(1) by (simp add: lock_ino_def kop_simps s1_def)
  have r: "readi ip (f_offset (k_file s1 fp)) (word_of_int cnt) s1 = Ok (-1, []) s2"
    using off cu by (simp add: readi_def kop_simps s1_def s2_def ino_mod_def cu_mod_def)
  have u: "unlk_ino ip s2 = Ok () (s\<lparr>k_proc := (k_proc s)(k_cu s \<mapsto> c\<lparr>p_error := E2BIG\<rparr>)\<rparr>)"
    using fl(2,3) by (simp add: unlk_ino_def kop_simps s1_def s2_def ino_mod_def)
  show ?thesis
    using cu fd f nb l r u unfolding do_read_def fd_file_def by (simp add: kop_simps kbind_assoc put_user_def)
qed

section \<open>Properties\<close>


text \<open>
  Duplicating a descriptor. \<^verbatim>\<open>do_dup\<close> makes the lowest free descriptor refer to the same file
  structure, with one more reference on it and on the inode, and closing the new descriptor
  gives back exactly the state before, in particular the structure stays open.
\<close>

theorem dup_close_roundtrip:
  assumes cu: "k_proc s (k_cu s) = Some c" and fd: "0 \<le> fd" "fd < int NOFILE" "p_ofile c (nat fd) = Some fp"
    and n: "scan (\<lambda>i. p_ofile c i = None) 0 NOFILE = Some n"
    and f: "f_ino (k_file s fp) = Some ip" "0 < schar (f_count (k_file s fp))"
    and i: "i_count (k_inode s ip) \<noteq> 0" "i_count (k_inode s ip) + 1 \<noteq> 0" "i_flag (k_inode s ip) AND 3 = 0"
  shows "\<exists>s1. do_dup fd s = Ok (int n) s1 \<and> k_proc s1 (k_cu s1) = Some (c\<lparr>p_ofile := (p_ofile c)(n \<mapsto> fp)\<rparr>) \<and>
    f_count (k_file s1 fp) = f_count (k_file s fp) + 1 \<and> i_count (k_inode s1 ip) = i_count (k_inode s ip) + 1 \<and>
    do_close (int n) s1 = Ok 0 s"
proof -
  have nN: "n < NOFILE" "p_ofile c n = None" using n by (simp_all add: scan_Some_iff)
  define s1 where "s1 = s\<lparr>k_file := (k_file s)(fp := (k_file s fp)\<lparr>f_count := f_count (k_file s fp) + 1\<rparr>),
    k_inode := (k_inode s)(ip := (k_inode s ip)\<lparr>i_count := i_count (k_inode s ip) + 1\<rparr>),
    k_proc := (k_proc s)(k_cu s \<mapsto> c\<lparr>p_ofile := (p_ofile c)(n \<mapsto> fp)\<rparr>)\<rparr>"
  have d: "do_dup fd s = Ok (int n) s1"
    using cu fd n nN f(1) by (simp add: do_dup_def ufalloc_def dup_into_def kop_simps file_mod_def ino_mod_def) (simp add: s1_def)
  show ?thesis
  proof (intro exI [of _ s1] conjI d)
    define s2 where "s2 = s\<lparr>k_file := k_file s1, k_inode := k_inode s1\<rparr>"
    have "c\<lparr>p_ofile := (p_ofile c)(n := None)\<rparr> = c" using nN(2) by (simp add: fun_upd_idem)
    then have s2: "cu_mod (\<lambda>p. p\<lparr>p_ofile := (p_ofile p)(n := None)\<rparr>) s1 = Ok () s2"
      using cu by (simp add: kop_simps s1_def s2_def fun_upd_idem)
    have "1 < x + 1" if "x \<noteq> 0" "x + 1 \<noteq> 0" for x :: ushort
    proof -
      have "unat (x + 1) = Suc (unat x)" using that(2) by (metis Word.unatSuc add.commute)
      then show ?thesis using that(1) by (simp add: word_less_nat_alt unat_gt_0)
    qed
    then have "1 < i_count (k_inode s ip) + 1" using i(1,2) by blast
    then have "iput (Some ip) s2 = Ok () (ino_mod ip (\<lambda>i. i\<lparr>i_count := i_count i - 1, i_flag := i_flag i AND NOT (I_LOCK OR I_WANTED)\<rparr>) s2)"
      using low_flags [OF i(3)] by (intro iput_shared) (simp_all add: s2_def s1_def)
    also have "ino_mod ip (\<lambda>i. i\<lparr>i_count := i_count i - 1, i_flag := i_flag i AND NOT (I_LOCK OR I_WANTED)\<rparr>) s2 = s\<lparr>k_file := k_file s1\<rparr>"
      using low_flags [OF i(3)] by (simp add: ino_mod_def s2_def s1_def)
    finally have ip2: "iput (Some ip) s2 = Ok () (s\<lparr>k_file := k_file s1\<rparr>)" .
    have "f_ino (k_file s2 fp) = Some ip" using f(1) by (simp add: s2_def s1_def)
    moreover have "k_proc s1 (k_cu s1) = Some (c\<lparr>p_ofile := (p_ofile c)(n \<mapsto> fp)\<rparr>)" by (simp add: s1_def)
    ultimately have "do_close (int n) s1 = kthen (kmod (file_mod fp (\<lambda>f. f\<lparr>f_count := f_count f - 1\<rparr>)))
        (kthen (kmod (file_mod fp (\<lambda>f. if schar (f_count f) \<le> 0 then f\<lparr>f_count := 0, f_oflag := 0, f_offset := 0\<rparr> else f)))
         (kret 0)) (s\<lparr>k_file := k_file s1\<rparr>)"
      using nN(1) unfolding do_close_def
      by (simp add: kbind_Ok cu_get_Some kthen_Ok s2 ip2 kbind_simps)
    then show "do_close (int n) s1 = Ok 0 s"
      using f(2) by (simp add: kthen_simps kop_apply file_mod_def s1_def)
  qed (simp_all add: s1_def)
qed

section \<open>Instances\<close>

text \<open>
  Process 1 has the file of 3000 bytes at inode 5 open as descriptor 3, at position 2000, and
  one page of its address space is mapped. The second block of the file is filled with 7.
\<close>

definition open_file :: kernel where
  "open_file = (ino_mod 5 (\<lambda>_. small_inode) (fs_state (\<lambda>n. if n = 11 then (\<lambda>_. 7) else (\<lambda>_. 0)) (two_procs\<lparr>
     k_proc := (k_proc two_procs)(1 \<mapsto> zero_proc\<lparr>p_stat := SRUN, p_pid := 1, p_ofile := [3 \<mapsto> 2]\<rparr>),
     k_file := (\<lambda>_. \<lparr>f_oflag = 0, f_count = 1, f_offset = 2000, f_ino = Some 5\<rparr>)\<rparr>)))\<lparr>
     k_pgd := k_pgd small_space, k_pt := k_pt small_space, k_cr3 := 10\<rparr>"

lemma open_file_Ok:
  "bio_inv open_file {}" "k_inode open_file 5 = small_inode" "file_ok open_file 5" "mapped open_file 5 2000 3000"
  "k_file open_file 2 = \<lparr>f_oflag = 0, f_count = 1, f_offset = 2000, f_ino = Some 5\<rparr>"
  "\<exists>c. k_proc open_file (k_cu open_file) = Some c \<and> p_ofile c = [3 \<mapsto> 2]"
  "walk open_file (k_cr3 open_file) KMEM_END = Some (2, True)" "file_byte open_file 5 2000 = 7"
proof -
  let ?s = "two_procs\<lparr>k_proc := (k_proc two_procs)(1 \<mapsto> zero_proc\<lparr>p_stat := SRUN, p_pid := 1, p_ofile := [3 \<mapsto> 2]\<rparr>),
     k_file := (\<lambda>_. \<lparr>f_oflag = 0, f_count = 1, f_offset = 2000, f_ino = Some 5\<rparr>)\<rparr>"
  let ?B = "\<lambda>n :: uint. if n = 11 then (\<lambda>_. 7 :: uchar) else (\<lambda>_. 0)"
  have "b_flag (k_buf ?s Hdtab) = 0" "k_proc ?s (k_cu ?s) \<noteq> None"
    by (simp_all add: two_procs_def boot_kernel_def zero_buf_def)
  note f = fs_state_Ok [OF this, where B = ?B]
  have "bio_inv open_file {} = bio_inv (fs_state ?B ?s) {}"
    by (rule bio_inv_cong) (simp_all add: open_file_def ino_mod_def)
  then show "bio_inv open_file {}" using f(1) by simp
  show i: "k_inode open_file 5 = small_inode" by (simp add: open_file_def ino_mod_def)
  show "k_file open_file 2 = \<lparr>f_oflag = 0, f_count = 1, f_offset = 2000, f_ino = Some 5\<rparr>"
    using f(5) by (simp add: open_file_def ino_mod_def)
  show "\<exists>c. k_proc open_file (k_cu open_file) = Some c \<and> p_ofile c = [3 \<mapsto> 2]"
  proof -
    have cu: "k_cu (fs_state ?B ?s) = 1" using f(6) by (simp add: two_procs_def)
    from f(7) [of 1] obtain c where c: "k_proc (fs_state ?B ?s) 1 = Some c"
      "strip c = strip (zero_proc\<lparr>p_stat := SRUN, p_pid := 1, p_ofile := [3 \<mapsto> 2]\<rparr>)" by auto
    have "p_ofile c = [3 \<mapsto> 2]" using arg_cong [OF c(2), of p_ofile] by (simp add: strip_def)
    then show ?thesis using c(1) cu by (simp add: open_file_def ino_mod_def)
  qed
  show "walk open_file (k_cr3 open_file) KMEM_END = Some (2, True)"
    using cow_procs_space(4) by (simp add: walk_def open_file_def cow_procs_def)
  have z: "i_zone small_inode 7 = 0" "i_zone small_inode 8 = 0" by (simp_all add: small_inode_def)
  show "file_ok open_file 5" by (simp add: file_ok_def zmaps_ok_def i z) (simp add: small_inode_def)
  have zo: "zone_of open_file 5 nr = (if nr = 0 then 10 else if nr = 1 then 11 else if nr = 2 then 12 else 0)" for nr
    by (simp add: zone_of_def i Let_def z) (simp add: small_inode_def)
  have "nr = 1 \<or> nr = 2" if "2000 \<le> x" "x < 3000" "nr = x div 1024" for nr x :: nat using that by linarith
  then show "mapped open_file 5 2000 3000" by (auto simp: mapped_def zo)
  have "disk_blk open_file 11 = (\<lambda>_. 7)"
    using f(2) [where n = 11] disk_blk_cong [of open_file "fs_state ?B ?s"] by (simp add: open_file_def ino_mod_def)
  then show "file_byte open_file 5 2000 = 7" by (simp add: file_byte_def zo)
qed


theorem dup_close_roundtrip_witness:
  "\<exists>s1. do_dup 3 open_file = Ok 0 s1 \<and> f_count (k_file s1 2) = 2 \<and> do_close 0 s1 = Ok 0 open_file"
proof -
  obtain c where c: "k_proc open_file (k_cu open_file) = Some c" "p_ofile c = [3 \<mapsto> 2]" using open_file_Ok(6) by blast
  have "scan (\<lambda>i. p_ofile c i = None) 0 NOFILE = Some 0" by (simp add: c(2) scan_Some_iff)
  from dup_close_roundtrip [OF c(1) _ _ _ this, of 3 2 5] show ?thesis
    using c(2) open_file_Ok(2,5) by (auto simp: small_inode_def zero_inode_def schar_def)
qed

end
