(* ===== verification/Exec.thy ===== *)
theory Exec
  imports Rdwr
begin

unbundle bit_operations_syntax

text \<open>
  Running a program, \<^verbatim>\<open>do_exec\<close> of \<^verbatim>\<open>src/kern/exec.c\<close>. The path comes as a byte memory and an index, as
  for the other file operations, the argument vector as a user address. The strings are kept
  in temporary pages while the address space is replaced; the model keeps the
  address of each page with the string it holds. \<^verbatim>\<open>upush_argv\<close> adds up the lengths in a variable it never
  initialises: what the variable holds before is the argument \<open>arglen\<close>. The way into user mode
  is the stop \<open>Ret_user\<close>.
\<close>

section \<open>Saving the arguments\<close>

text \<open>
  What \<^verbatim>\<open>strncpy(dst, src, n)\<close> and the terminator stored behind it leave of a string: its first
  \<open>n\<close> bytes.
\<close>

primrec str_take :: "nat \<Rightarrow> mem \<Rightarrow> nat \<Rightarrow> uchar list" where
  "str_take 0 m p = []"
| "str_take (Suc n) m p = (if m p = 0 then [] else m p # str_take n m (p + 1))"

primrec ustr_take :: "nat \<Rightarrow> kernel \<Rightarrow> uint \<Rightarrow> uchar list option" where
  "ustr_take 0 s va = Some []"
| "ustr_take (Suc n) s va = (case get_user s va of None \<Rightarrow> None
     | Some b \<Rightarrow> if b = 0 then Some [] else map_option ((#) b) (ustr_take n s (va + 1)))"

text \<open>
  The pointers before the null pointer of a vector in user memory; at most \<open>n - 1\<close> of them,
  since the page for the kernel's copy has no room for more.
\<close>

primrec argv_ptrs :: "nat \<Rightarrow> kernel \<Rightarrow> uint \<Rightarrow> uint list option" where
  "argv_ptrs 0 s a = None"
| "argv_ptrs (Suc n) s a = (case get_user32 s a of None \<Rightarrow> None
     | Some p \<Rightarrow> if p = 0 then Some [] else map_option ((#) p) (argv_ptrs n s (a + 4)))"

primrec store_args :: "uint list \<Rightarrow> (uint \<times> uchar list) list kop" where
  "store_args [] = kret []"
| "store_args (p # ps) = kbind (kmalloc 0 PAGE) (\<lambda>a. kbind (kget (\<lambda>s. ustr_take 4095 s p)) (\<lambda>r.
     kderef ''argv'' r (\<lambda>str. kbind (store_args ps) (\<lambda>rest. kret ((a, str) # rest)))))"

definition store_argv :: "mem \<Rightarrow> nat \<Rightarrow> uint \<Rightarrow> (uint \<times> (uint \<times> uchar list) list) kop" where
  "store_argv pm path argv =
     kbind (kget (\<lambda>s. if argv = 0 then Some [] else argv_ptrs 1023 s argv)) (\<lambda>r. kderef ''argv'' r (\<lambda>ps.
     kbind (kmalloc 0 PAGE) (\<lambda>tmp. kbind (kmalloc 0 PAGE) (\<lambda>tmp0.
     kbind (store_args ps) (\<lambda>args. kret (tmp, (tmp0, str_take 4095 pm path) # args))))))"

definition free_argv :: "uint \<times> (uint \<times> uchar list) list \<Rightarrow> int kop" where
  "free_argv t = kthen (kfor (snd t) (\<lambda>(a, str). kthen (kfree 0 a PAGE) (kret ())))
     (kthen (kfree 0 (fst t) PAGE) (kret 0))"

section \<open>The initial stack\<close>

primrec push_args :: "uint \<Rightarrow> uint \<Rightarrow> uchar list list \<Rightarrow> uint kop" where
  "push_args uargv esp [] = kret esp"
| "push_args uargv esp (str # strs) = kbind (upush esp (str @ [0])) (\<lambda>e.
     kthen (put_user (map Some (le32 e)) (uargv + 4 * of_nat (length strs))) (push_args uargv e strs))"

text \<open>
  The result and the new stack pointer. A refused range gives the result -1, which the
  caller keeps in an unsigned variable.
\<close>

definition upush_argv :: "uint \<Rightarrow> uint \<Rightarrow> uchar list list \<Rightarrow> (uint \<times> uint) kop" where
  "upush_argv arglen esp strs =
     (let argc = of_nat (length strs);
          arglen = arglen + (\<Sum>str\<leftarrow>strs. of_nat (length str) + 1) + 4 * argc in
      kbind (vm_verify (esp - arglen) arglen) (\<lambda>r.
      if r < 0 then kthen (syserr EINVAL) (kret (-1, esp))
      else let uargv = esp - arglen in
        kthen (push_args uargv esp (rev strs)) (kbind (upush uargv (le32 uargv)) (\<lambda>e. kret (argc, e)))))"

section \<open>Executing a file\<close>

definition ahead_load :: "block \<Rightarrow> ahead" where
  "ahead_load d = \<lparr>a_magic = get32 d 0, a_tsize = get32 d 4, a_dsize = get32 d 8, a_bsize = get32 d 12,
     a_syms = get32 d 16, a_entry = get32 d 20, a_trsize = get32 d 24, a_drsize = get32 d 28\<rparr>"

abbreviation (input) NMAGIC :: uint where "NMAGIC \<equiv> 0x6400CC"

definition exec_close :: "unit kop" where
  "exec_close = kfor [0..<NOFILE] (\<lambda>fd. kbind (cu_get (\<lambda>p. p_ofile p fd)) (\<lambda>fp. kbind (cu_get (\<lambda>p. p_fdflag p fd)) (\<lambda>fdflag.
     kwhen (fp \<noteq> None \<and> fdflag AND FD_CLOEXEC \<noteq> 0) (kthen (do_close (int fd)) (kret ())))))"

definition do_exec :: "uint \<Rightarrow> mem \<Rightarrow> nat \<Rightarrow> uint \<Rightarrow> int kop" where
  "do_exec arglen pm path argv = kbind (namei pm path 0) (\<lambda>ipo. case ipo of
       None \<Rightarrow> syserr ENOENT
     | Some ip \<Rightarrow> kbind (bmap ip 0 0) (\<lambda>bn.
       if bn = 0 then kthen (syserr EINVAL) (kstop (Fault ''bp''))
       else kbind (kget (\<lambda>s. i_dev (k_inode s ip))) (\<lambda>dev. kbind (bread (uint dev) bn) (\<lambda>bp.
       kbind (kget (\<lambda>s. ahead_load (b_data (k_buf s bp)))) (\<lambda>ah.
       if a_magic ah \<noteq> NMAGIC then
         kthen (syserr EINVAL) (kthen (brelse bp) (kthen (iput (Some ip)) (kret (-1))))
       else kbind (store_argv pm path argv) (\<lambda>t.
         kthen vm_clear (kthen (vm_renew ah ip)
         (kbind (upush_argv arglen VM_STACK (map snd (snd t))) (\<lambda>(argc, esp).
          kbind (upush esp (le32 argc)) (\<lambda>esp.
          kthen (free_argv t)
          (kthen exec_close
          (kthen (cu_mod (\<lambda>p. p\<lparr>p_sigact := (\<lambda>nr. if nr < NSIG then
              \<lparr>sa_handler = SIG_DFL, sa_mask = 0, sa_flags = 0, sa_restorer = 0\<rparr> else p_sigact p nr)\<rparr>))
          (kthen (brelse bp) (kthen (iput (Some ip))
          (kbind (cu_get (\<lambda>p. vm_entry (p_vm p))) (\<lambda>entry. kstop (Ret_user entry esp)))))))))))))))))"

section \<open>The temporary pages\<close>

text \<open>Taking and returning pages touches the page allocator only.\<close>

abbreviation (input) pm_upd :: "kernel \<Rightarrow> (nat \<Rightarrow> page) \<Rightarrow> nat option \<Rightarrow> kernel" where
  "pm_upd s cm fl \<equiv> s\<lparr>k_coremap := cm, k_pgfree := fl\<rparr>"

lemma pm_upd_frame:
  "class_sizes (pm_upd s cm fl) = class_sizes s" "get_user (pm_upd s cm fl) = get_user s"
  "ustr_take n (pm_upd s cm fl) va = ustr_take n s va"
proof -
  show "class_sizes (pm_upd s cm fl) = class_sizes s" by (simp add: class_sizes_def)
  have "mmu (pm_upd s cm fl) = mmu s" by (simp add: mmu_def fun_eq_iff)
  then show g: "get_user (pm_upd s cm fl) = get_user s" by (simp add: get_user_def fun_eq_iff)
  show "ustr_take n (pm_upd s cm fl) va = ustr_take n s va" by (induction n arbitrary: va) (simp_all add: g split: option.split)
qed

lemma kmalloc_cases:
  assumes "pm_inv s" "class_sizes s"
  obtains p cm fl where "kmalloc 0 PAGE s = Ok (of_nat p * PAGE) (pm_upd s cm fl)" "p < NPAGE" "page_cnt s p = 0"
    "pm_inv (pm_upd s cm fl)" "page_cnt (pm_upd s cm fl) = (page_cnt s)(p := 1)"
  | s' where "kmalloc 0 PAGE s = Stop (Panic ''no free page.'') s'" "\<And>q. q < NPAGE \<Longrightarrow> page_cnt s q \<noteq> 0"
proof (cases rule: pages.alloc_cases [OF assms(1)])
  case (1 p s')
  have "s' = pm_upd s (k_coremap s') (k_pgfree s')"
    using 1(1) by (auto simp: pgalloc_def kop_simps page_mod_def split: option.splits)
  moreover have "kmalloc 0 PAGE s = Ok (of_nat p * PAGE) s'"
    using kmalloc_page_Ok [OF assms(2) _ _ 1(1), of PAGE 0] PPN_page_addr(1) [OF assms(1) 1(3)] by simp
  ultimately show thesis using 1 that(1) by metis
next
  case (2 x s')
  then have "kmalloc 0 PAGE s = Stop (Panic ''no free page.'') s'"
    using kmalloc_page [OF assms(2), of PAGE 0] by (auto simp: pgalloc_def kop_simps split: option.splits)
  then show thesis using 2(2) by (rule that(2))
qed

lemma kmalloc_avail:
  assumes "pm_inv s" "class_sizes s" "q < NPAGE" "page_cnt s q = 0"
  shows "\<exists>p cm fl. kmalloc 0 PAGE s = Ok (of_nat p * PAGE) (pm_upd s cm fl) \<and> pm_inv (pm_upd s cm fl) \<and>
    page_cnt (pm_upd s cm fl) = (page_cnt s)(p := 1)"
proof (cases rule: kmalloc_cases [OF assms(1,2)])
  case (1 p cm fl)
  then show ?thesis by blast
next
  case (2 s')
  then show ?thesis using assms(3,4) by blast
qed

text \<open>\<open>took s s' as qs\<close>: \<open>as\<close> are the addresses of the fresh pages \<open>qs\<close>, which are the only pages taken.\<close>

definition took :: "kernel \<Rightarrow> kernel \<Rightarrow> uint list \<Rightarrow> nat list \<Rightarrow> bool" where
  "took s s' as qs \<longleftrightarrow> as = map (\<lambda>q. of_nat q * PAGE) qs \<and> distinct qs \<and> (\<forall>q\<in>set qs. q < NPAGE \<and> page_cnt s q = 0) \<and>
     page_cnt s' = (\<lambda>p. if p \<in> set qs then 1 else page_cnt s p) \<and> pm_inv s' \<and> (\<exists>cm fl. s' = pm_upd s cm fl)"

lemma took_Nil: "pm_inv s \<Longrightarrow> took s s [] []"
  by (auto simp: took_def fun_eq_iff intro!: exI [of _ "k_coremap s"] exI [of _ "k_pgfree s"])

lemma took_Cons:
  assumes "p < NPAGE" "page_cnt s p = 0" "page_cnt (pm_upd s cm fl) = (page_cnt s)(p := 1)" "took (pm_upd s cm fl) s' as qs"
  shows "took s s' (of_nat p * PAGE # as) (p # qs)"
proof -
  have "p \<notin> set qs" using assms(3,4) by (auto simp: took_def)
  moreover have "q < NPAGE \<and> page_cnt s q = 0" if "q \<in> set qs" for q
  proof -
    have "q \<noteq> p" "page_cnt (pm_upd s cm fl) q = 0" "q < NPAGE" using \<open>p \<notin> set qs\<close> that assms(4) by (auto simp: took_def)
    then show ?thesis using assms(3) by simp
  qed
  ultimately show ?thesis using assms unfolding took_def by (auto simp: fun_eq_iff)
qed

lemma tookD:
  "took s s' as qs \<Longrightarrow> \<exists>qs. as = map (\<lambda>q. of_nat q * PAGE) qs \<and> distinct qs \<and> (\<forall>q\<in>set qs. page_cnt s q = 0)"
  unfolding took_def by blast

lemma store_args_cases:
  assumes "pm_inv s" "class_sizes s"
  obtains as qs s' where "store_args ps s = Ok as s'" "took s s' (map fst as) qs" "map (\<lambda>a. Some (snd a)) as = map (ustr_take 4095 s) ps"
  | x s' where "store_args ps s = Stop x s'" "x \<in> {Panic ''no free page.'', Fault ''argv''}"
proof -
  have "(\<exists>as qs s'. store_args ps s = Ok as s' \<and> took s s' (map fst as) qs \<and> map (\<lambda>a. Some (snd a)) as = map (ustr_take 4095 s) ps) \<or>
    (\<exists>x s'. store_args ps s = Stop x s' \<and> x \<in> {Panic ''no free page.'', Fault ''argv''})"
    using assms
  proof (induction ps arbitrary: s)
    case Nil
    then show ?case using took_Nil by (auto simp: kop_simps)
  next
    case (Cons v ps)
    show ?case
    proof (cases rule: kmalloc_cases [OF Cons.prems])
      case (1 p cm fl)
      let ?s = "pm_upd s cm fl"
      have e: "store_args (v # ps) s = kderef ''argv'' (ustr_take 4095 s v) (\<lambda>str. kbind (store_args ps) (\<lambda>rest. kret ((of_nat p * PAGE, str) # rest))) ?s"
        using 1(1) by (simp add: kbind_Ok kbind_simps pm_upd_frame del: ustr_take.simps)
      show ?thesis
      proof (cases "ustr_take 4095 s v")
        case None
        then show ?thesis using e by (simp add: kop_simps del: ustr_take.simps store_args.simps)
      next
        case (Some str)
        then have e: "store_args (v # ps) s = kbind (store_args ps) (\<lambda>rest. kret ((of_nat p * PAGE, str) # rest)) ?s"
          using e by (simp only: kderef_simps)
        from Cons.IH [OF 1(4)] Cons.prems(2) consider
          as qs s' where "store_args ps ?s = Ok as s'" "took ?s s' (map fst as) qs" "map (\<lambda>a. Some (snd a)) as = map (ustr_take 4095 s) ps"
          | x s' where "store_args ps ?s = Stop x s'" "x \<in> {Panic ''no free page.'', Fault ''argv''}"
          unfolding pm_upd_frame by blast
        then show ?thesis
        proof cases
          case (1 as qs s')
          have "store_args (v # ps) s = Ok ((of_nat p * PAGE, str) # as) s'"
            using e 1(1) by (simp add: kbind_Ok kop_apply del: store_args.simps)
          moreover have "took s s' (map fst ((of_nat p * PAGE, str) # as)) (p # qs)"
            using took_Cons [OF \<open>p < NPAGE\<close> \<open>page_cnt s p = 0\<close> \<open>page_cnt ?s = (page_cnt s)(p := 1)\<close> 1(2)] by simp
          ultimately show ?thesis using 1(3) Some by (simp del: ustr_take.simps store_args.simps) blast
        next
          case (2 x s')
          then show ?thesis using e by (simp add: kbind_Stop del: store_args.simps)
        qed
      qed
    next
      case (2 s')
      then show ?thesis by (simp add: kbind_Stop)
    qed
  qed
  then show thesis using that by blast
qed

lemma kfree_ex:
  assumes "pm_inv s" "class_sizes s" "p < NPAGE" "page_cnt s p > 0"
  shows "\<exists>cm fl. kfree 0 (of_nat p * PAGE) PAGE s = Ok 0 (pm_upd s cm fl) \<and> pm_inv (pm_upd s cm fl) \<and>
    page_cnt (pm_upd s cm fl) = (page_cnt s)(p := page_cnt s p - 1)"
  by (rule kfree_page_Ok [OF assms]) blast

lemma free_pages:
  assumes "pm_inv s" "class_sizes s" "distinct qs" "\<forall>q\<in>set qs. q < NPAGE \<and> page_cnt s q = 1"
  shows "\<exists>cm fl. kfor (map (\<lambda>q. of_nat q * PAGE) qs) (\<lambda>a. kthen (kfree 0 a PAGE) (kret ())) s = Ok () (pm_upd s cm fl) \<and>
    pm_inv (pm_upd s cm fl) \<and> page_cnt (pm_upd s cm fl) = (\<lambda>p. if p \<in> set qs then 0 else page_cnt s p)"
  using assms
proof (induction qs arbitrary: s)
  case Nil
  then show ?case by (auto simp: kop_simps intro!: exI [of _ "k_coremap s"] exI [of _ "k_pgfree s"])
next
  case (Cons q qs)
  obtain cm fl where f: "kfree 0 (of_nat q * PAGE) PAGE s = Ok 0 (pm_upd s cm fl)" "pm_inv (pm_upd s cm fl)"
    "page_cnt (pm_upd s cm fl) = (page_cnt s)(q := page_cnt s q - 1)"
    using kfree_ex [OF Cons.prems(1,2), of q] Cons.prems(4) by auto
  have "class_sizes (pm_upd s cm fl)" "distinct qs" "\<forall>x\<in>set qs. x < NPAGE \<and> page_cnt (pm_upd s cm fl) x = 1"
    using Cons.prems f(3) by (auto simp: pm_upd_frame)
  from Cons.IH [OF f(2) this] obtain cm' fl' where
    r: "kfor (map (\<lambda>q. of_nat q * PAGE) qs) (\<lambda>a. kthen (kfree 0 a PAGE) (kret ())) (pm_upd s cm fl) = Ok () (pm_upd s cm' fl')"
    "pm_inv (pm_upd s cm' fl')" "page_cnt (pm_upd s cm' fl') = (\<lambda>p. if p \<in> set qs then 0 else page_cnt (pm_upd s cm fl) p)"
    by auto
  have "kfor (map (\<lambda>q. of_nat q * PAGE) (q # qs)) (\<lambda>a. kthen (kfree 0 a PAGE) (kret ())) s = Ok () (pm_upd s cm' fl')"
    using r(1) f(1) by (simp add: kthen_Ok kop_apply)
  moreover have "page_cnt (pm_upd s cm' fl') = (\<lambda>p. if p \<in> set (q # qs) then 0 else page_cnt s p)"
    using r(3) f(3) Cons.prems(4) by (auto simp: fun_eq_iff)
  ultimately show ?case using r(2) by blast
qed

lemma kfor_fst: "kfor xs (\<lambda>(a, b). f a) = kfor (map fst xs) f"
  by (induction xs) auto

lemma free_argv_Ok:
  assumes "took s s' (tmp # map fst args) (q # qs)" "class_sizes s"
  shows "\<exists>s''. free_argv (tmp, args) s' = Ok 0 s'' \<and> pm_inv s'' \<and> page_cnt s'' = page_cnt s"
proof -
  have s': "tmp = of_nat q * PAGE" "map fst args = map (\<lambda>q. of_nat q * PAGE) qs" "distinct (q # qs)"
    "\<forall>x\<in>set (q # qs). x < NPAGE \<and> page_cnt s x = 0 \<and> page_cnt s' x = 1" "pm_inv s'" "class_sizes s'"
    "page_cnt s' = (\<lambda>p. if p \<in> set (q # qs) then 1 else page_cnt s p)"
    using assms by (auto simp: took_def pm_upd_frame)
  obtain cm fl where f: "kfor (map fst args) (\<lambda>a. kthen (kfree 0 a PAGE) (kret ())) s' = Ok () (pm_upd s' cm fl)"
    "pm_inv (pm_upd s' cm fl)" "page_cnt (pm_upd s' cm fl) = (\<lambda>p. if p \<in> set qs then 0 else page_cnt s' p)"
    using free_pages [OF s'(5,6), of qs] s'(2,3,4) by auto
  have q: "q < NPAGE" "page_cnt (pm_upd s' cm fl) q > 0" "class_sizes (pm_upd s' cm fl)"
    using s'(3,4,6) f(3) by (auto simp: pm_upd_frame)
  obtain cm' fl' where g: "kfree 0 tmp PAGE (pm_upd s' cm fl) = Ok 0 (pm_upd s' cm' fl')" "pm_inv (pm_upd s' cm' fl')"
    "page_cnt (pm_upd s' cm' fl') = (page_cnt (pm_upd s' cm fl))(q := page_cnt (pm_upd s' cm fl) q - 1)"
    using kfree_ex [OF f(2) q(3,1,2)] unfolding s'(1) by auto
  have "free_argv (tmp, args) s' = Ok 0 (pm_upd s' cm' fl')"
    using f(1) g(1) by (simp add: free_argv_def kfor_fst kthen_Ok kop_apply)
  moreover have "page_cnt (pm_upd s' cm' fl') = page_cnt s"
    using g(3) f(3) s'(3,4,7) by (auto simp: fun_eq_iff)
  ultimately show ?thesis using g(2) by blast
qed

text \<open>The outcomes of \<^verbatim>\<open>store_argv\<close>: a copy in pages of its own, or no memory, or a vector that cannot be read.\<close>

lemma store_argv_cases:
  fixes s argv
  defines "r \<equiv> if argv = 0 then Some [] else argv_ptrs 1023 s argv"
  assumes "pm_inv s" "class_sizes s"
  shows "(\<exists>ps p as qs s'. r = Some ps \<and> store_argv pm path argv s = Ok (of_nat p * PAGE, as) s' \<and>
      took s s' (of_nat p * PAGE # map fst as) (p # qs) \<and>
      map (\<lambda>a. Some (snd a)) as = Some (str_take 4095 pm path) # map (ustr_take 4095 s) ps) \<or>
    (\<exists>x s'. store_argv pm path argv s = Stop x s' \<and> x \<in> {Panic ''no free page.'', Fault ''argv''})"
proof -
  let ?m = "kmalloc 0 PAGE"
  have st: "store_argv pm path argv s = kderef ''argv'' r (\<lambda>ps. kbind ?m (\<lambda>tmp. kbind ?m (\<lambda>tmp0.
     kbind (store_args ps) (\<lambda>args. kret (tmp, (tmp0, str_take 4095 pm path) # args))))) s"
    by (simp only: store_argv_def kbind_simps r_def)
  show ?thesis
  proof (cases r)
    case None
    then show ?thesis by (simp only: st kderef_simps kop_apply) simp
  next
    case (Some ps)
    show ?thesis
    proof (cases rule: kmalloc_cases [OF assms(2,3)])
      case (2 s')
      then show ?thesis by (simp only: st Some kderef_simps kbind_Stop) simp
    next
      case (1 p cm fl)
      note a = 1
      let ?s = "pm_upd s cm fl"
      have c: "class_sizes ?s" using assms(3) by (simp add: pm_upd_frame)
      show ?thesis
      proof (cases rule: kmalloc_cases [OF a(4) c])
        case (2 s')
        then show ?thesis by (simp only: st Some a(1) kderef_simps kbind_Ok kbind_Stop) simp
      next
        case (1 p0 cm0 fl0)
        let ?t = "pm_upd s cm0 fl0"
        have b: "?m ?s = Ok (of_nat p0 * PAGE) ?t" "pm_inv ?t" "page_cnt ?t = (page_cnt ?s)(p0 := 1)" "class_sizes ?t"
          using 1 assms(3) by (simp_all add: pm_upd_frame)
        note e = st Some a(1) b(1) kderef_simps kbind_Ok
        show ?thesis
        proof (cases rule: store_args_cases [OF b(2,4), of ps])
          case (2 x s')
          then show ?thesis by (simp only: e kbind_Stop) blast
        next
          case ok: (1 as qs s')
          have "took ?s s' (of_nat p0 * PAGE # map fst as) (p0 # qs)"
            using took_Cons [where s = ?s and p = p0 and cm = cm0 and fl = fl0 and s' = s' and as = "map fst as" and qs = qs] 1(2,3) b(3) ok(2) by simp
          from took_Cons [OF a(2,3,5) this]
          have "took s s' (of_nat p * PAGE # map fst ((of_nat p0 * PAGE, str_take 4095 pm path) # as)) (p # p0 # qs)" by simp
          moreover have "store_argv pm path argv s = Ok (of_nat p * PAGE, (of_nat p0 * PAGE, str_take 4095 pm path) # as) s'"
            by (simp only: e ok(1) kop_apply)
          moreover have "map (\<lambda>a. Some (snd a)) ((of_nat p0 * PAGE, str_take 4095 pm path) # as) = Some (str_take 4095 pm path) # map (ustr_take 4095 s) ps"
            using ok(3) by (simp add: pm_upd_frame del: str_take.simps ustr_take.simps)
          ultimately show ?thesis
            using Some by (intro disjI1 exI [of _ ps] exI [of _ p] exI [of _ "(of_nat p0 * PAGE, str_take 4095 pm path) # as"] exI [of _ "p0 # qs"] exI [of _ s'] conjI)
        qed
      qed
    qed
  qed
qed

section \<open>Properties\<close>


section \<open>Instances\<close>


end
