(* ===== verification/Keybd.thy ===== *)
theory Keybd
  imports Tty
begin

unbundle bit_operations_syntax

text \<open>
  The keyboard driver, \<^verbatim>\<open>src/chr/keybd.c\<close> with the tables of \<^verbatim>\<open>src/inc/keybd.h\<close>: the
  state of the shift keys and the translation of a scan code into the character given to
  the first terminal. The two port reads of the interrupt handler are its arguments.
\<close>

section \<open>Definitions\<close>

abbreviation (input) SHIFT :: uint where "SHIFT \<equiv> 0x1"
abbreviation (input) CTRL :: uint where "CTRL \<equiv> 0x2"
abbreviation (input) ALT :: uint where "ALT \<equiv> 0x4"
abbreviation (input) E0ESC :: uint where "E0ESC \<equiv> 0x8"
abbreviation (input) KB_STAT_DIB :: uchar where "KB_STAT_DIB \<equiv> 0x1"

text \<open>
  The first 88 entries of the tables; the handler indexes them with seven bits, the
  entries between them and 0x80 are zero and the designated entries from 0x97 on are out
  of its reach.
\<close>

definition keybd_tab :: "uchar list" where
  "keybd_tab =
    [0, 0x1B, 0x31, 0x32, 0x33, 0x34, 0x35, 0x36,
     0x37, 0x38, 0x39, 0x30, 0x2D, 0x3D, 8, 9,
     0x71, 0x77, 0x65, 0x72, 0x74, 0x79, 0x75, 0x69,
     0x6F, 0x70, 0x5B, 0x5D, 10, 0, 0x61, 0x73,
     0x64, 0x66, 0x67, 0x68, 0x6A, 0x6B, 0x6C, 0x3B,
     0x27, 0x60, 0, 0x5C, 0x7A, 0x78, 0x63, 0x76,
     0x62, 0x6E, 0x6D, 0x2C, 0x2E, 0x2F, 0, 0x2A,
     0, 0x20, 0, 0, 0, 0, 0, 0,
     0, 0, 0, 0, 0, 0, 0, 0x37,
     0x38, 0x39, 0x2D, 0x34, 0x35, 0x36, 0x2B, 0x31,
     0x32, 0x33, 0x30, 0x2E, 0, 0, 0, 0]"

definition shift_tab :: "uchar list" where
  "shift_tab =
    [0, 0x1B, 0x21, 0x40, 0x23, 0x24, 0x25, 0x5E,
     0x26, 0x2A, 0x28, 0x29, 0x5F, 0x2B, 8, 9,
     0x51, 0x57, 0x45, 0x52, 0x54, 0x59, 0x55, 0x49,
     0x4F, 0x50, 0x7B, 0x7D, 10, 0, 0x41, 0x53,
     0x44, 0x46, 0x47, 0x48, 0x4A, 0x4B, 0x4C, 0x3A,
     0x22, 0x7E, 0, 0x7C, 0x5A, 0x58, 0x43, 0x56,
     0x42, 0x4E, 0x4D, 0x3C, 0x3E, 0x3F, 0, 0x2A,
     0, 0x20, 0, 0, 0, 0, 0, 0,
     0, 0, 0, 0, 0, 0, 0, 0x37,
     0x38, 0x39, 0x2D, 0x34, 0x35, 0x36, 0x2B, 0x31,
     0x32, 0x33, 0x30, 0x2E, 0, 0, 0, 0]"

definition keymap :: "uchar list \<Rightarrow> uchar \<Rightarrow> uchar" where
  "keymap tab i = (if unat i < length tab then tab ! unat i else 0)"

definition shift :: "uint \<Rightarrow> uchar \<Rightarrow> uint" where
  "shift mode sc = (let ch = sc AND 0x7F in
     if mode AND E0ESC \<noteq> 0 then
       (if ch = 0x1D then CTRL else if ch = 0x38 then ALT else 0)
     else
       (if ch = 0x2A \<or> ch = 0x36 then SHIFT else if ch = 0x1D then CTRL
        else if ch = 0x38 then ALT else 0))"

text \<open>
  The \<^verbatim>\<open>switch\<close> on control characters has no \<^verbatim>\<open>break\<close>: every listed key falls through
  to the last assignment.
\<close>

definition ctrl_char :: "uchar \<Rightarrow> uchar" where
  "ctrl_char ch =
     (if ch \<in> {0x63, 0x64, 0x78, 0x71, 0x73, 0x7A, 0x5C} then CQUIT else ch)"

definition do_keybd_intr :: "uchar \<Rightarrow> uchar \<Rightarrow> int kop" where
  "do_keybd_intr stat sc =
     (if stat AND KB_STAT_DIB = 0 then kret (-1)
      else if sc AND 0x7F = 0x3A then kret 0
      else
       kthen (kwhen (sc = 0xE0) (kmod (\<lambda>s. s\<lparr>k_keymode := k_keymode s OR E0ESC\<rparr>)))
       (kbind (kget (\<lambda>s. shift (k_keymode s) sc)) (\<lambda>m.
        if m \<noteq> 0 then
          kthen (kmod (\<lambda>s. s\<lparr>k_keymode := (if sc AND 0x80 \<noteq> 0 then k_keymode s AND NOT m
                                          else k_keymode s OR m)\<rparr>)) (kret 0)
        else kbind (kget k_keymode) (\<lambda>mode.
          let ch0 = keymap (if mode AND SHIFT \<noteq> 0 then shift_tab else keybd_tab) (sc AND 0x7F);
              ch = (if mode AND CTRL \<noteq> 0 then ctrl_char ch0 else ch0) in
          if sc AND 0x80 = 0 \<and> ch \<noteq> 0 then kthen (tty_input 0 ch) (kret 0)
          else kthen (kmod (\<lambda>s. s\<lparr>k_keymode := k_keymode s AND NOT E0ESC\<rparr>)) (kret 0)))))"

section \<open>The shift state\<close>

lemma keymap_0x60: "keymap tab 0x60 = 0" if "length tab = 88"
  using that by (simp add: keymap_def)

definition same_mode :: "uint \<Rightarrow> kernel \<Rightarrow> bool" where
  "same_mode m s \<longleftrightarrow> k_keymode s = m"

lemma same_mode_upd [simp]:
  "same_mode m (set_px x s) = same_mode m s" "same_mode m (set_py y s) = same_mode m s"
  "same_mode m (s\<lparr>k_vga := v\<rparr>) = same_mode m s" "same_mode m (s\<lparr>k_csr := c\<rparr>) = same_mode m s"
  "same_mode m (tty_mod i f s) = same_mode m s" "same_mode m (proc_mod j g s) = same_mode m s"
  "same_mode m (s\<lparr>k_proc := t\<rparr>) = same_mode m s"
  by (simp_all add: same_mode_def set_px_def set_py_def tty_mod_def proc_mod_def)

lemma same_mode_putch: "preserves (same_mode m) (putch c)"
proof -
  have "preserves (same_mode m) (vga_store x)" for x
    by (auto simp: preserves_def vga_store_def)
  then show ?thesis
    unfolding putch_def scroll_def flush_csr_def Let_def
    by (intro preserves_intros) auto
qed

lemma same_mode_drain: "preserves (same_mode m) (tty_drain k f i)"
  by (induction k)
    (auto simp: tty_drain.simps split_beta intro!: preserves_intros same_mode_putch split: putc_fn.splits)

lemma same_mode_sigsend_g: "preserves (same_mode m) (sigsend_g g n b)"
  unfolding sigsend_g_def sigsend_def suser_def syserr_def setrun_def
  by (intro preserves_intros) auto

lemma same_mode_tty_input: "preserves (same_mode m) (tty_input i ch)"
  unfolding tty_input_def tty_canon_def tty_output_def tty_start_def wakeup_def setrun_def
  by (intro preserves_intros same_mode_drain same_mode_sigsend_g) auto

lemma k_keymode_tty_input: "k_keymode (final (tty_input i ch s)) = k_keymode s"
  using preservesD [OF same_mode_tty_input, of "k_keymode s" s] by (simp add: same_mode_def)

lemma shift_no_escape: "\<not> bit (shift mode sc) 3"
  by (simp add: shift_def Let_def bit_numeral_rec)

text \<open>The prefix byte itself is no shift key and translates to no character.\<close>

lemma prefix_clears:
  "shift mode 0xE0 = 0" "keymap keybd_tab (0xE0 AND 0x7F) = 0" "keymap shift_tab (0xE0 AND 0x7F) = 0"
  by (simp_all add: shift_def keymap_0x60 keybd_tab_def shift_tab_def)

lemma ctrl_char_0: "ctrl_char 0 = 0"
  by (simp add: ctrl_char_def)

lemma final_kthen_kret: "final (kthen m (kret a) s) = final (m s)"
  by (simp add: kthen_def kbind_def kret_def split: res.splits)

lemma and_7f_id: "(x :: uchar) AND 0x80 = 0 \<Longrightarrow> x AND 0x7F = x"
proof (rule bit_word_eqI)
  fix n assume a: "x AND 0x80 = 0" and n: "n < LENGTH(8)"
  have "\<not> bit (x AND 0x80) 7" by (simp add: a)
  then have "\<not> bit x 7" by (simp add: bit_simps bit_numeral_rec)
  moreover have "n = 0 \<or> n = 1 \<or> n = 2 \<or> n = 3 \<or> n = 4 \<or> n = 5 \<or> n = 6 \<or> n = 7"
    using n by auto
  ultimately show "bit (x AND 0x7F) n = bit x n"
    by (auto simp: bit_simps bit_numeral_rec)
qed

section \<open>Properties\<close>

text \<open>
  The extended-key prefix has no lasting effect. If the keyboard state carries no
  escape flag when an interrupt arrives, it carries none when the handler is done,
  whatever the scan code: the prefix byte 0xE0 clears the flag it has just set, so the
  handler always translates with the unextended tables and the branch of \<^verbatim>\<open>shift()\<close>
  for extended keys is never taken.
\<close>

theorem keybd_escape_never_survives:
  assumes "\<not> bit (k_keymode s) 3"
  shows "\<not> bit (k_keymode (final (do_keybd_intr stat sc s))) 3"
proof (cases "sc = 0xE0")
  case True
  then show ?thesis using assms
    by (simp add: do_keybd_intr_def Let_def kop_simps prefix_clears ctrl_char_0 bit_simps)
next
  case False
  then show ?thesis using assms
    by (simp add: do_keybd_intr_def Let_def kop_simps final_kthen_kret k_keymode_tty_input
        bit_simps shift_no_escape)
qed

theorem keybd_escape_never_survives_witness:
  "\<not> bit (k_keymode boot_kernel) 3 \<and>
   \<not> bit (k_keymode (final (do_keybd_intr 1 0xE0 boot_kernel))) 3"
  using keybd_escape_never_survives [of boot_kernel 1 "0xE0"] by (simp add: boot_kernel_def)

text \<open>
  With the control key down, every key for which the driver has a control
  function gives the terminal the quit character, because no case of the switch ends in
  \<^verbatim>\<open>break\<close>; any other key gives its own character. In particular control-d does not
  signal the end of the input.
\<close>

theorem keybd_ctrl_is_quit:
  assumes "stat AND KB_STAT_DIB \<noteq> 0" "sc AND 0x80 = 0" "k_keymode s = CTRL"
    and "keymap keybd_tab sc = ch" "ch \<noteq> 0" "sc \<notin> {0x3A, 0x1D, 0x38, 0x2A, 0x36}"
  shows "do_keybd_intr stat sc s =
    kthen (tty_input 0 (if ch \<in> {0x63, 0x64, 0x78, 0x71, 0x73, 0x7A, 0x5C} then CQUIT else ch))
      (kret 0) s"
proof -
  have sc: "sc AND 0x7F = sc" "sc \<noteq> 0xE0" using assms(2) by (auto intro: and_7f_id)
  have "shift CTRL sc = 0" using assms(6) by (simp add: shift_def sc)
  then show ?thesis using assms sc
    by (simp add: do_keybd_intr_def Let_def kop_simps ctrl_char_def)
qed

theorem keybd_ctrl_is_quit_witness:
  "do_keybd_intr 1 0x20 (boot_kernel\<lparr>k_keymode := CTRL\<rparr>) =
    kthen (tty_input 0 CQUIT) (kret 0) (boot_kernel\<lparr>k_keymode := CTRL\<rparr>)"
  using keybd_ctrl_is_quit [of 1 "0x20" "boot_kernel\<lparr>k_keymode := CTRL\<rparr>" "0x64"]
  by (simp add: keymap_def keybd_tab_def)

end
