(* ===== verification/Seg.thy ===== *)
theory Seg
  imports Prelude
begin

unbundle bit_operations_syntax

text \<open>
  Segments, interrupt vectors and the interrupt controllers: \<^verbatim>\<open>src/kern/seg.c\<close> and the set-up
  half of \<^verbatim>\<open>src/kern/trap.c\<close>, with the records of \<^verbatim>\<open>src/inc/gdt.h\<close> and \<^verbatim>\<open>src/inc/idt.h\<close>. The bit
  fields are words of their widths. The tables have a state of their own,
  since no other part of the kernel reads them; the addresses of the linked objects
  (\<^verbatim>\<open>tss\<close>, \<^verbatim>\<open>gdt\<close>, \<^verbatim>\<open>idt\<close>) and the entry points \<^verbatim>\<open>_hwint\<close> of the assembly code are arguments.
  Of an 8259 controller the model has the initialisation sequence, the vector base and the
  mask; its in-service register is not represented, and with it \<^verbatim>\<open>irq_eoi\<close> has no effect here.
\<close>

section \<open>Descriptors\<close>

record seg_desc =
  sd_limit_lo :: "16 word" sd_base_lo :: "16 word" sd_base_mi :: "8 word" sd_type :: "4 word"
  sd_s :: "1 word" sd_dpl :: "2 word" sd_present :: "1 word" sd_limit_hi :: "4 word"
  sd_avl :: "1 word" sd_r :: "1 word" sd_db :: "1 word" sd_g :: "1 word" sd_base_hi :: "8 word"

record gate_desc =
  gd_base_lo :: "16 word" gd_sel :: "16 word" gd_always0 :: "8 word" gd_type :: "4 word"
  gd_sys :: "1 word" gd_dpl :: "2 word" gd_p :: "1 word" gd_base_hi :: "16 word"

text \<open>The handlers that are entered in \<^verbatim>\<open>hwint_routines\<close>.\<close>

datatype routine = R_pgfault | R_timer | R_keybd | R_hd | R_syscall

record pic = pic_icw :: nat pic_base :: uchar pic_imr :: uchar

record tables =
  t_gdt :: "nat \<Rightarrow> seg_desc"
  t_gdtr :: "ushort \<times> uint"
  t_tr :: ushort
  t_idt :: "nat \<Rightarrow> gate_desc"
  t_idtr :: "ushort \<times> uint"
  t_routine :: "nat \<Rightarrow> routine option"
  t_pic1 :: pic
  t_pic2 :: pic

abbreviation (input) KERN_CS :: ushort where "KERN_CS \<equiv> 8"
abbreviation (input) STS_LDT :: "4 word" where "STS_LDT \<equiv> 0x2"
abbreviation (input) STS_TA :: "4 word" where "STS_TA \<equiv> 0x9"
abbreviation (input) STS_IG :: "4 word" where "STS_IG \<equiv> 0xE"
abbreviation (input) STS_TRG :: "4 word" where "STS_TRG \<equiv> 0xF"

section \<open>Segments (seg.c)\<close>

definition set_seg :: "uint \<Rightarrow> uint \<Rightarrow> 2 word \<Rightarrow> 4 word \<Rightarrow> seg_desc" where
  "set_seg base limit dpl type = \<lparr>
     sd_limit_lo = ucast (drop_bit 12 limit AND 0xFFFF),
     sd_base_lo = ucast (base AND 0xFFFF),
     sd_base_mi = ucast (drop_bit 16 base AND 0xFF),
     sd_type = type, sd_s = 1, sd_dpl = dpl, sd_present = 1,
     sd_limit_hi = ucast (drop_bit 28 limit),
     sd_avl = 0, sd_r = 0, sd_db = 1, sd_g = 1,
     sd_base_hi = ucast (drop_bit 24 base)\<rparr>"

definition set_ldt :: "uint \<Rightarrow> seg_desc" where
  "set_ldt base = (set_seg base 0 0 STS_LDT)\<lparr>sd_limit_lo := 0x3, sd_s := 0\<rparr>"

definition set_tss :: "uint \<Rightarrow> seg_desc" where
  "set_tss base = (set_seg base 0 0 STS_TA)\<lparr>sd_limit_lo := 0x68, sd_s := 0\<rparr>"

definition gdt_init :: "uint \<Rightarrow> uint \<Rightarrow> tables \<Rightarrow> tables" where
  "gdt_init tss gdt t = t\<lparr>t_gdt := (t_gdt t)(
       1 := set_seg 0 0xFFFFFFFF 0 (0x8 OR 0x2),
       2 := set_seg 0 0xFFFFFFFF 0 0x2,
       3 := set_seg 0 0xFFFFFFFF 3 (0x8 OR 0x2),
       4 := set_seg 0 0xFFFFFFFF 3 0x2,
       5 := set_tss tss),
     t_gdtr := (8 * 6 - 1, gdt), t_tr := push_bit 3 5\<rparr>"

section \<open>The interrupt controllers (trap.c)\<close>

text \<open>
  A command with bit 4 starts the initialisation and clears the mask; the next three bytes on the
  data port are the vector base, the cascade wiring and the mode, and every later one is
  the mask.
\<close>

definition pic_cmd :: "uchar \<Rightarrow> pic \<Rightarrow> pic" where
  "pic_cmd v p = (if bit v 4 then p\<lparr>pic_icw := 1, pic_imr := 0\<rparr> else p)"

definition pic_data :: "uchar \<Rightarrow> pic \<Rightarrow> pic" where
  "pic_data v p =
     (if pic_icw p = 1 then p\<lparr>pic_icw := 2, pic_base := v\<rparr>
      else if pic_icw p = 2 then p\<lparr>pic_icw := 3\<rparr>
      else if pic_icw p = 3 then p\<lparr>pic_icw := 0\<rparr>
      else p\<lparr>pic_imr := v\<rparr>)"

definition outb :: "uint \<Rightarrow> uchar \<Rightarrow> tables \<Rightarrow> tables" where
  "outb port v t =
     (if port = 0x20 then t\<lparr>t_pic1 := pic_cmd v (t_pic1 t)\<rparr>
      else if port = 0x21 then t\<lparr>t_pic1 := pic_data v (t_pic1 t)\<rparr>
      else if port = 0xA0 then t\<lparr>t_pic2 := pic_cmd v (t_pic2 t)\<rparr>
      else if port = 0xA1 then t\<lparr>t_pic2 := pic_data v (t_pic2 t)\<rparr>
      else t)"

definition irq_enable :: "uchar \<Rightarrow> tables \<Rightarrow> tables" where
  "irq_enable irq t =
     (let irq_mask = (push_bit 8 (ucast (pic_imr (t_pic2 t))) + ucast (pic_imr (t_pic1 t)) :: ushort)
        AND NOT (ucast (shl1 (ucast irq))) in
      outb 0xA1 (ucast (drop_bit 8 irq_mask)) (outb 0x21 (ucast irq_mask) t))"

definition irq_init :: "tables \<Rightarrow> tables" where
  "irq_init t = irq_enable 2 (fold (\<lambda>(p, v). outb p v)
     [(0x20, 0x11), (0xA0, 0x11), (0x21, 32), (0xA1, 32 + 8), (0x21, 4), (0xA1, 2), (0x21, 0x01), (0xA1, 0x01),
      (0x21, 0xFF), (0xA1, 0xFF)] t)"

definition irq_eoi :: "int \<Rightarrow> tables \<Rightarrow> tables" where
  "irq_eoi nr t = (let t = outb 0x20 0x20 t in if nr \<ge> 40 then outb 0xA0 0x20 t else t)"

section \<open>Interrupt vectors (trap.c)\<close>

definition idt_set_gate :: "nat \<Rightarrow> uint \<Rightarrow> ushort \<Rightarrow> 4 word \<Rightarrow> 2 word \<Rightarrow> tables \<Rightarrow> tables" where
  "idt_set_gate nr base sel type dpl t = t\<lparr>t_idt := (t_idt t)(nr := \<lparr>
     gd_base_lo = ucast (base AND 0xFFFF), gd_sel = sel, gd_always0 = 0, gd_type = type, gd_sys = 0,
     gd_dpl = dpl, gd_p = 1, gd_base_hi = ucast (drop_bit 16 base AND 0xFFFF)\<rparr>)\<rparr>"

definition syst_gate :: "nat \<Rightarrow> uint \<Rightarrow> tables \<Rightarrow> tables" where
  "syst_gate nr base = idt_set_gate nr base KERN_CS STS_TRG 3"

definition intr_gate :: "nat \<Rightarrow> uint \<Rightarrow> tables \<Rightarrow> tables" where
  "intr_gate nr base = idt_set_gate nr base KERN_CS STS_IG 0"

definition trap_gate :: "nat \<Rightarrow> uint \<Rightarrow> tables \<Rightarrow> tables" where
  "trap_gate nr base = idt_set_gate nr base KERN_CS STS_TRG 0"

definition set_hwint :: "nat \<Rightarrow> routine \<Rightarrow> tables \<Rightarrow> tables" where
  "set_hwint nr func t = t\<lparr>t_routine := (t_routine t)(nr \<mapsto> func)\<rparr>"

definition hwint_init :: "(nat \<Rightarrow> uint) \<Rightarrow> tables \<Rightarrow> tables" where
  "hwint_init hwint t =
     (let t = fold (\<lambda>i. trap_gate i (hwint i)) [0..<32] t;
          t = fold (\<lambda>i. intr_gate i (hwint i)) [32..<48] t;
          t = fold (\<lambda>i. syst_gate i (hwint i)) [0x03, 0x04, 0x05, 0x80] t
      in set_hwint 0x80 R_syscall t)"

definition idt_init :: "(nat \<Rightarrow> uint) \<Rightarrow> uint \<Rightarrow> tables \<Rightarrow> tables" where
  "idt_init hwint idt t = (hwint_init hwint (irq_init t))\<lparr>t_idtr := (8 * 256 - 1, idt)\<rparr>"

text \<open>Drivers allow their interrupt and register the handler (\<^verbatim>\<open>src/blk/hd.c\<close>, \<^verbatim>\<open>src/chr/keybd.c\<close>, the end of \<^verbatim>\<open>timer_init\<close>).\<close>

definition hd_init :: "tables \<Rightarrow> tables" where
  "hd_init t = set_hwint (32 + 14) R_hd (irq_enable 14 t)"

definition keybd_init :: "tables \<Rightarrow> tables" where
  "keybd_init t = set_hwint (32 + 1) R_keybd (irq_enable 1 t)"

definition timer_hwint :: "tables \<Rightarrow> tables" where
  "timer_hwint t = set_hwint (32 + 0) R_timer (irq_enable 0 t)"

text \<open>The order of \<^verbatim>\<open>kmain\<close>: the tables, then the registrations of \<^verbatim>\<open>mm_init\<close> and of the drivers.\<close>

definition kmain_tables :: "uint \<Rightarrow> uint \<Rightarrow> uint \<Rightarrow> (nat \<Rightarrow> uint) \<Rightarrow> tables \<Rightarrow> tables" where
  "kmain_tables tss gdt idt hwint t =
     keybd_init (timer_hwint (hd_init (set_hwint 0x0E R_pgfault (idt_init hwint idt (gdt_init tss gdt t)))))"

section \<open>What the processor reads\<close>

definition seg_base :: "seg_desc \<Rightarrow> uint" where
  "seg_base d = push_bit 24 (ucast (sd_base_hi d)) OR push_bit 16 (ucast (sd_base_mi d)) OR ucast (sd_base_lo d)"

definition seg_limit :: "seg_desc \<Rightarrow> uint" where
  "seg_limit d = (let l = push_bit 16 (ucast (sd_limit_hi d)) OR ucast (sd_limit_lo d) in
     if sd_g d = 1 then push_bit 12 l OR 0xFFF else l)"

definition gate_base :: "gate_desc \<Rightarrow> uint" where
  "gate_base d = push_bit 16 (ucast (gd_base_hi d)) OR ucast (gd_base_lo d)"

text \<open>A vector that the instruction \<^verbatim>\<open>int\<close> may use in ring 3.\<close>

definition user_gate :: "gate_desc \<Rightarrow> bool" where
  "user_gate d \<longleftrightarrow> gd_p d = 1 \<and> gd_dpl d = 3"

definition irq_masked :: "tables \<Rightarrow> nat \<Rightarrow> bool" where
  "irq_masked t irq \<longleftrightarrow> (if irq < 8 then bit (pic_imr (t_pic1 t)) irq else bit (pic_imr (t_pic2 t)) (irq - 8))"

section \<open>Descriptors hold what they are given\<close>

lemma field_masks: "(0xFFFF :: uint) = mask 16" "(0xFF :: uint) = mask 8" "(0xFFF :: uint) = mask 12"
  by (simp_all add: mask_eq_exp_minus_1)

lemma seg_base_set_seg: "seg_base (set_seg base limit dpl ty) = base"
proof (rule bit_word_eqI)
  fix n
  show "bit (seg_base (set_seg base limit dpl ty)) n = bit base n" if "n < LENGTH(32)"
    unfolding seg_base_def set_seg_def field_masks using that by (cases "24 \<le> n") (auto simp: bit_simps)
qed

lemma seg_limit_set_seg: "seg_limit (set_seg base limit dpl ty) = limit OR 0xFFF"
proof (rule bit_word_eqI)
  fix n
  show "bit (seg_limit (set_seg base limit dpl ty)) n = bit (limit OR 0xFFF) n" if "n < LENGTH(32)"
    unfolding seg_limit_def set_seg_def field_masks Let_def using that by (cases "28 \<le> n") (auto simp: bit_simps)
qed

lemma gate_base_set_gate: "gate_base (t_idt (idt_set_gate nr base sel ty dpl t) nr) = base"
  unfolding gate_base_def idt_set_gate_def field_masks
  by (rule bit_word_eqI) (auto simp: bit_simps)

section \<open>Vectors and masks\<close>

text \<open>A vector entry with its target, type and privilege; loops of gates fill their ranges.\<close>

definition gate :: "uint \<Rightarrow> 4 word \<Rightarrow> 2 word \<Rightarrow> gate_desc" where
  "gate base ty dpl = \<lparr>gd_base_lo = ucast (base AND 0xFFFF), gd_sel = KERN_CS, gd_always0 = 0, gd_type = ty,
     gd_sys = 0, gd_dpl = dpl, gd_p = 1, gd_base_hi = ucast (drop_bit 16 base AND 0xFFFF)\<rparr>"

lemma gate_base_gate [simp]: "gate_base (gate base ty dpl) = base"
  using gate_base_set_gate [of 0 base KERN_CS ty dpl] by (simp add: idt_set_gate_def gate_def)

lemma fold_gates:
  "fold (\<lambda>i. idt_set_gate i (h i) KERN_CS ty dpl) is t =
    t\<lparr>t_idt := (\<lambda>n. if n \<in> set is then gate (h n) ty dpl else t_idt t n)\<rparr>"
  by (induction "is" arbitrary: t) (auto simp: idt_set_gate_def gate_def fun_eq_iff intro!: arg_cong [of _ _ "\<lambda>x. t\<lparr>t_idt := x\<rparr>" for t])

lemma hwint_init_eq:
  "hwint_init h t = t\<lparr>t_idt := (\<lambda>n. if n \<in> {3, 4, 5, 0x80} then gate (h n) STS_TRG 3
       else if 32 \<le> n \<and> n < 48 then gate (h n) STS_IG 0 else if n < 32 then gate (h n) STS_TRG 0 else t_idt t n),
     t_routine := (t_routine t)(0x80 \<mapsto> R_syscall)\<rparr>"
  unfolding hwint_init_def syst_gate_def intr_gate_def trap_gate_def fold_gates set_hwint_def Let_def
    set_upt atLeastLessThan_iff
  by (simp add: fun_eq_iff)

lemma irq_init_eq:
  "irq_init t = t\<lparr>t_pic1 := \<lparr>pic_icw = 0, pic_base = 32, pic_imr = 0xFB\<rparr>, t_pic2 := \<lparr>pic_icw = 0, pic_base = 40, pic_imr = 0xFF\<rparr>\<rparr>"
  by (simp add: irq_init_def irq_enable_def outb_def pic_cmd_def pic_data_def bit_numeral_rec shl1_def)

lemma kmain_tables_fields:
  "t_idt (kmain_tables tss gdt idt h t) = t_idt (hwint_init h t)"
  "t_routine (kmain_tables tss gdt idt h t) = (t_routine t)(0x80 \<mapsto> R_syscall, 0x0E \<mapsto> R_pgfault, 46 \<mapsto> R_hd, 32 \<mapsto> R_timer, 33 \<mapsto> R_keybd)"
  "t_pic1 (kmain_tables tss gdt idt h t) = \<lparr>pic_icw = 0, pic_base = 32, pic_imr = 0xF8\<rparr>"
  "t_pic2 (kmain_tables tss gdt idt h t) = \<lparr>pic_icw = 0, pic_base = 40, pic_imr = 0xBF\<rparr>"
  by (simp_all add: kmain_tables_def hd_init_def keybd_init_def timer_hwint_def set_hwint_def idt_init_def hwint_init_eq irq_init_eq gdt_init_def irq_enable_def
      outb_def pic_data_def shl1_def cong: if_cong)

lemma imr_boot: "irq < 16 \<Longrightarrow> irq_masked (kmain_tables tss gdt idt h t) irq \<longleftrightarrow> irq \<notin> {0, 1, 2, 14}"
  unfolding irq_masked_def kmain_tables_fields by (auto simp: less_Suc_eq numeral_eq_Suc bit_Suc)

section \<open>Properties\<close>

text \<open>
  C39: the interrupt vectors after the boot sequence. Exactly the vectors below 48 and the
  system call are present; each leads to its entry point of the assembly code in the
  kernel's code segment; user programs can raise only the breakpoint, overflow, bounds and system call
  vectors; the interrupts of devices, and only those, switch further interrupts off. The
  controllers deliver the requests at vectors 32 to 47, all masked but
  the clock, the keyboard, the cascade line and the disk, and these devices have their handlers.
\<close>

theorem vectors_after_boot:
  assumes "\<And>nr. gd_p (t_idt t nr) = 0" and b: "b = kmain_tables tss gdt idt h t"
  shows "(gd_p (t_idt b nr) = 1 \<longleftrightarrow> nr < 48 \<or> nr = 0x80) \<and> (user_gate (t_idt b nr) \<longleftrightarrow> nr \<in> {3, 4, 5, 0x80}) \<and>
    (gd_p (t_idt b nr) = 1 \<longrightarrow> gate_base (t_idt b nr) = h nr \<and> gd_sel (t_idt b nr) = KERN_CS \<and>
      (gd_type (t_idt b nr) = STS_IG \<longleftrightarrow> 32 \<le> nr \<and> nr < 48)) \<and>
    pic_base (t_pic1 b) = 32 \<and> pic_base (t_pic2 b) = 40 \<and>
    (irq < 16 \<longrightarrow> (irq_masked b irq \<longleftrightarrow> irq \<notin> {0, 1, 2, 14})) \<and>
    t_routine b 32 = Some R_timer \<and> t_routine b 33 = Some R_keybd \<and> t_routine b 46 = Some R_hd \<and>
      t_routine b 14 = Some R_pgfault \<and> t_routine b 0x80 = Some R_syscall"
proof -
  have i: "t_idt b = t_idt (hwint_init h t)" by (simp add: b kmain_tables_fields)
  have "gd_p (t_idt b nr) = 1 \<longleftrightarrow> nr < 48 \<or> nr = 0x80" "user_gate (t_idt b nr) \<longleftrightarrow> nr \<in> {3, 4, 5, 0x80}"
    unfolding i using assms(1) by (auto simp: hwint_init_eq user_gate_def gate_def)
  moreover have "gate_base (t_idt b nr) = h nr \<and> gd_sel (t_idt b nr) = KERN_CS \<and>
      (gd_type (t_idt b nr) = STS_IG \<longleftrightarrow> 32 \<le> nr \<and> nr < 48)" if "gd_p (t_idt b nr) = 1"
    using that assms(1) unfolding i
    by (auto simp: hwint_init_eq split: if_splits) (simp_all add: gate_def)
  ultimately show ?thesis by (simp add: b kmain_tables_fields imr_boot)
qed


section \<open>Instances\<close>

definition reset_tables :: tables where
  "reset_tables = \<lparr>t_gdt = (\<lambda>_. \<lparr>sd_limit_lo = 0, sd_base_lo = 0, sd_base_mi = 0, sd_type = 0, sd_s = 0, sd_dpl = 0,
       sd_present = 0, sd_limit_hi = 0, sd_avl = 0, sd_r = 0, sd_db = 0, sd_g = 0, sd_base_hi = 0\<rparr>),
     t_gdtr = (0, 0), t_tr = 0, t_idt = (\<lambda>_. \<lparr>gd_base_lo = 0, gd_sel = 0, gd_always0 = 0, gd_type = 0, gd_sys = 0,
       gd_dpl = 0, gd_p = 0, gd_base_hi = 0\<rparr>),
     t_idtr = (0, 0), t_routine = Map.empty, t_pic1 = \<lparr>pic_icw = 0, pic_base = 8, pic_imr = 0\<rparr>,
     t_pic2 = \<lparr>pic_icw = 0, pic_base = 0x70, pic_imr = 0\<rparr>\<rparr>"

theorem vectors_after_boot_witness:
  "let b = kmain_tables 0x5000 0x6000 0x7000 (\<lambda>n. 0x100000 + 16 * of_nat n) reset_tables in
    \<not> user_gate (t_idt b 14) \<and> user_gate (t_idt b 0x80) \<and> gate_base (t_idt b 0x80) = 0x100800 \<and> \<not> irq_masked b 14 \<and> irq_masked b 3"
proof -
  have z: "gd_p (t_idt reset_tables nr) = 0" for nr by (simp add: reset_tables_def)
  note v = vectors_after_boot [OF z refl, where tss = "0x5000" and gdt = "0x6000" and idt = "0x7000" and h = "\<lambda>n. 0x100000 + 16 * of_nat n"]
  show ?thesis using v [where nr = "0x80" and irq = 14] v [where nr = 14 and irq = 3] by simp
qed

end
