(* ===== verification/Sys.thy ===== *)
theory Sys
  imports Exec Keybd Seg
begin

unbundle bit_operations_syntax

text \<open>
  System calls and the common interrupt handler: \<^verbatim>\<open>src/kern/sys1.c\<close> to \<^verbatim>\<open>sys4.c\<close>,
  \<^verbatim>\<open>src/kern/sysent.c\<close>, \<^verbatim>\<open>hwint_common\<close> of \<^verbatim>\<open>src/kern/trap.c\<close>, and the user side of a call, the macros
  \<^verbatim>\<open>_SYS\<close> of \<^verbatim>\<open>src/inc/unistd.h\<close>. The arguments are registers of the trap frame, read as signed
  where the code does. A handler returns its result with the trap frame, which only
  \<^verbatim>\<open>sys_sigreturn\<close> changes. A string argument is read from the memory of the caller; a byte of it that
  is not present is a fault of the model.
\<close>

section \<open>What comes from outside\<close>

text \<open>
  The machine code of \<^verbatim>\<open>_usigret\<close>, the address of the interrupt return path, the former
  contents of the page of a new process structure and of the variable \<^verbatim>\<open>arglen\<close>, the
  fault address in \<^verbatim>\<open>cr2\<close> and the bytes at the ports of the keyboard.
\<close>

record machine =
  m_usigret :: "uchar list"
  m_hwint_ret :: uint
  m_proc :: proc
  m_arglen :: uint
  m_cr2 :: uint
  m_kbstat :: uchar
  m_kbdata :: uchar

definition umem :: "kernel \<Rightarrow> uint \<Rightarrow> mem" where
  "umem s va j = (case get_user s (va + of_nat j) of Some b \<Rightarrow> b | None \<Rightarrow> 0)"

definition with_path :: "uint \<Rightarrow> (mem \<Rightarrow> 'a kop) \<Rightarrow> 'a kop" where
  "with_path va f = kbind (kget (\<lambda>s. umem s va)) (\<lambda>pm. case strlen pm 0 of None \<Rightarrow> kstop (Fault ''path'')
     | Some l \<Rightarrow> kbind (kget (\<lambda>s. get_user s (va + of_nat l))) (\<lambda>b. kderef ''path'' b (\<lambda>_. f pm)))"

definition sys_fail :: "uint \<Rightarrow> int kop" where
  "sys_fail e = kthen (syserr e) (kret (-1))"

section \<open>Processes (sys1.c)\<close>

definition sys_debug :: "trap \<Rightarrow> int kop" where
  "sys_debug tf = kstop Spin"

definition sys_fork :: "machine \<Rightarrow> trap \<Rightarrow> int kop" where
  "sys_fork m tf = do_fork (m_proc m) (m_hwint_ret m) tf"

definition sys__exit :: "trap \<Rightarrow> int kop" where
  "sys__exit tf = do_exit (sint (tf_ebx tf))"

definition sys_exec :: "machine \<Rightarrow> trap \<Rightarrow> int kop" where
  "sys_exec m tf = with_path (tf_ebx tf) (\<lambda>pm. do_exec (m_arglen m) pm 0 (tf_ecx tf))"

definition sys_brk :: "trap \<Rightarrow> int kop" where
  "sys_brk tf = syserr ENOSYS"

definition sys_waitpid :: "machine \<Rightarrow> trap \<Rightarrow> int kop" where
  "sys_waitpid m tf = do_waitpid (m_usigret m) (sint (tf_ebx tf)) (tf_ecx tf) (tf_edx tf)"

definition sys_wait :: "machine \<Rightarrow> trap \<Rightarrow> int kop" where
  "sys_wait m tf = do_waitpid (m_usigret m) (-1) (tf_ebx tf) 0"

section \<open>Files (sys2.c)\<close>

text \<open>
  The check of a path argument: a page of user memory that may be accessed, and a length that is not
  exactly 4096, which is all that the test with \<^verbatim>\<open>strnlen\<close> refuses.
\<close>

definition user_path :: "uint \<Rightarrow> (mem \<Rightarrow> int kop) \<Rightarrow> int kop" where
  "user_path va f = kbind (vm_verify va PAGE) (\<lambda>r.
     if r < 0 then sys_fail EFAULT
     else kbind (kget (\<lambda>s. strnlen (umem s va) 0 4096)) (\<lambda>n.
       kbind (kget (\<lambda>s. n \<le> 4096 \<and> get_user s (va + of_nat n) = None)) (\<lambda>bad.
       if bad then kstop (Fault ''path'')
       else if n = 4096 then sys_fail ENAMETOOLONG
       else with_path va f)))"

definition sys_access :: "trap \<Rightarrow> int kop" where
  "sys_access tf = user_path (tf_ebx tf) (\<lambda>pm. kbind (namei pm 0 0) (\<lambda>ipo. case ipo of
       None \<Rightarrow> sys_fail ENOENT
     | Some ip \<Rightarrow> do_access (Some ip) (tf_ecx tf)))"

definition sys_open :: "trap \<Rightarrow> int kop" where
  "sys_open tf = user_path (tf_ebx tf) (\<lambda>pm. do_open pm 0 (tf_ecx tf) (tf_edx tf))"

definition sys_close :: "trap \<Rightarrow> int kop" where
  "sys_close tf = do_close (sint (tf_ebx tf))"

definition sys_read :: "machine \<Rightarrow> trap \<Rightarrow> int kop" where
  "sys_read m tf = kbind (vm_verify (tf_ecx tf) (tf_edx tf)) (\<lambda>r.
     if r < 0 then sys_fail EFAULT
     else do_read (m_usigret m) (sint (tf_ebx tf)) (tf_ecx tf) (sint (tf_edx tf)))"

definition sys_write :: "trap \<Rightarrow> int kop" where
  "sys_write tf = kbind (vm_verify (tf_ecx tf) (tf_edx tf)) (\<lambda>r.
     if r < 0 then sys_fail EFAULT
     else do_write (sint (tf_ebx tf)) (tf_ecx tf) (sint (tf_edx tf)))"

definition sys_lseek :: "trap \<Rightarrow> int kop" where
  "sys_lseek tf = do_lseek (tf_ebx tf) (sint (tf_ecx tf)) (sint (tf_edx tf))"

definition sys_link :: "trap \<Rightarrow> int kop" where
  "sys_link tf = with_path (tf_ebx tf) (\<lambda>pm1. with_path (tf_ecx tf) (\<lambda>pm2. do_link pm1 0 pm2 0))"

definition sys_unlink :: "trap \<Rightarrow> int kop" where
  "sys_unlink tf = with_path (tf_ebx tf) (\<lambda>pm. do_unlink pm 0)"

definition sys_mknod :: "trap \<Rightarrow> int kop" where
  "sys_mknod tf = with_path (tf_ebx tf) (\<lambda>pm. do_mknod pm 0 (tf_ecx tf) (ucast (tf_edx tf)))"

definition sys_creat :: "trap \<Rightarrow> int kop" where
  "sys_creat tf = with_path (tf_ebx tf) (\<lambda>pm. do_creat pm 0 (tf_ecx tf))"

definition sys_truncate :: "trap \<Rightarrow> int kop" where
  "sys_truncate tf = sys_fail ENOSYS"

text \<open>
  The 28 bytes of a \<^verbatim>\<open>struct stat\<close>: the size is aligned to four bytes, and the two gaps are not
  set.
\<close>

definition stat_bytes :: "stat \<Rightarrow> uchar option list" where
  "stat_bytes st = (let h = (\<lambda>w. map (\<lambda>k. Some (byte16 w k)) [0, 1]) in
     concat (map h [st_dev st, st_ino st, st_mode st, st_nlink st, st_uid st, st_gid st, st_rdev st]) @
     [None, None] @ map Some (le32 (st_size st)) @ concat (map h [st_atime st, st_mtime st, st_ctime st]) @ [None, None])"

definition stat_to :: "nat \<Rightarrow> uint \<Rightarrow> int kop" where
  "stat_to ip sbuf = kbind (do_stat ip) (\<lambda>st. kthen (put_user (stat_bytes st) sbuf) (kret 0))"

definition sys_fstat :: "trap \<Rightarrow> int kop" where
  "sys_fstat tf = (let fd = sint (tf_ebx tf) in
     if fd < 0 \<or> fd \<ge> int NOFILE then sys_fail EBADF
     else kbind (cu_get (\<lambda>p. p_ofile p (nat fd))) (\<lambda>fpo. case fpo of
         None \<Rightarrow> sys_fail EBADF
       | Some fp \<Rightarrow> kbind (kget (\<lambda>s. f_ino (k_file s fp))) (\<lambda>ino. kderef ''f_ino'' ino (\<lambda>ip. stat_to ip (tf_ecx tf)))))"

definition sys_stat :: "trap \<Rightarrow> int kop" where
  "sys_stat tf = kbind (vm_verify (tf_ecx tf) 28) (\<lambda>r.
     if r < 0 then sys_fail EFAULT
     else with_path (tf_ebx tf) (\<lambda>pm. kbind (namei pm 0 0) (\<lambda>ipo. case ipo of
         None \<Rightarrow> sys_fail ENOENT
       | Some ip \<Rightarrow> stat_to ip (tf_ecx tf))))"

definition sys_fcntl :: "trap \<Rightarrow> int kop" where
  "sys_fcntl tf = do_fcntl (sint (tf_ebx tf)) (tf_ecx tf) (tf_edx tf)"

definition sys_ioctl :: "trap \<Rightarrow> int kop" where
  "sys_ioctl tf = sys_fail ENOSYS"

definition sys_dup :: "trap \<Rightarrow> int kop" where
  "sys_dup tf = do_dup (sint (tf_ebx tf))"

definition sys_dup2 :: "trap \<Rightarrow> int kop" where
  "sys_dup2 tf = do_dup2 (sint (tf_ebx tf)) (sint (tf_ecx tf))"

definition sys_pipe :: "trap \<Rightarrow> int kop" where
  "sys_pipe tf = syserr ENOSYS"

text \<open>
  The common shape of \<^verbatim>\<open>chroot\<close> and \<^verbatim>\<open>chdir\<close>: the directory that \<open>dir\<close> reads from the process is
  exchanged.
\<close>

definition change_dir :: "(proc \<Rightarrow> nat option) \<Rightarrow> (nat option \<Rightarrow> proc \<Rightarrow> proc) \<Rightarrow> mem \<Rightarrow> int kop" where
  "change_dir dir upd pm = kbind (namei pm 0 0) (\<lambda>ipo. case ipo of
       None \<Rightarrow> sys_fail ENOENT
     | Some ip \<Rightarrow> kbind (kget (\<lambda>s. i_mode (k_inode s ip))) (\<lambda>mode.
       if mode AND S_IFMT \<noteq> S_IFDIR then kthen (syserr ENOTDIR) (kthen (iput (Some ip)) (kret (-1)))
       else kbind (cu_get dir) (\<lambda>old. kthen (iput old) (kthen (cu_mod (upd (Some ip))) (kthen (unlk_ino ip) (kret 0))))))"

definition sys_chroot :: "trap \<Rightarrow> int kop" where
  "sys_chroot tf = with_path (tf_ebx tf) (change_dir p_iroot (\<lambda>d p. p\<lparr>p_iroot := d\<rparr>))"

definition sys_chdir :: "trap \<Rightarrow> int kop" where
  "sys_chdir tf = with_path (tf_ebx tf) (change_dir p_wdir (\<lambda>d p. p\<lparr>p_wdir := d\<rparr>))"

section \<open>Identity (sys3.c)\<close>

text \<open>\<^verbatim>\<open>sys_nice\<close> computes a bounded value and drops it.\<close>

definition sys_nice :: "trap \<Rightarrow> int kop" where
  "sys_nice tf = kret 0"

definition sys_getpid :: "trap \<Rightarrow> int kop" where "sys_getpid tf = cu_get (\<lambda>p. sint (p_pid p))"
definition sys_getppid :: "trap \<Rightarrow> int kop" where "sys_getppid tf = cu_get (\<lambda>p. sint (p_ppid p))"
definition sys_getpgrp :: "trap \<Rightarrow> int kop" where "sys_getpgrp tf = cu_get (\<lambda>p. sint (p_pgrp p))"
definition sys_getuid :: "trap \<Rightarrow> int kop" where "sys_getuid tf = cu_get (\<lambda>p. sint (p_ruid p))"
definition sys_getgid :: "trap \<Rightarrow> int kop" where "sys_getgid tf = cu_get (\<lambda>p. sint (p_rgid p))"
definition sys_geteuid :: "trap \<Rightarrow> int kop" where "sys_geteuid tf = cu_get (\<lambda>p. sint (p_euid p))"
definition sys_getegid :: "trap \<Rightarrow> int kop" where "sys_getegid tf = cu_get (\<lambda>p. sint (p_egid p))"

definition sys_setreuid :: "trap \<Rightarrow> int kop" where
  "sys_setreuid tf = (let ruid = tf_ebx tf; euid = tf_ecx tf in
     kbind (cu_get p_ruid) (\<lambda>old_ruid. kbind (cu_get p_euid) (\<lambda>e. kbind suser (\<lambda>su.
     if sint ruid > 0 \<and> \<not> (e = ruid \<or> old_ruid = ruid \<or> su \<noteq> 0) then syserr EPERM
     else kthen (kwhen (sint ruid > 0) (cu_mod (\<lambda>p. p\<lparr>p_ruid := ruid\<rparr>)))
       (kbind (cu_get p_euid) (\<lambda>e. kbind suser (\<lambda>su.
        if sint euid > 0 \<and> \<not> (e = euid \<or> old_ruid = euid \<or> su \<noteq> 0) then syserr EPERM
        else kthen (kwhen (sint euid > 0) (cu_mod (\<lambda>p. p\<lparr>p_euid := euid\<rparr>))) (kret 0))))))))"

definition sys_setregid :: "trap \<Rightarrow> int kop" where
  "sys_setregid tf = (let rgid = tf_ebx tf; egid = tf_ecx tf in
     kbind (cu_get p_rgid) (\<lambda>r. kbind suser (\<lambda>su.
     if sint rgid > 0 \<and> \<not> (r = rgid \<or> su \<noteq> 0) then syserr EPERM
     else kthen (kwhen (sint rgid > 0) (cu_mod (\<lambda>p. p\<lparr>p_rgid := rgid\<rparr>)))
       (kbind (cu_get p_egid) (\<lambda>e. kbind (cu_get p_rgid) (\<lambda>r. kbind suser (\<lambda>su.
        if sint egid > 0 \<and> \<not> (e = egid \<or> r = egid \<or> su \<noteq> 0) then syserr EPERM
        else kthen (kwhen (sint egid > 0) (cu_mod (\<lambda>p. p\<lparr>p_egid := egid\<rparr>))) (kret 0))))))))"

definition sys_setpgrp :: "trap \<Rightarrow> int kop" where
  "sys_setpgrp tf = kthen (cu_mod (\<lambda>p. p\<lparr>p_pgrp := p_pid p\<rparr>)) (kret 0)"

definition sys_umask :: "trap \<Rightarrow> int kop" where
  "sys_umask tf = kbind (cu_get p_umask) (\<lambda>old.
     kthen (cu_mod (\<lambda>p. p\<lparr>p_umask := tf_ebx tf AND 0x1FF\<rparr>)) (kret (sint old)))"

definition sys_stime :: "trap \<Rightarrow> int kop" where "sys_stime tf = syserr ENOSYS"
definition sys_utime :: "trap \<Rightarrow> int kop" where "sys_utime tf = syserr ENOSYS"
definition sys_time :: "int kop" where "sys_time = syserr ENOSYS"

section \<open>Signals (sys4.c)\<close>

definition sys_kill :: "trap \<Rightarrow> int kop" where
  "sys_kill tf = do_kill (sint (tf_ebx tf)) (sint (tf_ecx tf))"

definition sys_pause :: "machine \<Rightarrow> trap \<Rightarrow> int kop" where
  "sys_pause m tf = kthen (sleep (m_usigret m) Ch_pause PWAIT) (kret 0)"

definition sys_signal :: "trap \<Rightarrow> int kop" where
  "sys_signal tf = do_signal (sint (tf_ebx tf)) (tf_ecx tf)"

definition sys_sigaction :: "trap \<Rightarrow> int kop" where
  "sys_sigaction tf = do_sigaction (sint (tf_ebx tf)) (tf_ecx tf) (tf_edx tf)"

definition get_jmp_buf :: "kernel \<Rightarrow> uint \<Rightarrow> jmp_buf option" where
  "get_jmp_buf s a = map_option (\<lambda>w. \<lparr>jb_eip = w ! 0, jb_esp = w ! 1, jb_ebx = w ! 2, jb_ecx = w ! 3, jb_edx = w ! 4,
     jb_esi = w ! 5, jb_edi = w ! 6, jb_ebp = w ! 7, jb_sigmask = w ! 8\<rparr>)
     (those (map (\<lambda>k. get_user32 s (a + 4 * of_nat k)) [0..<9]))"

definition sys_sigreturn :: "trap \<Rightarrow> (int \<times> trap) kop" where
  "sys_sigreturn tf = kbind (kget (\<lambda>s. get_jmp_buf s (tf_eip tf - 46))) (\<lambda>r. kderef ''ujbuf'' r (\<lambda>b.
     kthen (cu_mod (\<lambda>p. p\<lparr>p_sigmask := jb_sigmask b\<rparr>))
      (kret (0, tf\<lparr>tf_esp := jb_esp b, tf_eip := jb_eip b, tf_ebx := jb_ebx b, tf_ecx := jb_ecx b, tf_edx := jb_edx b,
        tf_edi := jb_edi b, tf_esi := jb_esi b, tf_ebp := jb_ebp b\<rparr>))))"

definition sys_alarm :: "trap \<Rightarrow> int kop" where "sys_alarm tf = sys_fail ENOSYS"
definition sys_sync :: "trap \<Rightarrow> int kop" where "sys_sync tf = sys_fail ENOSYS"

section \<open>Dispatch (sysent.c)\<close>

definition nosys :: "trap \<Rightarrow> int kop" where
  "nosys tf = sys_fail ENOSYS"

definition keep_frame :: "(trap \<Rightarrow> int kop) \<Rightarrow> trap \<Rightarrow> (int \<times> trap) kop" where
  "keep_frame f tf = kbind (f tf) (\<lambda>r. kret (r, tf))"

text \<open>
  The initialiser of the table in its order: the entry without designator goes behind
  the one before it, \<^verbatim>\<open>NR_sigreturn + 1\<close>, which is \<^verbatim>\<open>NR_access\<close>.
\<close>

definition sys_routines :: "machine \<Rightarrow> nat \<Rightarrow> (trap \<Rightarrow> (int \<times> trap) kop) option" where
  "sys_routines m = Map.empty(
     42 \<mapsto> keep_frame sys_debug,
     23 \<mapsto> keep_frame sys_access, 27 \<mapsto> keep_frame sys_creat, 25 \<mapsto> keep_frame sys_open, 26 \<mapsto> keep_frame sys_close,
     35 \<mapsto> keep_frame sys_fcntl, 33 \<mapsto> keep_frame sys_write, 32 \<mapsto> keep_frame (sys_read m), 38 \<mapsto> keep_frame sys_stat,
     39 \<mapsto> keep_frame sys_fstat, 40 \<mapsto> keep_frame sys_dup, 41 \<mapsto> keep_frame sys_dup2, 29 \<mapsto> keep_frame sys_link,
     30 \<mapsto> keep_frame sys_unlink, 7 \<mapsto> keep_frame sys_chroot, 6 \<mapsto> keep_frame sys_chdir,
     0 \<mapsto> keep_frame (sys_fork m), 1 \<mapsto> keep_frame (sys_exec m), 2 \<mapsto> keep_frame sys__exit,
     5 \<mapsto> keep_frame (sys_waitpid m), 4 \<mapsto> keep_frame (sys_wait m),
     8 \<mapsto> keep_frame sys_nice, 9 \<mapsto> keep_frame sys_getpid, 10 \<mapsto> keep_frame sys_getppid, 11 \<mapsto> keep_frame sys_getuid,
     13 \<mapsto> keep_frame sys_geteuid, 12 \<mapsto> keep_frame sys_getgid, 14 \<mapsto> keep_frame sys_getegid, 15 \<mapsto> keep_frame sys_getpgrp,
     16 \<mapsto> keep_frame sys_setpgrp, 17 \<mapsto> keep_frame sys_setreuid, 18 \<mapsto> keep_frame sys_setregid,
     3 \<mapsto> keep_frame (sys_pause m), 19 \<mapsto> keep_frame sys_kill, 20 \<mapsto> keep_frame sys_signal,
     21 \<mapsto> keep_frame sys_sigaction, 22 \<mapsto> sys_sigreturn,
     23 \<mapsto> keep_frame nosys)"

definition do_syscall :: "machine \<Rightarrow> trap \<Rightarrow> trap kop" where
  "do_syscall m tf = (let nr = sint (tf_eax tf) in
     if nr > 64 then panic ''bad syscall''
     else kthen (cu_mod (\<lambda>p. p\<lparr>p_error := 0\<rparr>))
       (if nr < 0 \<or> nr = 64 then kstop (Fault ''sys_routines'')
        else let func = (case sys_routines m (nat nr) of Some f \<Rightarrow> f | None \<Rightarrow> keep_frame nosys) in
          kbind (func tf) (\<lambda>(ret, tf). kbind (cu_get p_error) (\<lambda>err.
          kret (tf\<lparr>tf_eax := (if ret < 0 then 0 - err else word_of_int ret)\<rparr>)))))"

text \<open>
  The user side: the returned register is split into \<^verbatim>\<open>errno\<close>, when it is negative, and the
  result of the call.
\<close>

definition sys_stub :: "uint \<Rightarrow> int option \<times> int" where
  "sys_stub eax = (if sint eax < 0 then (Some (- sint eax), -1) else (None, sint eax))"

section \<open>The common interrupt handler (trap.c)\<close>

primrec run_routine :: "machine \<Rightarrow> routine \<Rightarrow> trap \<Rightarrow> trap kop" where
  "run_routine m R_pgfault tf = kthen (do_pgfault tf (m_cr2 m)) (kret tf)"
| "run_routine m R_timer tf = kthen do_timer (kret tf)"
| "run_routine m R_keybd tf = kthen (do_keybd_intr (m_kbstat m) (m_kbdata m)) (kret tf)"
| "run_routine m R_hd tf = kthen do_hd_intr (kret tf)"
| "run_routine m R_syscall tf = do_syscall m tf"

text \<open>
  The frame that \<^verbatim>\<open>p_trap\<close> points at is the one the handler works on, so the process sees its
  changes; the end-of-interrupt command has no effect on the kernel's state.
\<close>

definition hwint_common :: "machine \<Rightarrow> (nat \<Rightarrow> routine option) \<Rightarrow> trap \<Rightarrow> trap kop" where
  "hwint_common m routines tf = (let user = (tf_cs tf AND 3 = 3);
       save = (\<lambda>tf. kwhen user (cu_mod (\<lambda>p. p\<lparr>p_trap := Some tf\<rparr>))) in
     kthen (save tf)
     (if tf_int_no tf \<ge> 256 then kstop (Fault ''hwint_routines'') else
      kbind (case routines (unat (tf_int_no tf)) of
          Some r \<Rightarrow> run_routine m r tf
        | None \<Rightarrow> if tf_int_no tf < 32 then
            kbind (cu_get p_pid) (\<lambda>pid. kthen (sigsend (sint pid) (uint SIGTRAP) True) (kret tf))
          else kret tf) (\<lambda>tf.
      kthen (save tf)
      (kthen (kbind issig (\<lambda>n. kbind (cu_get p_stat) (\<lambda>st.
         kwhen (n \<noteq> 0 \<and> st \<noteq> SZOMB \<and> user) (psig (m_usigret m)))))
      (kthen (kbind (kget k_cu) setpri)
      (kthen (kwhen user swtch) (kret tf)))))))"

section \<open>Calls on the identity\<close>

text \<open>
  The current process has an effective user other than the super user, its user and group ids are among
  \<open>U\<close> and \<open>G\<close>, and the other processes are those of the table \<open>tab\<close>.
\<close>

definition id_ok :: "uint set \<Rightarrow> uint set \<Rightarrow> proc \<Rightarrow> bool" where
  "id_ok U G c \<longleftrightarrow> p_euid c \<noteq> 0 \<and> {p_ruid c, p_euid c} \<subseteq> U \<and> {p_rgid c, p_egid c} \<subseteq> G"

definition unprivileged :: "uint set \<Rightarrow> uint set \<Rightarrow> nat \<Rightarrow> (nat \<Rightarrow> proc option) \<Rightarrow> kernel \<Rightarrow> bool" where
  "unprivileged U G me tab s \<longleftrightarrow> k_cu s = me \<and> (\<forall>j. j \<noteq> me \<longrightarrow> k_proc s j = tab j) \<and>
     (\<exists>c. k_proc s me = Some c \<and> id_ok U G c)"

lemma unprivileged_cu:
  assumes "unprivileged U G me tab s"
  obtains c where "k_proc s (k_cu s) = Some c" "id_ok U G c" "suser s = Ok 0 s"
    "\<And>f. id_ok U G (f c) \<Longrightarrow> \<exists>s'. cu_mod f s = Ok () s' \<and> unprivileged U G me tab s'"
    "\<And>e. \<exists>s'. syserr e s = Ok (-1) s' \<and> unprivileged U G me tab s'"
proof -
  from assms obtain c where c: "k_proc s (k_cu s) = Some c" "id_ok U G c" by (auto simp: unprivileged_def)
  have m: "\<exists>s'. cu_mod f s = Ok () s' \<and> unprivileged U G me tab s'" if "id_ok U G (f c)" for f
    using assms c that by (auto simp: unprivileged_def kop_simps)
  have "\<exists>s'. syserr e s = Ok (-1) s' \<and> unprivileged U G me tab s'" for e
    using m [of "\<lambda>p. p\<lparr>p_error := e\<rparr>"] c(2) by (auto simp: syserr_def kop_simps id_ok_def)
  moreover have "suser s = Ok 0 s" using c by (simp add: kop_simps id_ok_def)
  ultimately show thesis using that c m by (simp add: kop_simps)
qed

text \<open>One of the two halves of either call: an id is set when it is positive and allowed.\<close>

lemma set_id_runs:
  assumes u: "unprivileged U G me tab s" and c: "k_proc s (k_cu s) = Some c"
    and f: "0 < sint w \<Longrightarrow> ok \<Longrightarrow> id_ok U G (f c)"
    and n: "\<And>s'. unprivileged U G me tab s' \<Longrightarrow> \<exists>a t. n s' = Ok a t \<and> unprivileged U G me tab t"
  shows "\<exists>a t. (if 0 < sint (w :: uint) \<and> \<not> ok then syserr EPERM else kthen (kwhen (0 < sint w) (cu_mod f)) n) s = Ok (a :: int) t \<and>
    unprivileged U G me tab t"
proof (rule unprivileged_cu [OF u])
  fix c' assume c': "k_proc s (k_cu s) = Some c'"
    and m: "\<And>f. id_ok U G (f c') \<Longrightarrow> \<exists>s'. cu_mod f s = Ok () s' \<and> unprivileged U G me tab s'"
    and e: "\<And>e. \<exists>s'. syserr e s = Ok (-1) s' \<and> unprivileged U G me tab s'"
  consider "0 < sint w" "\<not> ok" | "0 < sint w" "ok" | "\<not> 0 < sint w" by blast
  then show ?thesis
  proof cases
    case 1
    then show ?thesis using e [of EPERM] by auto
  next
    case 2
    with f c c' m [of f] obtain s' where s': "cu_mod f s = Ok () s'" "unprivileged U G me tab s'" by auto
    from n [OF s'(2)] 2 s'(1) show ?thesis by (simp add: kwhen_simps kthen_Ok)
  next
    case 3
    then show ?thesis using n [OF u] by (simp add: kwhen_simps)
  qed
qed

lemma runs_setreuid: "runs (unprivileged U G me tab) (sys_setreuid tf) (\<lambda>r. unprivileged U G me tab)"
  unfolding runs_def
proof (intro allI impI)
  fix s assume u: "unprivileged U G me tab s"
  obtain c where c: "k_proc s (k_cu s) = Some c" "id_ok U G c" "suser s = Ok 0 s"
    by (rule unprivileged_cu [OF u])
  let ?e = "tf_ecx tf"
  have "\<exists>a t. kbind (cu_get p_euid) (\<lambda>e. kbind suser (\<lambda>su. if 0 < sint ?e \<and> \<not> (e = ?e \<or> p_ruid c = ?e \<or> su \<noteq> 0) then syserr EPERM
      else kthen (kwhen (0 < sint ?e) (cu_mod (\<lambda>p. p\<lparr>p_euid := ?e\<rparr>))) (kret 0))) s' = Ok (a :: int) t \<and> unprivileged U G me tab t"
    if u': "unprivileged U G me tab s'" for s'
  proof (rule unprivileged_cu [OF u'])
    fix d assume d: "k_proc s' (k_cu s') = Some d" "id_ok U G d" "suser s' = Ok 0 s'"
    have "id_ok U G (d\<lparr>p_euid := ?e\<rparr>)" if "0 < sint ?e" "p_euid d = ?e \<or> p_ruid c = ?e \<or> (0 :: uint) \<noteq> 0"
      using that c(2) d(2) by (auto simp: id_ok_def)
    from set_id_runs [OF u' d(1), where f = "\<lambda>p. p\<lparr>p_euid := ?e\<rparr>" and n = "kret 0" and w = ?e
        and ok = "p_euid d = ?e \<or> p_ruid c = ?e \<or> (0 :: uint) \<noteq> 0", OF this] show ?thesis
      using d(1,3) by (simp add: kbind_Ok cu_get_Some kop_apply)
  qed
  from set_id_runs [OF u c(1) _ this, of "tf_ebx tf" "p_euid c = tf_ebx tf \<or> p_ruid c = tf_ebx tf \<or> (0 :: uint) \<noteq> 0" "\<lambda>p. p\<lparr>p_ruid := tf_ebx tf\<rparr>"]
  show "\<exists>a s'. sys_setreuid tf s = Ok a s' \<and> unprivileged U G me tab s'"
    using c by (auto simp: sys_setreuid_def kbind_Ok cu_get_Some Let_def id_ok_def)
qed

lemma runs_setregid: "runs (unprivileged U G me tab) (sys_setregid tf) (\<lambda>r. unprivileged U G me tab)"
  unfolding runs_def
proof (intro allI impI)
  fix s assume u: "unprivileged U G me tab s"
  obtain c where c: "k_proc s (k_cu s) = Some c" "id_ok U G c" "suser s = Ok 0 s"
    by (rule unprivileged_cu [OF u])
  let ?e = "tf_ecx tf"
  have "\<exists>a t. kbind (cu_get p_egid) (\<lambda>e. kbind (cu_get p_rgid) (\<lambda>r. kbind suser (\<lambda>su.
      if 0 < sint ?e \<and> \<not> (e = ?e \<or> r = ?e \<or> su \<noteq> 0) then syserr EPERM
      else kthen (kwhen (0 < sint ?e) (cu_mod (\<lambda>p. p\<lparr>p_egid := ?e\<rparr>))) (kret 0)))) s' = Ok (a :: int) t \<and> unprivileged U G me tab t"
    if u': "unprivileged U G me tab s'" for s'
  proof (rule unprivileged_cu [OF u'])
    fix d assume d: "k_proc s' (k_cu s') = Some d" "id_ok U G d" "suser s' = Ok 0 s'"
    have "id_ok U G (d\<lparr>p_egid := ?e\<rparr>)" if "0 < sint ?e" "p_egid d = ?e \<or> p_rgid d = ?e \<or> (0 :: uint) \<noteq> 0"
      using that d(2) by (auto simp: id_ok_def)
    from set_id_runs [OF u' d(1), where f = "\<lambda>p. p\<lparr>p_egid := ?e\<rparr>" and n = "kret 0" and w = ?e
        and ok = "p_egid d = ?e \<or> p_rgid d = ?e \<or> (0 :: uint) \<noteq> 0", OF this] show ?thesis
      using d(1,3) by (simp add: kbind_Ok cu_get_Some kop_apply)
  qed
  from set_id_runs [OF u c(1) _ this, of "tf_ebx tf" "p_rgid c = tf_ebx tf \<or> (0 :: uint) \<noteq> 0" "\<lambda>p. p\<lparr>p_rgid := tf_ebx tf\<rparr>"]
  show "\<exists>a s'. sys_setregid tf s = Ok a s' \<and> unprivileged U G me tab s'"
    using c by (auto simp: sys_setregid_def kbind_Ok cu_get_Some Let_def id_ok_def)
qed

lemma do_syscall_stub:
  assumes cu: "k_proc s (k_cu s) = Some c" and nr: "0 \<le> sint (tf_eax tf)" "sint (tf_eax tf) < 64"
    and run: "(case sys_routines m (nat (sint (tf_eax tf))) of Some f \<Rightarrow> f | None \<Rightarrow> keep_frame nosys) tf
      (s\<lparr>k_proc := (k_proc s)(k_cu s \<mapsto> c\<lparr>p_error := 0\<rparr>)\<rparr>) = Ok (ret, tf1) s1"
    and c1: "k_proc s1 (k_cu s1) = Some c1" "p_error c1 < 0x80000000" and ret: "ret < 2 ^ 31"
  shows "\<exists>eax. do_syscall m tf s = Ok (tf1\<lparr>tf_eax := eax\<rparr>) s1 \<and>
    sys_stub eax = (if ret \<ge> 0 then (None, ret) else if p_error c1 = 0 then (None, 0) else (Some (uint (p_error c1)), -1))"
proof -
  let ?eax = "if ret < 0 then 0 - p_error c1 else word_of_int ret"
  have "do_syscall m tf s = Ok (tf1\<lparr>tf_eax := ?eax\<rparr>) s1"
    using cu nr run c1(1) by (simp add: do_syscall_def Let_def kop_simps)
  moreover have "sys_stub ?eax = (if ret \<ge> 0 then (None, ret) else if p_error c1 = 0 then (None, 0) else (Some (uint (p_error c1)), -1))"
  proof (cases "ret < 0")
    case True
    have u: "uint (p_error c1) < 2 ^ 31" using c1(2) by (simp add: word_less_def)
    have "sint (- p_error c1) = - uint (p_error c1)"
    proof -
      have "sint (- p_error c1) = signed_take_bit 31 (- uint (p_error c1))"
        using signed_take_bit_take_bit [of 31 32 "- uint (p_error c1)"]
        by (simp add: sint_uint uint_word_ariths take_bit_eq_mod)
      also have "\<dots> = - uint (p_error c1)"
      proof (rule signed_take_bit_int_eq_self)
        show "- (2 ^ 31) \<le> - uint (p_error c1)" using u by simp
        show "- uint (p_error c1) < 2 ^ 31" by (rule order_le_less_trans [of _ 0]) simp_all
      qed
      finally show ?thesis .
    qed
    moreover have "0 < uint (p_error c1) \<longleftrightarrow> p_error c1 \<noteq> 0" using word_less_def [of 0 "p_error c1"] by (simp add: word_gt_0)
    ultimately show ?thesis using True by (simp add: sys_stub_def)
  next
    case False
    then have "sint (word_of_int ret :: uint) = ret" using ret by (simp add: sint_sbintrunc' signed_take_bit_int_eq_self)
    then show ?thesis using False by (simp add: sys_stub_def)
  qed
  ultimately show ?thesis by blast
qed

section \<open>Properties\<close>

text \<open>
  C19: system calls do not give privileges. A process whose effective user is not the super user
  makes any sequence of calls of \<^verbatim>\<open>setreuid\<close> (\<open>True\<close>) and \<^verbatim>\<open>setregid\<close> (\<open>False\<close>) with any arguments:
  every call returns, the effective user never becomes the super user, the process
  has only user and group ids it had at the start, and no other process is touched.
\<close>

theorem set_ids_keep_unprivileged:
  assumes "k_proc s (k_cu s) = Some c" "p_euid c \<noteq> 0"
  shows "\<exists>s' c'. kfor calls (\<lambda>(b, tf). kthen (if b then sys_setreuid tf else sys_setregid tf) (kret ())) s = Ok () s' \<and>
    k_cu s' = k_cu s \<and> k_proc s' (k_cu s) = Some c' \<and> p_euid c' \<noteq> 0 \<and> {p_ruid c', p_euid c'} \<subseteq> {p_ruid c, p_euid c} \<and>
    {p_rgid c', p_egid c'} \<subseteq> {p_rgid c, p_egid c} \<and> (\<forall>j. j \<noteq> k_cu s \<longrightarrow> k_proc s' j = k_proc s j)"
proof -
  let ?I = "unprivileged {p_ruid c, p_euid c} {p_rgid c, p_egid c} (k_cu s) (k_proc s)"
  have "runs ?I (kfor calls (\<lambda>(b, tf). kthen (if b then sys_setreuid tf else sys_setregid tf) (kret ()))) (\<lambda>_. ?I)"
    by (rule runs_kfor) (auto intro!: runs_kthen runs_kret intro: runs_setreuid runs_setregid simp: split_beta)
  moreover have "?I s" using assms by (simp add: unprivileged_def id_ok_def)
  ultimately show ?thesis by (fastforce simp: runs_def unprivileged_def id_ok_def)
qed

text \<open>
  C18: the error convention of a system call across both sides. When the handler of the
  call returns, the program sees its result if that is not negative; otherwise it sees -1 and
  \<^verbatim>\<open>errno\<close> is the error code left in the process, which was cleared before the call. A handler
  that fails without leaving a code makes the call look successful, with the result 0.
\<close>

theorem syscall_result:
  assumes cu: "k_proc s (k_cu s) = Some c" and nr: "0 \<le> sint (tf_eax tf)" "sint (tf_eax tf) < 64"
    and run: "(case sys_routines m (nat (sint (tf_eax tf))) of Some f \<Rightarrow> f | None \<Rightarrow> keep_frame nosys) tf
      (s\<lparr>k_proc := (k_proc s)(k_cu s \<mapsto> c\<lparr>p_error := 0\<rparr>)\<rparr>) = Ok (ret, tf1) s1"
    and c1: "k_proc s1 (k_cu s1) = Some c1" "p_error c1 < 0x80000000" and ret: "ret < 2 ^ 31"
  shows "\<exists>eax. do_syscall m tf s = Ok (tf1\<lparr>tf_eax := eax\<rparr>) s1 \<and>
    sys_stub eax = (if ret \<ge> 0 then (None, ret) else if p_error c1 = 0 then (None, 0) else (Some (uint (p_error c1)), -1))"
  by (rule do_syscall_stub [OF assms])

text \<open>
  C38: numbers without a handler. For every number below 64 that is not in the list, the call fails
  with \<^verbatim>\<open>ENOSYS\<close> and changes nothing but the error code of the process. Among them are \<^verbatim>\<open>access\<close> (23),
  \<^verbatim>\<open>lseek\<close> (28) and \<^verbatim>\<open>mknod\<close> (31), which have handlers in the sources.
\<close>

theorem syscall_unimplemented:
  assumes cu: "k_proc s (k_cu s) = Some c" and nr: "0 \<le> sint (tf_eax tf)" "sint (tf_eax tf) < 64"
    and un: "nat (sint (tf_eax tf)) \<notin> {0..22} \<union> {25, 26, 27, 29, 30, 32, 33, 35, 38, 39, 40, 41, 42}"
  shows "\<exists>eax. do_syscall m tf s = Ok (tf\<lparr>tf_eax := eax\<rparr>) (s\<lparr>k_proc := (k_proc s)(k_cu s \<mapsto> c\<lparr>p_error := ENOSYS\<rparr>)\<rparr>) \<and>
    sys_stub eax = (Some 38, -1)"
proof -
  have "(case sys_routines m (nat (sint (tf_eax tf))) of Some f \<Rightarrow> f | None \<Rightarrow> keep_frame nosys) = keep_frame nosys"
    using un by (auto simp: sys_routines_def)
  moreover have "keep_frame nosys tf (s\<lparr>k_proc := (k_proc s)(k_cu s \<mapsto> c\<lparr>p_error := 0\<rparr>)\<rparr>) =
      Ok (-1, tf) (s\<lparr>k_proc := (k_proc s)(k_cu s \<mapsto> c\<lparr>p_error := ENOSYS\<rparr>)\<rparr>)"
    by (simp add: keep_frame_def nosys_def sys_fail_def kop_simps)
  ultimately have "do_syscall m tf s = Ok (tf\<lparr>tf_eax := 0 - ENOSYS\<rparr>) (s\<lparr>k_proc := (k_proc s)(k_cu s \<mapsto> c\<lparr>p_error := ENOSYS\<rparr>)\<rparr>)"
    using cu nr by (simp add: do_syscall_def Let_def kop_simps)
  then show ?thesis by (intro exI [of _ "0 - ENOSYS"]) (simp add: sys_stub_def)
qed

section \<open>Instances\<close>

definition call_frame :: "uint \<Rightarrow> uint \<Rightarrow> uint \<Rightarrow> trap" where
  "call_frame nr b c = \<lparr>tf_gs = 0x23, tf_fs = 0x23, tf_es = 0x23, tf_ds = 0x23, tf_edi = 0, tf_esi = 0, tf_ebp = 0,
     tf__esp = 0, tf_ebx = b, tf_edx = 0, tf_ecx = c, tf_eax = nr, tf_int_no = 0x80, tf_err_code = 0, tf_eip = 0x8000020,
     tf_cs = 0x1B, tf_eflags = 0x200, tf_esp = 0x7FFFFF00, tf_ss = 0x23\<rparr>"

definition quiet_machine :: machine where
  "quiet_machine = \<lparr>m_usigret = replicate 16 0x90, m_hwint_ret = 0x100100, m_proc = zero_proc, m_arglen = 0, m_cr2 = 0,
     m_kbstat = 0, m_kbdata = 0\<rparr>"

definition user_state :: kernel where
  "user_state = boot_kernel\<lparr>k_proc := [1 \<mapsto> zero_proc\<lparr>p_pid := 1, p_euid := 5, p_ruid := 7, p_error := 3\<rparr>], k_cu := 1\<rparr>"

theorem set_ids_keep_unprivileged_witness:
  "\<exists>s' c'. kfor [(True, call_frame 17 5 7), (False, call_frame 18 9 9), (True, call_frame 17 0 9)]
      (\<lambda>(b, tf). kthen (if b then sys_setreuid tf else sys_setregid tf) (kret ())) user_state = Ok () s' \<and>
    k_proc s' 1 = Some c' \<and> p_euid c' \<noteq> 0 \<and> p_euid c' \<in> {5, 7}"
proof -
  define c where "c = the (k_proc user_state 1)"
  have c: "k_proc user_state (k_cu user_state) = Some c" "p_euid c \<noteq> 0" "k_cu user_state = 1" "p_euid c = 5" "p_ruid c = 7"
    by (simp_all add: c_def user_state_def)
  show ?thesis using set_ids_keep_unprivileged [OF c(1,2), of "[(True, call_frame 17 5 7), (False, call_frame 18 9 9), (True, call_frame 17 0 9)]"]
    unfolding c(3-5) by blast
qed

theorem syscall_result_witness:
  "\<exists>eax s1. do_syscall quiet_machine (call_frame 17 9 0) user_state = Ok ((call_frame 17 9 0)\<lparr>tf_eax := eax\<rparr>) s1 \<and>
    sys_stub eax = (Some 1, -1)"
proof -
  define c where "c = the (k_proc user_state 1)"
  define s1 where "s1 = user_state\<lparr>k_proc := (k_proc user_state)(1 \<mapsto> c\<lparr>p_error := EPERM\<rparr>)\<rparr>"
  have c: "k_proc user_state (k_cu user_state) = Some c" "k_cu user_state = 1" "p_euid c = 5" "p_ruid c = 7"
    by (simp_all add: c_def user_state_def)
  have "(case sys_routines quiet_machine (nat (sint (tf_eax (call_frame 17 9 0)))) of Some f \<Rightarrow> f | None \<Rightarrow> keep_frame nosys) (call_frame 17 9 0)
      (user_state\<lparr>k_proc := (k_proc user_state)(k_cu user_state \<mapsto> c\<lparr>p_error := 0\<rparr>)\<rparr>) = Ok (-1, call_frame 17 9 0) s1"
    using c by (simp add: call_frame_def sys_routines_def keep_frame_def sys_setreuid_def Let_def kop_simps s1_def)
  moreover have "k_proc s1 (k_cu s1) = Some (c\<lparr>p_error := EPERM\<rparr>)" using c(2) by (simp add: s1_def)
  ultimately show ?thesis
    using syscall_result [OF c(1), of "call_frame 17 9 0" quiet_machine "-1" "call_frame 17 9 0" s1 "c\<lparr>p_error := EPERM\<rparr>"]
    by (auto simp: call_frame_def)
qed

theorem syscall_unimplemented_witness:
  "\<exists>eax s1. do_syscall quiet_machine (call_frame 23 0x8000000 4) user_state = Ok ((call_frame 23 0x8000000 4)\<lparr>tf_eax := eax\<rparr>) s1 \<and>
    sys_stub eax = (Some 38, -1)"
proof -
  define c where "c = the (k_proc user_state 1)"
  have c: "k_proc user_state (k_cu user_state) = Some c" by (simp add: c_def user_state_def)
  have n: "tf_eax (call_frame 23 b x) = 23" for b x by (simp add: call_frame_def)
  from syscall_unimplemented [OF c, of "call_frame 23 0x8000000 4" quiet_machine] show ?thesis
    by (simp add: n) blast
qed

end
