(* ===== verification/Sigret.thy ===== *)
theory Sigret
  imports Sys
begin

unbundle bit_operations_syntax

text \<open>
  The frame of a signal handler: \<^verbatim>\<open>psig\<close> of \<^verbatim>\<open>src/kern/signal.c\<close> builds it on the user stack with
  \<^verbatim>\<open>upush\<close> of \<^verbatim>\<open>src/kern/exec.c\<close>, and \<^verbatim>\<open>sys_sigreturn\<close> of \<^verbatim>\<open>src/kern/sys4.c\<close> takes it down again.
\<close>

section \<open>A page of the user stack\<close>

text \<open>The current process has \<open>n\<close> writable bytes from \<open>B\<close> on in the page frame \<open>g\<close>.\<close>

definition stack_page :: "kernel \<Rightarrow> nat \<Rightarrow> uint \<Rightarrow> nat \<Rightarrow> bool" where
  "stack_page s g B n \<longleftrightarrow> (\<exists>c. k_proc s (k_cu s) = Some c \<and> k_cr3 s = vm_pgd (p_vm c)) \<and> KMEM_END \<le> B \<and>
     PG_ADDR B \<noteq> 0xFFFFF000 \<and> walk s (k_cr3 s) B = Some (g, True) \<and> POFF B + n \<le> 4096"

definition ustore :: "nat \<Rightarrow> nat \<Rightarrow> uchar list \<Rightarrow> kernel \<Rightarrow> kernel" where
  "ustore g off bs s = mem_mod g (\<lambda>m j. if off \<le> j \<and> j < off + length bs then bs ! (j - off) else m j) s"

lemma ustore_simps [simp]:
  "k_proc (ustore g off bs s) = k_proc s" "k_cu (ustore g off bs s) = k_cu s" "k_cr3 (ustore g off bs s) = k_cr3 s"
  "walk (ustore g off bs s) = walk s" "stack_page (ustore g off bs s) = stack_page s"
  by (simp_all add: ustore_def stack_page_def fun_eq_iff)

lemma ustore_mem: "k < length bs \<Longrightarrow> k_mem (ustore g off bs s) g (off + k) = bs ! k"
  by (simp add: ustore_def)

lemma ustore_append: "ustore g off bs (ustore g (off + length bs) cs s) = ustore g off (bs @ cs) s"
  by (auto simp: ustore_def mem_mod_def nth_append fun_eq_iff intro!: arg_cong [of _ _ "\<lambda>x. s\<lparr>k_mem := x\<rparr>"])

lemma stack_page_at:
  assumes "stack_page s g B n" "k < n"
  shows "KMEM_END \<le> B + of_nat k" "walk s (k_cr3 s) (B + of_nat k) = Some (g, True)" "POFF (B + of_nat k) = POFF B + k"
    "PG_ADDR (B + of_nat k) \<noteq> 0xFFFFF000"
proof -
  have "POFF B + k < 4096" using assms by (simp add: stack_page_def)
  note a = PG_ADDR_add [OF this]
  show "KMEM_END \<le> B + of_nat k" "POFF (B + of_nat k) = POFF B + k" "PG_ADDR (B + of_nat k) \<noteq> 0xFFFFF000"
    using a assms(1) by (simp_all add: stack_page_def)
  show "walk s (k_cr3 s) (B + of_nat k) = Some (g, True)"
    using view_same_page(1) [OF a(2)] assms(1) by (simp add: stack_page_def)
qed

lemma upush_page:
  assumes "stack_page s g B n" "k + length bs \<le> n" "0 < length bs"
  shows "upush (B + of_nat (k + length bs)) bs s = Ok (B + of_nat k) (ustore g (POFF B + k) bs s)"
proof -
  have k: "k < n" using assms(2,3) by linarith
  note a = stack_page_at [OF assms(1) k]
  obtain c where c: "k_proc s (k_cu s) = Some c" "k_cr3 s = vm_pgd (p_vm c)" using assms(1) by (auto simp: stack_page_def)
  have l: "POFF (B + of_nat k) + length bs \<le> 4096" using assms(1,2) a(3) by (simp add: stack_page_def)
  have "vm_verify (B + of_nat k) (of_nat (length bs)) s = Ok 0 s"
    using vm_verify_page_Ok [OF c(1) a(1) assms(3) l a(4)] a(2) c(2) by simp
  moreover have "put_user (map Some bs) (B + of_nat k) s = Ok () (ustore g (POFF B + k) bs s)"
    using put_user_page [OF a(1,2) l] unfolding a(3) ustore_def .
  moreover have "B + of_nat (k + length bs) - of_nat (length bs) = B + of_nat k" by simp
  ultimately show ?thesis by (simp add: upush_def kbind_Ok kthen_Ok kop_apply Let_def)
qed

section \<open>Words on the stack\<close>

lemma nth_le32_words:
  "k < length ws \<Longrightarrow> i < 4 \<Longrightarrow> (concat (map le32 ws) @ rest) ! (4 * k + i) = byte32 (ws ! k) i"
proof (induction ws arbitrary: k)
  case (Cons w ws)
  show ?case
  proof (cases k)
    case 0
    then show ?thesis using Cons.prems by (simp add: nth_append le32_nth)
  next
    case (Suc m)
    then show ?thesis using Cons.IH [of m] Cons.prems by (simp add: nth_append)
  qed
qed simp

lemma length_le32_words: "length (concat (map le32 ws)) = 4 * length ws"
  by (induction ws) simp_all

lemma word_on_stack:
  assumes "stack_page s g B n" "n = 4 * length ws + length rest" "k_mem s = k_mem (ustore g (POFF B) (concat (map le32 ws) @ rest) s0)"
    and k: "k < length ws"
  shows "get_user32 s (B + of_nat (4 * k)) = Some (ws ! k)"
proof -
  have "4 * k < n" using assms(2) k by simp
  note a = stack_page_at [OF assms(1) this]
  have "POFF (B + of_nat (4 * k)) \<le> 4092" using a(3) assms(1,2) k by (simp add: stack_page_def)
  moreover have "k_mem s g (POFF (B + of_nat (4 * k)) + i) = byte32 (ws ! k) i" if "i < 4" for i
  proof -
    have "4 * k + i < length (concat (map le32 ws) @ rest)" using that k by (simp add: length_le32_words)
    then have "k_mem s g (POFF B + (4 * k + i)) = (concat (map le32 ws) @ rest) ! (4 * k + i)"
      using ustore_mem assms(3) by metis
    then show ?thesis using nth_le32_words [OF k that] a(3) by (simp add: add.assoc)
  qed
  ultimately show ?thesis using get_user32_page [OF a(1,2)] by blast
qed

section \<open>Building the frame\<close>

text \<open>
  The words that \<^verbatim>\<open>psig\<close> leaves on the stack, from the new stack pointer \<open>B\<close> on, before the code of
  \<^verbatim>\<open>_usigret\<close>: its address as the return address of the handler, the signal number, and the
  saved registers with the mask.
\<close>

definition sig_words :: "uint \<Rightarrow> uint \<Rightarrow> trap \<Rightarrow> uint \<Rightarrow> uint list" where
  "sig_words B n tf msk = [B + 44, n, tf_eip tf, tf_esp tf, tf_ebx tf, tf_ecx tf, tf_edx tf, tf_esi tf, tf_edi tf, tf_ebp tf, msk]"

lemma length_sig_words: "length (sig_words B n tf msk) = 11"
  by (simp add: sig_words_def)

lemma sig_pushes:
  assumes sp: "stack_page s g B 60" and ug: "length ug = 16" and esp: "tf_esp tf = B + 60"
  shows "kbind (upush (tf_esp tf) ug) (\<lambda>usr. kbind (upush usr (jmp_buf_bytes (usigsav tf msk))) (\<lambda>ujbuf.
      kbind (upush ujbuf (le32 n)) (\<lambda>e1. kbind (upush e1 (le32 usr)) f))) s =
    f B (ustore g (POFF B) (concat (map le32 (sig_words B n tf msk)) @ ug) s)"
proof -
  let ?j = "jmp_buf_bytes (usigsav tf msk)"
  have j: "length ?j = 36" by (simp add: jmp_buf_bytes_def)
  define s1 where "s1 = ustore g (POFF B + 44) ug s"
  define s2 where "s2 = ustore g (POFF B + 8) ?j s1"
  define s3 where "s3 = ustore g (POFF B + 4) (le32 n) s2"
  define s4 where "s4 = ustore g (POFF B) (le32 (B + 44)) s3"
  have sps: "stack_page s1 = stack_page s" "stack_page s2 = stack_page s" "stack_page s3 = stack_page s"
    by (simp_all add: s1_def s2_def s3_def)
  have "upush (tf_esp tf) ug s = Ok (B + 44) s1" "upush (B + 44) ?j s1 = Ok (B + 8) s2"
    "upush (B + 8) (le32 n) s2 = Ok (B + 4) s3" "upush (B + 4) (le32 (B + 44)) s3 = Ok B s4"
    using upush_page [OF sp, of 44 ug] upush_page [of s1 g B 60 8 ?j] upush_page [of s2 g B 60 4 "le32 n"]
      upush_page [of s3 g B 60 0 "le32 (B + 44)"] sp sps ug j esp
    by (simp_all add: s1_def s2_def s3_def s4_def)
  moreover have "s4 = ustore g (POFF B) (concat (map le32 (sig_words B n tf msk)) @ ug) s"
  proof -
    have "s2 = ustore g (POFF B + 8) (?j @ ug) s"
      using ustore_append [of g "POFF B + 8" ?j ug s] j by (simp add: s2_def s1_def add.commute)
    then have "s3 = ustore g (POFF B + 4) (le32 n @ ?j @ ug) s"
      using ustore_append [of g "POFF B + 4" "le32 n" "?j @ ug" s] by (simp add: s3_def add.commute)
    then have "s4 = ustore g (POFF B) (le32 (B + 44) @ le32 n @ ?j @ ug) s"
      using ustore_append [of g "POFF B" "le32 (B + 44)" "le32 n @ ?j @ ug" s] by (simp add: s4_def)
    then show ?thesis by (simp add: sig_words_def jmp_buf_bytes_def usigsav_def)
  qed
  ultimately show ?thesis by (simp add: kbind_Ok)
qed

lemma psig_frame:
  assumes cu: "k_proc s (k_cu s) = Some c" and n: "p_cursig c = n" "0 < n" "n \<le> 32"
    and sa: "sa = p_sigact c (unat n - 1)" "sa_handler sa \<noteq> SIG_DFL"
    and tf: "p_trap c = Some tf" and sp: "stack_page s g B 60" and ug: "length ug = 16" and esp: "tf_esp tf = B + 60"
  shows "\<exists>s0 s'. psig ug s = Stop (Ret_user (sa_handler sa) B) s' \<and> k_cu s' = k_cu s \<and> k_proc s' (k_cu s) \<noteq> None \<and>
    stack_page s' g B 60 \<and> k_mem s' = k_mem (ustore g (POFF B) (concat (map le32 (sig_words B n tf (p_sigmask c))) @ ug) s0)"
proof -
  define c1 where "c1 = c\<lparr>p_sig := p_sig c AND NOT (shl1 (n - 1)), p_cursig := 0,
    p_sigmask := (if sa_flags sa AND SA_NOMASK = 0 then p_sigmask c OR sa_mask sa else p_sigmask c)\<rparr>"
  define s1 where "s1 = s\<lparr>k_proc := (k_proc s)(k_cu s \<mapsto> c1)\<rparr>"
  define s2 where "s2 = ustore g (POFF B) (concat (map le32 (sig_words B n tf (p_sigmask c))) @ ug) s1"
  have sp1: "stack_page s1 g B 60" using sp cu by (auto simp: stack_page_def s1_def c1_def)
  define fin where "fin = (\<lambda>esp. kthen (kwhen (sa_flags sa AND SA_ONESHOT \<noteq> 0)
      (cu_mod (\<lambda>p. p\<lparr>p_sigact := (p_sigact p)(unat n - 1 := (p_sigact p (unat n - 1))\<lparr>sa_handler := 0\<rparr>)\<rparr>)))
    (kstop (Ret_user (sa_handler sa) esp)) :: unit kop)"
  have n': "n \<noteq> 0" "\<not> 32 < n" using n(2,3) by auto
  have "psig ug s = kbind (upush (tf_esp tf) ug) (\<lambda>usr. kbind (upush usr (jmp_buf_bytes (usigsav tf (p_sigmask c)))) (\<lambda>ujbuf.
      kbind (upush ujbuf (le32 n)) (\<lambda>e1. kbind (upush e1 (le32 usr)) fin))) s1"
    using cu n(1) n' sa tf unfolding psig_def fin_def
    by (simp add: kop_simps kwhen_def s1_def c1_def)
  also have "\<dots> = fin B s2" unfolding s2_def by (rule sig_pushes [OF sp1 ug esp])
  finally have p: "psig ug s = fin B s2" .
  have c2: "k_proc s2 (k_cu s2) = Some c1" "k_cu s2 = k_cu s" by (simp_all add: s2_def s1_def)
  have sp2: "stack_page s2 g B 60" using sp1 by (simp add: s2_def)
  show ?thesis
  proof (cases "sa_flags sa AND SA_ONESHOT = 0")
    case True
    then have "psig ug s = Stop (Ret_user (sa_handler sa) B) s2" using p by (simp add: fin_def kop_simps)
    then show ?thesis using c2 sp2 by (intro exI [of _ s1] exI [of _ s2]) (simp add: s2_def)
  next
    case False
    define s3 where "s3 = s2\<lparr>k_proc := (k_proc s2)(k_cu s \<mapsto>
      c1\<lparr>p_sigact := (p_sigact c1)(unat n - 1 := (p_sigact c1 (unat n - 1))\<lparr>sa_handler := 0\<rparr>)\<rparr>)\<rparr>"
    have "psig ug s = Stop (Ret_user (sa_handler sa) B) s3" using False p c2 by (simp add: fin_def kop_simps s3_def)
    moreover have "stack_page s3 g B 60" using sp2 c2 by (auto simp: stack_page_def s3_def)
    moreover have "k_mem s3 = k_mem s2" "k_cu s3 = k_cu s" "k_proc s3 (k_cu s) \<noteq> None" using c2 by (simp_all add: s3_def)
    ultimately show ?thesis by (intro exI [of _ s1] exI [of _ s3]) (simp add: s2_def)
  qed
qed

lemma jmp_buf_on_stack:
  assumes w: "\<And>k. k < 11 \<Longrightarrow> get_user32 s (B + of_nat (4 * k)) = Some (sig_words B n tf msk ! k)"
  shows "get_jmp_buf s (B + 8) = Some (usigsav tf msk)"
proof -
  have "get_user32 s (B + 8 + 4 * of_nat k) = Some (sig_words B n tf msk ! (k + 2))" if "k < 9" for k
  proof -
    have "B + 8 + 4 * of_nat k = B + of_nat (4 * (k + 2))" by simp
    then show ?thesis using w [of "k + 2"] that by (simp only:)
  qed
  then have "map (\<lambda>k. get_user32 s (B + 8 + 4 * of_nat k)) [0..<9] = map Some (drop 2 (sig_words B n tf msk))"
    by (intro nth_equalityI) (simp_all add: length_sig_words add.commute)
  then show ?thesis
    by (simp add: get_jmp_buf_def usigsav_def sig_words_def numeral_eq_Suc del: upt.simps)
qed

section \<open>Properties\<close>

text \<open>
  C20: a signal handler runs on a frame from which the interrupted program is restored. When the
  current signal has a handler and the 60 bytes below the stack pointer lie in a writable page,
  \<^verbatim>\<open>psig\<close> continues the program in the handler, with the signal number as its argument
  and the copied code of \<^verbatim>\<open>_usigret\<close> as its return address. When that code makes its system call, 10
  bytes from its start, \<^verbatim>\<open>sys_sigreturn\<close> gives the program the instruction pointer, stack
  pointer and general registers of the interrupted frame, except \<^verbatim>\<open>eax\<close>, and the process its signal mask.
\<close>

theorem sigreturn_restores:
  assumes cu: "k_proc s (k_cu s) = Some c" and n: "p_cursig c = n" "0 < n" "n \<le> 32"
    and sa: "sa = p_sigact c (unat n - 1)" "sa_handler sa \<noteq> SIG_DFL"
    and tf: "p_trap c = Some tf" and sp: "stack_page s g B 60" and ug: "length ug = 16" and esp: "tf_esp tf = B + 60"
  shows "\<exists>s'. psig ug s = Stop (Ret_user (sa_handler sa) B) s' \<and>
    get_user32 s' B = Some (B + 44) \<and> get_user32 s' (B + 4) = Some n \<and>
    (\<forall>j<16. get_user s' (B + 44 + of_nat j) = Some (ug ! j)) \<and>
    (\<forall>tf2. tf_eip tf2 = B + 44 + 10 \<longrightarrow> (\<exists>s'' c''. sys_sigreturn tf2 s' = Ok (0, tf2\<lparr>tf_esp := tf_esp tf, tf_eip := tf_eip tf,
        tf_ebx := tf_ebx tf, tf_ecx := tf_ecx tf, tf_edx := tf_edx tf, tf_edi := tf_edi tf, tf_esi := tf_esi tf,
        tf_ebp := tf_ebp tf\<rparr>) s'' \<and> k_proc s'' (k_cu s'') = Some c'' \<and> p_sigmask c'' = p_sigmask c))"
proof -
  let ?ws = "sig_words B n tf (p_sigmask c)"
  obtain s0 s' where s': "psig ug s = Stop (Ret_user (sa_handler sa) B) s'" "k_cu s' = k_cu s" "k_proc s' (k_cu s) \<noteq> None"
    "stack_page s' g B 60" "k_mem s' = k_mem (ustore g (POFF B) (concat (map le32 ?ws) @ ug) s0)"
    using psig_frame [OF assms] by blast
  note len = length_sig_words
  have w: "get_user32 s' (B + of_nat (4 * k)) = Some (?ws ! k)" if "k < 11" for k
    using word_on_stack [OF s'(4) _ s'(5)] len ug that by simp
  have "get_user32 s' B = Some (B + 44)" "get_user32 s' (B + 4) = Some n"
    using w [of 0] w [of 1] by (simp_all add: sig_words_def)
  moreover have "get_user s' (B + 44 + of_nat j) = Some (ug ! j)" if "j < 16" for j
  proof -
    have "KMEM_END \<le> B" "walk s' (k_cr3 s') B = Some (g, True)" "POFF B + (44 + j) < 4096"
      using s'(4) that by (simp_all add: stack_page_def)
    from get_user_page [OF this] have "get_user s' (B + of_nat (44 + j)) = Some (k_mem s' g (POFF B + (44 + j)))" .
    also have "k_mem s' g (POFF B + (44 + j)) = (concat (map le32 ?ws) @ ug) ! (44 + j)"
      unfolding s'(5) by (rule ustore_mem) (use that ug len in \<open>simp add: length_le32_words\<close>)
    also have "\<dots> = ug ! j" by (simp add: nth_append length_le32_words len)
    finally show ?thesis by (simp add: add.assoc)
  qed
  moreover have "\<exists>s'' c''. sys_sigreturn tf2 s' = Ok (0, tf2\<lparr>tf_esp := tf_esp tf, tf_eip := tf_eip tf,
        tf_ebx := tf_ebx tf, tf_ecx := tf_ecx tf, tf_edx := tf_edx tf, tf_edi := tf_edi tf, tf_esi := tf_esi tf,
        tf_ebp := tf_ebp tf\<rparr>) s'' \<and> k_proc s'' (k_cu s'') = Some c'' \<and> p_sigmask c'' = p_sigmask c"
    if e: "tf_eip tf2 = B + 44 + 10" for tf2
  proof -
    obtain c1 where c1: "k_proc s' (k_cu s') = Some c1" using s'(2,3) by auto
    have "get_jmp_buf s' (tf_eip tf2 - 46) = Some (usigsav tf (p_sigmask c))"
      using jmp_buf_on_stack [OF w] e by (simp add: add.commute)
    then show ?thesis using c1 by (simp add: sys_sigreturn_def kop_simps usigsav_def)
  qed
  ultimately show ?thesis using s'(1) by blast
qed

section \<open>Instances\<close>

definition sig_trap :: trap where
  "sig_trap = \<lparr>tf_gs = 0x23, tf_fs = 0x23, tf_es = 0x23, tf_ds = 0x23, tf_edi = 1, tf_esi = 2, tf_ebp = 3, tf__esp = 0,
     tf_ebx = 4, tf_edx = 5, tf_ecx = 6, tf_eax = 7, tf_int_no = 0x80, tf_err_code = 0, tf_eip = 0x9000000, tf_cs = 0x1B,
     tf_eflags = 0x200, tf_esp = KMEM_END + 160, tf_ss = 0x23\<rparr>"

text \<open>A process with a handler for the current signal 2 and a mapped page for its stack.\<close>

definition sig_state :: kernel where
  "sig_state = small_space\<lparr>k_proc := [0 \<mapsto> zero_proc\<lparr>p_vm := (p_vm zero_proc)\<lparr>vm_pgd := 10\<rparr>, p_cursig := 2, p_sigmask := 5,
     p_sigact := (\<lambda>_. \<lparr>sa_handler = 0x8001000, sa_mask = 2, sa_flags = 0, sa_restorer = 0\<rparr>), p_trap := Some sig_trap\<rparr>],
     k_cu := 0, k_cr3 := 10\<rparr>"

theorem sigreturn_restores_witness:
  "\<exists>s' s'' tf3. psig (replicate 16 0x90) sig_state = Stop (Ret_user 0x8001000 (KMEM_END + 100)) s' \<and>
    sys_sigreturn (sig_trap\<lparr>tf_eip := KMEM_END + 154, tf_ebx := 99\<rparr>) s' = Ok (0, tf3) s'' \<and>
    tf_eip tf3 = 0x9000000 \<and> tf_ebx tf3 = 4 \<and> tf_esp tf3 = KMEM_END + 160"
proof -
  have sp: "stack_page sig_state 2 (KMEM_END + 100) 60"
    by (simp add: stack_page_def sig_state_def small_space_def walk_def POFF_def PG_ADDR_def PDX_def PTX_def pd_present_def present_def)
  define c where "c = the (k_proc sig_state 0)"
  have c: "k_proc sig_state (k_cu sig_state) = Some c" "p_cursig c = 2" "p_trap c = Some sig_trap"
    "sa_handler (p_sigact c (unat (2 :: uint) - 1)) = 0x8001000" by (simp_all add: c_def sig_state_def)
  have h: "sa_handler (p_sigact c (unat (2 :: uint) - 1)) \<noteq> SIG_DFL" by (simp only: c(4)) simp
  have l: "length (replicate 16 0x90) = (16 :: nat)" "tf_esp sig_trap = KMEM_END + 100 + 60" by (simp_all add: sig_trap_def)
  have n: "(0 :: uint) < 2" "(2 :: uint) \<le> 32" by simp_all
  let ?t = "sig_trap\<lparr>tf_eip := KMEM_END + 154, tf_ebx := 99\<rparr>"
  have e: "tf_eip ?t = KMEM_END + 100 + 44 + 10" by simp
  obtain s' where s': "psig (replicate 16 0x90) sig_state = Stop (Ret_user 0x8001000 (KMEM_END + 100)) s'"
    and r: "\<forall>tf2. tf_eip tf2 = KMEM_END + 100 + 44 + 10 \<longrightarrow> (\<exists>s'' c''. sys_sigreturn tf2 s' = Ok (0, tf2\<lparr>tf_esp := tf_esp sig_trap,
        tf_eip := tf_eip sig_trap, tf_ebx := tf_ebx sig_trap, tf_ecx := tf_ecx sig_trap, tf_edx := tf_edx sig_trap,
        tf_edi := tf_edi sig_trap, tf_esi := tf_esi sig_trap, tf_ebp := tf_ebp sig_trap\<rparr>) s'' \<and>
        k_proc s'' (k_cu s'') = Some c'' \<and> p_sigmask c'' = p_sigmask c)"
    using sigreturn_restores [OF c(1,2) n refl h c(3) sp l] unfolding c(4) by blast
  obtain s'' tf3 where "sys_sigreturn ?t s' = Ok (0, tf3) s''" "tf_eip tf3 = tf_eip sig_trap" "tf_ebx tf3 = tf_ebx sig_trap"
    "tf_esp tf3 = tf_esp sig_trap" using mp [OF spec [OF r] e] by (elim exE conjE) simp
  with s' show ?thesis by (intro exI [of _ s'] exI [of _ s''] exI [of _ tf3]) (simp add: sig_trap_def)
qed

end
