(* ===== verification/Boot.thy ===== *)
theory Boot
  imports Sigret
begin

unbundle bit_operations_syntax

text \<open>
  Starting the system: \<^verbatim>\<open>kmain\<close> and the first process \<^verbatim>\<open>init\<close> of \<^verbatim>\<open>src/kern/main.c\<close>, and \<^verbatim>\<open>mm_init\<close> of
  \<^verbatim>\<open>src/mm/pm.c\<close>. What the boot sequence does to the descriptor tables and the interrupt controllers is
  \<open>kmain_tables\<close> of the theory \<open>Seg\<close>; here is what it does to the state of the kernel. The
  clock chip, the end of the kernel image and the address of \<^verbatim>\<open>init\<close> are arguments.
\<close>

section \<open>The boot sequence\<close>

definition mm_init :: "uint \<Rightarrow> unit kop" where
  "mm_init kend = kbind (kget k_pgd0) (\<lambda>pgd0. kthen (pgd_init pgd0) (kthen (pm_init kend) (lpgd pgd0)))"

definition note_init :: "string \<Rightarrow> unit kop" where
  "note_init what = puts (ascii (''* init '' @ what @ [CHR 0x0A]))"

definition kmain_init :: "(uchar \<Rightarrow> uchar) \<Rightarrow> uint \<Rightarrow> unit kop" where
  "kmain_init rtc kend =
     kthen cls
     (kthen (note_init ''gdt'')
     (kthen (note_init ''idt'')
     (kthen (mm_init kend) (kthen (note_init ''mm'')
     (kthen proc0_init (kthen (note_init ''proc0'')
     (kthen buf_init (kthen (note_init ''buf'')
     (kthen tty_init (kthen (note_init ''tty'')
     (kthen (note_init ''hd'')
     (kthen (timer_init rtc) (kthen (note_init ''timer'')
     (kthen (note_init ''keybd'')
      (puts (ascii ([CHR 0x0A] @ ''--- fleurix ---'' @ [CHR 0x0A, CHR 0x0A])))))))))))))))))"

text \<open>The idle loop switches to another process as soon as there is one.\<close>

definition kmain :: "proc \<Rightarrow> uint \<Rightarrow> (uchar \<Rightarrow> uchar) \<Rightarrow> uint \<Rightarrow> unit kop" where
  "kmain junk init_addr rtc kend =
     kthen (kmain_init rtc kend) (kthen (kspawn junk init_addr) (kthen swtch (kstop Spin)))"

section \<open>The first process\<close>

definition cmem :: "string \<Rightarrow> mem" where
  "cmem str j = (if j < length str then ascii str ! j else 0)"

definition init :: "uint \<Rightarrow> int kop" where
  "init arglen =
     kthen (cu_mod (\<lambda>p. p\<lparr>p_pgrp := 1\<rparr>))
     (kthen (do_mount rootdev None)
     (kbind (iget rootdev 1) (\<lambda>ipo.
      kthen (cu_mod (\<lambda>p. p\<lparr>p_wdir := ipo, p_iroot := ipo\<rparr>))
      (kderef ''ip'' ipo (\<lambda>ip.
       kthen (kmod (ino_mod ip (\<lambda>i. i\<lparr>i_count := i_count i + 2\<rparr>)))
       (kthen (iput (Some ip))
       (kbind (do_open (cmem ''/dev/tty0'') 0 0x2 0) (\<lambda>r.
        if r < 0 then panic (''bad /dev/tty0.'' @ [CHR 0x0A])
        else kthen (do_dup 0) (kthen (do_dup 0)
          (kthen (do_fcntl 0 2 0) (kthen (do_fcntl 1 2 0) (kthen (do_fcntl 2 2 0)
          (kthen (do_exec arglen (cmem ''/bin/init'') 0 0) (kstop Spin))))))))))))))"

section \<open>Only the screen changes\<close>

definition no_screen :: "kernel \<Rightarrow> kernel" where
  "no_screen s = s\<lparr>k_vga := (\<lambda>_ _. VC_BLANK), k_csr := 0, k_tty := (\<lambda>_. zero_tty)\<rparr>"

definition screen_only :: "kernel \<Rightarrow> kernel \<Rightarrow> bool" where
  "screen_only s t \<longleftrightarrow> no_screen t = no_screen s"

lemma screen_only_refl: "screen_only s s"
  by (simp add: screen_only_def)

lemma screen_only_upd:
  "screen_only s (set_px x t) = screen_only s t" "screen_only s (set_py x t) = screen_only s t"
  "screen_only s (t\<lparr>k_vga := v\<rparr>) = screen_only s t" "screen_only s (t\<lparr>k_csr := c\<rparr>) = screen_only s t"
  by (simp_all add: screen_only_def set_px_def set_py_def no_screen_def)

lemma screen_only_putch: "preserves (screen_only s) (putch c)"
proof -
  have "preserves (screen_only s) (vga_store x)" for x
    by (auto simp: preserves_def vga_store_def screen_only_upd)
  then show ?thesis
    unfolding putch_def scroll_def flush_csr_def Let_def
    by (intro preserves_intros) (auto simp: screen_only_upd)
qed

lemma puts_screen: "vga_inv s \<Longrightarrow> \<exists>t. puts str s = Ok () t \<and> vga_inv t \<and> screen_only s t"
proof -
  assume "vga_inv s"
  then obtain t where t: "puts str s = Ok () t" "vga_inv t" using runs_puts [of str] unfolding runs_def by auto
  have "preserves (screen_only s) (puts str)" unfolding puts_def by (rule preserves_kfor) (rule screen_only_putch)
  from preserves_Ok [OF this screen_only_refl t(1)] t show ?thesis by blast
qed

lemma cls_screen: "\<exists>t. cls s = Ok () t \<and> vga_inv t \<and> screen_only s t"
proof -
  have p: "preserves (screen_only s) cls"
    unfolding cls_def flush_csr_def Let_def by (intro preserves_intros) (simp_all add: screen_only_upd)
  obtain t where t: "cls s = Ok () t" "vga_inv t"
    by (simp add: cls_def flush_csr_def kop_simps vga_inv_def)
  from preserves_Ok [OF p screen_only_refl t(1)] t show ?thesis by blast
qed

section \<open>The steps of the sequence\<close>

text \<open>
  A step of the sequence finds the cursor on the screen and the rest of the state as some \<open>Q\<close> says;
  \<open>blind Q\<close>: what is written on the screen does not matter for \<open>Q\<close>.
\<close>

definition blind :: "(kernel \<Rightarrow> bool) \<Rightarrow> bool" where
  "blind Q \<longleftrightarrow> (\<forall>s t. screen_only s t \<longrightarrow> Q s \<longrightarrow> Q t)"

lemma runs_note:
  assumes "blind Q"
  shows "runs (\<lambda>s. vga_inv s \<and> Q s) (note_init what) (\<lambda>_ s. vga_inv s \<and> Q s)"
    "runs (\<lambda>s. vga_inv s \<and> Q s) (puts str) (\<lambda>_ s. vga_inv s \<and> Q s)"
  using puts_screen assms unfolding runs_def note_init_def blind_def by blast+

lemma runs_cls: "blind Q \<Longrightarrow> runs Q cls (\<lambda>_ s. vga_inv s \<and> Q s)"
  using cls_screen unfolding runs_def blind_def by blast

lemma kfor_kmod: "kfor xs (\<lambda>x. kmod (f x)) s = Ok () (fold f xs s)"
  by (induction xs arbitrary: s) (simp_all add: kop_simps)

lemma fold_pde_mod: "\<exists>g. fold (\<lambda>x. pde_mod pgd x (f x)) xs s = s\<lparr>k_pgd := g\<rparr>"
proof (induction xs arbitrary: s)
  case Nil
  then show ?case by (rule exI [of _ "k_pgd s"]) simp
next
  case (Cons x xs)
  obtain g where "fold (\<lambda>x. pde_mod pgd x (f x)) xs (pde_mod pgd x (f x) s) = (pde_mod pgd x (f x) s)\<lparr>k_pgd := g\<rparr>"
    using Cons.IH by blast
  then have "fold (\<lambda>x. pde_mod pgd x (f x)) (x # xs) s = s\<lparr>k_pgd := g\<rparr>" by (simp add: pde_mod_def [of pgd x])
  then show ?case by blast
qed

lemma fold_pde_at:
  "distinct xs \<Longrightarrow> k_pgd (fold (\<lambda>x. pde_mod pgd x (f x)) xs s) d i =
    (if d = pgd \<and> i \<in> set xs then f i (k_pgd s d i) else k_pgd s d i)"
  by (induction xs arbitrary: s) (auto simp del: upt.simps)

lemma pgd_init_frame:
  "\<exists>g. pgd_init pgd s = Ok 0 (s\<lparr>k_pgd := g\<rparr>) \<and> (\<forall>d. d \<noteq> pgd \<longrightarrow> g d = k_pgd s d) \<and>
    (\<forall>i. 32 \<le> i \<and> i < 1024 \<longrightarrow> \<not> pd_present (g pgd i))"
proof -
  let ?a = "\<lambda>pn. pde_mod pgd pn (\<lambda>e. e\<lparr>pd_off := push_bit 10 (of_nat pn), pd_flag := PTE_PS OR PTE_P OR PTE_W\<rparr>)"
  let ?b = "\<lambda>pn. pde_mod pgd pn (\<lambda>e. e\<lparr>pd_off := 0, pd_flag := PTE_U\<rparr>)"
  obtain g where g: "fold ?a [0..<32] s = s\<lparr>k_pgd := g\<rparr>"
    using fold_pde_mod [of pgd "\<lambda>pn e. e\<lparr>pd_off := push_bit 10 (of_nat pn), pd_flag := PTE_PS OR PTE_P OR PTE_W\<rparr>" "[0..<32]" s] by blast
  obtain h where h: "fold ?b [32..<1024] (s\<lparr>k_pgd := g\<rparr>) = s\<lparr>k_pgd := g\<rparr>\<lparr>k_pgd := h\<rparr>"
    using fold_pde_mod [of pgd "\<lambda>pn e. e\<lparr>pd_off := 0, pd_flag := PTE_U\<rparr>" "[32..<1024]" "s\<lparr>k_pgd := g\<rparr>"] by blast
  have k: "kfor [0..<32] (\<lambda>pn. kmod (?a pn)) s = Ok () (s\<lparr>k_pgd := g\<rparr>)"
    "kfor [32..<1024] (\<lambda>pn. kmod (?b pn)) (s\<lparr>k_pgd := g\<rparr>) = Ok () (s\<lparr>k_pgd := h\<rparr>)"
    unfolding kfor_kmod g h by simp_all
  have r: "pgd_init pgd s = Ok 0 (s\<lparr>k_pgd := h\<rparr>)" unfolding pgd_init_def
    by (simp only: kthen_Ok k kop_apply)
  have hk: "h = k_pgd (fold ?b [32..<1024] (fold ?a [0..<32] s))" unfolding g h by simp
  have "h d i = k_pgd s d i" if "d \<noteq> pgd" for d i
    unfolding hk fold_pde_at [OF distinct_upt] set_upt atLeastLessThan_iff using that by simp
  moreover have "\<not> pd_present (h pgd i)" if "32 \<le> i \<and> i < 1024" for i
    unfolding hk fold_pde_at [OF distinct_upt] set_upt atLeastLessThan_iff using that by (simp add: pd_present_def)
  ultimately show ?thesis using r by (intro exI [of _ h]) auto
qed

lemma screen_fields:
  assumes "screen_only s t"
  shows "k_coremap t = k_coremap s" "k_pgfree t = k_pgfree s" "k_bk t = k_bk s" "k_cr3 t = k_cr3 s" "k_pgd0 t = k_pgd0 s"
    "k_proc t = k_proc s" "k_cu t = k_cu s" "k_buf t = k_buf s" "k_disk t = k_disk s" "k_nblkdev t = k_nblkdev s"
    "k_pgd t = k_pgd s" "k_tick t = k_tick s"
  using arg_cong [OF assms [unfolded screen_only_def], of k_coremap] arg_cong [OF assms [unfolded screen_only_def], of k_pgfree]
    arg_cong [OF assms [unfolded screen_only_def], of k_bk] arg_cong [OF assms [unfolded screen_only_def], of k_cr3]
    arg_cong [OF assms [unfolded screen_only_def], of k_pgd0] arg_cong [OF assms [unfolded screen_only_def], of k_proc]
    arg_cong [OF assms [unfolded screen_only_def], of k_cu] arg_cong [OF assms [unfolded screen_only_def], of k_buf]
    arg_cong [OF assms [unfolded screen_only_def], of k_disk] arg_cong [OF assms [unfolded screen_only_def], of k_nblkdev]
    arg_cong [OF assms [unfolded screen_only_def], of k_pgd] arg_cong [OF assms [unfolded screen_only_def], of k_tick]
  by (simp_all add: no_screen_def)

text \<open>What the memory management, and what the process table, looks like after its initialisation.\<close>

definition mm_ready :: "uint \<Rightarrow> kernel \<Rightarrow> bool" where
  "mm_ready kend s \<longleftrightarrow> pm_inv s \<and> class_sizes s \<and> k_cr3 s = k_pgd0 s \<and> k_pgd0 s = 0 \<and>
     (\<forall>i. 32 \<le> i \<and> i < 1024 \<longrightarrow> \<not> pd_present (k_pgd s (k_pgd0 s) i)) \<and>
     (\<forall>pn<NPAGE. page_cnt s pn = (if pn = 0 \<or> 160 \<le> pn \<and> pn \<le> unat (PPN kend) then 100 else 0))"

definition proc0 :: "nat \<Rightarrow> proc" where
  "proc0 pgd0 = zero_proc\<lparr>p_pid := 0, p_ppid := 0, p_stat := SRUN, p_flag := 1, p_cpu := 0, p_pri := 0, p_nice := 20,
     p_euid := 0, p_egid := 0, p_vm := (p_vm zero_proc)\<lparr>vm_pgd := pgd0\<rparr>, p_wdir := None, p_iroot := None, p_ofile := (\<lambda>_. None)\<rparr>"

definition proc0_ready :: "kernel \<Rightarrow> bool" where
  "proc0_ready s \<longleftrightarrow> k_cu s = 0 \<and> k_tick s = 0 \<and> k_proc s = [0 \<mapsto> proc0 (k_pgd0 s)]"

lemma mm_ready_cong:
  assumes "k_coremap t = k_coremap s" "k_pgfree t = k_pgfree s" "k_bk t = k_bk s" "k_cr3 t = k_cr3 s" "k_pgd0 t = k_pgd0 s" "k_pgd t = k_pgd s"
  shows "mm_ready kend t = mm_ready kend s"
  using assms by (simp add: mm_ready_def pm_inv_def page_cnt_def class_sizes_def)

lemma proc0_ready_cong:
  "k_proc t = k_proc s \<Longrightarrow> k_cu t = k_cu s \<Longrightarrow> k_tick t = k_tick s \<Longrightarrow> k_pgd0 t = k_pgd0 s \<Longrightarrow> proc0_ready t = proc0_ready s"
  by (simp add: proc0_ready_def)

lemma blind_stages:
  "blind (\<lambda>s. no_screen s = z)"
  "blind (\<lambda>s. mm_ready kend s \<and> b_flag (k_buf s Hdtab) = 0 \<and> k_tick s = 0 \<and> k_proc s = (\<lambda>_. None))"
  "blind (\<lambda>s. mm_ready kend s \<and> b_flag (k_buf s Hdtab) = 0 \<and> proc0_ready s)"
  "blind (\<lambda>s. mm_ready kend s \<and> bio_inv s {} \<and> proc0_ready s)"
proof -
  show "blind (\<lambda>s. no_screen s = z)" by (simp add: blind_def screen_only_def)
  have c: "mm_ready kend t = mm_ready kend s" "proc0_ready t = proc0_ready s" "k_buf t = k_buf s" "k_proc t = k_proc s" "k_tick t = k_tick s"
    "bio_inv t {} = bio_inv s {}" if "screen_only s t" for s t
    using screen_fields [OF that] by (simp_all add: mm_ready_cong [of t s] proc0_ready_cong [of t s] bio_inv_cong [of t s])
  show "blind (\<lambda>s. mm_ready kend s \<and> b_flag (k_buf s Hdtab) = 0 \<and> k_tick s = 0 \<and> k_proc s = (\<lambda>_. None))"
    "blind (\<lambda>s. mm_ready kend s \<and> b_flag (k_buf s Hdtab) = 0 \<and> proc0_ready s)"
    "blind (\<lambda>s. mm_ready kend s \<and> bio_inv s {} \<and> proc0_ready s)"
    unfolding blind_def using c by simp_all
qed

lemma pm_part_eq:
  "(r :: kernel)\<lparr>k_coremap := x, k_pgfree := y\<rparr> = s\<lparr>k_coremap := x, k_pgfree := y\<rparr> \<Longrightarrow>
    r = s\<lparr>k_coremap := k_coremap r, k_pgfree := k_pgfree r\<rparr>"
  by (cases r; cases s) simp

lemma pm_init_frame: "\<exists>cm fl. final (pm_init kend s) = s\<lparr>k_coremap := cm, k_pgfree := fl\<rparr>"
proof -
  define z where "z = (\<lambda>s :: kernel. s\<lparr>k_coremap := (\<lambda>_. zero_page), k_pgfree := None\<rparr>)"
  have r: "z (fold pm_reserve ns s) = z s" for ns s
    by (induction ns arbitrary: s) (simp_all add: pm_reserve_def page_mod_def z_def)
  have l: "z (snd (pm_link k x)) = z (snd x)" for k x
    by (cases x) (auto simp: pm_link_def Let_def page_mod_def z_def split: option.splits)
  have "z (snd (fold pm_link ns x)) = z (snd x)" for ns x
    by (induction ns arbitrary: x) (simp_all add: l)
  with r have "z (final (pm_init kend s)) = z s" by (simp add: pm_init_def Let_def kop_simps del: fold_simps upt.simps)
  then have "final (pm_init kend s) = s\<lparr>k_coremap := k_coremap (final (pm_init kend s)), k_pgfree := k_pgfree (final (pm_init kend s))\<rparr>"
    unfolding z_def by (rule pm_part_eq)
  then show ?thesis by blast
qed

lemma runs_mm_init:
  assumes "PPN kend < 0x8000"
  shows "runs (\<lambda>s. vga_inv s \<and> no_screen s = no_screen boot_kernel) (mm_init kend)
    (\<lambda>_ s. vga_inv s \<and> mm_ready kend s \<and> b_flag (k_buf s Hdtab) = 0 \<and> k_tick s = 0 \<and> k_proc s = (\<lambda>_. None))"
  unfolding runs_def
proof (intro allI impI)
  fix s assume s: "vga_inv s \<and> no_screen s = no_screen boot_kernel"
  then have "screen_only boot_kernel s" by (simp add: screen_only_def)
  note f = screen_fields [OF this]
  obtain g where g: "pgd_init (k_pgd0 s) s = Ok 0 (s\<lparr>k_pgd := g\<rparr>)" "\<forall>i. 32 \<le> i \<and> i < 1024 \<longrightarrow> \<not> pd_present (g (k_pgd0 s) i)"
    using pgd_init_frame [of "k_pgd0 s" s] by blast
  let ?s = "s\<lparr>k_pgd := g\<rparr>"
  obtain s2 where s2: "pm_init kend ?s = Ok 0 s2" "pm_inv s2" "\<forall>pn<NPAGE. page_cnt s2 pn =
      (if pn = 0 \<or> 160 \<le> pn \<and> pn \<le> unat (PPN kend) then 100 else 0)"
    using pm_init_Ok [of ?s kend] assms f(1,2) by (auto simp: boot_kernel_def)
  obtain cm fl where s2': "s2 = ?s\<lparr>k_coremap := cm, k_pgfree := fl\<rparr>" using pm_init_frame [of kend ?s] s2(1) by auto
  define s3 where "s3 = s2\<lparr>k_cr3 := k_pgd0 s\<rparr>"
  have "mm_init kend s = Ok () s3"
    using g(1) s2(1) by (simp add: mm_init_def kbind_simps kthen_Ok lpgd_def kop_apply s3_def)
  moreover have "mm_ready kend s3"
    using s2(2,3) f(3,5) g(2) unfolding mm_ready_def
    by (simp add: s3_def class_sizes_def) (simp add: s2' boot_kernel_def bktab0_def)
  moreover have "vga_inv s3" using s by (simp add: s3_def s2' vga_inv_def px_def py_def)
  ultimately show "\<exists>a s'. mm_init kend s = Ok a s' \<and> vga_inv s' \<and> mm_ready kend s' \<and> b_flag (k_buf s' Hdtab) = 0 \<and> k_tick s' = 0 \<and> k_proc s' = (\<lambda>_. None)"
    using f(6,8,12) by (simp add: s3_def s2' boot_kernel_def zero_buf_def)
qed

lemma runs_proc0_init:
  "runs (\<lambda>s. vga_inv s \<and> mm_ready kend s \<and> b_flag (k_buf s Hdtab) = 0 \<and> k_tick s = 0 \<and> k_proc s = (\<lambda>_. None)) proc0_init
    (\<lambda>_ s. vga_inv s \<and> mm_ready kend s \<and> b_flag (k_buf s Hdtab) = 0 \<and> proc0_ready s)"
  by (auto simp: runs_def proc0_init_def proc0_def kop_apply mm_ready_def pm_inv_def page_cnt_def class_sizes_def proc0_ready_def
      vga_inv_def px_def py_def)

lemma buf_init_keeps_procs:
  assumes "\<And>i p. tab i = Some p \<Longrightarrow> p_chan p = Ch0"
  shows "preserves (\<lambda>s. k_proc s = tab) buf_init"
proof -
  have "woken ch tab = tab" if "ch \<noteq> Ch0" for ch
  proof
    fix i
    show "woken ch tab i = tab i" using assms [of i] that by (cases "tab i") (auto simp: woken_def)
  qed
  then have w: "preserves (\<lambda>s. k_proc s = tab) (wakeup ch)" if "ch \<noteq> Ch0" for ch
    using that by (auto simp: preserves_def wakeup_woken)
  have b: "preserves (\<lambda>s. k_proc s = tab) (brelse (Buff i))" for i
    unfolding brelse_def by (intro preserves_intros w) (auto simp: bchan_def set_defs)
  show ?thesis unfolding buf_init_def by (intro preserves_intros b) (auto simp: set_defs)
qed

lemma runs_buf_init:
  "runs (\<lambda>s. vga_inv s \<and> mm_ready kend s \<and> b_flag (k_buf s Hdtab) = 0 \<and> proc0_ready s) buf_init
    (\<lambda>_ s. vga_inv s \<and> mm_ready kend s \<and> bio_inv s {} \<and> proc0_ready s)"
  unfolding runs_def
proof (intro allI impI)
  fix s assume s: "vga_inv s \<and> mm_ready kend s \<and> b_flag (k_buf s Hdtab) = 0 \<and> proc0_ready s"
  then have p: "k_cu s = 0" "k_proc s = [0 \<mapsto> proc0 (k_pgd0 s)]" "k_tick s = 0" by (simp_all add: proc0_ready_def)
  obtain t where t: "buf_init s = Ok () t" "bio_inv t {}" "bio_frame s (t\<lparr>k_nblkdev := k_nblkdev s\<rparr>)"
    using buf_init_Ok [of s] s p by auto
  note f = bio_frame_fields [OF t(3)]
  have g: "k_bk t = k_bk s" "k_cr3 t = k_cr3 s" "k_pgd0 t = k_pgd0 s" "k_pgd t = k_pgd s" "k_tick t = k_tick s"
    using arg_cong [OF t(3) [unfolded bio_frame_def], of k_bk] arg_cong [OF t(3) [unfolded bio_frame_def], of k_tick] arg_cong [OF t(3) [unfolded bio_frame_def], of k_cr3]
      arg_cong [OF t(3) [unfolded bio_frame_def], of k_pgd0] arg_cong [OF t(3) [unfolded bio_frame_def], of k_pgd]
    by (simp_all add: non_bio_def)
  have "mm_ready kend t" using mm_ready_cong [of t s] f(8,9) g s by simp
  moreover have "vga_inv t" using f(11) s by (simp add: vga_inv_def px_def py_def)
  moreover have "k_proc t = k_proc s"
    by (rule preserves_Ok [OF buf_init_keeps_procs _ t(1)]) (auto simp: p(2) proc0_def zero_proc_def split: if_splits)
  then have "proc0_ready t" using p f(5) g(3,5) by (simp add: proc0_ready_def)
  ultimately show "\<exists>a s'. buf_init s = Ok a s' \<and> vga_inv s' \<and> mm_ready kend s' \<and> bio_inv s' {} \<and> proc0_ready s'"
    using t(1,2) by blast
qed

lemma runs_tty_timer:
  defines "Q \<equiv> \<lambda>kend s. vga_inv s \<and> mm_ready kend s \<and> bio_inv s {} \<and> proc0_ready s"
  shows "runs (Q kend) tty_init (\<lambda>_. Q kend)"
    "0 < cmos_read rtc RTC_MONTH \<Longrightarrow> cmos_read rtc RTC_MONTH \<le> 12 \<Longrightarrow> runs (Q kend) (timer_init rtc) (\<lambda>_. Q kend)"
proof -
  have c: "mm_ready kend t = mm_ready kend s" "proc0_ready t = proc0_ready s" "bio_inv t {} = bio_inv s {}"
    if "no_screen (t\<lparr>k_time := 0\<rparr>) = no_screen (s\<lparr>k_time := 0\<rparr>)" for s t
    using screen_fields [of "s\<lparr>k_time := 0\<rparr>" "t\<lparr>k_time := 0\<rparr>"] that
    by (simp_all add: screen_only_def mm_ready_cong [of t s] proc0_ready_cong [of t s] bio_inv_cong [of t s])
  have step: "runs (Q kend) m (\<lambda>_. Q kend)"
    if h: "\<And>s. \<exists>t. m s = Ok () t \<and> vga_inv t = vga_inv s \<and> no_screen (t\<lparr>k_time := 0\<rparr>) = no_screen (s\<lparr>k_time := 0\<rparr>)" for m
    unfolding runs_def
  proof (intro allI impI)
    fix s assume s: "Q kend s"
    obtain t where t: "m s = Ok () t" "vga_inv t = vga_inv s" "no_screen (t\<lparr>k_time := 0\<rparr>) = no_screen (s\<lparr>k_time := 0\<rparr>)"
      using h [of s] by blast
    show "\<exists>a s'. m s = Ok a s' \<and> Q kend s'" using t(1,2) c [OF t(3)] s by (simp add: Q_def)
  qed
  show "runs (Q kend) tty_init (\<lambda>_. Q kend)"
    by (rule step) (simp add: tty_init_def kop_apply vga_inv_tty_mod, simp add: no_screen_def tty_mod_def)
  show "runs (Q kend) (timer_init rtc) (\<lambda>_. Q kend)" if m: "0 < cmos_read rtc RTC_MONTH" "cmos_read rtc RTC_MONTH \<le> 12"
  proof (rule step)
    fix s
    have "\<exists>w. cmos_time rtc s = Ok w s" using m by (simp add: cmos_time_def Let_def kop_apply)
    then obtain w where "cmos_time rtc s = Ok w s" by blast
    then have "timer_init rtc s = Ok () (s\<lparr>k_time := w\<rparr>)" by (simp add: timer_init_def kbind_Ok kop_apply)
    then show "\<exists>t. timer_init rtc s = Ok () t \<and> vga_inv t = vga_inv s \<and> no_screen (t\<lparr>k_time := 0\<rparr>) = no_screen (s\<lparr>k_time := 0\<rparr>)"
      by (simp add: vga_inv_def px_def py_def)
  qed
qed

lemma kmain_init_runs:
  assumes "PPN kend < 0x8000" "0 < cmos_read rtc RTC_MONTH" "cmos_read rtc RTC_MONTH \<le> 12"
  shows "runs (\<lambda>s. s = boot_kernel) (kmain_init rtc kend)
    (\<lambda>_ s. vga_inv s \<and> mm_ready kend s \<and> bio_inv s {} \<and> proc0_ready s)"
proof -
  have "runs (\<lambda>s. no_screen s = no_screen boot_kernel) (kmain_init rtc kend)
    (\<lambda>_ s. vga_inv s \<and> mm_ready kend s \<and> bio_inv s {} \<and> proc0_ready s)"
    unfolding kmain_init_def
    by (intro runs_kthen) (rule runs_cls runs_note blind_stages runs_mm_init runs_proc0_init runs_buf_init runs_tty_timer assms)+
  then show ?thesis by (simp add: runs_def)
qed

end
