(* ===== verification/Init.thy ===== *)
theory Init
  imports Boot
begin

unbundle bit_operations_syntax

text \<open>
  The first process: what \<^verbatim>\<open>kspawn(&init)\<close> of \<^verbatim>\<open>src/kern/main.c\<close> makes of the state after the boot sequence, and how
  the idle loop comes to run it.
\<close>

section \<open>A child of a process without user memory\<close>

lemma pt_copy_absent:
  assumes "npgd \<noteq> opgd" "\<forall>i\<in>set xs. \<not> pd_present (k_pgd s opgd i)"
  shows "\<exists>g. kfor xs (pt_copy_pde npgd opgd) s = Ok () (s\<lparr>k_pgd := (k_pgd s)(npgd := g)\<rparr>) \<and>
    (\<forall>i. pd_flag (g i) = (if i \<in> set xs then pd_flag (k_pgd s opgd i) else pd_flag (k_pgd s npgd i)))"
  using assms(2)
proof (induction xs arbitrary: s)
  case Nil
  then show ?case by (intro exI [of _ "k_pgd s npgd"]) (simp add: kop_simps)
next
  case (Cons x xs)
  let ?s = "pde_mod npgd x (\<lambda>e. e\<lparr>pd_flag := pd_flag (k_pgd s opgd x)\<rparr>) s"
  have f: "pt_copy_pde npgd opgd x s = Ok () ?s"
    using Cons.prems by (simp add: pt_copy_pde_def kop_simps kwhen_def pd_present_def)
  have o: "k_pgd ?s opgd = k_pgd s opgd" using assms(1) by simp
  obtain g where g: "kfor xs (pt_copy_pde npgd opgd) ?s = Ok () (?s\<lparr>k_pgd := (k_pgd ?s)(npgd := g)\<rparr>)"
    "\<forall>i. pd_flag (g i) = (if i \<in> set xs then pd_flag (k_pgd s opgd i) else pd_flag (k_pgd ?s npgd i))"
    using Cons.IH [of ?s, unfolded o] Cons.prems by (meson list.set_intros(2))
  have "?s\<lparr>k_pgd := (k_pgd ?s)(npgd := g)\<rparr> = s\<lparr>k_pgd := (k_pgd s)(npgd := g)\<rparr>"
    by (simp add: pde_mod_def)
  then have "kfor (x # xs) (pt_copy_pde npgd opgd) s = Ok () (s\<lparr>k_pgd := (k_pgd s)(npgd := g)\<rparr>)"
    using f g(1) by (simp only: kfor.simps kthen_Ok)
  moreover have "pd_flag (g i) = (if i \<in> set (x # xs) then pd_flag (k_pgd s opgd i) else pd_flag (k_pgd s npgd i))" for i
    using g(2) by auto
  ultimately show ?case by blast
qed

lemma kfor_cong: "(\<And>x. x \<in> set xs \<Longrightarrow> f x = g x) \<Longrightarrow> kfor xs f = kfor xs g"
  by (induction xs) simp_all

lemma fold_proc_mod: "fold (\<lambda>x. proc_mod nr (f x)) xs s = proc_mod nr (fold f xs) s"
proof (induction xs arbitrary: s)
  case Nil
  show ?case by (simp add: proc_mod_def option.map_id0 id_def [symmetric])
next
  case (Cons x xs)
  then show ?case by (simp add: proc_mod_def option.map_comp comp_def)
qed

text \<open>The descriptors that the loop of \<^verbatim>\<open>kspawn\<close> has copied.\<close>

definition file_copy :: "proc \<Rightarrow> nat \<Rightarrow> proc \<Rightarrow> proc" where
  "file_copy c fd = (\<lambda>p. p\<lparr>p_ofile := (p_ofile p)(fd := p_ofile c fd), p_fdflag := (p_fdflag p)(fd := p_fdflag c fd)\<rparr>)"

lemma fold_file_copy:
  "fold (file_copy c) [0..<n] p = p\<lparr>p_ofile := (\<lambda>fd. if fd < n then p_ofile c fd else p_ofile p fd),
     p_fdflag := (\<lambda>fd. if fd < n then p_fdflag c fd else p_fdflag p fd)\<rparr>"
proof (induction n)
  case 0
  show ?case by simp
next
  case (Suc n)
  have e: "(\<lambda>fd. if fd < n then f c fd else f p fd)(n := f c n) = (\<lambda>fd. if fd < Suc n then f c fd else f p fd)"
    for f :: "proc \<Rightarrow> nat \<Rightarrow> 'b"
    by (auto simp: fun_eq_iff less_Suc_eq)
  show ?case using Suc.IH by (simp add: file_copy_def [of c n] e)
qed

text \<open>
  \<open>bare c\<close>: the process \<open>c\<close> has no directories, no open files and no areas.
\<close>

definition bare :: "proc \<Rightarrow> bool" where
  "bare c \<longleftrightarrow> p_wdir c = None \<and> (\<forall>fd<NOFILE. p_ofile c fd = None) \<and> (\<forall>i<NVMA. v_flag (vm_area (p_vm c) i) = 0)"

definition spawned :: "kernel \<Rightarrow> proc \<Rightarrow> nat \<Rightarrow> uint \<Rightarrow> proc \<Rightarrow> bool" where
  "spawned t c nr func p \<longleftrightarrow> p_pid p = of_nat nr \<and> p_ppid p = p_pid c \<and> p_stat p = SRUN \<and> p_pri p = PUSER \<and>
     p_cpu p = p_cpu c \<and> p_nice p = p_nice c \<and> p_euid p = p_euid c \<and> p_egid p = p_egid c \<and> p_sig p = p_sig c \<and>
     (\<forall>fd<NOFILE. p_ofile p fd = None) \<and>
     jb_eip (p_contxt p) = func \<and> jb_esp (p_contxt p) = of_nat (p_addr p) * PAGE + PAGE \<and>
     page_cnt t (p_addr p) = 1 \<and> page_cnt t (vm_pgd (p_vm p)) = 1 \<and> vm_pgd (p_vm p) \<noteq> p_addr p \<and>
     (\<forall>i. 32 \<le> i \<and> i < 1024 \<longrightarrow> \<not> pd_present (k_pgd t (vm_pgd (p_vm p)) i))"

lemma vm_clone_bare:
  assumes "pm_inv s" "class_sizes s" "q < NPAGE" "page_cnt s q = 0" "k_proc s (k_cu s) = Some c" "nr \<noteq> k_cu s" "k_proc s nr = Some p"
    and c: "bare c" "\<forall>i. 32 \<le> i \<and> i < 1024 \<longrightarrow> \<not> pd_present (k_pgd s (vm_pgd (p_vm c)) i)" "0 < page_cnt s (vm_pgd (p_vm c))"
  shows "\<exists>d cm fl g. vm_clone nr s = Ok 0 (s\<lparr>k_coremap := cm, k_pgfree := fl, k_pgd := (k_pgd s)(d := g),
      k_proc := (k_proc s)(nr \<mapsto> p\<lparr>p_vm := (p_vm p)\<lparr>vm_pgd := d\<rparr>\<rparr>)\<rparr>) \<and>
    page_cnt s d = 0 \<and> d < NPAGE \<and> pm_inv (s\<lparr>k_coremap := cm, k_pgfree := fl\<rparr>) \<and>
    page_cnt (s\<lparr>k_coremap := cm, k_pgfree := fl\<rparr>) = (page_cnt s)(d := 1) \<and> (\<forall>i. 32 \<le> i \<and> i < 1024 \<longrightarrow> \<not> pd_present (g i))"
proof (cases rule: kmalloc_cases [OF assms(1,2)])
  case (1 d cm fl)
  let ?o = "vm_pgd (p_vm c)"
  have dn: "unat (PPN (of_nat d * PAGE)) = d" using 1(2) by (rule PPN_of_nat)
  have ne: "d \<noteq> ?o" using 1(3) c(3) by auto
  let ?p = "p\<lparr>p_vm := (p_vm p)\<lparr>vm_pgd := d\<rparr>\<rparr>"
  define s2 where "s2 = s\<lparr>k_coremap := cm, k_pgfree := fl, k_proc := (k_proc s)(nr \<mapsto> ?p)\<rparr>"
  have a: "proc_mod nr (\<lambda>p. p\<lparr>p_vm := (p_vm p)\<lparr>vm_pgd := d\<rparr>\<rparr>) (pm_upd s cm fl) = s2"
    using assms(7) by (simp add: proc_mod_def s2_def)
  obtain h where h: "pgd_init d s2 = Ok 0 (s2\<lparr>k_pgd := h\<rparr>)" "\<forall>e. e \<noteq> d \<longrightarrow> h e = k_pgd s2 e"
    using pgd_init_frame [of d s2] by blast
  let ?s3 = "s2\<lparr>k_pgd := h\<rparr>"
  have cu: "k_proc ?s3 (k_cu ?s3) = Some c" using assms(5,6) by (simp add: s2_def)
  have k: "kfor [0..<NVMA] (\<lambda>i. kbind (cu_get (\<lambda>p. vm_area (p_vm p) i)) (\<lambda>vp. kwhen (v_flag vp \<noteq> 0) (f i vp))) ?s3 = Ok () ?s3"
    for f :: "nat \<Rightarrow> vma \<Rightarrow> unit kop"
    by (rule kfor_skip) (use cu c(1) in \<open>simp add: kop_simps kwhen_def bare_def del: upt.simps\<close>)
  have "\<forall>i\<in>set [32..<1024]. \<not> pd_present (k_pgd ?s3 ?o i)"
    unfolding set_upt atLeastLessThan_iff using c(2) h(2) ne by (simp add: s2_def)
  from pt_copy_absent [OF ne this] obtain g where
    g: "kfor [32..<1024] (pt_copy_pde d ?o) ?s3 = Ok () (?s3\<lparr>k_pgd := (k_pgd ?s3)(d := g)\<rparr>)"
    "\<forall>i. pd_flag (g i) = (if i \<in> set [32..<1024] then pd_flag (k_pgd ?s3 ?o i) else pd_flag (k_pgd ?s3 d i))" by blast
  have f: "?s3\<lparr>k_pgd := (k_pgd ?s3)(d := g)\<rparr> = s\<lparr>k_coremap := cm, k_pgfree := fl, k_pgd := (k_pgd s)(d := g), k_proc := (k_proc s)(nr \<mapsto> ?p)\<rparr>"
    using h(2) by (auto simp: s2_def fun_eq_iff)
  have pc: "pt_copy d ?o ?s3 = Ok 0 (?s3\<lparr>k_pgd := (k_pgd ?s3)(d := g)\<rparr>)"
    by (simp only: pt_copy_def PDX_KMEM_END kthen_Ok g(1) kret_def)
  have go: "cu_get (\<lambda>p. vm_pgd (p_vm p)) ?s3 = Ok ?o ?s3" using cu by (simp add: cu_get_def)
  have "vm_clone nr s = Ok 0 (?s3\<lparr>k_pgd := (k_pgd ?s3)(d := g)\<rparr>)"
    unfolding vm_clone_def Let_def by (simp only: kbind_Ok kthen_Ok 1(1) dn kmod_def a h(1) k go pc kret_def)
  moreover have "\<not> pd_present (g i)" if "32 \<le> i \<and> i < 1024" for i
    using g(2) [rule_format, of i] c(2) h(2) ne that unfolding set_upt atLeastLessThan_iff by (simp add: pd_present_def s2_def)
  ultimately show ?thesis using 1 unfolding f by blast
next
  case (2 s')
  then show ?thesis using assms(3,4) by blast
qed

text \<open>\<^verbatim>\<open>kspawn\<close> by a process without memory and files, when two pages are free.\<close>

lemma kspawn_bare:
  assumes inv: "pm_inv s" "class_sizes s" "q < NPAGE" "q' < NPAGE" "q \<noteq> q'" "page_cnt s q = 0" "page_cnt s q' = 0" "0 < page_cnt s 0"
    and cu: "k_proc s (k_cu s) = Some c" "k_proc s nr = None" "nr < NPROC" "\<forall>i<nr. k_proc s i \<noteq> None" "0 < nr"
    and c: "bare c" "\<forall>i. 32 \<le> i \<and> i < 1024 \<longrightarrow> \<not> pd_present (k_pgd s (vm_pgd (p_vm c)) i)" "0 < page_cnt s (vm_pgd (p_vm c))"
  shows "\<exists>t p cm fl d g. kspawn junk func s = Ok nr t \<and> spawned t c nr func p \<and> pm_inv t \<and>
    t = s\<lparr>k_coremap := cm, k_pgfree := fl, k_pgd := (k_pgd s)(d := g), k_proc := (k_proc s)(nr \<mapsto> p)\<rparr>"
proof (cases rule: kmalloc_cases [OF inv(1,2)])
  case (1 a cm fl)
  let ?s1 = "pm_upd s cm fl"
  note m = 1(1)
  have nr: "find_pid s = Ok nr s"
    using cu by (simp add: find_pid_def kop_simps scan_Some_iff [THEN iffD2, of 0 nr])
  have a0: "(of_nat a * PAGE :: uint) \<noteq> 0" and pn: "unat (PPN (of_nat a * PAGE)) = a"
    using PPN_of_nat [OF 1(2)] 1(3) inv(8) by (auto simp: PPN_def)
  let ?p1 = "spawn_copy c nr a junk"
  let ?p2 = "?p1\<lparr>p_ofile := (\<lambda>fd. if fd < NOFILE then p_ofile c fd else p_ofile ?p1 fd),
    p_fdflag := (\<lambda>fd. if fd < NOFILE then p_fdflag c fd else p_fdflag ?p1 fd)\<rparr>"
  let ?p3 = "?p2\<lparr>p_sig := p_sig c, p_sigmask := p_sigmask c, p_sigact := (\<lambda>n. if n < NSIG then p_sigact c n else p_sigact ?p2 n)\<rparr>"
  have ne: "nr \<noteq> k_cu s" using cu(1,2) by auto
  let ?t = "\<lambda>p. ?s1\<lparr>k_proc := (k_proc s)(nr \<mapsto> p)\<rparr>"
  have files: "kfor [0..<NOFILE] (\<lambda>fd. kthen (case p_ofile c fd of None \<Rightarrow> kret () | Some fp \<Rightarrow> f fd fp)
      (kmod (proc_mod nr (\<lambda>p. p\<lparr>p_ofile := (p_ofile p)(fd := p_ofile c fd), p_fdflag := (p_fdflag p)(fd := p_fdflag c fd)\<rparr>)))) (?t ?p1) =
      Ok () (?t ?p2)" (is "kfor _ ?f _ = _") for f
  proof -
    have "kfor [0..<NOFILE] ?f = kfor [0..<NOFILE] (\<lambda>fd. kmod (proc_mod nr (file_copy c fd)))"
      by (rule kfor_cong) (use c(1) in \<open>simp add: bare_def file_copy_def kthen_def kbind_def kret_def fun_eq_iff del: upt.simps\<close>)
    then show ?thesis unfolding kfor_kmod fold_proc_mod by (simp add: proc_mod_def fold_file_copy del: upt.simps)
  qed
  have sigs: "proc_mod nr (\<lambda>p. p\<lparr>p_sig := p_sig c, p_sigmask := p_sigmask c, p_sigact := (\<lambda>n. if n < NSIG then p_sigact c n else p_sigact p n)\<rparr>) (?t ?p2) = ?t ?p3"
    by (simp add: proc_mod_def)
  define p3 where "p3 = ?p3"
  define t3 where "t3 = ?t p3"
  have pc: "page_cnt t3 = (page_cnt s)(a := 1)" "pm_inv t3" "class_sizes t3" "k_pgd t3 = k_pgd s"
    and cu3: "k_proc t3 (k_cu t3) = Some c" "nr \<noteq> k_cu t3" "k_proc t3 nr = Some p3"
    using 1(4,5) inv(2) cu(1) ne by (simp_all add: t3_def page_cnt_def pm_inv_def class_sizes_def fun_eq_iff)
  have "\<exists>r<NPAGE. page_cnt t3 r = 0"
    using inv(3-7) pc(1) by (intro exI [of _ "if q = a then q' else q"]) auto
  then obtain r where r: "r < NPAGE" "page_cnt t3 r = 0" by blast
  have c3: "\<forall>i. 32 \<le> i \<and> i < 1024 \<longrightarrow> \<not> pd_present (k_pgd t3 (vm_pgd (p_vm c)) i)" "0 < page_cnt t3 (vm_pgd (p_vm c))"
    using c(2,3) pc(1,4) by auto
  obtain d cm' fl' g where v: "vm_clone nr t3 = Ok 0 (t3\<lparr>k_coremap := cm', k_pgfree := fl', k_pgd := (k_pgd t3)(d := g),
      k_proc := (k_proc t3)(nr \<mapsto> p3\<lparr>p_vm := (p_vm p3)\<lparr>vm_pgd := d\<rparr>\<rparr>)\<rparr>)"
    "page_cnt t3 d = 0" "d < NPAGE" "pm_inv (t3\<lparr>k_coremap := cm', k_pgfree := fl'\<rparr>)"
    "page_cnt (t3\<lparr>k_coremap := cm', k_pgfree := fl'\<rparr>) = (page_cnt t3)(d := 1)" "\<forall>i. 32 \<le> i \<and> i < 1024 \<longrightarrow> \<not> pd_present (g i)"
    using vm_clone_bare [OF pc(2,3) r cu3 c(1) c3] by blast
  let ?p = "p3\<lparr>p_vm := (p_vm p3)\<lparr>vm_pgd := d\<rparr>, p_contxt := (p_contxt c)\<lparr>jb_eip := func, jb_esp := of_nat a * PAGE + PAGE\<rparr>, p_stat := SRUN\<rparr>"
  let ?u = "s\<lparr>k_coremap := cm', k_pgfree := fl', k_pgd := (k_pgd s)(d := g), k_proc := (k_proc s)(nr \<mapsto> ?p)\<rparr>"
  have "kspawn junk func s = Ok nr ?u"
  proof -
    have 1: "cu_get id ?s1 = Ok c ?s1" using cu(1) by (simp add: cu_get_def)
    have 2: "kmod (\<lambda>s. s\<lparr>k_proc := (k_proc s)(nr \<mapsto> ?p1)\<rparr>) ?s1 = Ok () (?t ?p1)" by (simp add: kmod_def)
    have 3: "p_wdir c = None" using c(1) by (simp add: bare_def)
    have 4: "kmod (proc_mod nr (\<lambda>p. p\<lparr>p_sig := p_sig c, p_sigmask := p_sigmask c, p_sigact := (\<lambda>n. if n < NSIG then p_sigact c n else p_sigact p n)\<rparr>)) (?t ?p2) = Ok () t3"
      unfolding kmod_def sigs by (simp add: t3_def p3_def)
    have 5: "nr \<noteq> 0" using cu(5) by simp
    have 6: "kret x s' = Ok x s'" for x :: unit and s' by (simp add: kret_def)
    show ?thesis
      unfolding kspawn_def
      by (simp only: kbind_Ok kthen_Ok nr m 1 2 3 4 5 6 pn files v(1) a0 if_False kwhen_def simp_thms)
        (simp add: t3_def proc_mod_def kop_simps)
  qed
  moreover have "spawned ?u c nr func ?p"
    using pc(1) v(2,5,6) c(1) unfolding spawned_def bare_def
    by (auto simp: p3_def spawn_copy_def page_cnt_def fun_eq_iff)
  moreover have "pm_inv ?u" using v(4) by (simp add: pm_inv_def page_cnt_def)
  ultimately show ?thesis by blast
next
  case (2 s')
  then show ?thesis using inv(3,6) by blast
qed

section \<open>The first process\<close>

lemma kspawn_boot:
  assumes "mm_ready kend s" "proc0_ready s"
  shows "\<exists>t p cm fl d g. kspawn junk func s = Ok 1 t \<and> spawned t (proc0 0) 1 func p \<and> pm_inv t \<and>
    t = s\<lparr>k_coremap := cm, k_pgfree := fl, k_pgd := (k_pgd s)(d := g), k_proc := [0 \<mapsto> proc0 0, 1 \<mapsto> p]\<rparr>"
proof -
  have m: "pm_inv s" "class_sizes s" "k_pgd0 s = 0" "\<forall>i. 32 \<le> i \<and> i < 1024 \<longrightarrow> \<not> pd_present (k_pgd s 0 i)"
    and pc: "page_cnt s 1 = 0" "page_cnt s 2 = 0" "0 < page_cnt s 0"
    using assms(1) by (auto simp: mm_ready_def)
  have p: "k_cu s = 0" "k_proc s = [0 \<mapsto> proc0 0]" using assms(2) m(3) by (simp_all add: proc0_ready_def)
  have b: "bare (proc0 0)" "vm_pgd (p_vm (proc0 0)) = 0" by (simp_all add: bare_def proc0_def zero_proc_def zero_vma_def)
  show ?thesis
    using kspawn_bare [OF m(1,2) _ _ _ pc, of "proc0 0" 1 junk func] p b m(4) pc(3) by simp
qed

text \<open>The clock interrupt while the kernel runs the idle process.\<close>

lemma timer_interrupt:
  assumes "routines 32 = Some R_timer" "tf_int_no tf = 32" "tf_cs tf AND 3 \<noteq> 3"
    and "k_proc s (k_cu s) = Some c" "p_cpu c = 0" "p_sig c = 0" "p_nice c = 20" "k_tick s = 0"
  shows "hwint_common m routines tf s = Ok tf (s\<lparr>k_tick := 1, k_proc := (k_proc s)(k_cu s \<mapsto> c\<lparr>p_cpu := 1, p_pri := 120\<rparr>)\<rparr>)"
  using assms
  by (simp add: hwint_common_def Let_def do_timer_def issig_def setpri_def proc_mod_def kop_simps kwhen_def signed_divide_int_def)

text \<open>The choice between the idle process and process 1.\<close>

lemma swtch_two:
  assumes tab: "k_proc s = [0 \<mapsto> a, 1 \<mapsto> b]" "k_cu s = 0" "p_pid a = 0" "p_pid b = 1" "p_stat b = SRUN"
    and pri: "-128 \<le> p_pri a" "p_pri a \<le> 127" "-128 \<le> p_pri b" "p_pri b \<le> 127"
  shows "proc_wf s" "swtch s = (if p_pri a < p_pri b then Ok () (s\<lparr>k_runrun := 0\<rparr>)
    else Stop Slept (s\<lparr>k_runrun := 0, k_cu := 1, k_cr3 := vm_pgd (p_vm b)\<rparr>))"
proof -
  show wf: "proc_wf s" unfolding proc_wf_def using assms by (auto split: if_splits)
  obtain i p where i: "k_proc s i = Some p"
    "\<forall>j q. k_proc s j = Some q \<longrightarrow> eligible q \<longrightarrow> p_pri p \<le> p_pri q \<and> (i < j \<longrightarrow> p_pri p < p_pri q)"
    "swtch s = (if i = k_cu s then Ok () (s\<lparr>k_runrun := 0\<rparr>)
       else Stop Slept (s\<lparr>k_runrun := 0, k_cu := i, k_cr3 := vm_pgd (p_vm p)\<rparr>))"
    using swtch_best [OF wf] by blast
  have e: "eligible a" "eligible b" using tab by (simp_all add: eligible_def)
  have "i = (if p_pri a < p_pri b then 0 else 1)"
    using i(1) i(2) [rule_format, of 0 a] i(2) [rule_format, of 1 b] e tab(1) by (auto split: if_splits)
  then show "swtch s = (if p_pri a < p_pri b then Ok () (s\<lparr>k_runrun := 0\<rparr>)
    else Stop Slept (s\<lparr>k_runrun := 0, k_cu := 1, k_cr3 := vm_pgd (p_vm b)\<rparr>))"
    using i(1,3) tab(1,2) by (auto split: if_splits)
qed

end
