(* ===== verification/Fork.thy ===== *)
theory Fork
  imports Init
begin

unbundle bit_operations_syntax

text \<open>
  What a child of \<^verbatim>\<open>fork\<close> shares with its parent, for a parent with memory, files and directories
  (\<^verbatim>\<open>kspawn\<close> and \<^verbatim>\<open>do_fork\<close> of \<^verbatim>\<open>src/kern/fork.c\<close>, \<^verbatim>\<open>vm_clone\<close> of \<^verbatim>\<open>src/mm/vm.c\<close>).
\<close>

section \<open>Counting references\<close>

text \<open>
  \<open>shared nr f is fs s\<close>: the process in slot \<open>nr\<close> changed by \<open>f\<close>, and a reference more for every occurrence
  of an inode in \<open>is\<close> and of a file in \<open>fs\<close>.
\<close>

definition shared :: "nat \<Rightarrow> (proc \<Rightarrow> proc) \<Rightarrow> nat list \<Rightarrow> nat list \<Rightarrow> kernel \<Rightarrow> kernel" where
  "shared nr f is fs s = s\<lparr>k_proc := (k_proc s)(nr := map_option f (k_proc s nr)),
     k_inode := (\<lambda>i. (k_inode s i)\<lparr>i_count := i_count (k_inode s i) + of_nat (count_list is i)\<rparr>),
     k_file := (\<lambda>i. (k_file s i)\<lparr>f_count := f_count (k_file s i) + of_nat (count_list fs i)\<rparr>)\<rparr>"

lemma shared_shared: "shared nr g js gs (shared nr f is fs s) = shared nr (g \<circ> f) (is @ js) (fs @ gs) s"
  by (simp add: shared_def option.map_comp add.assoc)

lemma shared_simps:
  "shared nr id [] [] s = s" "shared nr f [] [] s = proc_mod nr f s"
  "ino_mod ip (\<lambda>i. i\<lparr>i_count := i_count i + 1\<rparr>) s = shared nr id [ip] [] s"
  "file_mod fp (\<lambda>f. f\<lparr>f_count := f_count f + 1\<rparr>) s = shared nr id [] [fp] s"
  by (simp_all add: shared_def proc_mod_def ino_mod_def file_mod_def option.map_id fun_upd_idem fun_eq_iff)

lemma shared_fields:
  "k_cu (shared nr f is fs s) = k_cu s" "k_proc (shared nr f is fs s) = (k_proc s)(nr := map_option f (k_proc s nr))"
  "f_ino (k_file (shared nr f is fs s) fp) = f_ino (k_file s fp)" "k_pgd (shared nr f is fs s) = k_pgd s"
  "k_pt (shared nr f is fs s) = k_pt s" "k_mem (shared nr f is fs s) = k_mem s" "k_coremap (shared nr f is fs s) = k_coremap s"
  "k_pgfree (shared nr f is fs s) = k_pgfree s" "k_bk (shared nr f is fs s) = k_bk s"
  by (simp_all add: shared_def)

text \<open>What the loops read stays the same: the current process \<open>c\<close> and the inodes of the open files.\<close>

definition reads :: "nat \<Rightarrow> proc \<Rightarrow> (nat \<Rightarrow> nat option) \<Rightarrow> kernel \<Rightarrow> bool" where
  "reads me c fino s \<longleftrightarrow> k_cu s = me \<and> k_proc s me = Some c \<and> (\<forall>fp. f_ino (k_file s fp) = fino fp)"

lemma reads_shared: "nr \<noteq> me \<Longrightarrow> reads me c fino (shared nr f is fs s) = reads me c fino s"
  by (simp add: reads_def shared_fields)

lemma kfor_shared:
  assumes "nr \<noteq> me" "\<And>x s. x \<in> set xs \<Longrightarrow> reads me c fino s \<Longrightarrow> m x s = Ok () (shared nr (g x) (is x) (fs x) s)"
  shows "reads me c fino s \<Longrightarrow>
    kfor xs m s = Ok () (shared nr (fold g xs) (concat (map is xs)) (concat (map fs xs)) s)"
  using assms(2)
proof (induction xs arbitrary: s)
  case Nil
  then show ?case by (simp add: kret_def shared_simps(1) [unfolded id_def])
next
  case (Cons x xs)
  have "m x s = Ok () (shared nr (g x) (is x) (fs x) s)" using Cons.prems by simp
  moreover have "reads me c fino (shared nr (g x) (is x) (fs x) s)" using Cons.prems(1) by (simp add: reads_shared [OF assms(1)])
  ultimately show ?case using Cons.IH Cons.prems(2) by (simp add: kthen_Ok shared_shared comp_def)
qed

section \<open>Copying tables touches nothing else\<close>

definition no_tables :: "kernel \<Rightarrow> kernel" where
  "no_tables s = s\<lparr>k_pgd := (\<lambda>_ _. zero_pde), k_pt := (\<lambda>_ _. zero_pte), k_coremap := (\<lambda>_. zero_page), k_pgfree := None\<rparr>"

lemma no_tables_upd [simp]:
  "no_tables (pde_mod d i f s) = no_tables s" "no_tables (pte_mod d i g s) = no_tables s"
  "no_tables (page_mod pn h s) = no_tables s" "no_tables (s\<lparr>k_pgfree := x\<rparr>) = no_tables s"
  by (simp_all add: no_tables_def pde_mod_def pte_mod_def page_mod_def)

lemma pt_copy_frame: "preserves (\<lambda>s. no_tables s = z) (pt_copy npgd opgd)"
proof -
  have a: "preserves (\<lambda>s. no_tables s = z) pgalloc"
    unfolding pgalloc_def by (intro preserves_intros) (simp_all split: option.splits)
  have m: "preserves (\<lambda>s. no_tables s = z) (kmalloc 0 PAGE)"
    unfolding kmalloc_def Let_def kmalloc_find.simps by (intro preserves_intros a)
  have g: "preserves (\<lambda>s. no_tables s = z) (pgfind pn)" for pn
    unfolding pgfind_def by (intro preserves_intros)
  show ?thesis unfolding pt_copy_def pt_copy_pde_def pt_copy_pte_def by (intro preserves_intros m g) simp_all
qed

lemma pt_copy_fields:
  assumes "pt_copy npgd opgd s = Ok r t"
  shows "k_inode t = k_inode s" "k_file t = k_file s" "k_cu t = k_cu s" "k_cr3 t = k_cr3 s" "k_buf t = k_buf s"
proof -
  have "no_tables t = no_tables s" by (rule preserves_Ok [OF pt_copy_frame _ assms]) simp
  from arg_cong [OF this, of k_inode] arg_cong [OF this, of k_file] arg_cong [OF this, of k_cu]
    arg_cong [OF this, of k_cr3] arg_cong [OF this, of k_buf]
  show "k_inode t = k_inode s" "k_file t = k_file s" "k_cu t = k_cu s" "k_cr3 t = k_cr3 s" "k_buf t = k_buf s"
    by (simp_all add: no_tables_def)
qed

text \<open>An allocated page more does not disturb an address space.\<close>

lemma sum_list_pos: "0 < sum_list (map (g :: 'a \<Rightarrow> nat) xs) \<Longrightarrow> \<exists>x\<in>set xs. 0 < g x"
  by (induction xs) auto

lemma user_refs_pos:
  assumes "space_wf s pgd" "user_refs 1024 s pgd f > 0"
  shows "page_cnt s f > 0"
proof -
  obtain i where "i \<in> set [32..<1024]" "0 < (if pd_present (k_pgd s pgd i) then refs 1024 (k_pt s (table_of s pgd i)) f else 0)"
    using sum_list_pos [OF assms(2) [unfolded user_refs_def]] by blast
  then have i: "32 \<le> i" "i < 1024" "pd_present (k_pgd s pgd i)" "refs 1024 (k_pt s (table_of s pgd i)) f > 0"
    unfolding set_upt atLeastLessThan_iff by (simp_all split: if_splits)
  then show ?thesis using space_wfD(4) [OF assms(1) i(1-3)] by blast
qed

lemma space_wf_alloc:
  assumes "space_wf s pgd" "page_cnt s d = 0" "page_cnt t = (page_cnt s)(d := 1)" "k_pgd t pgd = k_pgd s pgd" "k_pt t = k_pt s"
  shows "space_wf t pgd"
proof -
  have u: "user_refs 1024 t pgd f = user_refs 1024 s pgd f" for f unfolding user_refs_def assms(4,5) by (rule refl)
  have "page_cnt t f + user_refs 1024 t pgd f < 256" for f
  proof (cases "f = d")
    case True
    then have "user_refs 1024 s pgd f = 0" using user_refs_pos [OF assms(1), of f] assms(2) by auto
    then show ?thesis unfolding u using assms(3) True by simp
  next
    case False
    then show ?thesis unfolding u using assms(1,3) by (simp add: space_wf_def)
  qed
  moreover have "0 < page_cnt t x" if "0 < page_cnt s x" for x using that assms(3) by simp
  ultimately show ?thesis using assms(1) unfolding space_wf_def assms(4,5) by auto
qed

section \<open>Cloning the address space of the current process\<close>

definition area_copy :: "proc \<Rightarrow> nat \<Rightarrow> proc \<Rightarrow> proc" where
  "area_copy c i = (let v = vm_area (p_vm c) i in if v_flag v \<noteq> 0
     then (\<lambda>p. p\<lparr>p_vm := (p_vm p)\<lparr>vm_area := (vm_area (p_vm p))(i := v)\<rparr>\<rparr>) else id)"

definition area_ino :: "proc \<Rightarrow> nat \<Rightarrow> nat list" where
  "area_ino c i = (let v = vm_area (p_vm c) i in
     if v_flag v \<noteq> 0 then (case v_ino v of None \<Rightarrow> [] | Some ip \<Rightarrow> [ip]) else [])"

definition area_inos :: "proc \<Rightarrow> nat list" where
  "area_inos c = concat (map (area_ino c) [0..<NVMA])"

lemma concat_Nil: "concat (map (\<lambda>_. []) xs) = []"
  by (induction xs) simp_all

lemma vm_clone_areas:
  assumes "nr \<noteq> k_cu s" "k_proc s (k_cu s) = Some c"
  shows "kfor [0..<NVMA] (\<lambda>i. kbind (cu_get (\<lambda>p. vm_area (p_vm p) i)) (\<lambda>vp.
        kwhen (v_flag vp \<noteq> 0)
          (kthen (case v_ino vp of None \<Rightarrow> kret ()
             | Some ip \<Rightarrow> kmod (ino_mod ip (\<lambda>i. i\<lparr>i_count := i_count i + 1\<rparr>)))
           (kmod (proc_mod nr (\<lambda>p. p\<lparr>p_vm := (p_vm p)\<lparr>vm_area := (vm_area (p_vm p))(i := vp)\<rparr>\<rparr>)))))) s =
    Ok () (shared nr (fold (area_copy c) [0..<NVMA]) (area_inos c) [] s)"
proof -
  let ?m = "\<lambda>i. kbind (cu_get (\<lambda>p. vm_area (p_vm p) i)) (\<lambda>vp.
        kwhen (v_flag vp \<noteq> 0)
          (kthen (case v_ino vp of None \<Rightarrow> kret ()
             | Some ip \<Rightarrow> kmod (ino_mod ip (\<lambda>i. i\<lparr>i_count := i_count i + 1\<rparr>)))
           (kmod (proc_mod nr (\<lambda>p. p\<lparr>p_vm := (p_vm p)\<lparr>vm_area := (vm_area (p_vm p))(i := vp)\<rparr>\<rparr>)))))"
  have step: "?m i t = Ok () (shared nr (area_copy c i) (area_ino c i) [] t)"
    if "reads (k_cu s) c (\<lambda>fp. f_ino (k_file s fp)) t" for i t
    using that
    by (cases "v_ino (vm_area (p_vm c) i)")
      (auto simp: reads_def kop_simps kwhen_def area_copy_def area_ino_def Let_def shared_simps(1)
        shared_simps(3) [of _ _ nr] shared_simps(2) [symmetric] shared_shared)
  have "reads (k_cu s) c (\<lambda>fp. f_ino (k_file s fp)) s" using assms(2) by (simp add: reads_def)
  from kfor_shared [OF assms(1) step this, of "[0..<NVMA]"] show ?thesis by (simp only: area_inos_def concat_Nil)
qed

definition cloned :: "kernel \<Rightarrow> nat \<Rightarrow> nat \<Rightarrow> kernel \<Rightarrow> bool" where
  "cloned s opgd d t \<longleftrightarrow> pm_inv t \<and> k_mem t = k_mem s \<and> k_cu t = k_cu s \<and>
     (\<forall>va \<ge> KMEM_END. walk t d va = map_option (\<lambda>(f, w). (f, False)) (walk s opgd va) \<and>
                      walk t opgd va = map_option (\<lambda>(f, w). (f, False)) (walk s opgd va))"

lemma vm_clone_fork:
  assumes inv: "pm_inv s" "class_sizes s" and cu: "k_proc s (k_cu s) = Some c" "nr \<noteq> k_cu s" "k_proc s nr = Some p"
    and wf: "space_wf s (vm_pgd (p_vm c))" "0 < page_cnt s (vm_pgd (p_vm c))"
  shows "(\<exists>d t. vm_clone nr s = Ok 0 t \<and> cloned s (vm_pgd (p_vm c)) d t \<and>
      k_proc t = (k_proc s)(nr \<mapsto> fold (area_copy c) [0..<NVMA] (p\<lparr>p_vm := (p_vm p)\<lparr>vm_pgd := d\<rparr>\<rparr>)) \<and>
      k_inode t = k_inode (shared nr id (area_inos c) [] s) \<and> k_file t = k_file s) \<or>
    (\<exists>t. vm_clone nr s = Stop (Panic ''no free page.'') t)"
proof (cases rule: kmalloc_cases [OF inv])
  case (1 d cm fl)
  let ?o = "vm_pgd (p_vm c)" and ?q = "\<lambda>p. p\<lparr>p_vm := (p_vm p)\<lparr>vm_pgd := d\<rparr>\<rparr>"
  have dn: "unat (PPN (of_nat d * PAGE)) = d" using 1(2) by (rule PPN_of_nat)
  have ne: "d \<noteq> ?o" using 1(3) wf(2) by auto
  define s2 where "s2 = proc_mod nr ?q (pm_upd s cm fl)"
  obtain h where h: "pgd_init d s2 = Ok 0 (s2\<lparr>k_pgd := h\<rparr>)" "\<forall>e. e \<noteq> d \<longrightarrow> h e = k_pgd s2 e"
    using pgd_init_frame [of d s2] by blast
  define s3 where "s3 = s2\<lparr>k_pgd := h\<rparr>"
  have f3: "k_cu s3 = k_cu s" "k_proc s3 = (k_proc s)(nr \<mapsto> ?q p)" "k_pgd s3 ?o = k_pgd s ?o" "k_pt s3 = k_pt s"
    "page_cnt s3 = page_cnt (pm_upd s cm fl)" "k_mem s3 = k_mem s" "k_inode s3 = k_inode s" "k_file s3 = k_file s"
    "pm_inv s3 = pm_inv (pm_upd s cm fl)" "k_bk s3 = k_bk s"
    using h(2) ne cu(3) by (simp_all add: s3_def s2_def proc_mod_def page_cnt_def pm_inv_def fun_eq_iff)
  have cu3: "k_proc s3 (k_cu s3) = Some c" "nr \<noteq> k_cu s3" using cu(1,2) f3(1,2) by simp_all
  define s4 where "s4 = shared nr (fold (area_copy c) [0..<NVMA]) (area_inos c) [] s3"
  note areas = vm_clone_areas [OF cu3(2,1), folded s4_def]
  have go: "cu_get (\<lambda>p. vm_pgd (p_vm p)) s4 = Ok ?o s4" using cu3 by (simp add: cu_get_def s4_def shared_fields)
  have clone: "vm_clone nr s = kthen (pt_copy d ?o) (kret 0) s4"
    unfolding vm_clone_def Let_def
    by (simp only: kbind_Ok kthen_Ok 1(1) dn kmod_def s2_def [symmetric] h(1) s3_def [symmetric] areas go)
  have p4: "pm_inv s4" "class_sizes s4" "page_cnt s4 = (page_cnt s)(d := 1)"
    using 1(4,5) f3(5,9,10) inv(2) unfolding s4_def pm_inv_def page_cnt_def class_sizes_def shared_fields by (auto simp: fun_eq_iff)
  have wf4: "space_wf s4 ?o"
    by (rule space_wf_alloc [OF wf(1) 1(3) p4(3)]) (simp_all add: s4_def shared_fields f3)
  have w4: "walk s4 ?o = walk s ?o" by (simp add: fun_eq_iff walk_def Let_def s4_def shared_fields f3)
  show ?thesis
  proof (cases rule: pt_copy_cases [OF p4(1,2) wf4 ne])
    case (1 t)
    have r: "vm_clone nr s = Ok 0 t" unfolding clone by (simp only: kthen_Ok 1(1) kret_def)
    have "pm_inv t" "k_mem t = k_mem s" "k_proc t = k_proc s4"
      using 1(2) f3(6) by (simp_all add: copy_inv_def s4_def shared_fields)
    moreover have "k_cu t = k_cu s" using pt_copy_fields(3) [OF 1(1)] f3(1) by (simp add: s4_def shared_fields)
    ultimately have "cloned s ?o d t" using walk_copied [OF 1(2)] by (simp add: cloned_def w4)
    moreover have "k_inode t = k_inode (shared nr id (area_inos c) [] s)" "k_file t = k_file s"
      using pt_copy_fields(1,2) [OF 1(1)] f3(7,8) by (simp_all add: s4_def shared_def)
    moreover have "k_proc t = (k_proc s)(nr \<mapsto> fold (area_copy c) [0..<NVMA] (?q p))"
      using 1(2) f3(2) by (simp add: copy_inv_def s4_def shared_fields del: upt.simps)
    ultimately show ?thesis using r by blast
  next
    case (2 t)
    then show ?thesis unfolding clone by (simp add: kthen_Stop)
  qed
next
  case (2 t)
  then show ?thesis by (simp add: vm_clone_def kbind_Stop)
qed

section \<open>The child\<close>

definition dir_inos :: "proc \<Rightarrow> nat list" where
  "dir_inos c = (case p_wdir c of None \<Rightarrow> [] | Some ip \<Rightarrow> [ip, the (p_iroot c)])"

definition open_files :: "proc \<Rightarrow> nat list" where
  "open_files c = concat (map (\<lambda>fd. case p_ofile c fd of None \<Rightarrow> [] | Some fp \<Rightarrow> [fp]) [0..<NOFILE])"

definition file_inos :: "(nat \<Rightarrow> nat option) \<Rightarrow> proc \<Rightarrow> nat list" where
  "file_inos fino c = concat (map (\<lambda>fd. case p_ofile c fd of None \<Rightarrow> [] | Some fp \<Rightarrow> [the (fino fp)]) [0..<NOFILE])"

text \<open>A process that may fork: its directories come in pairs and its open files have inodes.\<close>

definition forkable :: "kernel \<Rightarrow> proc \<Rightarrow> bool" where
  "forkable s c \<longleftrightarrow> (p_wdir c \<noteq> None \<longrightarrow> p_iroot c \<noteq> None) \<and>
     (\<forall>fd<NOFILE. \<forall>fp. p_ofile c fd = Some fp \<longrightarrow> f_ino (k_file s fp) \<noteq> None)"

definition dir_copy :: "proc \<Rightarrow> proc \<Rightarrow> proc" where
  "dir_copy c = (if p_wdir c = None then id else (\<lambda>p. p\<lparr>p_wdir := p_wdir c, p_iroot := p_iroot c\<rparr>))"

definition sig_copy :: "proc \<Rightarrow> proc \<Rightarrow> proc" where
  "sig_copy c = (\<lambda>p. p\<lparr>p_sig := p_sig c, p_sigmask := p_sigmask c,
     p_sigact := (\<lambda>n. if n < NSIG then p_sigact c n else p_sigact p n)\<rparr>)"

lemma ino_ref_shared: "ino_ref w (Some ip) s = Ok () (shared nr id [ip] [] s)"
  by (simp add: ino_ref_def kderef_def kmod_def shared_simps(3) [of _ _ nr])

lemma spawn_dirs:
  assumes "forkable s0 c"
  shows "kwhen (p_wdir c \<noteq> None)
         (kthen (kmod (proc_mod nr (\<lambda>p. p\<lparr>p_wdir := p_wdir c\<rparr>))) (kthen (ino_ref ''p_wdir'' (p_wdir c))
          (kthen (kmod (proc_mod nr (\<lambda>p. p\<lparr>p_iroot := p_iroot c\<rparr>))) (ino_ref ''p_iroot'' (p_iroot c))))) s =
    Ok () (shared nr (dir_copy c) (dir_inos c) [] s)"
proof (cases "p_wdir c")
  case None
  then show ?thesis by (simp add: kwhen_def kret_def dir_copy_def dir_inos_def shared_simps(1))
next
  case (Some ip)
  then obtain r where r: "p_iroot c = Some r" using assms by (auto simp: forkable_def)
  show ?thesis unfolding Some r
    by (simp add: kwhen_def kthen_Ok kmod_def ino_ref_shared [of _ _ _ nr] dir_copy_def dir_inos_def Some r
        shared_simps(2) [symmetric] shared_shared) (simp add: comp_def)
qed

lemma spawn_files:
  assumes "forkable s c" "reads me c (\<lambda>fp. f_ino (k_file s fp)) t" "nr \<noteq> me"
  shows "kfor [0..<NOFILE] (\<lambda>fd.
          kthen (case p_ofile c fd of None \<Rightarrow> kret () | Some fp \<Rightarrow>
            kthen (kmod (file_mod fp (\<lambda>f. f\<lparr>f_count := f_count f + 1\<rparr>)))
             (kbind (kget (\<lambda>s. f_ino (k_file s fp))) (ino_ref ''f_ino'')))
           (kmod (proc_mod nr (\<lambda>p. p\<lparr>p_ofile := (p_ofile p)(fd := p_ofile c fd), p_fdflag := (p_fdflag p)(fd := p_fdflag c fd)\<rparr>)))) t =
    Ok () (shared nr (fold (file_copy c) [0..<NOFILE]) (file_inos (\<lambda>fp. f_ino (k_file s fp)) c) (open_files c) t)"
    (is "kfor _ ?m _ = _")
proof -
  have "?m fd t = Ok () (shared nr (file_copy c fd) (case p_ofile c fd of None \<Rightarrow> [] | Some fp \<Rightarrow> [the (f_ino (k_file s fp))])
      (case p_ofile c fd of None \<Rightarrow> [] | Some fp \<Rightarrow> [fp]) t)"
    if fd: "fd \<in> set [0..<NOFILE]" and r: "reads me c (\<lambda>fp. f_ino (k_file s fp)) t" for fd t
  proof (cases "p_ofile c fd")
    case None
    then show ?thesis by (simp add: kthen_Ok kret_def kmod_def file_copy_def shared_simps(2))
  next
    case (Some fp)
    then obtain i where i: "f_ino (k_file s fp) = Some i" using assms(1) fd [unfolded set_upt atLeastLessThan_iff] unfolding forkable_def by blast
    have "f_ino (k_file (shared nr id [] [fp] t) fp) = Some i" using r i by (simp add: reads_def shared_fields)
    then show ?thesis unfolding Some
      by (simp add: kthen_Ok kbind_Ok kget_def kmod_def shared_simps(4) [of _ _ nr] ino_ref_shared [of _ _ _ nr] i
          shared_simps(2) [symmetric] shared_shared file_copy_def Some) 
  qed
  from kfor_shared [OF assms(3) this assms(2), of "[0..<NOFILE]"] show ?thesis
    unfolding file_inos_def open_files_def by simp
qed

lemma fold_area_copy:
  "\<exists>ar. fold (area_copy c) xs p = p\<lparr>p_vm := (p_vm p)\<lparr>vm_area := ar\<rparr>\<rparr> \<and>
    (\<forall>i\<in>set xs. v_flag (vm_area (p_vm c) i) \<noteq> 0 \<longrightarrow> ar i = vm_area (p_vm c) i) \<and>
    (\<forall>i. i \<notin> set xs \<longrightarrow> ar i = vm_area (p_vm p) i)"
proof (induction xs rule: rev_induct)
  case Nil
  show ?case by (rule exI [of _ "vm_area (p_vm p)"]) simp
next
  case (snoc x xs)
  then obtain ar where ar: "fold (area_copy c) xs p = p\<lparr>p_vm := (p_vm p)\<lparr>vm_area := ar\<rparr>\<rparr>"
    "\<forall>i\<in>set xs. v_flag (vm_area (p_vm c) i) \<noteq> 0 \<longrightarrow> ar i = vm_area (p_vm c) i" "\<forall>i. i \<notin> set xs \<longrightarrow> ar i = vm_area (p_vm p) i"
    by blast
  then show ?case
    by (intro exI [of _ "if v_flag (vm_area (p_vm c) x) \<noteq> 0 then ar(x := vm_area (p_vm c) x) else ar"])
      (auto simp: area_copy_def [of c x] Let_def)
qed

text \<open>
  \<open>child_of c nr p\<close>: the process \<open>p\<close> in slot \<open>nr\<close> has the identity, files, directories, signal state and areas of its
  parent \<open>c\<close>.
\<close>

definition child_of :: "proc \<Rightarrow> nat \<Rightarrow> proc \<Rightarrow> bool" where
  "child_of c nr p \<longleftrightarrow> p_pid p = of_nat nr \<and> p_ppid p = p_pid c \<and> p_pgrp p = p_pgrp c \<and> p_stat p = SRUN \<and> p_pri p = PUSER \<and>
     p_euid p = p_euid c \<and> p_egid p = p_egid c \<and> p_ruid p = p_ruid c \<and> p_rgid p = p_rgid c \<and>
     (p_wdir c \<noteq> None \<longrightarrow> p_wdir p = p_wdir c \<and> p_iroot p = p_iroot c) \<and>
     (\<forall>fd<NOFILE. p_ofile p fd = p_ofile c fd \<and> p_fdflag p fd = p_fdflag c fd) \<and>
     p_sig p = p_sig c \<and> p_sigmask p = p_sigmask c \<and> (\<forall>n<NSIG. p_sigact p n = p_sigact c n) \<and>
     (\<forall>i<NVMA. v_flag (vm_area (p_vm c) i) \<noteq> 0 \<longrightarrow> vm_area (p_vm p) i = vm_area (p_vm c) i)"

lemma child_of_copies:
  assumes "p = (fold (area_copy c) [0..<NVMA] ((sig_copy c (fold (file_copy c) [0..<NOFILE] (dir_copy c (spawn_copy c nr a junk))))
      \<lparr>p_vm := v\<rparr>))\<lparr>p_contxt := x, p_stat := SRUN\<rparr>"
  shows "child_of c nr p" "vm_pgd (p_vm p) = vm_pgd v" "p_contxt p = x" "p_addr p = a"
proof -
  let ?p1 = "dir_copy c (spawn_copy c nr a junk)"
  let ?p2 = "sig_copy c (fold (file_copy c) [0..<NOFILE] ?p1)"
  obtain ar where ar: "fold (area_copy c) [0..<NVMA] (?p2\<lparr>p_vm := v\<rparr>) = ?p2\<lparr>p_vm := v\<lparr>vm_area := ar\<rparr>\<rparr>"
    "\<forall>i\<in>set [0..<NVMA]. v_flag (vm_area (p_vm c) i) \<noteq> 0 \<longrightarrow> ar i = vm_area (p_vm c) i"
    using fold_area_copy [of c "[0..<NVMA]" "?p2\<lparr>p_vm := v\<rparr>"] by auto
  have p: "p = ?p2\<lparr>p_vm := v\<lparr>vm_area := ar\<rparr>, p_contxt := x, p_stat := SRUN\<rparr>" unfolding assms ar(1) by simp
  show "vm_pgd (p_vm p) = vm_pgd v" "p_contxt p = x" unfolding p by simp_all
  show "p_addr p = a" unfolding p fold_file_copy by (simp add: sig_copy_def dir_copy_def spawn_copy_def)
  show "child_of c nr p" using ar(2) unfolding child_of_def p fold_file_copy set_upt atLeastLessThan_iff
    by (simp add: sig_copy_def dir_copy_def spawn_copy_def)
qed

definition may_spawn :: "kernel \<Rightarrow> proc \<Rightarrow> nat \<Rightarrow> bool" where
  "may_spawn s c nr \<longleftrightarrow> pm_inv s \<and> class_sizes s \<and> 0 < page_cnt s 0 \<and> k_proc s (k_cu s) = Some c \<and> forkable s c \<and>
     space_wf s (vm_pgd (p_vm c)) \<and> 0 < page_cnt s (vm_pgd (p_vm c)) \<and>
     0 < nr \<and> nr < NPROC \<and> k_proc s nr = None \<and> (\<forall>i<nr. k_proc s i \<noteq> None)"

abbreviation (input) fork_files :: "proc \<Rightarrow> proc \<Rightarrow> proc" where
  "fork_files c p \<equiv> sig_copy c (fold (file_copy c) [0..<NOFILE] (dir_copy c p))"

abbreviation (input) fork_inos :: "kernel \<Rightarrow> proc \<Rightarrow> nat list" where
  "fork_inos s c \<equiv> dir_inos c @ file_inos (\<lambda>fp. f_ino (k_file s fp)) c"

text \<open>\<^verbatim>\<open>kspawn\<close> up to the clone of the address space.\<close>

lemma kspawn_prefix:
  assumes "may_spawn s c nr" "kmalloc 0 PAGE s = Ok (of_nat a * PAGE) (pm_upd s cm fl)" "a < NPAGE" "page_cnt s a = 0"
    "page_cnt (pm_upd s cm fl) = (page_cnt s)(a := 1)" "pm_inv (pm_upd s cm fl)"
    and u: "u = shared nr (fork_files c) (fork_inos s c) (open_files c) ((pm_upd s cm fl)\<lparr>k_proc := (k_proc s)(nr \<mapsto> spawn_copy c nr a junk)\<rparr>)"
  shows "kspawn junk func s = kthen (vm_clone nr) (kthen (kmod (proc_mod nr (\<lambda>p.
      p\<lparr>p_contxt := (p_contxt c)\<lparr>jb_eip := func, jb_esp := of_nat a * PAGE + PAGE\<rparr>, p_stat := SRUN\<rparr>))) (kret nr)) u"
    and "k_proc u = (k_proc s)(nr \<mapsto> fork_files c (spawn_copy c nr a junk))" "k_cu u = k_cu s" "k_pgd u = k_pgd s" "k_pt u = k_pt s"
      "k_mem u = k_mem s" "page_cnt u = (page_cnt s)(a := 1)" "pm_inv u" "class_sizes u"
proof -
  have fk: "forkable s c" and nr: "nr < NPROC" "k_proc s nr = None" "\<forall>i<nr. k_proc s i \<noteq> None" "nr \<noteq> 0"
    and ne: "nr \<noteq> k_cu s" and cu: "k_proc s (k_cu s) = Some c" using assms(1) by (auto simp: may_spawn_def)
  have pid: "find_pid s = Ok nr s" using nr by (simp add: find_pid_def kop_simps scan_Some_iff [THEN iffD2, of 0 nr])
  have a0: "(of_nat a * PAGE :: uint) \<noteq> 0" and pn: "unat (PPN (of_nat a * PAGE)) = a"
    using PPN_of_nat [OF assms(3)] assms(1,4) by (auto simp: PPN_def may_spawn_def)
  define s1 where "s1 = (pm_upd s cm fl)\<lparr>k_proc := (k_proc s)(nr \<mapsto> spawn_copy c nr a junk)\<rparr>"
  have c1: "cu_get id (pm_upd s cm fl) = Ok c (pm_upd s cm fl)" using cu by (simp add: cu_get_def)
  have m1: "kmod (\<lambda>s. s\<lparr>k_proc := (k_proc s)(nr \<mapsto> spawn_copy c nr a junk)\<rparr>) (pm_upd s cm fl) = Ok () s1" by (simp add: kmod_def s1_def)
  have r1: "reads (k_cu s) c (\<lambda>fp. f_ino (k_file s fp)) (shared nr (dir_copy c) (dir_inos c) [] s1)"
    unfolding reads_shared [OF ne] using cu ne by (simp add: reads_def s1_def)
  have sigs: "kmod (proc_mod nr (\<lambda>p. p\<lparr>p_sig := p_sig c, p_sigmask := p_sigmask c,
          p_sigact := (\<lambda>n. if n < NSIG then p_sigact c n else p_sigact p n)\<rparr>))
      (shared nr (fold (file_copy c) [0..<NOFILE]) (file_inos (\<lambda>fp. f_ino (k_file s fp)) c) (open_files c)
        (shared nr (dir_copy c) (dir_inos c) [] s1)) = Ok () u"
    unfolding kmod_def u s1_def [symmetric] shared_simps(2) [symmetric] shared_shared
    by (simp add: sig_copy_def comp_def del: upt.simps)
  show "kspawn junk func s = kthen (vm_clone nr) (kthen (kmod (proc_mod nr (\<lambda>p.
      p\<lparr>p_contxt := (p_contxt c)\<lparr>jb_eip := func, jb_esp := of_nat a * PAGE + PAGE\<rparr>, p_stat := SRUN\<rparr>))) (kret nr)) u"
    unfolding kspawn_def
    by (simp only: kbind_Ok kthen_Ok pid nr(4) assms(2) a0 c1 pn m1 spawn_dirs [OF fk] spawn_files [OF fk r1 ne] sigs if_False)
  show "k_proc u = (k_proc s)(nr \<mapsto> fork_files c (spawn_copy c nr a junk))" "k_cu u = k_cu s" "k_pgd u = k_pgd s" "k_pt u = k_pt s"
    "k_mem u = k_mem s" "page_cnt u = (page_cnt s)(a := 1)" "pm_inv u" "class_sizes u"
    using assms(1,5,6) unfolding u shared_fields pm_inv_def page_cnt_def class_sizes_def may_spawn_def
    by (simp_all add: fun_eq_iff del: upt.simps)
qed

text \<open>The outcome of \<^verbatim>\<open>kspawn\<close>: the state \<open>t\<close> with the child \<open>p\<close> in slot \<open>nr\<close>.\<close>

definition forked :: "kernel \<Rightarrow> proc \<Rightarrow> nat \<Rightarrow> proc \<Rightarrow> kernel \<Rightarrow> bool" where
  "forked s c nr p t \<longleftrightarrow> cloned s (vm_pgd (p_vm c)) (vm_pgd (p_vm p)) t \<and> child_of c nr p \<and> k_proc t = (k_proc s)(nr \<mapsto> p) \<and>
     k_inode t = k_inode (shared nr id (fork_inos s c @ area_inos c) [] s) \<and> k_file t = k_file (shared nr id [] (open_files c) s)"

lemma kspawn_fork:
  assumes "may_spawn s c nr"
  shows "(\<exists>p t. kspawn junk func s = Ok nr t \<and> forked s c nr p t \<and> jb_eip (p_contxt p) = func) \<or>
    (\<exists>t. kspawn junk func s = Stop (Panic ''no free page.'') t)"
proof -
  have inv: "pm_inv s" "class_sizes s" and cu: "k_proc s (k_cu s) = Some c" "nr \<noteq> k_cu s"
    and wf: "space_wf s (vm_pgd (p_vm c))" "0 < page_cnt s (vm_pgd (p_vm c))"
    and pid: "find_pid s = Ok nr s" "nr \<noteq> 0"
    using assms by (auto simp: may_spawn_def find_pid_def kop_simps scan_Some_iff [THEN iffD2, of 0 nr])
  show ?thesis
  proof (cases rule: kmalloc_cases [OF inv])
    case (1 a cm fl)
    let ?p1 = "fork_files c (spawn_copy c nr a junk)"
    define u where "u = shared nr (fork_files c) (fork_inos s c) (open_files c) ((pm_upd s cm fl)\<lparr>k_proc := (k_proc s)(nr \<mapsto> spawn_copy c nr a junk)\<rparr>)"
    note x = kspawn_prefix [OF assms 1(1-3,5,4) u_def]
    have cu': "k_proc u (k_cu u) = Some c" "nr \<noteq> k_cu u" "k_proc u nr = Some ?p1" using cu x(2,3) by simp_all
    have wf': "space_wf u (vm_pgd (p_vm c))" "0 < page_cnt u (vm_pgd (p_vm c))"
      using space_wf_alloc [OF wf(1) 1(3) x(7)] x(4,5,7) wf(2) by auto
    have w: "walk u = walk s" by (simp add: fun_eq_iff walk_def x(4,5))
    from vm_clone_fork [OF x(8,9) cu' wf'] consider
      (ok) d t where "vm_clone nr u = Ok 0 t" "cloned u (vm_pgd (p_vm c)) d t"
        "k_proc t = (k_proc u)(nr \<mapsto> fold (area_copy c) [0..<NVMA] (?p1\<lparr>p_vm := (p_vm ?p1)\<lparr>vm_pgd := d\<rparr>\<rparr>))"
        "k_inode t = k_inode (shared nr id (area_inos c) [] u)" "k_file t = k_file u"
    | (no) t where "vm_clone nr u = Stop (Panic ''no free page.'') t" by blast
    then show ?thesis
    proof cases
      case ok
      define p where "p = (fold (area_copy c) [0..<NVMA] (?p1\<lparr>p_vm := (p_vm ?p1)\<lparr>vm_pgd := d\<rparr>\<rparr>))
        \<lparr>p_contxt := (p_contxt c)\<lparr>jb_eip := func, jb_esp := of_nat a * PAGE + PAGE\<rparr>, p_stat := SRUN\<rparr>"
      have cp: "child_of c nr p" "vm_pgd (p_vm p) = d" "jb_eip (p_contxt p) = func" using child_of_copies [OF p_def] by simp_all
      define v where "v = t\<lparr>k_proc := (k_proc s)(nr \<mapsto> p)\<rparr>"
      have "kspawn junk func s = Ok nr v"
        unfolding x(1) by (simp only: kthen_Ok ok(1) kmod_def kret_def) (simp add: proc_mod_def ok(3) x(2) v_def p_def del: upt.simps)
      moreover have "cloned s (vm_pgd (p_vm c)) d v"
        using ok(2) x(3,6) unfolding cloned_def w by (simp add: v_def pm_inv_def page_cnt_def walk_def)
      moreover have "k_inode v = k_inode (shared nr id (fork_inos s c @ area_inos c) [] s)" "k_file v = k_file (shared nr id [] (open_files c) s)"
        using ok(4,5) by (simp_all add: v_def u_def shared_shared) (simp_all add: shared_def)
      ultimately show ?thesis using cp by (auto simp: v_def forked_def intro!: exI [of _ p] exI [of _ v])
    next
      case no
      then show ?thesis unfolding x(1) by (simp add: kthen_Stop)
    qed
  next
    case (2 t)
    then show ?thesis using pid by (simp add: kspawn_def kbind_Ok kbind_Stop)
  qed
qed

lemma cloned_view:
  assumes "cloned s opgd d t" "KMEM_END \<le> va"
  shows "view t d va = view s opgd va" "view t opgd va = view s opgd va"
    "walk t d va = map_option (\<lambda>(f, w). (f, False)) (walk s opgd va)"
  using assms by (cases "walk s opgd va"; auto simp: cloned_def view_def)+

section \<open>Properties\<close>


section \<open>Instances\<close>

text \<open>A process that has neither memory nor files, with the page allocator as after initialisation.\<close>

definition fork_state :: kernel where
  "fork_state = pm_booted\<lparr>k_proc := [0 \<mapsto> zero_proc\<lparr>p_stat := SRUN\<rparr>], k_cu := 0\<rparr>"

lemma fork_state_facts:
  "may_spawn fork_state (zero_proc\<lparr>p_stat := SRUN\<rparr>) 1"
  "\<exists>t. kspawn junk func fork_state = Ok 1 t"
proof -
  let ?c = "zero_proc\<lparr>p_stat := SRUN\<rparr>"
  have e: "k_pgd pm_booted = (\<lambda>_ _. zero_pde)"
    using pm_init_frame [of "0x100000" boot_kernel] by (auto simp: pm_booted_def boot_kernel_def)
  have pc: "page_cnt fork_state = page_cnt pm_booted" "pm_inv fork_state"
    using pm_booted_inv(1) by (simp_all add: fork_state_def page_cnt_def pm_inv_def fun_eq_iff)
  have c: "class_sizes fork_state" by (simp add: fork_state_def class_sizes_def pm_booted_def k_bk_pm_init boot_kernel_def bktab0_def)
  have z: "page_cnt fork_state 1 = 0" "page_cnt fork_state 2 = 0" "0 < page_cnt fork_state 0"
    unfolding pc(1) using pm_booted_inv(2) by simp_all
  have np: "\<not> pd_present (k_pgd fork_state 0 i)" for i by (simp add: fork_state_def e pd_present_def zero_pde_def)
  have v: "vm_pgd (p_vm ?c) = 0" by (simp add: zero_proc_def)
  have b: "bare ?c" by (simp add: bare_def zero_proc_def zero_vma_def)
  have t: "k_proc fork_state = [0 \<mapsto> ?c]" "k_cu fork_state = 0" by (simp_all add: fork_state_def)
  have "user_refs 1024 fork_state 0 f = 0" for f
    unfolding user_refs_def using np by (simp del: upt.simps)
  then have "space_wf fork_state 0" using np page_cnt_less by (simp add: space_wf_def)
  then show "may_spawn fork_state ?c 1"
    using pc(2) c z(3) t b v by (simp add: may_spawn_def forkable_def bare_def)
  show "\<exists>t. kspawn junk func fork_state = Ok 1 t"
    using kspawn_bare [OF pc(2) c _ _ _ z, of ?c 1 junk func] t b np v z(3) by auto
qed


end
