(* ===== verification/Argv.thy ===== *)
theory Argv
  imports Sigret
begin

unbundle bit_operations_syntax

text \<open>
  The initial stack of a program: what \<^verbatim>\<open>upush_argv\<close> and the last push of \<^verbatim>\<open>do_exec\<close> (\<^verbatim>\<open>src/kern/exec.c\<close>) leave for
  \<^verbatim>\<open>main(argc, argv)\<close>.
\<close>

section \<open>Stores that do not overlap\<close>

lemma ustore_commute:
  assumes "a + length bs \<le> b"
  shows "ustore g a bs (ustore g b cs s) = ustore g b cs (ustore g a bs s)"
  using assms
  by (auto simp: ustore_def mem_mod_def fun_eq_iff intro!: arg_cong [of _ _ "\<lambda>x. s\<lparr>k_mem := x\<rparr>"])

lemma put_user_stack:
  assumes "stack_page s g B n" "k + length bs \<le> n" "0 < length bs"
  shows "put_user (map Some bs) (B + of_nat k) s = Ok () (ustore g (POFF B + k) bs s)"
proof -
  have k: "k < n" using assms(2,3) by linarith
  note a = stack_page_at [OF assms(1) k]
  have l: "POFF (B + of_nat k) + length bs \<le> 4096" using assms(1,2) a(3) by (simp add: stack_page_def)
  show ?thesis using put_user_page [OF a(1,2) l] unfolding a(3) ustore_def .
qed

section \<open>The vector and its strings\<close>

abbreviation (input) cstrings :: "uchar list list \<Rightarrow> uchar list" where
  "cstrings strs \<equiv> concat (map (\<lambda>str. str @ [0]) strs)"

primrec addrs :: "uint \<Rightarrow> uchar list list \<Rightarrow> uint list" where
  "addrs a [] = []"
| "addrs a (str # strs) = a # addrs (a + of_nat (length str + 1)) strs"

lemma length_addrs [simp]: "length (addrs a strs) = length strs"
  by (induction strs arbitrary: a) simp_all

text \<open>The bytes from the vector on when the strings \<open>xs\<close> are still to be pushed and \<open>ys\<close> are on the stack.\<close>

definition pushed :: "nat \<Rightarrow> nat \<Rightarrow> uint \<Rightarrow> uchar list list \<Rightarrow> uchar list list \<Rightarrow> kernel \<Rightarrow> kernel" where
  "pushed g off A xs ys s = (let n = length xs + length ys in
     ustore g (off + 4 * length xs) (concat (map le32 (addrs (A + of_nat (4 * n + length (cstrings xs))) ys)))
       (ustore g (off + 4 * n + length (cstrings xs)) (cstrings ys) s))"

lemma pushed_simps [simp]: "stack_page (pushed g off A xs ys s) = stack_page s"
  by (simp add: pushed_def Let_def)

lemma pushed_step:
  "ustore g (off + 4 * length xs) (le32 (A + of_nat (4 * (length xs + Suc (length ys)) + length (cstrings xs))))
     (ustore g (off + 4 * (length xs + Suc (length ys)) + length (cstrings xs)) (x @ [0]) (pushed g off A (xs @ [x]) ys s)) =
   pushed g off A xs (x # ys) s"
proof -
  let ?n = "length xs + Suc (length ys)" and ?c = "length (cstrings xs)" and ?c' = "length (cstrings (xs @ [x]))"
  define w where "w = A + of_nat (4 * ?n + ?c)"
  define ps where "ps = concat (map le32 (addrs (A + of_nat (4 * ?n + ?c')) ys))"
  define U where "U = ustore g (off + 4 * ?n + ?c) (cstrings (x # ys)) s"
  have l: "length ps = 4 * length ys" by (simp add: ps_def length_le32_words)
  have n: "length (xs @ [x]) + length ys = ?n" by simp
  have "ustore g (off + 4 * ?n + ?c) (x @ [0]) (pushed g off A (xs @ [x]) ys s) =
      ustore g (off + 4 * length (xs @ [x])) ps (ustore g (off + 4 * ?n + ?c) (x @ [0]) (ustore g (off + 4 * ?n + ?c') (cstrings ys) s))"
    unfolding pushed_def Let_def n ps_def [symmetric] by (rule ustore_commute [symmetric]) (simp add: l)
  also have "ustore g (off + 4 * ?n + ?c) (x @ [0]) (ustore g (off + 4 * ?n + ?c') (cstrings ys) s) = U"
    using ustore_append [of g "off + 4 * ?n + ?c" "x @ [0]" "cstrings ys" s] by (simp add: U_def)
  also have "off + 4 * length (xs @ [x]) = off + 4 * length xs + length (le32 w)" by simp
  finally have "ustore g (off + 4 * length xs) (le32 w) (ustore g (off + 4 * ?n + ?c) (x @ [0]) (pushed g off A (xs @ [x]) ys s)) =
      ustore g (off + 4 * length xs) (le32 w @ ps) U" by (simp only: ustore_append)
  moreover have "le32 w @ ps = concat (map le32 (addrs w (x # ys)))"
    by (simp add: ps_def w_def algebra_simps)
  ultimately show ?thesis unfolding w_def [symmetric] pushed_def Let_def list.size(4) by (simp add: U_def w_def)
qed

lemma push_args_run:
  assumes sp: "stack_page s g B N" and A: "A = B + of_nat m"
  shows "m + 4 * (length xs + length ys) + length (cstrings xs) \<le> N \<Longrightarrow>
    push_args A (A + of_nat (4 * (length xs + length ys) + length (cstrings xs))) (rev xs) (pushed g (POFF B + m) A xs ys s) =
      Ok (A + of_nat (4 * (length xs + length ys))) (pushed g (POFF B + m) A [] (xs @ ys) s)"
proof (induction xs arbitrary: ys rule: rev_induct)
  case Nil
  then show ?case by (simp add: kret_def)
next
  case (snoc x xs)
  let ?n = "length xs + Suc (length ys)" and ?c = "length (cstrings xs)"
  let ?S = "pushed g (POFF B + m) A (xs @ [x]) ys s"
  let ?e = "A + of_nat (4 * ?n + ?c)"
  have S: "stack_page ?S g B N" using sp by simp
  have fit: "m + 4 * ?n + ?c + length (x @ [0]) \<le> N" using snoc.prems by simp
  have "upush (A + of_nat (4 * (length (xs @ [x]) + length ys) + length (cstrings (xs @ [x])))) (x @ [0]) ?S =
      Ok ?e (ustore g (POFF B + m + 4 * ?n + ?c) (x @ [0]) ?S)"
    using upush_page [OF S fit] by (simp add: A algebra_simps)
  moreover have "put_user (map Some (le32 ?e)) (A + 4 * of_nat (length (rev xs))) (ustore g (POFF B + m + 4 * ?n + ?c) (x @ [0]) ?S) =
      Ok () (pushed g (POFF B + m) A xs (x # ys) s)"
  proof -
    have "put_user (map Some (le32 ?e)) (B + of_nat (m + 4 * length xs)) (ustore g (POFF B + m + 4 * ?n + ?c) (x @ [0]) ?S) =
        Ok () (ustore g (POFF B + m + 4 * length xs) (le32 ?e) (ustore g (POFF B + m + 4 * ?n + ?c) (x @ [0]) ?S))"
      using put_user_stack [of "ustore g (POFF B + m + 4 * ?n + ?c) (x @ [0]) ?S" g B N "m + 4 * length xs" "le32 ?e"] S fit
      by (simp add: add.assoc)
    then show ?thesis unfolding pushed_step by (simp add: A add.assoc)
  qed
  moreover have "push_args A ?e (rev xs) (pushed g (POFF B + m) A xs (x # ys) s) = Ok (A + of_nat (4 * ?n)) (pushed g (POFF B + m) A [] (xs @ x # ys) s)"
    using snoc.IH [of "x # ys"] snoc.prems by simp
  ultimately show ?case by (simp add: kbind_Ok kthen_Ok)
qed

lemma pushed_none: "pushed g off A xs [] s = s"
proof -
  have "(\<lambda>m j. if o' \<le> j \<and> j < o' then x j else m j) = (\<lambda>m. m)" for x :: "nat \<Rightarrow> uchar" and o' by (auto simp: fun_eq_iff)
  then have "ustore g o' [] s = s" for o' by (simp add: ustore_def mem_mod_def)
  then show ?thesis by (simp add: pushed_def)
qed

lemma arglen_sum: "(\<Sum>str\<leftarrow>strs. of_nat (length str) + 1) = (of_nat (length (cstrings strs)) :: uint)"
  by (induction strs) (simp_all add: algebra_simps)

lemma nth_addrs: "i < length strs \<Longrightarrow> addrs a strs ! i = a + of_nat (length (cstrings (take i strs)))"
proof (induction strs arbitrary: a i)
  case (Cons x xs)
  then show ?case by (cases i) (simp_all add: algebra_simps)
qed simp

lemma nth_cstrings:
  "i < length strs \<Longrightarrow> j \<le> length (strs ! i) \<Longrightarrow>
    length (cstrings (take i strs)) + j < length (cstrings strs) \<and>
    cstrings strs ! (length (cstrings (take i strs)) + j) = (strs ! i @ [0]) ! j"
proof (induction strs arbitrary: i)
  case (Cons x xs)
  show ?case
  proof (cases i)
    case 0
    then show ?thesis using Cons.prems by (simp add: nth_append)
  next
    case (Suc k)
    then show ?thesis using Cons.IH [of k] Cons.prems by (simp add: nth_append)
  qed
qed simp

text \<open>The words at the bottom of the new stack, below the strings.\<close>

definition argv_words :: "uint \<Rightarrow> uchar list list \<Rightarrow> uint list" where
  "argv_words B strs = of_nat (length strs) # (B + 8) # addrs (B + 8 + of_nat (4 * length strs)) strs"

lemma argv_frame:
  assumes sp: "stack_page s1 g B (8 + 4 * length strs + length (cstrings strs))"
    and esp: "esp = B + of_nat (8 + 4 * length strs + length (cstrings strs))"
    and v: "vm_verify (B + 8) (of_nat (4 * length strs + length (cstrings strs))) s = Ok 0 s1"
  shows "kbind (upush_argv 0 esp strs) (\<lambda>(argc, e). upush e (le32 argc)) s =
    Ok B (ustore g (POFF B) (concat (map le32 (argv_words B strs)) @ cstrings strs) s1)"
proof -
  let ?n = "length strs" and ?L = "length (cstrings strs)"
  let ?A = "B + 8" and ?N = "8 + 4 * length strs + length (cstrings strs)"
  let ?S = "pushed g (POFF B + 8) ?A [] strs s1"
  have al: "0 + (\<Sum>str\<leftarrow>strs. of_nat (length str) + 1) + 4 * of_nat ?n = (of_nat (4 * ?n + ?L) :: uint)"
    unfolding arglen_sum by simp
  have ua: "esp - of_nat (4 * ?n + ?L) = ?A" unfolding esp by simp
  have e: "esp = ?A + of_nat (4 * (length strs + length []) + ?L)" unfolding esp by (simp add: add.assoc)
  have p: "push_args ?A esp (rev strs) s1 = Ok (?A + of_nat (4 * ?n)) ?S"
    using push_args_run [OF sp, of ?A 8 strs "[]"] unfolding e [symmetric] pushed_none by simp
  have S: "stack_page ?S g B ?N" using sp by simp
  have u1: "upush ?A (le32 ?A) ?S = Ok (B + 4) (ustore g (POFF B + 4) (le32 ?A) ?S)"
    using upush_page [OF S, of 4 "le32 ?A"] by simp
  have u2: "upush (B + 4) (le32 (of_nat ?n)) (ustore g (POFF B + 4) (le32 ?A) ?S) =
      Ok B (ustore g (POFF B) (le32 (of_nat ?n)) (ustore g (POFF B + 4) (le32 ?A) ?S))"
    using upush_page [of "ustore g (POFF B + 4) (le32 ?A) ?S" g B ?N 0 "le32 (of_nat ?n)"] S by simp
  have m: "ustore g (POFF B) (le32 (of_nat ?n)) (ustore g (POFF B + 4) (le32 ?A) ?S) =
      ustore g (POFF B) (concat (map le32 (argv_words B strs)) @ cstrings strs) s1"
  proof -
    let ?ps = "concat (map le32 (addrs (?A + of_nat (4 * ?n)) strs))"
    have "?S = ustore g (POFF B + 8) (?ps @ cstrings strs) s1"
      using ustore_append [of g "POFF B + 8" ?ps "cstrings strs" s1]
      by (simp add: pushed_def length_le32_words)
    then have "ustore g (POFF B + 4) (le32 ?A) ?S = ustore g (POFF B + 4) (le32 ?A @ ?ps @ cstrings strs) s1"
      using ustore_append [of g "POFF B + 4" "le32 ?A" "?ps @ cstrings strs" s1] by (simp add: add.commute)
    then show ?thesis
      using ustore_append [of g "POFF B" "le32 (of_nat ?n)" "le32 ?A @ ?ps @ cstrings strs" s1] by (simp add: argv_words_def)
  qed
  show ?thesis unfolding upush_argv_def Let_def al ua
    using v p u1 u2 by (simp add: kbind_Ok kthen_Ok kop_apply m)
qed

section \<open>Properties\<close>


section \<open>Instances\<close>


end
