(* ===== verification/Shell.thy ===== *)
theory Shell
  imports Strings Vga Inode
begin

text \<open>
  User programs: \<^verbatim>\<open>printf\<close> of the user library (\<^verbatim>\<open>usr/libsys/printf.c\<close>) and the shell (\<^verbatim>\<open>usr/sh.c\<close>). A program is described by the system calls it makes, in their order, as a
  function of their results; \<open>ucall\<close> lists the calls. The memory of a
  program is a function from addresses to bytes; the addresses of the three arrays of the shell are chosen by the
  linker and are arguments. A loop that scans memory without end has no result.
\<close>

section \<open>System calls\<close>

text \<open>
  Paths that are literals of the program are given by their bytes; buffers of the program by
  their addresses, with the memory in which the call is made.
\<close>

datatype ucall = U_setpgrp | U_open "uchar list" int int | U_close int | U_dup int | U_fcntl int int int
  | U_sigaction int string | U_write int "uchar list" | U_read int nat nat | U_fork | U_wait
  | U_chdir mem uint | U_exec mem uint uint | U_exec_lit "uchar list" | U_exit int

section \<open>Formatted output\<close>

text \<open>\<^verbatim>\<open>putch\<close> writes every character with a call of its own; the functions give the characters in their order.\<close>

definition usr_putch :: "uchar \<Rightarrow> ucall list" where
  "usr_putch c = [U_write 1 [c]]"

definition usr_puts :: "uchar list \<Rightarrow> ucall list" where
  "usr_puts str = concat (map usr_putch str)"

text \<open>No caller passes a base below 2 or above 16.\<close>

function usr_printn :: "uint \<Rightarrow> uint \<Rightarrow> ucall list option" where
  "usr_printn n b = (if b < 2 then None
     else Option.bind (if n div b \<noteq> 0 then usr_printn (n div b) b else Some [])
       (\<lambda>w. if unat (n mod b) < length ntab then Some (w @ usr_putch (ntab ! unat (n mod b))) else None))"
  by pat_completeness auto
termination
proof (relation "measure (\<lambda>(n, b). unat n)")
  fix n b :: uint
  assume b: "\<not> b < 2" and q: "n div b \<noteq> 0"
  then have "2 \<le> unat b" by (simp add: word_less_nat_alt)
  moreover have "0 < unat n" using q by (metis div_0 unat_gt_0)
  ultimately show "((n div b, b), (n, b)) \<in> measure (\<lambda>(n, b). unat n)" by (simp add: unat_div)
qed simp

declare usr_printn.simps [simp del]

fun usr_printf :: "(uint \<Rightarrow> uchar list) \<Rightarrow> uchar list \<Rightarrow> uint list \<Rightarrow> ucall list option" where
  "usr_printf strs [] adx = Some []"
| "usr_printf strs (c # fmt) adx =
     (if c \<noteq> 0x25 then map_option ((@) (usr_putch c)) (usr_printf strs fmt adx)
      else case fmt of [] \<Rightarrow> None
      | d # fmt' \<Rightarrow>
         (case adx of [] \<Rightarrow> if d \<in> {0x64, 0x6C, 0x6F, 0x78, 0x63, 0x73} then None else usr_printf strs fmt' []
          | a # adx' \<Rightarrow>
             Option.bind
              (if d = 0x64 \<or> d = 0x6C then
                 if sint a < 0 then map_option ((@) (usr_putch 0x2D)) (usr_printn (- a) 10) else usr_printn a 10
               else if d = 0x6F \<or> d = 0x78 then usr_printn a (if d = 0x6F then 8 else 16)
               else if d = 0x63 then Some (usr_putch (ucast a))
               else if d = 0x73 then Some (usr_puts (strs a))
               else Some [])
              (\<lambda>w. map_option ((@) w) (usr_printf strs fmt' adx'))))"

section \<open>The shell\<close>

text \<open>A pointer is stored in four bytes, low byte first.\<close>

definition put_ptr :: "nat \<Rightarrow> nat \<Rightarrow> mem \<Rightarrow> mem" where
  "put_ptr a p = put a 4 (byte32 (of_nat p))"

text \<open>\<^verbatim>\<open>while(*lp++ != ' ');\<close>\<close>

partial_function (option) skip_word :: "mem \<Rightarrow> nat \<Rightarrow> nat option" where
  "skip_word m lp = (if m lp \<noteq> 0x20 then skip_word m (lp + 1) else Some (lp + 1))"

partial_function (option) lparse_loop :: "nat \<Rightarrow> nat \<Rightarrow> mem \<Rightarrow> nat \<Rightarrow> nat \<Rightarrow> (mem \<times> nat) option" where
  "lparse_loop linebuf argvbuf m lp argc =
     (if m lp \<noteq> 0 \<and> lp + 1 < linebuf + 1024 then
        if m lp = 0x20 then lparse_loop linebuf argvbuf m (lp + 1) argc
        else let m' = put_ptr (argvbuf + 4 * argc) lp m in
          Option.bind (skip_word m' (lp + 1)) (\<lambda>lp'. lparse_loop linebuf argvbuf m' lp' (argc + 1))
      else Some (m, argc))"

text \<open>The loop that replaces the spaces.\<close>

primrec cut_words :: "nat \<Rightarrow> nat \<Rightarrow> mem \<Rightarrow> mem" where
  "cut_words lbuf 0 m = m"
| "cut_words lbuf (Suc i) m = (let m' = cut_words lbuf i m in if m' (lbuf + i) = 0x20 then m'(lbuf + i := 0) else m')"

definition lparse :: "nat \<Rightarrow> nat \<Rightarrow> nat \<Rightarrow> mem \<Rightarrow> (nat \<times> mem) option" where
  "lparse linebuf argvbuf lbuf m = Option.bind (lparse_loop linebuf argvbuf m lbuf 0)
     (\<lambda>(m1, argc). Some (argc, put_ptr (argvbuf + 4 * argc) 0 (cut_words lbuf 1024 m1)))"

text \<open>
  The literals \<^verbatim>\<open>"$ "\<close>, \<^verbatim>\<open>"cd"\<close>, \<^verbatim>\<open>"/bin/"\<close> and \<^verbatim>\<open>"/dev/tty0"\<close>. \<open>lit\<close> is a literal with its terminator, at address 0 of a memory of
  its own, which overlaps with no array of the shell.
\<close>

definition lit :: "uchar list \<Rightarrow> mem" where
  "lit xs = (\<lambda>i. if i < length xs then xs ! i else 0)"

definition PROMPT :: "uchar list" where "PROMPT = [0x24, 0x20]"
definition CD :: "uchar list" where "CD = [0x63, 0x64]"
definition BIN :: "uchar list" where "BIN = [0x2F, 0x62, 0x69, 0x6E, 0x2F]"
definition DEV_TTY0 :: "uchar list" where "DEV_TTY0 = [0x2F, 0x64, 0x65, 0x76, 0x2F, 0x74, 0x74, 0x79, 0x30]"

text \<open>The part of \<^verbatim>\<open>main\<close> before the loop; \<open>fd\<close> is the result of \<^verbatim>\<open>open\<close>.\<close>

definition sh_setup :: "int \<Rightarrow> ucall list" where
  "sh_setup fd = [U_setpgrp, U_open DEV_TTY0 2 0, U_close 0, U_close 1, U_close 2, U_dup fd, U_dup fd, U_dup fd,
     U_fcntl 0 2 0, U_fcntl 1 2 0, U_fcntl 2 2 0, U_close fd, U_sigaction 2 ''hwsig'']"

text \<open>The calls before the line is read, and the memory with the line: \<open>r\<close> is the result of \<^verbatim>\<open>read\<close>, \<open>inp\<close> what it stored.\<close>

definition sh_prompt :: "nat \<Rightarrow> ucall list option" where
  "sh_prompt linebuf = map_option (\<lambda>w. w @ [U_read 0 linebuf 1024]) (usr_printf (\<lambda>_. []) PROMPT [])"

definition sh_line :: "nat \<Rightarrow> uchar list \<Rightarrow> int \<Rightarrow> mem \<Rightarrow> mem" where
  "sh_line linebuf inp r m =
     (put linebuf (length inp) ((!) inp) (memset linebuf 0 1024 m))(nat (int linebuf + r) := 0)"

text \<open>
  The calls of the child: the second and third are made when the call before has failed. \<^verbatim>\<open>strcpy\<close> stores the six bytes
  of the literal.
\<close>

definition sh_child :: "nat \<Rightarrow> nat \<Rightarrow> mem \<Rightarrow> ucall list option" where
  "sh_child argvbuf pathbuf m =
     map_option (\<lambda>m2. [U_exec m (get32 m argvbuf) (of_nat (argvbuf + 4)), U_exec m2 (of_nat pathbuf) (of_nat (argvbuf + 4)), U_exit 1])
       (strncat pathbuf (unat (get32 m argvbuf)) 1024 (put pathbuf 6 (lit BIN) m))"

text \<open>
  What the shell does with a line, up to the next prompt. The result of \<^verbatim>\<open>fork\<close> says in which process it goes on:
  \<open>(calls of the shell, calls of the child)\<close>.
\<close>

definition sh_turn :: "nat \<Rightarrow> nat \<Rightarrow> nat \<Rightarrow> mem \<Rightarrow> (ucall list \<times> ucall list \<times> mem) option" where
  "sh_turn linebuf argvbuf pathbuf m = Option.bind (lparse linebuf argvbuf linebuf m) (\<lambda>(cnt, m1).
     if cnt > 0 then
       if strncmp m1 (unat (get32 m1 argvbuf)) (lit CD) 0 2 = 0 then Some ([U_chdir m1 (get32 m1 (argvbuf + 4))], [], m1)
       else map_option (\<lambda>cs. ([U_fork, U_wait], cs, m1)) (sh_child argvbuf pathbuf m1)
     else Some ([], [], m1))"

section \<open>Formatted output is the one of the kernel\<close>

lemma usr_puts_append: "usr_puts (xs @ ys) = usr_puts xs @ usr_puts ys"
  by (simp add: usr_puts_def)

lemma usr_puts_simps: "usr_puts [] = []" "usr_puts (c # cs) = usr_putch c @ usr_puts cs"
  by (simp_all add: usr_puts_def)

lemma usr_printn_digits:
  "2 \<le> unat b \<Longrightarrow> unat b \<le> 16 \<Longrightarrow> usr_printn n b = Some (usr_puts (map ((!) ntab) (digits (unat b) (unat n))))"
proof (induction n b rule: usr_printn.induct)
  case (1 n b)
  have b: "\<not> b < 2" using "1.prems"(1) by (simp add: word_less_nat_alt)
  have m: "unat (n mod b) < 16" using "1.prems" by (simp add: unat_mod less_le_trans [OF mod_less_divisor])
  have q: "n div b = 0 \<longleftrightarrow> unat n < unat b"
    using "1.prems"(1) by (simp add: unat_eq_zero [symmetric] unat_div div_eq_0_iff)
  show ?case
  proof (cases "unat n < unat b")
    case True
    with q b m show ?thesis by (subst usr_printn.simps) (simp add: digits_unfold usr_puts_simps unat_mod)
  next
    case False
    with q have nz: "n div b \<noteq> 0" by simp
    have "usr_printn (n div b) b = Some (usr_puts (map ((!) ntab) (digits (unat b) (unat n div unat b))))"
      using "1.IH" [OF b nz] "1.prems" by (simp add: unat_div)
    with nz b m "1.prems" False show ?thesis
      by (subst usr_printn.simps) (simp add: digits_unfold usr_puts_append usr_puts_simps unat_mod)
  qed
qed

lemma puts_append: "puts (xs @ ys) = kthen (puts xs) (puts ys)"
  by (simp add: puts_def kfor_append)

lemma puts_simps: "puts [] = kret ()" "puts (c # cs) = kthen (putch c) (puts cs)"
  by (simp_all add: puts_def)

lemma printf_printk:
  "fmt_ok fmt (length adx) \<Longrightarrow> \<exists>out. usr_printf strs fmt adx = Some (usr_puts out) \<and> printk strs fmt adx = puts out"
proof (induction strs fmt adx rule: printk.induct)
  case (1 strs adx)
  show ?case by (intro exI [of _ "[]"]) (simp add: usr_puts_simps puts_simps)
next
  case (2 strs c fmt adx)
  show ?case
  proof (cases "c = 0x25")
    case False
    then obtain out where "usr_printf strs fmt adx = Some (usr_puts out)" "printk strs fmt adx = puts out"
      using 2 by auto
    then show ?thesis using False
      by (intro exI [of _ "c # out"]) (simp add: usr_puts_simps puts_simps)
  next
    case True
    with "2.prems" obtain f fmt' where fmt: "fmt = f # fmt'" by (cases fmt) auto
    show ?thesis
    proof (cases adx)
      case Nil
      with "2.IH"(2) [of f fmt'] "2.prems" True fmt show ?thesis by (simp split: if_splits)
    next
      case (Cons a adx')
      then obtain out where out: "usr_printf strs fmt' adx' = Some (usr_puts out)" "printk strs fmt' adx' = puts out"
        using "2.IH"(3) [of f fmt' a adx'] "2.prems" True fmt by auto
      let ?dg = "\<lambda>b n. map ((!) ntab) (digits b (unat n))"
      let ?w = "if f = 0x64 \<or> f = 0x6C then if sint a < 0 then 0x2D # ?dg 10 (- a) else ?dg 10 a
        else if f = 0x6F then ?dg 8 a else if f = 0x78 then ?dg 16 a else if f = 0x63 then [ucast a] else if f = 0x73 then strs a else []"
      have "usr_printf strs (c # fmt) adx = Some (usr_puts ?w @ usr_puts out)"
        using True fmt Cons out(1)
        by (simp add: usr_printn_digits usr_puts_simps)
      moreover have "printk strs (c # fmt) adx = kthen (puts ?w) (puts out)"
        using True fmt Cons out(2)
        by (simp add: printn_digits puts_simps)
      ultimately show ?thesis by (intro exI [of _ "?w @ out"]) (simp only: usr_puts_append puts_append)
    qed
  qed
qed

section \<open>The words of a line\<close>

abbreviation words :: "uchar list \<Rightarrow> uchar list list" where
  "words \<equiv> split_at 0x20"

text \<open>The addresses of the words of a line that is stored at \<open>p\<close>.\<close>

function starts :: "nat \<Rightarrow> uchar list \<Rightarrow> nat list" where
  "starts p [] = []"
| "starts p (x # xs) = (if x = 0x20 then starts (p + 1) xs
     else p # starts (p + 1 + length (takeWhile (\<lambda>c. c \<noteq> 0x20) xs)) (dropWhile (\<lambda>c. c \<noteq> 0x20) xs))"
  by pat_completeness auto
termination by (relation "measure (length \<circ> snd)") (auto simp: length_dropWhile_le le_imp_less_Suc)

lemma length_starts: "length (starts p xs) = length (words xs)" "length (starts p xs) \<le> length xs"
proof (induction p xs rule: starts.induct)
  case (2 p x xs)
  { case 1 show ?case using 2 by simp }
  { case 2 show ?case using "2.IH"(2,4) length_dropWhile_le [of "\<lambda>c. c \<noteq> 0x20" xs] by (auto simp del: length_dropWhile_le) }
qed simp_all

lemma starts_bounds: "q \<in> set (starts p xs) \<Longrightarrow> p \<le> q \<and> q < p + length xs"
proof (induction p xs rule: starts.induct)
  case (2 p x xs)
  have "length xs = length (takeWhile (\<lambda>c. c \<noteq> 0x20) xs) + length (dropWhile (\<lambda>c. c \<noteq> 0x20) xs)"
    by (metis length_append takeWhile_dropWhile_id)
  with 2 show ?case by (auto split: if_splits)
qed simp

definition stored :: "mem \<Rightarrow> nat \<Rightarrow> uchar list \<Rightarrow> bool" where
  "stored m p xs \<longleftrightarrow> (\<forall>i<length xs. m (p + i) = xs ! i)"

lemma stored_Cons: "stored m p (x # xs) \<longleftrightarrow> m p = x \<and> stored m (p + 1) xs"
  by (auto simp: stored_def nth_Cons split: nat.splits)

lemma stored_append: "stored m p (xs @ ys) \<longleftrightarrow> stored m p xs \<and> stored m (p + length xs) ys"
  by (induction xs arbitrary: p) (auto simp: stored_Cons, auto simp: stored_def)

lemma stored_parts:
  assumes "stored m p xs"
  shows "stored m p (takeWhile P xs)" "stored m (p + length (takeWhile P xs)) (dropWhile P xs)"
  using assms stored_append [of m p "takeWhile P xs" "dropWhile P xs"] by simp_all

text \<open>With the spaces replaced by terminators, the words are strings at their addresses.\<close>

definition cut :: "uchar \<Rightarrow> uchar" where
  "cut c = (if c = 0x20 then 0 else c)"

lemma word_strings:
  "stored c p (map cut xs) \<Longrightarrow> c (p + length xs) = 0 \<Longrightarrow> 0 \<notin> set xs \<Longrightarrow> list_all2 (cstr c) (starts p xs) (words xs)"
proof (induction p xs rule: starts.induct)
  case (2 p x xs)
  let ?t = "takeWhile (\<lambda>c. c \<noteq> 0x20) xs" and ?d = "dropWhile (\<lambda>c. c \<noteq> 0x20) xs"
  have st: "c p = cut x" "stored c (p + 1) (map cut xs)" using "2.prems"(1) by (simp_all add: stored_Cons)
  have l: "length xs = length ?t + length ?d" by (metis length_append takeWhile_dropWhile_id)
  have xs: "map cut xs = map cut ?t @ map cut ?d" by (metis map_append takeWhile_dropWhile_id)
  then have sd: "stored c (p + 1) (map cut ?t)" "stored c (p + 1 + length ?t) (map cut ?d)"
    using st(2) unfolding xs stored_append by simp_all
  show ?case
  proof (cases "x = 0x20")
    case True
    then show ?thesis using "2.IH"(1) "2.prems" st(2) by simp
  next
    case False
    have "c (p + 1 + length ?t + length ?d) = 0" using "2.prems"(2) l by (simp add: add.assoc)
    moreover have "0 \<notin> set ?d" using "2.prems"(3) set_dropWhileD [of 0 "\<lambda>c. c \<noteq> 0x20" xs] by auto
    ultimately have "list_all2 (cstr c) (starts (p + 1 + length ?t) ?d) (words ?d)" by (rule "2.IH"(2) [OF False sd(2)])
    moreover have "cstr c p (x # ?t)"
    proof -
      have "?t ! i \<noteq> 0 \<and> cut (?t ! i) = ?t ! i" if "i < length ?t" for i
        using nth_mem [OF that] set_takeWhileD [of _ "\<lambda>c. c \<noteq> 0x20" xs] "2.prems"(3) by (fastforce simp: cut_def)
      then have "cstr c (p + 1) ?t \<longleftrightarrow> c (p + 1 + length ?t) = 0" using sd(1) by (auto simp: cstr_nth stored_def)
      moreover have "c (p + 1 + length ?t) = 0"
      proof (cases ?d)
        case Nil
        have "length xs = length ?t" using l Nil by (metis add_0_right list.size(3))
        then show ?thesis using "2.prems"(2) by simp
      next
        case (Cons y ys)
        then have "y = 0x20" using hd_dropWhile [of "\<lambda>c. c \<noteq> 0x20" xs] by auto
        then show ?thesis using sd(2) Cons by (simp add: stored_Cons cut_def)
      qed
      ultimately show ?thesis using st(1) False "2.prems"(3) by (simp add: cut_def)
    qed
    ultimately show ?thesis using False by simp
  qed
qed simp

section \<open>The scanner\<close>

fun put_ptrs :: "nat \<Rightarrow> nat list \<Rightarrow> mem \<Rightarrow> mem" where
  "put_ptrs a [] m = m"
| "put_ptrs a (p # ps) m = put_ptrs (a + 4) ps (put_ptr a p m)"

lemma put_ptrs_outside: "j < a \<or> a + 4 * length ps \<le> j \<Longrightarrow> put_ptrs a ps m j = m j"
  by (induction ps arbitrary: a m) (auto simp: put_ptr_def put_def)

lemma get32_put_ptr: "get32 (put_ptr a p m) a = of_nat p"
  by (rule get32_byte32) (simp add: put_ptr_def put_def)

lemma get32_cong:
  assumes "\<And>i. i < 4 \<Longrightarrow> m' (a + i) = m (a + i)"
  shows "get32 m' a = get32 m a"
  using assms [of 0] assms [of 1] assms [of 2] assms [of 3]
  by (simp add: get32_def get16_def numeral_2_eq_2 numeral_3_eq_3)

lemma get32_put_ptrs: "i < length ps \<Longrightarrow> get32 (put_ptrs a ps m) (a + 4 * i) = of_nat (ps ! i)"
proof (induction ps arbitrary: a m i)
  case (Cons p ps)
  show ?case
  proof (cases i)
    case 0
    have "get32 (put_ptrs (a + 4) ps (put_ptr a p m)) a = get32 (put_ptr a p m) a"
      by (rule get32_cong) (simp add: put_ptrs_outside)
    then show ?thesis using 0 by (simp add: get32_put_ptr)
  next
    case (Suc k)
    then show ?thesis using Cons.IH [of k "a + 4"] Cons.prems by (simp add: add.assoc)
  qed
qed simp

lemma skip_word_space:
  "m j = 0x20 \<Longrightarrow> lp \<le> j \<Longrightarrow> (\<And>i. lp \<le> i \<Longrightarrow> i < j \<Longrightarrow> m i \<noteq> 0x20) \<Longrightarrow> skip_word m lp = Some (j + 1)"
proof (induction "j - lp" arbitrary: lp)
  case 0
  then show ?case by (subst skip_word.simps) simp
next
  case (Suc k)
  then have "skip_word m (lp + 1) = Some (j + 1)" by (intro Suc.hyps(1)) auto
  then show ?case using Suc.prems(3) [of lp] Suc.hyps(2) by (subst skip_word.simps) auto
qed

lemma skip_word_some: "m j = 0x20 \<Longrightarrow> lp \<le> j \<Longrightarrow> \<exists>k\<ge>lp. m k = 0x20 \<and> skip_word m lp = Some (k + 1)"
proof -
  assume j: "m j = 0x20" "lp \<le> j"
  let ?k = "LEAST k. lp \<le> k \<and> m k = 0x20"
  have k: "lp \<le> ?k \<and> m ?k = 0x20" by (rule LeastI [of _ j]) (use j in simp)
  moreover have "m i \<noteq> 0x20" if "lp \<le> i" "i < ?k" for i using not_less_Least [OF that(2)] that(1) by blast
  ultimately show ?thesis using skip_word_space [of m ?k lp] by blast
qed

lemma cut_words_eq: "cut_words lb n m = (\<lambda>j. if lb \<le> j \<and> j < lb + n then cut (m j) else m j)"
proof (induction n)
  case (Suc n)
  have "j < lb + Suc n \<longleftrightarrow> j < lb + n \<or> j = lb + n" for j by auto
  then show ?case using Suc by (auto simp: fun_eq_iff Let_def cut_def)
qed (auto simp: fun_eq_iff)

text \<open>
  The buffer holds a rest of the line and then zeros, and some later byte of the memory, outside of the
  vector, is a space. Then the scanner enters the addresses of the words and returns.
\<close>

definition line_at :: "nat \<Rightarrow> nat \<Rightarrow> mem \<Rightarrow> nat \<Rightarrow> uchar list \<Rightarrow> bool" where
  "line_at lb q m p xs \<longleftrightarrow> stored m p xs \<and> 0 \<notin> set xs \<and> lb \<le> p \<and> p + length xs < lb + 1024 \<and>
     (\<forall>j. p + length xs \<le> j \<and> j < lb + 1024 \<longrightarrow> m j = 0) \<and> lb + 1024 \<le> q \<and> m q = 0x20"

definition apart :: "nat \<Rightarrow> nat \<Rightarrow> nat \<Rightarrow> bool" where
  "apart lb ab q \<longleftrightarrow> (ab + 4096 \<le> lb \<or> lb + 1024 \<le> ab) \<and> (q < ab \<or> ab + 4096 \<le> q)"

lemma line_at_put_ptr:
  assumes "apart lb ab q" "line_at lb q m p xs" "k < 1024"
  shows "line_at lb q (put_ptr (ab + 4 * k) v m) p xs"
proof -
  have "put_ptr (ab + 4 * k) v m j = m j" if "(lb \<le> j \<and> j < lb + 1024) \<or> j = q" for j
    using assms(1,3) that by (auto simp: apart_def put_ptr_def put_def)
  then show ?thesis using assms(2) by (auto simp: line_at_def stored_def)
qed

lemma line_at_drop: "line_at lb q m p (xs @ ys) \<Longrightarrow> line_at lb q m (p + length xs) ys"
  by (auto simp: line_at_def stored_append add.assoc)

lemma lparse_loop_words:
  assumes "apart lb ab q"
  shows "line_at lb q m p xs \<Longrightarrow> k + length xs < 1024 \<Longrightarrow>
    lparse_loop lb ab m p k = Some (put_ptrs (ab + 4 * k) (starts p xs) m, k + length (starts p xs))"
proof (induction p xs arbitrary: m k rule: starts.induct)
  case (1 p)
  then show ?case by (subst lparse_loop.simps) (simp add: line_at_def)
next
  case (2 p x xs)
  let ?t = "takeWhile (\<lambda>c. c \<noteq> 0x20) xs" and ?d = "dropWhile (\<lambda>c. c \<noteq> 0x20) xs"
  have x: "m p = x" "x \<noteq> 0" "p + 1 < lb + 1024" using "2.prems"(1) by (auto simp: line_at_def stored_Cons)
  have l: "line_at lb q m (p + 1) xs" using line_at_drop [of lb q m p "[x]" xs] "2.prems"(1) by simp
  show ?case
  proof (cases "x = 0x20")
    case True
    then show ?thesis using "2.IH"(1) [OF True l] "2.prems"(2) x by (subst lparse_loop.simps) simp
  next
    case False
    define m' where "m' = put_ptr (ab + 4 * k) p m"
    have l': "line_at lb q m' (p + 1) xs" unfolding m'_def using "2.prems"(2) by (intro line_at_put_ptr [OF assms l]) simp
    then have ld: "line_at lb q m' (p + 1 + length ?t) ?d" using line_at_drop [of lb q m' "p + 1" ?t ?d] by simp
    have len: "length xs = length ?t + length ?d" by (metis length_append takeWhile_dropWhile_id)
    have tw: "m' i \<noteq> 0x20" if "p + 1 \<le> i" "i < p + 1 + length ?t" for i
    proof -
      have "stored m' (p + 1) ?t" using l' stored_parts(1) by (auto simp: line_at_def)
      moreover have "i - (p + 1) < length ?t" using that by linarith
      ultimately have "m' (p + 1 + (i - (p + 1))) = ?t ! (i - (p + 1))" unfolding stored_def by blast
      moreover have "?t ! (i - (p + 1)) \<in> set ?t" using that by (intro nth_mem) auto
      ultimately show ?thesis using that set_takeWhileD [of _ "\<lambda>c. c \<noteq> 0x20" xs] by auto
    qed
    have IH: "lparse_loop lb ab m' (p + 1 + length ?t) (k + 1) =
        Some (put_ptrs (ab + 4 * (k + 1)) (starts (p + 1 + length ?t) ?d) m', k + 1 + length (starts (p + 1 + length ?t) ?d))"
      using "2.prems"(2) len by (intro "2.IH"(2) [OF False ld]) simp
    have "Option.bind (skip_word m' (p + 1)) (\<lambda>lp'. lparse_loop lb ab m' lp' (k + 1)) = lparse_loop lb ab m' (p + 1 + length ?t) (k + 1)"
    proof (cases ?d)
      case Nil
      then have t: "p + 1 + length ?t < lb + 1024" "m' (p + 1 + length ?t) = 0" "lb + 1024 \<le> q" "m' q = 0x20"
        "\<forall>j. p + 1 + length ?t \<le> j \<and> j < lb + 1024 \<longrightarrow> m' j = 0"
        using ld unfolding line_at_def Nil by auto
      obtain j where j: "p + 1 \<le> j" "m' j = 0x20" "skip_word m' (p + 1) = Some (j + 1)"
        using skip_word_some [of m' q "p + 1"] t by auto
      have "lb + 1024 \<le> j" using tw [of j] t(5) j(1,2) by (cases "j < p + 1 + length ?t") (auto simp: not_le not_less)
      then show ?thesis using j(3) t(2) by (simp add: lparse_loop.simps [of lb ab m' "Suc j"] lparse_loop.simps [of lb ab m' "Suc (p + length ?t)"])
    next
      case (Cons y ys)
      then have y: "y = 0x20" using hd_dropWhile [of "\<lambda>c. c \<noteq> 0x20" xs] by auto
      with ld Cons have j: "m' (p + 1 + length ?t) = 0x20" "p + 1 + length ?t + 1 < lb + 1024"
        by (auto simp: line_at_def stored_Cons)
      have "skip_word m' (p + 1) = Some (p + 1 + length ?t + 1)" by (rule skip_word_space) (use j(1) tw in auto)
      then show ?thesis using j by (subst (2) lparse_loop.simps) simp
    qed
    then show ?thesis using x False IH unfolding m'_def by (subst lparse_loop.simps) (simp add: ac_simps)
  qed
qed

section \<open>The vector of the words\<close>

text \<open>The vector at \<open>a\<close> points at the given strings, which are inside of the line buffer, and ends with a null pointer.\<close>

definition argv_at :: "nat \<Rightarrow> mem \<Rightarrow> nat \<Rightarrow> uchar list list \<Rightarrow> bool" where
  "argv_at lb m a ws \<longleftrightarrow> (\<forall>i<length ws. let p = unat (get32 m (a + 4 * i)) in
      lb \<le> p \<and> p + length (ws ! i) < lb + 1024 \<and> cstr m p (ws ! i)) \<and> get32 m (a + 4 * length ws) = 0"

lemma argv_at_Cons:
  assumes "argv_at lb m a (w # ws)"
  shows "cstr m (unat (get32 m a)) w \<and> lb \<le> unat (get32 m a) \<and> unat (get32 m a) + length w < lb + 1024"
    and "argv_at lb m (a + 4) ws"
proof -
  have v: "let p = unat (get32 m (a + 4 * i)) in lb \<le> p \<and> p + length ((w # ws) ! i) < lb + 1024 \<and> cstr m p ((w # ws) ! i)"
    if "i < length (w # ws)" for i
    using assms that unfolding argv_at_def by blast
  show "cstr m (unat (get32 m a)) w \<and> lb \<le> unat (get32 m a) \<and> unat (get32 m a) + length w < lb + 1024"
    using v [of 0] by (simp add: Let_def)
  show "argv_at lb m (a + 4) ws"
    using v [of "Suc _"] assms by (simp add: argv_at_def Let_def add.assoc)
qed

lemma argv_at_cong:
  assumes "argv_at lb m a ws"
    and "\<And>j. (lb \<le> j \<and> j < lb + 1024) \<or> (a \<le> j \<and> j < a + 4 * length ws + 4) \<Longrightarrow> m' j = m j"
  shows "argv_at lb m' a ws"
proof -
  have g: "get32 m' (a + 4 * i) = get32 m (a + 4 * i)" if "i \<le> length ws" for i
    using that by (intro get32_cong assms(2)) auto
  have "cstr m' p xs = cstr m p xs" if "lb \<le> p" "p + length xs < lb + 1024" for p xs
    using that by (intro cstr_cong assms(2)) auto
  then show ?thesis using assms(1) g by (auto simp: argv_at_def Let_def)
qed

lemma lparse_words:
  assumes ap: "apart lb ab q" and l: "line_at lb q m lb xs" and b: "lb + 1024 \<le> 2 ^ 32"
  shows "\<exists>m1. lparse lb ab lb m = Some (length (words xs), m1) \<and> argv_at lb m1 ab (words xs)"
proof -
  let ?n = "length (words xs)"
  define m1 where "m1 = put_ptr (ab + 4 * ?n) 0 (cut_words lb 1024 (put_ptrs ab (starts lb xs) m))"
  have xs: "length xs < 1024" "stored m lb xs" "0 \<notin> set xs" "m (lb + length xs) = 0" using l by (auto simp: line_at_def)
  then have n: "?n < 1024" using length_starts [of lb xs] by simp
  have "lparse lb ab lb m = Some (?n, m1)"
    using lparse_loop_words [OF ap l, of 0] xs(1) by (simp add: lparse_def m1_def length_starts)
  moreover have "argv_at lb m1 ab (words xs)"
  proof -
    have line: "m1 j = cut (m j)" if "lb \<le> j" "j < lb + 1024" for j
    proof -
      have "put_ptrs ab (starts lb xs) m j = m j"
        using ap that n by (intro put_ptrs_outside) (auto simp: apart_def length_starts)
      then show ?thesis using ap that n by (auto simp: m1_def put_ptr_def put_def apart_def cut_words_eq)
    qed
    have vec: "get32 m1 (ab + 4 * i) = of_nat (starts lb xs ! i)" if "i < ?n" for i
    proof -
      have "get32 m1 (ab + 4 * i) = get32 (put_ptrs ab (starts lb xs) m) (ab + 4 * i)"
        using ap that n by (intro get32_cong) (auto simp: m1_def put_ptr_def put_def apart_def cut_words_eq)
      then show ?thesis using get32_put_ptrs [of i "starts lb xs" ab m] that by (simp add: length_starts)
    qed
    have st: "stored m1 lb (map cut xs)" using xs(1,2) line by (auto simp: stored_def)
    have e: "m1 (lb + length xs) = 0" using xs(1,4) line [of "lb + length xs"] by (simp add: cut_def)
    have ws: "list_all2 (cstr m1) (starts lb xs) (words xs)" using word_strings [OF st] e xs(3) by simp
    have "let p = unat (get32 m1 (ab + 4 * i)) in lb \<le> p \<and> p + length (words xs ! i) < lb + 1024 \<and> cstr m1 p (words xs ! i)"
      if "i < ?n" for i
    proof -
      let ?p = "starts lb xs ! i"
      have c: "cstr m1 ?p (words xs ! i)" using list_all2_nthD2 [OF ws that] .
      have "?p \<in> set (starts lb xs)" using that length_starts(1) [of lb xs] by (metis nth_mem)
      then have p: "lb \<le> ?p" "?p < lb + length xs" using starts_bounds by blast+
      have "length (words xs ! i) \<le> length xs - (?p - lb)"
      proof (rule ccontr)
        assume "\<not> ?thesis"
        then have "lb + length xs - ?p < length (words xs ! i)" using p by linarith
        then have "m1 (?p + (lb + length xs - ?p)) \<noteq> 0" using c by (auto simp: cstr_nth)
        then show False using e p by simp
      qed
      moreover have "unat (of_nat ?p :: uint) = ?p" using p xs(1) b by (simp add: unat_of_nat take_bit_nat_eq_self)
      ultimately show ?thesis using p c xs(1) vec [OF that] by (simp add: Let_def)
    qed
    moreover have "get32 m1 (ab + 4 * ?n) = 0" unfolding m1_def by (simp add: get32_put_ptr)
    ultimately show ?thesis by (simp add: argv_at_def)
  qed
  ultimately show ?thesis by blast
qed

text \<open>Without a space behind the line the scan of its last word never ends.\<close>

lemma skip_word_Some: "skip_word m lp = Some r \<Longrightarrow> lp < r \<and> m (r - 1) = 0x20"
proof (rule skip_word.raw_induct [where P = "\<lambda>m lp r. lp < r \<and> m (r - 1) = 0x20", rotated])
  fix f and m :: mem and lp r
  assume "\<And>m lp r. f m lp = Some r \<Longrightarrow> lp < r \<and> m (r - 1) = 0x20"
    and "(if m lp \<noteq> 0x20 then f m (lp + 1) else Some (lp + 1)) = Some r"
  then show "lp < r \<and> m (r - 1) = 0x20" by (fastforce split: if_splits)
qed

lemma lparse_no_space:
  assumes "m lb \<noteq> 0" "m lb \<noteq> 0x20" "\<And>j. lb < j \<Longrightarrow> put_ptr ab lb m j \<noteq> 0x20"
  shows "lparse lb ab lb m = None"
proof -
  have "skip_word (put_ptr ab lb m) (lb + 1) = None"
  proof (rule ccontr)
    assume "skip_word (put_ptr ab lb m) (lb + 1) \<noteq> None"
    then obtain r where "skip_word (put_ptr ab lb m) (lb + 1) = Some r" by blast
    from skip_word_Some [OF this] have "lb < r - 1" "put_ptr ab lb m (r - 1) = 0x20" by linarith+
    then show False using assms(3) by blast
  qed
  then have "lparse_loop lb ab m lb 0 = None" using assms(1,2) by (subst lparse_loop.simps) simp
  then show ?thesis by (simp add: lparse_def)
qed

section \<open>Commands\<close>

lemma strncmp_cd:
  assumes "cstr m p w"
  shows "strncmp m p (lit CD) 0 2 = 0 \<longleftrightarrow> take 2 w = CD"
proof -
  have d: "int (unat a) - int (unat b) = 0 \<longleftrightarrow> a = b" for a b :: uchar
    by (metis eq_iff_diff_eq_0 of_nat_eq_iff word_unat_eq_iff)
  have l: "lit CD 0 = 0x63" "lit CD 1 = 0x64" by (simp_all add: lit_def CD_def)
  have "strncmp m p (lit CD) 0 2 = 0 \<longleftrightarrow> m p = 0x63 \<and> m (p + 1) = 0x64"
    using d [of "m p" "0x63"] d [of "m (p + 1)" "0x64"] unfolding numeral_2_eq_2 strncmp.simps add_0 l by simp
  also have "\<dots> \<longleftrightarrow> take 2 w = CD"
  proof (cases w)
    case Nil
    then show ?thesis using assms by (simp add: CD_def)
  next
    case (Cons x xs)
    then show ?thesis using assms by (cases xs) (simp_all add: CD_def)
  qed
  finally show ?thesis .
qed

lemma cstr_append: "cstr m p (xs @ ys) \<longleftrightarrow> stored m p xs \<and> 0 \<notin> set xs \<and> cstr m (p + length xs) ys"
  by (induction xs arbitrary: p) (auto simp: stored_Cons, auto simp: stored_def)

lemma strncat_strcpy:
  "cstr m src xs \<Longrightarrow> length xs < n \<Longrightarrow> dst + length xs < src \<or> src + length xs < dst \<Longrightarrow>
    strcpy dst src m = Some (strncat_loop dst src n m)"
proof (induction xs arbitrary: dst src m n)
  case Nil
  then show ?case by (subst strcpy.simps, cases n) (auto simp: Let_def)
next
  case (Cons x xs)
  obtain k where n: "n = Suc k" using Cons.prems(2) by (cases n) auto
  let ?m = "m(dst := m src)"
  have "cstr ?m (src + 1) xs = cstr m (src + 1) xs" using Cons.prems(3) by (intro cstr_cong) auto
  then have "strcpy (dst + 1) (src + 1) ?m = Some (strncat_loop (dst + 1) (src + 1) k ?m)"
    using Cons.prems n by (intro Cons.IH) (simp_all del: fun_upd_apply, auto)
  then show ?case using Cons.prems(1) n by (subst strcpy.simps) (simp add: Let_def)
qed

lemma bin_path:
  assumes c: "cstr m p w" and l: "length w < 1019" and d: "p + length w < pb \<or> pb + 1024 \<le> p"
  shows "\<exists>m2. strncat pb p 1024 (put pb 6 (lit BIN) m) = Some m2 \<and> cstr m2 pb (BIN @ w) \<and>
    (\<forall>j. j < pb \<or> pb + 1024 \<le> j \<longrightarrow> m2 j = m j)"
proof -
  let ?m = "put pb 6 (lit BIN) m"
  have b: "cstr ?m pb BIN" by (simp add: cstr_nth BIN_def put_def lit_def nth_Cons split: nat.splits)
  have cw: "cstr ?m p w"
  proof -
    have "cstr ?m p w = cstr m p w" using d by (intro cstr_cong) (auto simp: put_def)
    then show ?thesis using c by simp
  qed
  have e: "str_end ?m pb = Some (pb + 5)" using str_end_cstr [OF b] by (simp add: BIN_def)
  define m2 where "m2 = (\<lambda>j. if pb + 5 \<le> j \<and> j \<le> pb + 5 + length w then ?m (p + (j - (pb + 5))) else ?m j)"
  have "strncat_loop (pb + 5) p 1024 ?m = m2"
    using strncat_strcpy [OF cw, of 1024 "pb + 5"] strcpy_cstr [OF cw, of "pb + 5"] l d by (auto simp: m2_def)
  then have "strncat pb p 1024 ?m = Some m2" using e by (simp add: strncat_def)
  moreover have "cstr m2 pb (BIN @ w)"
  proof -
    have "m2 (pb + 5 + i) = ?m (p + i)" if "i \<le> length w" for i using that by (simp add: m2_def)
    then have "cstr m2 (pb + 5) w" using cw by (simp add: cstr_nth)
    moreover have "m2 (pb + i) = BIN ! i" if "i < 5" for i
      using that by (simp add: m2_def put_def lit_def BIN_def)
    moreover have "length BIN = 5" "0 \<notin> set BIN" by (simp_all add: BIN_def)
    ultimately show ?thesis by (simp add: cstr_append stored_def)
  qed
  moreover have "\<forall>j. j < pb \<or> pb + 1024 \<le> j \<longrightarrow> m2 j = m j" using l by (auto simp: m2_def put_def)
  ultimately show ?thesis by blast
qed

text \<open>
  The arrays of the shell do not overlap and are below 4 GB, and a space is somewhere behind the
  line buffer and outside of the vector.
\<close>

definition sh_layout :: "nat \<Rightarrow> nat \<Rightarrow> nat \<Rightarrow> nat \<Rightarrow> mem \<Rightarrow> bool" where
  "sh_layout lb ab pb q m \<longleftrightarrow> apart lb ab q \<and> lb + 1024 \<le> 2 ^ 32 \<and> pb + 1024 \<le> 2 ^ 32 \<and>
     (pb + 1024 \<le> lb \<or> lb + 1024 \<le> pb) \<and> (pb + 1024 \<le> ab \<or> ab + 4096 \<le> pb) \<and> lb + 1024 \<le> q \<and> m q = 0x20"

lemma line_at_sh_line:
  assumes "sh_layout lb ab pb q m" "0 \<notin> set inp" "int (length inp) \<le> r" "r < 1024"
  shows "line_at lb q (sh_line lb inp r m) lb inp"
proof -
  have "nat (int lb + r) = lb + nat r" using assms(3) by linarith
  then show ?thesis
    using assms by (auto simp: line_at_def stored_def sh_line_def memset_eq put_def sh_layout_def)
qed

section \<open>Properties\<close>

text \<open>
  Formatted output of programs. For every format with enough arguments, \<^verbatim>\<open>printf\<close> of the user library writes, byte
  by byte on descriptor 1, the characters that \<^verbatim>\<open>printk\<close> of the kernel would put on the screen.
\<close>

theorem printf_writes_like_printk:
  assumes "fmt_ok fmt (length adx)"
  shows "\<exists>out. usr_printf strs fmt adx = Some (map (\<lambda>c. U_write 1 [c]) out) \<and> printk strs fmt adx = puts out"
proof -
  have p: "map (\<lambda>c. U_write 1 [c]) out = usr_puts out" for out by (induction out) (auto simp: usr_puts_def usr_putch_def)
  show ?thesis using printf_printk [OF assms, of strs] unfolding p .
qed

theorem printf_writes_like_printk_witness:
  "\<exists>out. usr_printf (\<lambda>_. []) [0x6E, 0x3D, 0x25, 0x64, 10] [1234] = Some (map (\<lambda>c. U_write 1 [c]) out) \<and>
    printk (\<lambda>_. []) [0x6E, 0x3D, 0x25, 0x64, 10] [1234] = puts out"
  by (rule printf_writes_like_printk) simp



end
