(* ===== verification/Path.thy ===== *)
theory Path
  imports Namei
begin

text \<open>
  Resolution of path names on the tree of directories (\<^verbatim>\<open>src/fs/namei.c\<close> over \<^verbatim>\<open>src/fs/inode.c\<close>). The tree is given by
  the inodes, in core or on the disk, and the entries of the directories; \<open>path_to\<close> follows the components of a path
  through it. The walk of \<^verbatim>\<open>namei\<close> takes and releases the inode of each directory on the way: one that is in use gets its
  references back, one that is not is loaded into a free slot, written back unchanged and freed. The lemmas show
  that a step leaves the inodes in use and the disk as they were, and the theorem that the walk ends at the inode of the path.
\<close>

section \<open>Reading and writing back\<close>

text \<open>An inode that was loaded and is written back puts the bytes on the disk that are there.\<close>

lemma byte32_get32: "k < 4 \<Longrightarrow> byte32 (get32 d p) k = d (p + k)"
proof -
  assume "k < 4"
  then consider "k = 0" | "k = 1" | "k = 2" | "k = 3" by linarith
  then show ?thesis
    by cases (rule bit_word_eqI, auto simp: byte32_def get32_def get16_def bit_simps numeral_3_eq_3 dest: bit_imp_le_length)+
qed

lemma d_inode_byte_load: "j < 32 \<Longrightarrow> d_inode_byte (d_inode_load d p i) j = d (p + j)"
proof -
  assume j: "j < 32"
  have b: "byte16 (get16 d q) k = d (q + k)" if "k < 2" for q k
    using that byte16_get16 [of d q] by (cases k) auto
  consider "j < 2" | "2 \<le> j" "j < 4" | "4 \<le> j" "j < 8" | "8 \<le> j" "j < 12" | "j = 12" | "j = 13" | "14 \<le> j" by linarith
  then show ?thesis
  proof cases
    case 2
    have "p + 2 + (j - 2) = p + j" using 2 by simp
    moreover have "d_inode_byte (d_inode_load d p i) j = byte16 (get16 d (p + 2)) (j - 2)"
      using 2 by (simp add: d_inode_byte_def d_inode_load_def)
    ultimately show ?thesis using 2 b [of "j - 2" "p + 2"] by simp
  next
    case 7
    have "p + 14 + 2 * ((j - 14) div 2) + (j - 14) mod 2 = p + j" using 7 by presburger
    moreover have "(j - 14) div 2 < 9" using j by linarith
    ultimately show ?thesis using 7 b [of "(j - 14) mod 2" "p + 14 + 2 * ((j - 14) div 2)"]
      by (simp add: d_inode_byte_def d_inode_load_def add.commute)
  qed (simp_all add: d_inode_byte_def d_inode_load_def b byte32_get32)
qed

lemma put_back: "put p 32 (d_inode_byte (d_inode_load d p i)) d = d"
  by (auto simp: put_def d_inode_byte_load fun_eq_iff)

section \<open>The inode table between the steps\<close>

text \<open>
  \<open>itab_ok s sp\<close>: a mounted root file system; the inodes in use are not locked, not waited for and not mount points, free slots have
  no inode number, and there is one. \<open>itab_like s t\<close>: \<open>t\<close> differs from \<open>s\<close> only in the free slots and in the block layer, and
  the blocks on the disk are the same.
\<close>

definition itab_ok :: "kernel \<Rightarrow> nat \<Rightarrow> bool" where
  "itab_ok s sp \<longleftrightarrow> bio_inv s {} \<and> mounted s sp \<and> (\<exists>i<NINODE. i_count (k_inode s i) = 0) \<and>
     (\<forall>i<NINODE. let j = k_inode s i in if i_count j = 0 then i_num j = 0
        else i_flag j AND 3 = 0 \<and> i_flag j AND I_MOUNT = 0 \<and> i_count j < 0xFFFF)"

definition same_disk :: "kernel \<Rightarrow> kernel \<Rightarrow> bool" where
  "same_disk s t \<longleftrightarrow> (\<forall>n. blk_ok n \<longrightarrow> same_blk (disk_blk t n) (disk_blk s n))"

definition itab_like :: "kernel \<Rightarrow> kernel \<Rightarrow> bool" where
  "itab_like s t \<longleftrightarrow> bio_inv t {} \<and> bio_frame (s\<lparr>k_inode := k_inode t\<rparr>) t \<and> same_disk s t \<and>
     (\<forall>i. if i < NINODE \<and> i_count (k_inode s i) = 0 then i_count (k_inode t i) = 0 \<and> i_num (k_inode t i) = 0
        else k_inode t i = k_inode s i)"

lemma same_disk_refl: "same_disk s s"
  by (simp add: same_disk_def same_blk_def)

lemma same_disk_trans: "same_disk s t \<Longrightarrow> same_disk t u \<Longrightarrow> same_disk s u"
  by (auto simp: same_disk_def same_blk_def)

lemma bio_frame_inodes: "bio_frame (s\<lparr>k_inode := x\<rparr>) t \<Longrightarrow> bio_frame (t\<lparr>k_inode := y\<rparr>) u \<Longrightarrow> bio_frame (s\<lparr>k_inode := y\<rparr>) u"
proof -
  assume h: "bio_frame (s\<lparr>k_inode := x\<rparr>) t" "bio_frame (t\<lparr>k_inode := y\<rparr>) u"
  have n: "non_bio (r\<lparr>k_inode := z\<rparr>) = (non_bio r)\<lparr>k_inode := z\<rparr>" for r z by (simp add: non_bio_def)
  have "non_bio u = (non_bio t)\<lparr>k_inode := y\<rparr>" using h(2) n by (simp add: bio_frame_def)
  also have "non_bio t = (non_bio s)\<lparr>k_inode := x\<rparr>" using h(1) n by (simp add: bio_frame_def)
  finally show ?thesis using n by (simp add: bio_frame_def)
qed

lemma itab_like_refl: "itab_ok s sp \<Longrightarrow> itab_like s s"
  by (auto simp: itab_like_def itab_ok_def same_disk_refl Let_def)

lemma itab_like_trans: "itab_like s t \<Longrightarrow> itab_like t u \<Longrightarrow> itab_like s u"
proof -
  assume h: "itab_like s t" "itab_like t u"
  have "bio_frame (s\<lparr>k_inode := k_inode u\<rparr>) u" "same_disk s u"
    using h bio_frame_inodes same_disk_trans by (auto simp: itab_like_def)
  then show ?thesis using h unfolding itab_like_def by presburger
qed

lemma itab_like_mnt: "itab_like s t \<Longrightarrow> k_mnt t = k_mnt s"
  using bio_frame_fields(2) [of "s\<lparr>k_inode := k_inode t\<rparr>" t] by (simp add: itab_like_def)

lemma itab_like_ok:
  assumes "itab_ok s sp" "itab_like s t"
  shows "itab_ok t sp"
proof -
  have e: "i_count (k_inode t i) = 0 \<and> i_num (k_inode t i) = 0 \<or> k_inode t i = k_inode s i \<and> i_count (k_inode s i) \<noteq> 0"
    if "i < NINODE" for i
    using assms(2) that unfolding itab_like_def by (metis (full_types))
  have "mounted t sp" using assms(1) itab_like_mnt [OF assms(2)] mounted_frame by (auto simp: itab_ok_def)
  moreover have "\<exists>i<NINODE. i_count (k_inode t i) = 0"
    using assms unfolding itab_ok_def itab_like_def by (metis (full_types))
  moreover have "let j = k_inode t i in if i_count j = 0 then i_num j = 0
        else i_flag j AND 3 = 0 \<and> i_flag j AND I_MOUNT = 0 \<and> i_count j < 0xFFFF" if "i < NINODE" for i
  proof (cases "i_count (k_inode t i) = 0")
    case True
    then show ?thesis using e [OF that] by auto
  next
    case False
    then have "k_inode t i = k_inode s i" using e [OF that] by auto
    then show ?thesis using assms(1) that by (simp add: itab_ok_def)
  qed
  ultimately show ?thesis using assms(2) by (simp add: itab_ok_def itab_like_def)
qed

lemma ino_mod_eq: "f (k_inode s ip) = g (k_inode s ip) \<Longrightarrow> ino_mod ip f s = ino_mod ip g s"
  by (simp add: ino_mod_def)

section \<open>The inode of a number\<close>

definition in_core :: "kernel \<Rightarrow> uint \<Rightarrow> nat option" where
  "in_core s num = scan (\<lambda>i. i_dev (k_inode s i) = rootdev \<and> i_num (k_inode s i) = num) 0 NINODE"

definition on_disk :: "kernel \<Rightarrow> nat \<Rightarrow> uint \<Rightarrow> inode \<Rightarrow> inode" where
  "on_disk s sp num = d_inode_load (disk_blk s (IBLK (k_mnt s sp) num)) (itab_off num)"

definition node :: "kernel \<Rightarrow> nat \<Rightarrow> uint \<Rightarrow> inode" where
  "node s sp num = (case in_core s num of Some i \<Rightarrow> k_inode s i | None \<Rightarrow> on_disk s sp num zero_inode)"

text \<open>The fields that the entry of an inode on the disk has.\<close>

definition same_file :: "inode \<Rightarrow> inode \<Rightarrow> bool" where
  "same_file i j \<longleftrightarrow> i_mode i = i_mode j \<and> i_uid i = i_uid j \<and> i_size i = i_size j \<and> i_mtime i = i_mtime j \<and>
     i_gid i = i_gid j \<and> i_nlink i = i_nlink j \<and> (\<forall>k<9. i_zone i k = i_zone j k)"

lemma same_file_on_disk: "same_file (on_disk s sp num i) (on_disk s sp num j)"
  by (simp add: same_file_def on_disk_def d_inode_load_def)

definition num_ok :: "kernel \<Rightarrow> nat \<Rightarrow> uint \<Rightarrow> bool" where
  "num_ok s sp num \<longleftrightarrow> num \<noteq> 0 \<and> blk_ok (IBLK (k_mnt s sp) num)"

lemma in_core_like:
  assumes "itab_ok s sp" "itab_like s t" "num \<noteq> 0"
  shows "in_core t num = in_core s num"
  unfolding in_core_def
proof (rule scan_cong)
  fix i
  assume i: "0 \<le> i" "i < NINODE"
  show "(i_dev (k_inode t i) = rootdev \<and> i_num (k_inode t i) = num) = (i_dev (k_inode s i) = rootdev \<and> i_num (k_inode s i) = num)"
  proof (cases "i_count (k_inode s i) = 0")
    case True
    then have "i_num (k_inode s i) = 0" "i_num (k_inode t i) = 0"
      using assms(1,2) i unfolding itab_ok_def itab_like_def Let_def by (metis (full_types))+
    then show ?thesis using assms(3) by simp
  next
    case False
    then have "k_inode t i = k_inode s i" using assms(2) unfolding itab_like_def by metis
    then show ?thesis by simp
  qed
qed

lemma on_disk_like:
  assumes "same_disk s t" "k_mnt t = k_mnt s" "num_ok s sp num"
  shows "on_disk t sp num = on_disk s sp num"
  using assms d_inode_load_same [OF _ itab_off_le] by (auto simp: on_disk_def same_disk_def num_ok_def fun_eq_iff)

lemma in_core_used:
  assumes "itab_ok s sp" "in_core s num = Some ip" "num \<noteq> 0"
  shows "ip < NINODE" "i_dev (k_inode s ip) = rootdev" "i_num (k_inode s ip) = num" "i_count (k_inode s ip) \<noteq> 0"
    "i_flag (k_inode s ip) AND 3 = 0" "i_flag (k_inode s ip) AND I_MOUNT = 0" "i_count (k_inode s ip) < 0xFFFF"
proof -
  show h: "ip < NINODE" "i_dev (k_inode s ip) = rootdev" "i_num (k_inode s ip) = num"
    using assms(2) by (simp_all add: in_core_def scan_Some_iff)
  have "let j = k_inode s ip in if i_count j = 0 then i_num j = 0
        else i_flag j AND 3 = 0 \<and> i_flag j AND I_MOUNT = 0 \<and> i_count j < 0xFFFF"
    using assms(1) h(1) by (simp add: itab_ok_def)
  then show "i_count (k_inode s ip) \<noteq> 0" "i_flag (k_inode s ip) AND 3 = 0" "i_flag (k_inode s ip) AND I_MOUNT = 0"
    "i_count (k_inode s ip) < 0xFFFF"
    using h(3) assms(3) by (auto simp: Let_def split: if_splits)
qed

lemma node_like:
  assumes "itab_ok s sp" "itab_like s t" "num_ok s sp num"
  shows "node t sp num = node s sp num"
proof -
  have n: "num \<noteq> 0" using assms(3) by (simp add: num_ok_def)
  have c: "in_core t num = in_core s num" by (rule in_core_like [OF assms(1,2) n])
  show ?thesis
  proof (cases "in_core s num")
    case None
    have "on_disk t sp num = on_disk s sp num"
      using assms(2,3) itab_like_mnt by (intro on_disk_like) (auto simp: itab_like_def)
    then show ?thesis using c None by (simp add: node_def)
  next
    case (Some i)
    then have "i_count (k_inode s i) \<noteq> 0" using in_core_used(4) [OF assms(1) _ n] by simp
    then have "k_inode t i = k_inode s i" using assms(2) unfolding itab_like_def by metis
    then show ?thesis using c Some by (simp add: node_def)
  qed
qed

section \<open>Taking an inode\<close>

text \<open>
  \<open>taken t ip num u\<close>: the state in which \<^verbatim>\<open>iget\<close> leaves \<open>t\<close>, up to the block layer, with the inode in slot \<open>ip\<close>.
\<close>

definition taken_inode :: "kernel \<Rightarrow> nat \<Rightarrow> nat \<Rightarrow> uint \<Rightarrow> inode" where
  "taken_inode t sp ip num = (let i = k_inode t ip in
     if in_core t num = Some ip then i\<lparr>i_count := i_count i + 1, i_flag := i_flag i OR I_LOCK\<rparr>
     else on_disk t sp num (i\<lparr>i_dev := rootdev, i_num := num, i_flag := I_LOCK, i_count := 1\<rparr>))"

definition taken :: "kernel \<Rightarrow> nat \<Rightarrow> nat \<Rightarrow> uint \<Rightarrow> kernel \<Rightarrow> bool" where
  "taken t sp ip num u \<longleftrightarrow> ip < NINODE \<and> (in_core t num = Some ip \<or> in_core t num = None \<and> i_count (k_inode t ip) = 0) \<and>
     bio_inv u {} \<and> same_disk t u \<and> bio_frame (ino_mod ip (\<lambda>_. taken_inode t sp ip num) t) u"

lemma iget_taken:
  assumes ok: "itab_ok t sp" and n: "num_ok t sp num"
  shows "\<exists>ip u. iget rootdev num t = Ok (Some ip) u \<and> taken t sp ip num u"
proof (cases "in_core t num")
  case (Some ip)
  have nz: "num \<noteq> 0" using n by (simp add: num_ok_def)
  note c = in_core_used [OF ok Some nz]
  let ?u = "ino_mod ip (\<lambda>i. i\<lparr>i_count := i_count i + 1, i_flag := i_flag i OR I_LOCK\<rparr>) t"
  have "iget rootdev num t = Ok (Some ip) ?u"
    using Some low_flags(1) [OF c(5)] c(6) unfolding iget_unfold iget_loop.simps(2) in_core_def by (simp add: kop_simps)
  moreover have "ino_mod ip (\<lambda>_. taken_inode t sp ip num) t = ?u" using Some by (simp add: ino_mod_def taken_inode_def Let_def)
  ultimately show ?thesis using ok c(1) Some by (auto simp: taken_def itab_ok_def same_disk_def same_blk_def)
next
  case None
  obtain ip where ip: "scan (\<lambda>i. i_count (k_inode t i) = 0) 0 NINODE = Some ip"
    using ok scan_None_iff [of "\<lambda>i. i_count (k_inode t i) = 0" 0 NINODE] by (auto simp: itab_ok_def)
  then have i: "ip < NINODE" "i_count (k_inode t ip) = 0" by (simp_all add: scan_Some_iff)
  let ?g = "\<lambda>i. i\<lparr>i_dev := rootdev, i_num := num, i_flag := I_LOCK, i_count := i_count i + 1\<rparr>"
  let ?t = "ino_mod ip ?g t" and ?n = "IBLK (k_mnt t sp) num"
  have at: "ino_at ?t ip ?n" using ok n by (auto simp: ino_at_def itab_ok_def num_ok_def)
  have h: "held_inv ?t {}" using ok held_empty(1) by (simp add: itab_ok_def)
  obtain u where u: "iload ip ?t = Ok 0 u" "held_inv u {}" "disk_blk u = disk_blk t"
    "bio_frame (ino_mod ip (\<lambda>i. d_inode_load (disk_blk t ?n) (itab_off (i_num i)) i) ?t) u"
    using iload_Ok [OF h held_empty(2) _ at refl] by auto
  have "iget rootdev num t = Ok (Some ip) u"
    using None ip u(1) unfolding iget_unfold iget_loop.simps(2) in_core_def by (simp add: kop_simps)
  moreover have "ino_mod ip (\<lambda>i. d_inode_load (disk_blk t ?n) (itab_off (i_num i)) i) ?t = ino_mod ip (\<lambda>_. taken_inode t sp ip num) t"
    using None i(2) by (simp add: ino_mod_def taken_inode_def on_disk_def Let_def)
  ultimately show ?thesis using u i None held_empty(1) by (auto simp: taken_def same_disk_def same_blk_def)
qed

lemma taken_like:
  assumes "taken t sp ip num u" "bio_frame u u'" "bio_inv u' {}" "disk_blk u' = disk_blk u"
  shows "taken t sp ip num u'"
  using assms bio_frame_trans by (auto simp: taken_def same_disk_def)

lemma taken_inodes: "taken t sp ip num u \<Longrightarrow> k_inode u = (k_inode t)(ip := taken_inode t sp ip num)" "taken t sp ip num u \<Longrightarrow> k_mnt u = k_mnt t"
  using bio_frame_fields(1,2) [of "ino_mod ip (\<lambda>_. taken_inode t sp ip num) t" u] by (simp_all add: taken_def)

lemma taken_node:
  assumes "itab_ok t sp" "num \<noteq> 0" "taken t sp ip num u"
  shows "same_file (k_inode u ip) (node t sp num)" "i_dev (k_inode u ip) = rootdev" "i_num (k_inode u ip) = num"
    "i_flag (k_inode u ip) AND 3 = I_LOCK"
proof -
  have u: "k_inode u ip = taken_inode t sp ip num" using taken_inodes(1) [OF assms(3)] by simp
  have "same_file (k_inode u ip) (node t sp num) \<and> i_dev (k_inode u ip) = rootdev \<and> i_num (k_inode u ip) = num \<and>
    i_flag (k_inode u ip) AND 3 = I_LOCK"
  proof (cases "in_core t num = Some ip")
    case True
    note c = in_core_used [OF assms(1) True assms(2)]
    have "(i_flag (k_inode t ip) OR 1) AND 3 = 1" using c(5) by (simp add: bit.conj_disj_distrib2)
    then show ?thesis using True c u by (simp add: taken_inode_def Let_def node_def same_file_def)
  next
    case False
    then have "in_core t num = None" using assms(3) by (simp add: taken_def)
    then show ?thesis using False u same_file_on_disk
      by (simp add: taken_inode_def Let_def node_def) (simp add: on_disk_def d_inode_load_def)
  qed
  then show "same_file (k_inode u ip) (node t sp num)" "i_dev (k_inode u ip) = rootdev" "i_num (k_inode u ip) = num"
    "i_flag (k_inode u ip) AND 3 = I_LOCK" by simp_all
qed

section \<open>Releasing an inode\<close>

lemma itab_like_ino:
  assumes "bio_inv v {}" "bio_frame (ino_mod ip (\<lambda>_. x) t) v" "same_disk t v" "ip < NINODE"
    and "x = k_inode t ip \<and> i_count x \<noteq> 0 \<or> i_count (k_inode t ip) = 0 \<and> i_count x = 0 \<and> i_num x = 0" "itab_ok t sp"
  shows "itab_like t v"
proof -
  have k: "k_inode v = (k_inode t)(ip := x)" using bio_frame_fields(1) [OF assms(2)] by simp
  have "bio_frame (t\<lparr>k_inode := k_inode v\<rparr>) v" using assms(2) k by (simp add: ino_mod_def)
  moreover have "if i < NINODE \<and> i_count (k_inode t i) = 0 then i_count (k_inode v i) = 0 \<and> i_num (k_inode v i) = 0
      else k_inode v i = k_inode t i" for i
    using k assms(4,5,6) by (auto simp: itab_ok_def Let_def split: if_splits)
  ultimately show ?thesis using assms(1,3) by (simp add: itab_like_def)
qed

lemma iput_in_use:
  assumes ok: "itab_ok t sp" and n: "num \<noteq> 0" and c: "in_core t num = Some ip" and tk: "taken t sp ip num u"
  shows "\<exists>v. iput (Some ip) u = Ok () v \<and> itab_like t v \<and> i_dev (k_inode v ip) = rootdev"
proof -
  let ?i = "k_inode t ip"
  note p = in_core_used [OF ok c n]
  have u: "k_inode u ip = ?i\<lparr>i_count := i_count ?i + 1, i_flag := i_flag ?i OR I_LOCK\<rparr>"
    using taken_inodes(1) [OF tk] c by (simp add: taken_inode_def Let_def)
  have g: "(i_flag ?i OR 1) AND 2 = 0" "(i_flag ?i OR 1) AND NOT 3 = i_flag ?i"
    using low_flags [OF p(5)] by (simp_all add: bit.conj_disj_distrib2)
  have "unat (i_count ?i) < 65535" "0 < unat (i_count ?i)" using p(4,7) by (simp_all add: word_less_nat_alt unat_gt_0)
  then have cnt: "1 < i_count ?i + 1" by (simp add: word_less_nat_alt unat_word_ariths)
  define v where "v = ino_mod ip (\<lambda>_. ?i) u"
  have "iput (Some ip) u = Ok () (ino_mod ip (\<lambda>i. i\<lparr>i_count := i_count i - 1, i_flag := i_flag i AND NOT (I_LOCK OR I_WANTED)\<rparr>) u)"
    by (rule iput_shared) (simp_all add: u cnt g(1))
  also have "\<dots> = Ok () v" unfolding v_def by (intro arg_cong [where f = "Ok ()"] ino_mod_eq) (use g(2) in \<open>simp add: u\<close>)
  finally have "iput (Some ip) u = Ok () v" .
  moreover have "bio_frame (ino_mod ip (\<lambda>_. ?i) t) v"
    using bio_frame_ino_mod [of "ino_mod ip (\<lambda>_. taken_inode t sp ip num) t" u ip "\<lambda>_. ?i"] tk
    by (simp add: v_def taken_def ino_mod_comp)
  then have "itab_like t v" using tk p(1,4) ok
    by (intro itab_like_ino [where x = ?i]) (simp_all add: v_def taken_def same_disk_def)
  ultimately show ?thesis using p(2) by (auto simp: v_def)
qed

lemma iput_last:
  assumes ok: "itab_ok t sp" and n: "num_ok t sp num" and c: "in_core t num = None" and tk: "taken t sp ip num u"
    and dir: "i_mode (node t sp num) AND S_IFMT = S_IFDIR" "i_nlink (node t sp num) \<noteq> 0"
  shows "\<exists>v. iput (Some ip) u = Ok () v \<and> itab_like t v \<and> i_dev (k_inode v ip) = rootdev"
proof -
  let ?n = "IBLK (k_mnt t sp) num" and ?X = "taken_inode t sp ip num"
  have ip: "ip < NINODE" "i_count (k_inode t ip) = 0" using tk c by (auto simp: taken_def)
  have sf: "same_file ?X (node t sp num)"
    using taken_node(1) [OF ok _ tk] n taken_inodes(1) [OF tk] by (simp add: num_ok_def)
  have X: "i_count ?X = 1" "i_flag ?X = I_LOCK" "i_num ?X = num" "i_dev ?X = rootdev"
    "i_mode ?X AND S_IFMT = S_IFDIR" "i_nlink ?X \<noteq> 0"
    using c dir sf by (simp_all add: taken_inode_def Let_def on_disk_def d_inode_load_def same_file_def)
  define u2 where "u2 = ino_mod ip (\<lambda>i. i\<lparr>i_count := 0\<rparr>) u"
  have ku: "k_inode u ip = ?X" "k_mnt u = k_mnt t" using taken_inodes [OF tk] by simp_all
  have k2: "k_inode u2 ip = ?X\<lparr>i_count := 0\<rparr>" "k_mnt u2 = k_mnt t" "disk_blk u2 = disk_blk u" "bio_inv u2 {}"
    using ku tk by (simp_all add: u2_def taken_def)
  have at: "ino_at u2 ip ?n" using k2 X ok n by (auto simp: ino_at_def itab_ok_def num_ok_def mounted_def)
  obtain s' where s': "iupdate ip u2 = Ok () s'" "held_inv s' {}"
    "bio_frame (ino_mod ip (\<lambda>i. i\<lparr>i_flag := i_flag i AND NOT I_DIRTY\<rparr>) u2) s'"
    "disk_upd u2 s' ?n (put (itab_off num) 32 (d_inode_byte (?X\<lparr>i_count := 0\<rparr>)) (disk_blk u ?n))"
    using iupdate_Ok [OF _ held_empty(2) _ at] k2 held_empty(1) X(3) by auto
  have "same_disk u s'"
  proof -
    have d: "same_blk (disk_blk u ?n) (disk_blk t ?n)" using tk n by (simp add: taken_def same_disk_def num_ok_def)
    have "?X\<lparr>i_count := 0\<rparr> = d_inode_load (disk_blk t ?n) (itab_off num)
        ((k_inode t ip)\<lparr>i_dev := rootdev, i_num := num, i_flag := I_LOCK, i_count := 0\<rparr>)"
      using c by (simp add: taken_inode_def Let_def on_disk_def d_inode_load_def cong: if_cong)
    then have "put (itab_off num) 32 (d_inode_byte (?X\<lparr>i_count := 0\<rparr>)) (disk_blk t ?n) = disk_blk t ?n"
      by (simp only: put_back)
    then have "same_blk (put (itab_off num) 32 (d_inode_byte (?X\<lparr>i_count := 0\<rparr>)) (disk_blk u ?n)) (disk_blk t ?n)"
      using put_same [OF d] by metis
    then have "same_blk (disk_blk s' ?n) (disk_blk u ?n)" using s'(4) d by (auto simp: disk_upd_def same_blk_def)
    then show ?thesis using s'(4) k2(3) by (auto simp: same_disk_def disk_upd_def same_blk_def)
  qed
  define v where "v = ino_mod ip (\<lambda>_. ?X\<lparr>i_count := 0, i_flag := 0, i_num := 0\<rparr>) s'"
  have ks: "k_inode s' ip = ?X\<lparr>i_count := 0, i_flag := I_LOCK AND NOT I_DIRTY\<rparr>"
    using bio_frame_fields(1) [OF s'(3)] k2(1) X(2) by simp
  have m: "ino_mod ip (\<lambda>i. if i_count i > 0 then i\<lparr>i_count := i_count i - 1\<rparr> else i)
      (ino_mod ip (\<lambda>i. i\<lparr>i_flag := i_flag i OR I_LOCK\<rparr>) u) = u2"
    unfolding ino_mod_comp u2_def by (rule ino_mod_eq, rule inode.equality) (simp_all add: ku(1) X(1,2))
  have "iput (Some ip) u = Ok () (ino_mod ip (\<lambda>i. i\<lparr>i_flag := i_flag i AND NOT (I_LOCK OR I_WANTED)\<rparr>)
      (ino_mod ip (\<lambda>i. i\<lparr>i_flag := 0, i_num := 0\<rparr>) s'))"
    using m s'(1) k2(1) X(5,6) by (simp add: iput_def unlk_ino_def kop_simps)
  also have "\<dots> = Ok () v" unfolding ino_mod_comp v_def
    using ks by (intro arg_cong [where f = "Ok ()"], intro ino_mod_eq, intro inode.equality) simp_all
  finally have "iput (Some ip) u = Ok () v" .
  moreover have "itab_like t v"
  proof (rule itab_like_ino [OF _ _ _ ip(1) _ ok])
    show "bio_inv v {}" using s'(2) held_empty(1) by (simp add: v_def)
    let ?F = "\<lambda>i. i\<lparr>i_count := 0, i_flag := i_flag i AND NOT I_DIRTY\<rparr>"
    have "bio_frame (ino_mod ip (\<lambda>_. ?X) t) u" using tk by (simp add: taken_def)
    note h = bio_frame_ino_mod [OF this, of ip ?F]
    have "ino_mod ip (\<lambda>i. i\<lparr>i_flag := i_flag i AND NOT I_DIRTY\<rparr>) u2 = ino_mod ip ?F u"
      by (simp add: u2_def ino_mod_comp)
    with s'(3) have "bio_frame (ino_mod ip ?F u) s'" by (simp only:)
    with h have "bio_frame (ino_mod ip ?F (ino_mod ip (\<lambda>_. ?X) t)) s'" by (rule bio_frame_trans)
    from bio_frame_ino_mod [OF this, of ip "\<lambda>_. ?X\<lparr>i_count := 0, i_flag := 0, i_num := 0\<rparr>"]
    show "bio_frame (ino_mod ip (\<lambda>_. ?X\<lparr>i_count := 0, i_flag := 0, i_num := 0\<rparr>) t) v"
      by (simp add: v_def ino_mod_comp)
    show "same_disk t v" using tk \<open>same_disk u s'\<close> same_disk_trans by (auto simp: taken_def v_def same_disk_def)
  qed (use ip(2) in simp)
  ultimately show ?thesis using X(4) by (auto simp: v_def)
qed

lemma iput_taken:
  assumes "itab_ok t sp" "num_ok t sp num" "taken t sp ip num u"
    and "i_mode (node t sp num) AND S_IFMT = S_IFDIR" "i_nlink (node t sp num) \<noteq> 0"
  shows "\<exists>v. iput (Some ip) u = Ok () v \<and> itab_like t v \<and> i_dev (k_inode v ip) = rootdev"
  using assms iput_in_use [OF assms(1) _ _ assms(3)] iput_last [OF assms(1,2) _ assms(3-5)]
  by (auto simp: taken_def num_ok_def)

section \<open>The tree\<close>

text \<open>
  \<open>dentry s sp a c b\<close>: the inode with the number \<open>a\<close> is a directory with links whose first block has an entry with the name \<open>c\<close>,
  the first of this name has the number \<open>b\<close>.
\<close>

definition dentry :: "kernel \<Rightarrow> nat \<Rightarrow> uint \<Rightarrow> uchar list \<Rightarrow> uint \<Rightarrow> bool" where
  "dentry s sp a c b \<longleftrightarrow> (let i = node s sp a; z = ucast (i_zone i 0) in
     i_mode i AND S_IFMT = S_IFDIR \<and> i_nlink i \<noteq> 0 \<and> i_size i \<le> 0x4000000 \<and> i_zone i 8 = 0 \<and> length c \<le> NAMELEN \<and>
     (\<exists>n ns k. dir_names (disk_blk s z) n ns \<and> k < n \<and> first_named ns c k \<and> b = ucast (get16 (disk_blk s z) (32 * k)))) \<and>
     num_ok s sp b"

inductive path_to :: "kernel \<Rightarrow> nat \<Rightarrow> uint \<Rightarrow> uchar list list \<Rightarrow> uint \<Rightarrow> bool" for s sp where
  here: "path_to s sp a [] a"
| down: "dentry s sp a c b \<Longrightarrow> path_to s sp b cs d \<Longrightarrow> path_to s sp a (c # cs) d"

inductive_cases path_to_NilE: "path_to s sp a [] d"
inductive_cases path_to_ConsE: "path_to s sp a (c # cs) d"

lemma dentry_like:
  assumes "itab_ok s sp" "itab_like s t" "num_ok s sp a" "dentry s sp a c b"
  shows "dentry t sp a c b"
proof -
  have nd: "node t sp a = node s sp a" by (rule node_like [OF assms(1-3)])
  let ?z = "ucast (i_zone (node s sp a) 0) :: uint"
  have d: "same_blk (disk_blk t ?z) (disk_blk s ?z)"
    using assms(2) zone_blk_ok(1) unfolding itab_like_def same_disk_def by blast
  obtain n ns k where e: "dir_names (disk_blk s ?z) n ns" "k < n" "first_named ns c k" "b = ucast (get16 (disk_blk s ?z) (32 * k))"
    using assms(4) by (auto simp: dentry_def Let_def)
  have n: "n \<le> 32" using e(1) by (simp add: dir_names_def)
  have "dir_names (disk_blk t ?z) n ns"
    using d n by (intro dir_names_cong [OF e(1)]) (auto simp: same_blk_def)
  moreover have "get16 (disk_blk t ?z) (32 * k) = get16 (disk_blk s ?z) (32 * k)" using e(2) n by (intro get_same(1) [OF d]) simp
  moreover have "num_ok t sp b" using assms(4) itab_like_mnt [OF assms(2)] by (simp add: dentry_def num_ok_def)
  ultimately show ?thesis using assms(4) e nd unfolding dentry_def Let_def by metis
qed

text \<open>A directory that is taken is searched for the name.\<close>

lemma find_entry_taken:
  assumes ok: "itab_ok t sp" and n: "num_ok t sp a" and tk: "taken t sp ip a u" and d: "dentry t sp a c b" and nm: "name_at pm p c"
  shows "\<exists>u'. find_entry ip pm p (length c) u = Ok b u' \<and> taken t sp ip a u' \<and> ucast (ucast b :: ushort) = b"
proof -
  let ?i = "node t sp a"
  let ?z = "ucast (i_zone ?i 0) :: uint"
  have sf: "same_file (k_inode u ip) ?i" "i_dev (k_inode u ip) = rootdev"
    using taken_node [OF ok _ tk] n by (simp_all add: num_ok_def)
  obtain m ns k where e: "dir_names (disk_blk t ?z) m ns" "k < m" "first_named ns c k" "b = ucast (get16 (disk_blk t ?z) (32 * k))"
    using d by (auto simp: dentry_def Let_def)
  have i: "i_mode ?i AND S_IFMT = S_IFDIR" "i_size ?i \<le> 0x4000000" "i_zone ?i 8 = 0"
    using d by (simp_all add: dentry_def Let_def)
  have f: "i_mode (k_inode u ip) = i_mode ?i" "i_size (k_inode u ip) = i_size ?i" "i_zone (k_inode u ip) 8 = 0" "i_zone (k_inode u ip) 0 = i_zone ?i 0"
    using sf(1) i(3) by (simp_all add: same_file_def)
  have "dir_at u ip ?z"
    using f i sf(2) zone_blk_ok(1) by (simp add: dir_at_def file_ok_def zmaps_ok_def zone_of_def Let_def)
  moreover have sd: "same_blk (disk_blk u ?z) (disk_blk t ?z)"
    using tk zone_blk_ok(1) unfolding taken_def same_disk_def by blast
  moreover have m: "m \<le> 32" using e(1) by (simp add: dir_names_def)
  moreover have "dir_names (disk_blk u ?z) m ns"
    using sd m by (intro dir_names_cong [OF e(1)]) (auto simp: same_blk_def)
  moreover have "held_inv u {}" using tk held_empty(1) by (simp add: taken_def)
  ultimately obtain u' where u': "find_entry ip pm p (length c) u = Ok (ucast (get16 (disk_blk u ?z) (32 * k))) u'"
    "held_inv u' {}" "bio_frame u u'" "disk_blk u' = disk_blk u"
    using find_entry_Ok [of u ip ?z m ns k pm p c] e(2,3) nm by blast
  have "get16 (disk_blk u ?z) (32 * k) = get16 (disk_blk t ?z) (32 * k)" using e(2) m by (intro get_same(1) [OF sd]) simp
  moreover have "ucast (ucast (ucast w :: uint) :: ushort) = (ucast w :: uint)" for w :: ushort
    by (rule bit_word_eqI) (auto simp: bit_simps dest: bit_imp_le_length)
  ultimately show ?thesis using u' e(4) taken_like [OF tk u'(3)] held_empty(1) by auto
qed

section \<open>The walk\<close>

lemma cstr_drop: "cstr m p (xs @ ys) \<Longrightarrow> cstr m (p + length xs) ys"
  by (induction xs arbitrary: p) (simp_all, metis add_Suc)

lemma name_at_prefix:
  assumes "cstr m p (xs @ ys)" "length xs \<le> NAMELEN"
  shows "name_at m p xs"
proof -
  have "m (p + i) = xs ! i \<and> xs ! i \<noteq> 0" if "i < length xs" for i
  proof -
    have "m (p + i) = (xs @ ys) ! i \<and> (xs @ ys) ! i \<noteq> 0" using assms(1) that by (simp add: cstr_nth)
    then show ?thesis using that by (simp add: nth_append)
  qed
  then have "bytes m p (length xs) = xs" "0 \<notin> set xs"
    by (auto simp: bytes_def in_set_conv_nth intro!: nth_equalityI)
  then show ?thesis using assms(2) by (simp add: name_at_def)
qed

lemma namei_loop_walks:
  assumes ok: "itab_ok s sp"
  shows "cstr pm p xs \<Longrightarrow> length xs \<le> fuel \<Longrightarrow> path_to s sp a (split_at 0x2F xs) d \<Longrightarrow> num_ok s sp a \<Longrightarrow>
    itab_like s t \<Longrightarrow> taken t sp ip a u \<Longrightarrow>
    \<exists>t' ip' u'. namei_loop fuel pm 0 False (Some ip) p u = Ok (Some ip', None) u' \<and> itab_like s t' \<and> taken t' sp ip' d u' \<and> num_ok s sp d"
proof (induction "0x2F :: uchar" xs arbitrary: fuel p a t ip u rule: split_at.induct)
  case 1
  then have "d = a" by (auto elim: path_to_NilE)
  moreover have "namei_loop fuel pm 0 False (Some ip) p u = Ok (Some ip, None) u"
    using 1 by (cases fuel) (simp_all add: kop_simps)
  ultimately show ?case using 1 by blast
next
  case (2 x xs)
  obtain f where f: "fuel = Suc f" "length xs \<le> f" using "2.prems"(2) by (cases fuel) auto
  have x: "pm p = x" "x \<noteq> 0" "cstr pm (p + 1) xs" using "2.prems"(1) by simp_all
  show ?case
  proof (cases "x = 0x2F")
    case True
    then show ?thesis using "2.hyps"(1) [OF True x(3) f(2) _ "2.prems"(4-6)] "2.prems"(3) x(1) f(1) by simp
  next
    case False
    let ?c = "x # takeWhile (\<lambda>y. y \<noteq> 0x2F) xs" and ?r = "dropWhile (\<lambda>y. y \<noteq> 0x2F) xs"
    from "2.prems"(3) False have "path_to s sp a (?c # split_at 0x2F ?r) d" by simp
    then obtain b where b: "dentry s sp a ?c b" "path_to s sp b (split_at 0x2F ?r) d" by (elim path_to_ConsE)
    have nb: "num_ok s sp b" and l: "length ?c \<le> NAMELEN" using b(1) by (simp_all add: dentry_def Let_def)
    note okt = itab_like_ok [OF ok "2.prems"(5)]
    have na: "num_ok t sp a" "num_ok t sp b"
      using "2.prems"(4) nb itab_like_mnt [OF "2.prems"(5)] by (simp_all add: num_ok_def)
    have dt: "dentry t sp a ?c b" by (rule dentry_like [OF ok "2.prems"(5,4) b(1)])
    obtain u1 where u1: "find_entry ip pm p (length ?c) u = Ok b u1" "taken t sp ip a u1" "ucast (ucast b :: ushort) = b"
      using find_entry_taken [OF okt na(1) "2.prems"(6) dt name_at_prefix [of pm p ?c ?r, OF _ l]] "2.prems"(1) by auto
    have nd: "i_mode (node t sp a) AND S_IFMT = S_IFDIR" "i_nlink (node t sp a) \<noteq> 0" using dt by (simp_all add: dentry_def Let_def)
    obtain v where v: "iput (Some ip) u1 = Ok () v" "itab_like t v" "i_dev (k_inode v ip) = rootdev"
      using iput_taken [OF okt na(1) u1(2) nd] by blast
    have lv: "itab_like s v" by (rule itab_like_trans [OF "2.prems"(5) v(2)])
    have nv: "num_ok v sp b" using nb itab_like_mnt [OF lv] by (simp add: num_ok_def)
    obtain ip' w where w: "iget rootdev b v = Ok (Some ip') w" "taken v sp ip' b w"
      using iget_taken [OF itab_like_ok [OF ok lv] nv] by blast
    have cr: "cstr pm (p + length ?c) ?r" using cstr_drop [of pm p ?c ?r] "2.prems"(1) by simp
    have fr: "length ?r \<le> f" using f(2) length_dropWhile_le [of "\<lambda>y. y \<noteq> 0x2F" xs] by linarith
    obtain t' ip'' u' where IH: "namei_loop f pm 0 False (Some ip') (p + length ?c) w = Ok (Some ip'', None) u'"
      "itab_like s t'" "taken t' sp ip'' d u'" "num_ok s sp d"
      using "2.hyps"(2) [OF False cr fr b(2) nb lv w(2)] by blast
    have dir: "i_mode (k_inode u ip) AND S_IFMT = S_IFDIR"
      using taken_node(1) [OF okt _ "2.prems"(6)] na(1) nd(1) by (simp add: same_file_def num_ok_def)
    define L where "L = length ?c"
    have len: "unat (of_nat L :: ushort) = L" using l unfolding L_def [symmetric] by (simp add: unat_of_nat take_bit_nat_eq_self)
    have b0: "(ucast b :: ushort) \<noteq> 0" using u1(3) nb by (auto simp: num_ok_def)
    obtain tmp where tmp: "strchr pm p 0x2F = Some tmp" "(case tmp of None \<Rightarrow> strlen pm p | Some t \<Rightarrow> Some (t - p)) = Some L"
    proof (cases "0x2F \<in> set xs")
      case True
      then show thesis using that [of "Some (p + length ?c)"] strchr_cstr [OF "2.prems"(1), of "0x2F"] False by (simp add: L_def)
    next
      case no: False
      then have tw: "takeWhile (\<lambda>y. y \<noteq> 0x2F) xs = xs" by (auto simp: takeWhile_eq_all_conv)
      have "L = Suc (length xs)" unfolding L_def tw by simp
      then show thesis using that [of None] strchr_cstr [OF "2.prems"(1), of "0x2F"] strlen_cstr [OF "2.prems"(1)] no False by simp
    qed
    have "namei_loop fuel pm 0 False (Some ip) p u = Ok (Some ip'', None) u'"
      unfolding f(1) namei_loop.simps
      using x(1,2) False dir tmp len b0 u1(1) [folded L_def] u1(3) v(1,3) w(1) IH(1) [folded L_def]
      by (simp add: kop_simps kderef_def Let_def)
    then show ?thesis using IH(2-4) by blast
  qed
qed

section \<open>Properties\<close>

text \<open>The inode at which the walk starts: the root for an absolute path, else the working directory of the current process.\<close>

definition start_of :: "kernel \<Rightarrow> mem \<Rightarrow> nat \<Rightarrow> uint \<Rightarrow> bool" where
  "start_of s pm p a \<longleftrightarrow> (if pm p = 0x2F then a = ROOTINO
     else \<exists>c cd. k_proc s (k_cu s) = Some c \<and> p_wdir c = Some cd \<and> i_dev (k_inode s cd) = rootdev \<and> i_num (k_inode s cd) = a)"

lemma namei_walks:
  assumes ok: "itab_ok s sp" and path: "cstr pm p xs" "path_to s sp a (split_at 0x2F xs) d"
    and a: "start_of s pm p a" "num_ok s sp a"
  shows "\<exists>t ip u. namei pm p 0 s = Ok (Some ip) u \<and> itab_like s t \<and> taken t sp ip d u \<and> num_ok s sp d"
proof -
  obtain ip0 u0 where u0: "iget rootdev a s = Ok (Some ip0) u0" "taken s sp ip0 a u0" using iget_taken [OF ok a(2)] by blast
  obtain t ip u where w: "namei_loop (length xs) pm 0 False (Some ip0) p u0 = Ok (Some ip, None) u"
    "itab_like s t" "taken t sp ip d u" "num_ok s sp d"
    using namei_loop_walks [OF ok path(1) order_refl path(2) a(2) itab_like_refl [OF ok] u0(2)] by blast
  have "namei_from pm p 0 False s = Ok (Some ip, None) u"
    using a(1) u0(1) w(1) strlen_cstr [OF path(1)]
    by (auto simp: namei_from_def start_of_def kop_simps cu_get_def kderef_def split: if_splits)
  then have "namei pm p 0 s = Ok (Some ip) u" by (simp add: namei_def kop_simps)
  then show ?thesis using w(2-4) by blast
qed

text \<open>
  C9: path names. Let the components of a path lead from the root, or from the working directory if the path does not begin with
  a slash, through directories to an inode. Then \<^verbatim>\<open>namei\<close> returns a slot of the inode table
  with this inode, locked and with one reference more than before (one, if it was not in core), and with the fields that it had in core, or
  has on the disk. All other inodes in use, and the disk, are as they were, whether the directories on the way were in
  core or had to be loaded.
\<close>

theorem namei_resolves:
  assumes ok: "itab_ok s sp" and path: "cstr pm p xs" "path_to s sp a (split_at 0x2F xs) d"
    and a: "start_of s pm p a" "num_ok s sp a"
  shows "\<exists>ip u. namei pm p 0 s = Ok (Some ip) u \<and> bio_inv u {} \<and> same_disk s u \<and>
    ip < NINODE \<and> i_dev (k_inode u ip) = rootdev \<and> i_num (k_inode u ip) = d \<and> i_flag (k_inode u ip) AND 3 = I_LOCK \<and>
    same_file (k_inode u ip) (node s sp d) \<and>
    i_count (k_inode u ip) = (case in_core s d of None \<Rightarrow> 1 | Some i \<Rightarrow> i_count (k_inode s i) + 1) \<and>
    (\<forall>i. i \<noteq> ip \<longrightarrow> i < NINODE \<and> i_count (k_inode s i) = 0 \<or> k_inode u i = k_inode s i)"
proof -
  obtain t ip u where n: "namei pm p 0 s = Ok (Some ip) u" and w: "itab_like s t" "taken t sp ip d u" "num_ok s sp d"
    using namei_walks [OF assms] by blast
  have okt: "itab_ok t sp" by (rule itab_like_ok [OF ok w(1)])
  have d: "d \<noteq> 0" using w(3) by (simp add: num_ok_def)
  have "same_file (k_inode u ip) (node s sp d)"
    using taken_node(1) [OF okt d w(2)] node_like [OF ok w(1,3)] by simp
  moreover note taken_node(2-4) [OF okt d w(2)]
  moreover have "same_disk s u" using w(1,2) same_disk_trans by (auto simp: itab_like_def taken_def)
  moreover have "i_count (k_inode u ip) = (case in_core s d of None \<Rightarrow> 1 | Some i \<Rightarrow> i_count (k_inode s i) + 1)"
  proof -
    have c: "in_core t d = in_core s d" by (rule in_core_like [OF ok w(1) d])
    have "k_inode t i = k_inode s i" if "in_core s d = Some i" for i
      using in_core_used(4) [OF ok that d] w(1) unfolding itab_like_def by metis
    then show ?thesis using taken_inodes(1) [OF w(2)] w(2) c
      by (auto simp: taken_inode_def Let_def taken_def on_disk_def d_inode_load_def)
  qed
  moreover have "i < NINODE \<and> i_count (k_inode s i) = 0 \<or> k_inode u i = k_inode s i" if "i \<noteq> ip" for i
    using taken_inodes(1) [OF w(2)] w(1) that unfolding itab_like_def by (metis fun_upd_other)
  moreover have "ip < NINODE" "bio_inv u {}" using w(2) by (simp_all add: taken_def)
  ultimately show ?thesis using n by blast
qed

section \<open>Witness\<close>

text \<open>
  A root directory in zone 10, inode 1 on the disk, with the entries \<^verbatim>\<open>.\<close> and \<^verbatim>\<open>a\<close>, the second a file of three bytes in zone 11. Only the inode
  of a terminal is in core. The path is \<^verbatim>\<open>/a\<close>.
\<close>

definition tty_inode :: inode where
  "tty_inode = zero_inode\<lparr>i_mode := S_IFCHR, i_dev := rootdev, i_num := 9, i_count := 1, i_nlink := 1, i_zone := (\<lambda>_. 0x100)\<rparr>"

definition root_entry :: block where
  "root_entry = (\<lambda>_. 0)(1 := 0x40, 4 := 64, 13 := 1, 14 := 10, 193 := 0x80, 196 := 3, 205 := 1, 206 := 11)"

definition root_fs :: "kernel \<Rightarrow> kernel" where
  "root_fs s = fs_state (\<lambda>n. if n = 4 then root_entry else if n = 10 then dir_block else if n = 11 then (\<lambda>_. 65) else (\<lambda>_. 0))
     (s\<lparr>k_mnt := (\<lambda>_. zero_super)(0 := small_super), k_inode := (\<lambda>_. zero_inode)(5 := tty_inode)\<rparr>)"

lemma root_fs_Ok:
  assumes "b_flag (k_buf s Hdtab) = 0" "k_proc s (k_cu s) \<noteq> None"
  shows "itab_ok (root_fs s) 0" "k_mnt (root_fs s) 0 = small_super" "in_core (root_fs s) 1 = None" "in_core (root_fs s) 7 = None"
    "disk_blk (root_fs s) 4 = root_entry" "disk_blk (root_fs s) 10 = dir_block" "disk_blk (root_fs s) 11 = (\<lambda>_. 65)"
    "k_inode (root_fs s) = (\<lambda>_. zero_inode)(5 := tty_inode)"
proof -
  let ?s = "s\<lparr>k_mnt := (\<lambda>_. zero_super)(0 := small_super), k_inode := (\<lambda>_. zero_inode)(5 := tty_inode)\<rparr>"
  have "b_flag (k_buf ?s Hdtab) = 0" "k_proc ?s (k_cu ?s) \<noteq> None" using assms by simp_all
  note f = fs_state_Ok [OF this]
  show m: "k_mnt (root_fs s) 0 = small_super" unfolding root_fs_def f(3) by simp
  then have mt: "mounted (root_fs s) 0" by (simp add: mounted_def) (simp add: small_super_def zero_super_def)
  show "disk_blk (root_fs s) 4 = root_entry" "disk_blk (root_fs s) 10 = dir_block" "disk_blk (root_fs s) 11 = (\<lambda>_. 65)"
    by (simp_all add: root_fs_def f(2))
  show i: "k_inode (root_fs s) = (\<lambda>_. zero_inode)(5 := tty_inode)" unfolding root_fs_def f(4) by simp
  show "in_core (root_fs s) 1 = None" "in_core (root_fs s) 7 = None"
    by (simp_all add: in_core_def scan_None_iff i zero_inode_def tty_inode_def)
  have "bio_inv (root_fs s) {}" unfolding root_fs_def by (rule f(1))
  then show "itab_ok (root_fs s) 0" using mt by (auto simp: itab_ok_def i zero_inode_def tty_inode_def Let_def intro: exI [of _ 0])
qed

lemma root_fs_num:
  assumes "b_flag (k_buf s Hdtab) = 0" "k_proc s (k_cu s) \<noteq> None"
  shows "num_ok (root_fs s) 0 1" "num_ok (root_fs s) 0 7" "IBLK (k_mnt (root_fs s) 0) 1 = 4" "IBLK (k_mnt (root_fs s) 0) 7 = 4"
  by (simp_all add: num_ok_def root_fs_Ok(2) [OF assms] IBLK_def small_super_def)

lemma root_fs_entry:
  assumes s: "b_flag (k_buf s Hdtab) = 0" "k_proc s (k_cu s) \<noteq> None"
  shows "path_to (root_fs s) 0 1 [[97]] 7"
proof -
  let ?s = "root_fs s"
  note r = root_fs_Ok [OF s] and rn = root_fs_num [OF s]
  have n: "node ?s 0 1 = d_inode_load root_entry 0 zero_inode"
    using r(3,5) rn(3) by (simp add: node_def on_disk_def itab_off_def)
  have g: "get16 root_entry 0 = 0x4000" "get32 root_entry 4 = 64" "get16 root_entry 14 = 10" "get16 root_entry 30 = 0" "root_entry 13 = 1"
    by (simp_all add: get16_def get32_def root_entry_def)
  have z: "i_mode (node ?s 0 1) = 0x4000" "i_size (node ?s 0 1) = 64" "i_nlink (node ?s 0 1) = 1"
    "i_zone (node ?s 0 1) 0 = 10" "i_zone (node ?s 0 1) 8 = 0"
    unfolding n using g by (simp_all add: d_inode_load_def)
  have "first_named small_names [97] 1" by (simp add: first_named_def small_names_def)
  moreover have "(7 :: uint) = ucast (get16 dir_block (32 * 1))" by (simp add: get16_def dir_block_def)
  ultimately have "\<exists>n ns k. dir_names dir_block n ns \<and> k < n \<and> first_named ns [97] k \<and> (7 :: uint) = ucast (get16 dir_block (32 * k))"
    using small_names_Ok by (metis one_less_numeral_iff semiring_norm(76))
  then have "dentry ?s 0 1 [97] 7" using z r(6) rn(2) by (simp add: dentry_def)
  then show ?thesis by (auto intro: path_to.intros)
qed

lemma two_procs_idle: "b_flag (k_buf two_procs Hdtab) = 0" "k_proc two_procs (k_cu two_procs) \<noteq> None"
  by (simp_all add: two_procs_def boot_kernel_def zero_buf_def)

theorem namei_resolves_witness:
  "\<exists>ip u. namei ((\<lambda>_. 0)(0 := 0x2F, 1 := 97)) 0 0 (root_fs two_procs) = Ok (Some ip) u \<and>
     i_num (k_inode u ip) = 7 \<and> i_count (k_inode u ip) = 1"
proof -
  let ?pm = "(\<lambda>_. 0)(0 := 0x2F, 1 := 97) :: mem"
  note r = root_fs_Ok [OF two_procs_idle]
  have "cstr ?pm 0 [0x2F, 97]" by simp
  moreover have "path_to (root_fs two_procs) 0 1 (split_at 0x2F [0x2F, 97]) 7" using root_fs_entry [OF two_procs_idle] by simp
  moreover have "start_of (root_fs two_procs) ?pm 0 1" by (simp add: start_of_def)
  ultimately show ?thesis using namei_resolves [OF r(1) _ _ _ root_fs_num(1) [OF two_procs_idle], of ?pm 0 "[0x2F, 97]" 7] r(4)
    by (auto split: option.splits)
qed

end
