(* ===== verification/Fileio.thy ===== *)
theory Fileio
  imports Path Rdwr
begin

text \<open>
  From a path name to the bytes of a file: \<^verbatim>\<open>do_open\<close> (\<^verbatim>\<open>src/fs/open.c\<close>) and \<^verbatim>\<open>do_read\<close> (\<^verbatim>\<open>src/fs/rdwr.c\<close>) over the walk of
  \<^verbatim>\<open>namei\<close>, the inode table, the zone maps and the buffer cache.
\<close>

section \<open>Files by number\<close>

text \<open>\<open>as_file s sp d\<close> has the inode \<open>d\<close>, from the table or from the disk, in every slot, and the disk of \<open>s\<close>.\<close>

definition as_file :: "kernel \<Rightarrow> nat \<Rightarrow> uint \<Rightarrow> kernel" where
  "as_file s sp d = s\<lparr>k_inode := (\<lambda>_. node s sp d)\<rparr>"

lemma as_file_fields: "k_inode (as_file s sp d) i = node s sp d" "disk_blk (as_file s sp d) = disk_blk s"
  "same_disk (as_file s sp d) t = same_disk s t"
proof -
  show "k_inode (as_file s sp d) i = node s sp d" by (simp add: as_file_def)
  show d: "disk_blk (as_file s sp d) = disk_blk s" by (rule disk_blk_cong) (simp add: as_file_def)
  show "same_disk (as_file s sp d) t = same_disk s t" by (simp add: same_disk_def d)
qed

lemma zent_like: "same_disk s t \<Longrightarrow> blk_ok z \<Longrightarrow> k < 512 \<Longrightarrow> zent t z k = zent s z k"
  by (simp add: zent_def get16_def same_disk_def same_blk_def)

text \<open>States that agree on the disk blocks and on the fields of an inode show the same file.\<close>

lemma same_view:
  assumes d: "same_disk s t" and f: "same_file (k_inode t ip) (k_inode s jp)" and z: "zmaps_ok s jp"
  shows "zmaps_ok t ip" "nr < 65536 \<Longrightarrow> zone_of t ip nr = zone_of s jp nr"
proof -
  have zn: "i_zone (k_inode t ip) k = i_zone (k_inode s jp) k" if "k < 9" for k using f that by (simp add: same_file_def)
  have e: "zent t (ucast (w :: ushort)) k = zent s (ucast w) k" if "k < 512" for w k
    using zent_like [OF d zone_blk_ok(1) that] .
  show "zmaps_ok t ip" using z by (simp add: zmaps_ok_def zn e Let_def)
  show "zone_of t ip nr = zone_of s jp nr" if nr: "nr < 65536"
  proof (cases "nr < 519")
    case True
    then show ?thesis by (simp add: zone_of_def zn e Let_def)
  next
    case False
    let ?z = "i_zone (k_inode s jp) 8" and ?k = "nr - 519"
    have k: "?k div 512 < 512" using nr by simp
    have "scast (zent s (ucast ?z) (?k div 512)) = (ucast (zent s (ucast ?z) (?k div 512)) :: uint)" if "(ucast ?z :: uint) \<noteq> 0"
      using z k that by (intro zone_blk_ok(2)) (simp add: zmaps_ok_def Let_def)
    then show ?thesis using False k by (simp add: zone_of_def zn e Let_def)
  qed
qed

lemma same_view_bytes:
  assumes d: "same_disk s t" and f: "same_file (k_inode t ip) (k_inode s jp)" and z: "zmaps_ok s jp" "hi \<le> 0x4000000"
    and m: "mapped s jp lo hi"
  shows "mapped t ip lo hi" "lo \<le> p \<Longrightarrow> p < hi \<Longrightarrow> file_byte t ip p = file_byte s jp p"
proof -
  have zo: "zone_of t ip (p div BLK) = zone_of s jp (p div BLK)" if "p < hi" for p
    using same_view(2) [OF d f z(1)] z(2) that by auto
  then show "mapped t ip lo hi" using m by (simp add: mapped_def)
  show "file_byte t ip p = file_byte s jp p" if "lo \<le> p" "p < hi"
    using zo [OF that(2)] m that d by (simp add: file_byte_def mapped_def same_disk_def same_blk_def)
qed

section \<open>Opening\<close>

lemma strip_ofile: "map_option strip a = map_option strip (Some c) \<Longrightarrow> \<exists>q. a = Some q \<and> p_ofile q = p_ofile c \<and> p_vm q = p_vm c"
  by (cases a) (auto simp: strip_def dest: arg_cong [of _ _ p_ofile] arg_cong [of _ _ p_vm])

text \<open>The state that \<^verbatim>\<open>do_open\<close> leaves, from the one in which \<^verbatim>\<open>namei\<close> has returned \<open>ip\<close>.\<close>

definition left_open :: "uint \<Rightarrow> nat \<Rightarrow> nat \<Rightarrow> nat \<Rightarrow> proc \<Rightarrow> kernel \<Rightarrow> kernel" where
  "left_open flag ip fd fp q u = u\<lparr>
     k_inode := (k_inode u)(ip := (k_inode u ip)\<lparr>i_flag := i_flag (k_inode u ip) AND NOT 3\<rparr>),
     k_file := (k_file u)(fp := (k_file u fp)\<lparr>f_count := 1, f_offset := 0, f_oflag := ucast flag, f_ino := Some ip\<rparr>),
     k_proc := (k_proc u)(k_cu u \<mapsto> q\<lparr>p_ofile := (p_ofile q)(fd \<mapsto> fp), p_fdflag := (p_fdflag q)(fd := 1)\<rparr>)\<rparr>"

lemma do_open_Ok:
  assumes n: "namei pm p 0 s = Ok (Some ip) u" and q: "k_proc u (k_cu u) = Some q"
    and i: "i_mode (k_inode u ip) AND S_IFMT = S_IFREG" "i_flag (k_inode u ip) AND 3 = I_LOCK"
    and fl: "flag AND O_CREAT = 0" "flag AND O_TRUNC = 0"
    and fd: "scan (\<lambda>i. p_ofile q i = None) 0 NOFILE = Some fd" and fp: "scan (\<lambda>i. f_count (k_file u i) = 0) 0 NFILE = Some fp"
  shows "do_open pm p flag mode s = Ok (int fd) (left_open flag ip fd fp q u)"
proof -
  have w: "i_flag (k_inode u ip) AND 2 = 0"
    using arg_cong [OF i(2), of "\<lambda>x. x AND 2"] by (simp add: and.assoc)
  have "dev_open (i_mode (k_inode u ip)) d = kret ()" for d using i(1) by (simp add: dev_open_def)
  then show ?thesis
    using n q fl fd fp w
    by (simp add: do_open_def kop_simps ufalloc_def falloc_def cu_get_def cu_mod_def unlk_ino_def left_open_def file_mod_def ino_mod_def)
qed

lemma left_open_Ok:
  assumes "bio_inv u {}"
  shows "bio_inv (left_open flag ip fd fp q u) {}" "disk_blk (left_open flag ip fd fp q u) = disk_blk u"
    "walk (left_open flag ip fd fp q u) = walk u"
proof -
  let ?p = "(k_proc u)(k_cu u \<mapsto> q\<lparr>p_ofile := (p_ofile q)(fd \<mapsto> fp), p_fdflag := (p_fdflag q)(fd := 1)\<rparr>)"
  have "bio_inv (u\<lparr>k_proc := ?p, k_cu := k_cu u\<rparr>) {}" using bio_inv_k_proc [OF assms, of ?p "k_cu u"] by simp
  then show "bio_inv (left_open flag ip fd fp q u) {}"
    by (subst bio_inv_cong [of _ "u\<lparr>k_proc := ?p, k_cu := k_cu u\<rparr>"]) (simp_all add: left_open_def)
  show "disk_blk (left_open flag ip fd fp q u) = disk_blk u" by (rule disk_blk_cong) (simp add: left_open_def)
  show "walk (left_open flag ip fd fp q u) = walk u" by (simp add: left_open_def walk_def fun_eq_iff)
qed

lemma namei_found:
  assumes ok: "itab_ok s sp" and path: "cstr pm p xs" "path_to s sp a (split_at 0x2F xs) d" "start_of s pm p a" "num_ok s sp a"
  shows "\<exists>ip v. namei pm p 0 s = Ok (Some ip) v \<and> bio_inv v {} \<and> same_disk s v \<and> bio_frame (s\<lparr>k_inode := k_inode v\<rparr>) v \<and>
    same_file (k_inode v ip) (node s sp d) \<and> i_dev (k_inode v ip) = rootdev \<and> i_num (k_inode v ip) = d \<and> i_flag (k_inode v ip) AND 3 = I_LOCK \<and>
    (\<forall>i. i_count (k_inode s i) \<noteq> 0 \<longrightarrow> k_inode s i \<noteq> node s sp d \<longrightarrow> i \<noteq> ip \<and> k_inode v i = k_inode s i) \<and> i_count (k_inode v ip) \<noteq> 0"
proof -
  obtain t ip v where nm: "namei pm p 0 s = Ok (Some ip) v" and tk: "itab_like s t" "taken t sp ip d v" "num_ok s sp d"
    using namei_walks [OF ok path] by blast
  have d: "d \<noteq> 0" using tk(3) by (simp add: num_ok_def)
  note nd = taken_node [OF itab_like_ok [OF ok tk(1)] d tk(2)]
  have "bio_frame (t\<lparr>k_inode := k_inode v\<rparr>) v" using tk(2) taken_inodes(1) [OF tk(2)] by (simp add: taken_def ino_mod_def)
  then have "bio_frame (s\<lparr>k_inode := k_inode v\<rparr>) v" using tk(1) bio_frame_inodes unfolding itab_like_def by blast
  moreover have "same_file (k_inode v ip) (node s sp d)" using nd(1) node_like [OF ok tk(1,3)] by simp
  moreover have "same_disk s v" "bio_inv v {}" using tk(1,2) same_disk_trans by (auto simp: itab_like_def taken_def)
  moreover have "i \<noteq> ip \<and> k_inode v i = k_inode s i" if i: "i_count (k_inode s i) \<noteq> 0" "k_inode s i \<noteq> node s sp d" for i
  proof -
    have ti: "k_inode t i = k_inode s i" using tk(1) i(1) unfolding itab_like_def by metis
    moreover have "i \<noteq> ip"
      using tk(2) ti i in_core_like [OF ok tk(1) d] by (auto simp: taken_def node_def)
    ultimately show ?thesis using taken_inodes(1) [OF tk(2)] by simp
  qed
  moreover have "i_count (k_inode v ip) \<noteq> 0"
  proof (cases "in_core t d = Some ip")
    case True
    note p = in_core_used(4,7) [OF itab_like_ok [OF ok tk(1)] True d]
    have "unat (i_count (k_inode t ip)) < 65535" using p(2) by (simp add: word_less_nat_alt)
    then have "i_count (k_inode t ip) + 1 \<noteq> 0" by (auto simp: word_unat_eq_iff unat_word_ariths)
    then show ?thesis using taken_inodes(1) [OF tk(2)] True by (simp add: taken_inode_def Let_def)
  next
    case False
    then show ?thesis using taken_inodes(1) [OF tk(2)] by (simp add: taken_inode_def Let_def on_disk_def d_inode_load_def)
  qed
  ultimately show ?thesis using nm nd(2-4) by blast
qed

section \<open>Opening and reading\<close>

text \<open>What \<^verbatim>\<open>do_open\<close> leaves for the calls that follow: the descriptor, its file structure at position 0, and the unlocked inode in core.\<close>

definition file_ready :: "kernel \<Rightarrow> nat \<Rightarrow> uint \<Rightarrow> proc \<Rightarrow> nat \<Rightarrow> nat \<Rightarrow> uchar \<Rightarrow> kernel \<Rightarrow> nat \<Rightarrow> bool" where
  "file_ready s sp d c fd fp flag t ip \<longleftrightarrow> bio_inv t {} \<and> same_disk (as_file s sp d) t \<and> file_ok t ip \<and>
    same_file (k_inode t ip) (k_inode (as_file s sp d) 0) \<and> i_num (k_inode t ip) = d \<and> i_flag (k_inode t ip) AND 3 = 0 \<and>
    k_file t = (k_file s)(fp := (k_file s fp)\<lparr>f_count := 1, f_offset := 0, f_oflag := flag, f_ino := Some ip\<rparr>) \<and>
    (\<exists>q. k_proc t (k_cu t) = Some q \<and> p_ofile q = (p_ofile c)(fd \<mapsto> fp) \<and> p_vm q = p_vm c) \<and> k_cr3 t = k_cr3 s \<and> walk t = walk s \<and>
    k_tty t = k_tty s \<and> k_vga t = k_vga s \<and>
    (\<forall>i. i_count (k_inode s i) \<noteq> 0 \<longrightarrow> k_inode s i \<noteq> node s sp d \<longrightarrow> k_inode t i = k_inode s i) \<and> i_count (k_inode t ip) \<noteq> 0 \<and> k_mnt t = k_mnt s"

lemma do_open_ready:
  assumes ok: "itab_ok s sp" and path: "cstr pm p xs" "path_to s sp a (split_at 0x2F xs) d" "start_of s pm p a" "num_ok s sp a"
    and fl: "flag AND O_CREAT = 0" "flag AND O_TRUNC = 0"
    and c: "k_proc s (k_cu s) = Some c" "scan (\<lambda>i. p_ofile c i = None) 0 NOFILE = Some fd" "scan (\<lambda>i. f_count (k_file s i) = 0) 0 NFILE = Some fp"
    and f: "i_mode (node s sp d) AND S_IFMT = S_IFREG" "i_size (node s sp d) \<le> 0x4000000" "zmaps_ok (as_file s sp d) 0"
  shows "\<exists>t ip. do_open pm p flag mode s = Ok (int fd) t \<and> file_ready s sp d c fd fp (ucast flag) t ip"
proof -
  obtain ip v where v: "namei pm p 0 s = Ok (Some ip) v" "bio_inv v {}" "same_disk s v" "bio_frame (s\<lparr>k_inode := k_inode v\<rparr>) v"
    and i: "same_file (k_inode v ip) (node s sp d)" "i_dev (k_inode v ip) = rootdev" "i_num (k_inode v ip) = d" "i_flag (k_inode v ip) AND 3 = I_LOCK"
    and o: "\<forall>i. i_count (k_inode s i) \<noteq> 0 \<longrightarrow> k_inode s i \<noteq> node s sp d \<longrightarrow> i \<noteq> ip \<and> k_inode v i = k_inode s i" and cn: "i_count (k_inode v ip) \<noteq> 0"
    using namei_found [OF ok path] by blast
  note fr = bio_frame_fields [OF v(4), simplified] and sp = bio_frame_space [OF v(4), simplified]
  obtain q where q: "k_proc v (k_cu v) = Some q" "p_ofile q = p_ofile c" "p_vm q = p_vm c"
    using strip_ofile [of "k_proc v (k_cu v)" c] bio_frame_proc [OF v(4), of "k_cu v"] c(1) fr by auto
  have wk: "walk v = walk s" using sp(1-3) by (simp add: walk_def fun_eq_iff)
  have vg: "k_vga v = k_vga s" using arg_cong [OF v(4) [unfolded bio_frame_def], of k_vga] by (simp add: non_bio_def)
  define t where "t = left_open flag ip fd fp q v"
  have m: "i_mode (k_inode v ip) = i_mode (node s sp d)" "i_size (k_inode v ip) = i_size (node s sp d)"
    using i(1) by (simp_all add: same_file_def)
  have "do_open pm p flag mode s = Ok (int fd) t"
    unfolding t_def using do_open_Ok [OF v(1) q(1) _ i(4) fl] c(2,3) f(1) m(1) q(2) fr by simp
  moreover have ti: "same_file (k_inode t ip) (k_inode (as_file s sp d) 0)" "i_dev (k_inode t ip) = rootdev" "i_num (k_inode t ip) = d"
    "i_flag (k_inode t ip) AND 3 = 0" "i_size (k_inode t ip) = i_size (node s sp d)"
    using i m by (simp_all add: t_def left_open_def as_file_fields same_file_def and.assoc)
  moreover have "k_file t = (k_file s)(fp := (k_file s fp)\<lparr>f_count := 1, f_offset := 0, f_oflag := ucast flag, f_ino := Some ip\<rparr>)"
    "\<exists>r. k_proc t (k_cu t) = Some r \<and> p_ofile r = (p_ofile c)(fd \<mapsto> fp) \<and> p_vm r = p_vm c" "k_cr3 t = k_cr3 s" "walk t = walk s" "k_tty t = k_tty s" "k_vga t = k_vga s"
    using fr sp wk vg q(2,3) by (simp_all add: t_def left_open_Ok [OF v(2)]) (simp_all add: left_open_def)
  moreover have sd: "same_disk (as_file s sp d) t" using v(3) left_open_Ok(2) [OF v(2)] by (simp add: as_file_fields same_disk_def t_def)
  moreover have "file_ok t ip" using same_view(1) [OF sd ti(1) f(3)] ti f(2) by (simp add: file_ok_def)
  moreover have "bio_inv t {}" unfolding t_def by (rule left_open_Ok(1) [OF v(2)])
  moreover have "\<forall>i. i_count (k_inode s i) \<noteq> 0 \<longrightarrow> k_inode s i \<noteq> node s sp d \<longrightarrow> k_inode t i = k_inode s i"
    using o by (simp add: t_def left_open_def)
  moreover have "i_count (k_inode t ip) \<noteq> 0" "k_mnt t = k_mnt s" using cn fr by (simp_all add: t_def left_open_def)
  ultimately show ?thesis unfolding file_ready_def by blast
qed


section \<open>Witness\<close>

text \<open>The file \<^verbatim>\<open>/a\<close> of a disk, and a process with the console as descriptor 0 and a page at the bottom of its address space.\<close>

definition cat_base :: kernel where
  "cat_base = two_procs\<lparr>k_proc := (k_proc two_procs)(1 \<mapsto> zero_proc\<lparr>p_stat := SRUN, p_pid := 1, p_ofile := [0 \<mapsto> 0], p_vm := (p_vm zero_proc)\<lparr>vm_pgd := 10\<rparr>\<rparr>),
     k_mem := (\<lambda>_ _. 0)(2 := (\<lambda>_. 0)(0 := 0x2F, 1 := 97)), k_file := (\<lambda>_. zero_file)(0 := zero_file\<lparr>f_count := 1, f_ino := Some 5\<rparr>), k_tty := (\<lambda>_. zero_tty)(0 := zero_tty\<lparr>t_putc := Putch\<rparr>),
     k_pgd := k_pgd small_space, k_pt := k_pt small_space, k_cr3 := 10\<rparr>"

lemma cat_base_idle: "b_flag (k_buf cat_base Hdtab) = 0" "k_proc cat_base (k_cu cat_base) \<noteq> None"
  using two_procs_idle by (simp_all add: cat_base_def)

lemma cat_fs_fields:
  "walk (root_fs cat_base) (k_cr3 (root_fs cat_base)) KMEM_END = Some (2, True)"
  "\<exists>c. k_proc (root_fs cat_base) (k_cu (root_fs cat_base)) = Some c \<and> p_ofile c = [0 \<mapsto> 0] \<and> vm_pgd (p_vm c) = 10"
  "k_file (root_fs cat_base) = (\<lambda>_. zero_file)(0 := zero_file\<lparr>f_count := 1, f_ino := Some 5\<rparr>)"
  "k_tty (root_fs cat_base) = (\<lambda>_. zero_tty)(0 := zero_tty\<lparr>t_putc := Putch\<rparr>)"
  "k_mem (root_fs cat_base) 2 = (\<lambda>_. 0)(0 := 0x2F, 1 := 97)" "k_cr3 (root_fs cat_base) = 10"
proof -
  define B :: "uint \<Rightarrow> block" where "B = (\<lambda>n. if n = 4 then root_entry else if n = 10 then dir_block else if n = 11 then (\<lambda>_. 65) else (\<lambda>_. 0))"
  define s where "s = cat_base\<lparr>k_mnt := (\<lambda>_. zero_super)(0 := small_super), k_inode := (\<lambda>_. zero_inode)(5 := tty_inode)\<rparr>"
  have e: "root_fs cat_base = fs_state B s" by (simp add: root_fs_def s_def B_def)
  have bs: "b_flag (k_buf s Hdtab) = 0" "k_proc s (k_cu s) \<noteq> None" using cat_base_idle by (simp_all add: s_def)
  obtain s' where s': "buf_init (s\<lparr>k_disk := img B\<rparr>) = Ok () s'" "bio_frame (s\<lparr>k_disk := img B\<rparr>) (s'\<lparr>k_nblkdev := k_nblkdev s\<rparr>)"
    using buf_init_Ok [of "s\<lparr>k_disk := img B\<rparr>"] bs by auto
  have r: "root_fs cat_base = s'" using s'(1) by (simp add: e fs_state_def)
  then show p: "k_cr3 (root_fs cat_base) = 10" and pt: "k_mem (root_fs cat_base) 2 = (\<lambda>_. 0)(0 := 0x2F, 1 := 97)"
    using bio_frame_space(3) [OF s'(2)] bio_frame_fields [OF s'(2)] by (simp_all add: s_def cat_base_def)
  have p: "k_pgd (root_fs cat_base) = k_pgd small_space" "k_pt (root_fs cat_base) = k_pt small_space" "k_cr3 (root_fs cat_base) = 10"
    using bio_frame_space(1-3) [OF s'(2)] r by (simp_all add: s_def cat_base_def)
  show "k_tty (root_fs cat_base) = (\<lambda>_. zero_tty)(0 := zero_tty\<lparr>t_putc := Putch\<rparr>)"
    using bio_frame_fields [OF s'(2)] r by (simp add: s_def cat_base_def)
  show "walk (root_fs cat_base) (k_cr3 (root_fs cat_base)) KMEM_END = Some (2, True)"
    using cow_procs_space(4) by (simp add: walk_def p cow_procs_def)
  note f = fs_state_Ok [OF bs, where B = B]
  show "k_file (root_fs cat_base) = (\<lambda>_. zero_file)(0 := zero_file\<lparr>f_count := 1, f_ino := Some 5\<rparr>)"
    unfolding e f(5) by (simp add: s_def cat_base_def)
  have "k_proc s 1 = Some (zero_proc\<lparr>p_stat := SRUN, p_pid := 1, p_ofile := [0 \<mapsto> 0], p_vm := (p_vm zero_proc)\<lparr>vm_pgd := 10\<rparr>\<rparr>)" "k_cu s = 1"
    by (simp_all add: s_def cat_base_def two_procs_def)
  then show "\<exists>c. k_proc (root_fs cat_base) (k_cu (root_fs cat_base)) = Some c \<and> p_ofile c = [0 \<mapsto> 0] \<and> vm_pgd (p_vm c) = 10"
    using f(6) f(7) [of 1] strip_ofile [of "k_proc (fs_state B s) 1"] unfolding e by fastforce
qed

lemma cat_file:
  defines "s \<equiv> root_fs cat_base"
  shows "i_mode (node s 0 7) = S_IFREG" "i_size (node s 0 7) = 3" "i_nlink (node s 0 7) = 1" "zmaps_ok (as_file s 0 7) 0" "mapped (as_file s 0 7) 0 0 3"
    "j < 3 \<Longrightarrow> file_byte (as_file s 0 7) 0 j = 65"
proof -
  note r = root_fs_Ok [OF cat_base_idle, folded s_def] and rn = root_fs_num [OF cat_base_idle, folded s_def]
  have n: "node s 0 7 = d_inode_load root_entry 192 zero_inode"
    using r(4,5) rn(4) by (simp add: node_def on_disk_def itab_off_def)
  have g: "get16 root_entry 192 = 0x8000" "get32 root_entry 196 = 3" "get16 root_entry 206 = 11" "get16 root_entry 222 = 0" "root_entry 205 = 1"
    by (simp_all add: get16_def get32_def root_entry_def)
  show "i_mode (node s 0 7) = S_IFREG" "i_size (node s 0 7) = 3" "i_nlink (node s 0 7) = 1" unfolding n using g by (simp_all add: d_inode_load_def)
  have z: "i_zone (node s 0 7) 0 = 11" "i_zone (node s 0 7) 8 = 0" unfolding n using g by (simp_all add: d_inode_load_def)
  show "zmaps_ok (as_file s 0 7) 0" by (simp add: zmaps_ok_def as_file_fields z)
  have zo: "zone_of (as_file s 0 7) 0 0 = 11" by (simp add: zone_of_def as_file_fields z)
  then show "mapped (as_file s 0 7) 0 0 3" by (auto simp: mapped_def)
  show "file_byte (as_file s 0 7) 0 j = 65" if "j < 3" using that by (simp add: file_byte_def zo as_file_fields r(7))
qed

lemma cat_path:
  defines "s \<equiv> root_fs cat_base" and "pm \<equiv> (\<lambda>_. 0)(0 := 0x2F, 1 := 97) :: mem"
  shows "cstr pm 0 [0x2F, 97]" "path_to s 0 1 (split_at 0x2F [0x2F, 97]) 7" "start_of s pm 0 1"
    "p_ofile c = [0 \<mapsto> 0] \<Longrightarrow> scan (\<lambda>i. p_ofile c i = None) 0 NOFILE = Some 1" "scan (\<lambda>i. f_count (k_file s i) = 0) 0 NFILE = Some 1"
  using root_fs_entry [OF cat_base_idle] cat_fs_fields(3)
  by (auto simp: s_def pm_def start_of_def scan_Some_iff zero_file_def less_Suc_eq)


end
