(* ===== verification/Screen.thy ===== *)
theory Screen
  imports Tty
begin

text \<open>
  What is on the screen. The screen is abstracted to its characters and the position of the cursor; \<open>show_ch\<close> says what a character does to it. The
  lemmas show that \<^verbatim>\<open>putch\<close> (\<^verbatim>\<open>src/chr/vga.c\<close>) does exactly this and nothing else to the state, and that what is written to the
  terminal (\<^verbatim>\<open>tty_write\<close> of \<^verbatim>\<open>src/chr/tty.c\<close>) appears on the screen in its order.
\<close>

section \<open>The abstract screen\<close>

record screen =
  sc_cell :: "nat \<Rightarrow> nat \<Rightarrow> vchar"
  sc_col :: int
  sc_row :: int

definition scr :: "kernel \<Rightarrow> screen" where
  "scr s = \<lparr>sc_cell = k_vga s, sc_col = px s, sc_row = py s\<rparr>"

definition set_scr :: "screen \<Rightarrow> kernel \<Rightarrow> kernel" where
  "set_scr x s = s\<lparr>k_vga := sc_cell x, k_csr := (word_of_int (sc_row x * 80 + sc_col x)) AND 0xFFFF,
     k_tty := (k_tty s)(0 := (k_tty s 0)\<lparr>t_col := sc_col x, t_row := sc_row x\<rparr>)\<rparr>"

definition at_cursor :: "uchar \<Rightarrow> screen \<Rightarrow> screen" where
  "at_cursor c x = x\<lparr>sc_cell := (sc_cell x)(nat (sc_row x) := (sc_cell x (nat (sc_row x)))(nat (sc_col x) :=
     (sc_cell x (nat (sc_row x)) (nat (sc_col x)))\<lparr>vc_char := c\<rparr>))\<rparr>"

text \<open>The cursor after the end of a line is at the beginning of the next, and a line below the last one moves all lines up.\<close>

definition up :: "screen \<Rightarrow> screen" where
  "up x = x\<lparr>sc_cell := (\<lambda>r. if r < 24 then sc_cell x (r + 1) else if r = 24 then (\<lambda>_. VC_BLANK) else sc_cell x r), sc_row := 24\<rparr>"

definition fit :: "screen \<Rightarrow> screen" where
  "fit x = (let y = (if sc_col x \<ge> 80 then x\<lparr>sc_col := 0, sc_row := sc_row x + 1\<rparr> else x) in
     if sc_row y \<ge> 25 then up y else y)"

definition show_ch :: "uchar \<Rightarrow> screen \<Rightarrow> screen" where
  "show_ch c x = fit
     (if c = 8 then at_cursor 0x20 (if sc_col x > 0 then x\<lparr>sc_col := sc_col x - 1\<rparr> else x\<lparr>sc_col := 79, sc_row := max 0 (sc_row x - 1)\<rparr>)
      else if c = 9 then x\<lparr>sc_col := sc_col x + 4 - sc_col x mod 4\<rparr>
      else if c = 13 then x\<lparr>sc_col := 0\<rparr>
      else if c = 10 then x\<lparr>sc_col := 0, sc_row := sc_row x + 1\<rparr>
      else if schar c \<ge> 32 then (at_cursor c x)\<lparr>sc_col := sc_col x + 1\<rparr>
      else x)"

lemma scr_fields [simp]: "sc_cell (scr s) = k_vga s" "sc_col (scr s) = px s" "sc_row (scr s) = py s"
  by (simp_all add: scr_def)

lemma scr_set_scr [simp]: "scr (set_scr x s) = x" "set_scr x (set_scr y s) = set_scr x s"
  by (simp_all add: scr_def set_scr_def px_def py_def)

lemma set_scr_upd [simp]:
  "set_scr x (set_px a s) = set_scr x s" "set_scr x (set_py a s) = set_scr x s" "set_scr x (s\<lparr>k_vga := v\<rparr>) = set_scr x s"
  "set_scr x (s\<lparr>k_csr := w\<rparr>) = set_scr x s"
  by (simp_all add: set_scr_def set_px_def set_py_def)

lemma scr_upd [simp]:
  "scr (set_px a s) = (scr s)\<lparr>sc_col := a\<rparr>" "scr (set_py a s) = (scr s)\<lparr>sc_row := a\<rparr>" "scr (s\<lparr>k_vga := v\<rparr>) = (scr s)\<lparr>sc_cell := v\<rparr>"
  by (simp_all add: scr_def)

text \<open>The end of \<^verbatim>\<open>putch\<close>: line break, scrolling, cursor registers.\<close>

lemma csr_shown: "flush_csr s = Ok () (set_scr (scr s) s)"
proof -
  have "k_tty s = (k_tty s)(0 := (k_tty s 0)\<lparr>t_col := t_col (k_tty s 0), t_row := t_row (k_tty s 0)\<rparr>)" by simp
  then show ?thesis by (simp add: flush_csr_def kop_simps set_scr_def scr_def px_def py_def)
qed

lemma scroll_shown:
  assumes "py s \<le> 25"
  shows "kthen scroll flush_csr s = Ok () (set_scr (if py s = 25 then up (scr s) else scr s) s)"
proof (cases "py s = 25")
  case True
  then have "scroll s = Ok () (set_py 24 (s\<lparr>k_vga := (\<lambda>r. if r < 24 then k_vga s (r + 1) else if r = 24 then (\<lambda>_. VC_BLANK) else k_vga s r)\<rparr>))"
    by (simp add: scroll_def kop_simps kwhen_def Let_def) (intro arg_cong [where f = "set_py 24"] arg_cong [where f = "\<lambda>v. s\<lparr>k_vga := v\<rparr>"] ext, simp)
  then show ?thesis using True by (simp add: kthen_def kbind_def csr_shown up_def cong: if_cong)
next
  case False
  then have "scroll s = Ok () s" using assms by (simp add: scroll_def kop_simps kwhen_def)
  then show ?thesis using False by (simp add: kthen_def kbind_def csr_shown)
qed

lemma fit_shown:
  assumes "py s \<le> 24 \<or> py s = 25 \<and> px s < 80"
  shows "kthen (kbind (kget px) (\<lambda>x. kwhen (x \<ge> 80) (kmod (\<lambda>s. set_py (py s + 1) (set_px 0 s))))) (kthen scroll flush_csr) s =
    Ok () (set_scr (fit (scr s)) s)"
proof -
  define u where "u = (if px s \<ge> 80 then set_py (py s + 1) (set_px 0 s) else s)"
  have "kbind (kget px) (\<lambda>x. kwhen (x \<ge> 80) (kmod (\<lambda>s. set_py (py s + 1) (set_px 0 s)))) s = Ok () u"
    by (simp add: u_def kop_simps kwhen_def)
  moreover have "py u \<le> 25" "set_scr x u = set_scr x s" for x using assms by (auto simp: u_def)
  moreover have "fit (scr s) = (if py u = 25 then up (scr u) else scr u)"
    using assms by (auto simp: fit_def u_def Let_def)
  ultimately show ?thesis using scroll_shown [of u] by (simp add: kthen_def kbind_def)
qed

lemma store_shown: "0 \<le> py s \<and> py s < 25 \<and> 0 \<le> px s \<and> px s < 80 \<Longrightarrow>
    \<exists>t. vga_store c s = Ok () t \<and> scr t = at_cursor c (scr s) \<and> (\<forall>x. set_scr x t = set_scr x s)"
  by (simp add: vga_store_def at_cursor_def)

text \<open>What \<^verbatim>\<open>putch\<close> does before: it stores and moves the cursor.\<close>

definition moves_to :: "unit kop \<Rightarrow> kernel \<Rightarrow> screen \<Rightarrow> bool" where
  "moves_to m s x \<longleftrightarrow> (\<exists>t. m s = Ok () t \<and> scr t = x \<and> (\<forall>y. set_scr y t = set_scr y s))"

lemma moves_store: "0 \<le> py s \<Longrightarrow> py s < 25 \<Longrightarrow> 0 \<le> px s \<Longrightarrow> px s < 80 \<Longrightarrow> moves_to (vga_store c) s (at_cursor c (scr s))"
  using store_shown [of s c] by (simp add: moves_to_def)

lemma moves_erase:
  assumes v: "vga_inv s"
  shows "moves_to (kbind (kget px) (\<lambda>x. if x > 0 then kthen (kmod (set_px (x - 1))) (vga_store 0x20)
      else kbind (kget py) (\<lambda>y. kthen (kwhen (y > 0) (kmod (set_py (y - 1)))) (kthen (kmod (set_px 79)) (vga_store 0x20))))) s
    (at_cursor 0x20 (if px s > 0 then (scr s)\<lparr>sc_col := px s - 1\<rparr> else (scr s)\<lparr>sc_col := 79, sc_row := max 0 (py s - 1)\<rparr>))"
proof (cases "px s > 0")
  case True
  then show ?thesis using v moves_store [of "set_px (px s - 1) s" "0x20"] by (simp add: moves_to_def kop_simps vga_inv_def)
next
  case False
  let ?u = "set_px 79 (if py s > 0 then set_py (py s - 1) s else s)"
  have "scr ?u = (scr s)\<lparr>sc_col := 79, sc_row := max 0 (py s - 1)\<rparr>" using v by (auto simp: vga_inv_def max_def scr_def)
  moreover have "set_scr y ?u = set_scr y s" for y by simp
  moreover have "moves_to (vga_store 0x20) ?u (at_cursor 0x20 (scr ?u))" using v by (intro moves_store) (auto simp: vga_inv_def)
  ultimately have "moves_to (vga_store 0x20) ?u (at_cursor 0x20 ((scr s)\<lparr>sc_col := 79, sc_row := max 0 (py s - 1)\<rparr>))" "\<forall>y. set_scr y ?u = set_scr y s"
    by (simp_all only: simp_thms)
  then show ?thesis using False by (cases "py s > 0") (simp_all only: moves_to_def kop_simps kwhen_def if_True if_False simp_thms)
qed

lemma moves_print:
  assumes v: "vga_inv s"
  shows "moves_to (kthen (vga_store c) (kmod (\<lambda>s. set_px (px s + 1) s))) s ((at_cursor c (scr s))\<lparr>sc_col := px s + 1\<rparr>)"
proof -
  obtain t where t: "vga_store c s = Ok () t" "scr t = at_cursor c (scr s)" "\<forall>y. set_scr y t = set_scr y s"
    using store_shown [of s c] v by (auto simp: vga_inv_def)
  have "px t = px s" using arg_cong [OF t(2), of sc_col] by (simp add: at_cursor_def)
  then show ?thesis using t by (simp add: moves_to_def kop_simps)
qed

lemma putch_shows:
  assumes v: "vga_inv s"
  shows "putch c s = Ok () (set_scr (show_ch c (scr s)) s)"
proof -
  define body where "body = (if c = 8 then
         kbind (kget px) (\<lambda>x.
           if x > 0 then kthen (kmod (set_px (x - 1))) (vga_store 0x20)
           else kbind (kget py) (\<lambda>y.
             kthen (kwhen (y > 0) (kmod (set_py (y - 1))))
               (kthen (kmod (set_px 79)) (vga_store 0x20))))
       else if c = 9 then kmod (\<lambda>s. set_px ((px s + 4) AND (NOT 3)) s)
       else if c = 13 then kmod (set_px 0)
       else if c = 10 then kmod (\<lambda>s. set_py (py s + 1) (set_px 0 s))
       else if schar c \<ge> 32 then kthen (vga_store c) (kmod (\<lambda>s. set_px (px s + 1) s))
       else kret ())"
  have "\<exists>x. moves_to body s x \<and> show_ch c (scr s) = fit x \<and> (sc_row x \<le> 24 \<or> sc_row x = 25 \<and> sc_col x < 80)"
  proof -
    consider "c = 8" | "c \<noteq> 8" "c \<noteq> 9" "c \<noteq> 10" "c \<noteq> 13" "schar c \<ge> 32" | "c \<in> {9, 10, 13} \<or> c \<noteq> 8 \<and> \<not> schar c \<ge> 32" by auto
    then show ?thesis
    proof cases
      case 1
      then show ?thesis using moves_erase [OF v] v by (fastforce simp: body_def show_ch_def at_cursor_def vga_inv_def)
    next
      case 2
      then show ?thesis using moves_print [OF v, of c] v by (fastforce simp: body_def show_ch_def at_cursor_def vga_inv_def)
    next
      case 3
      then show ?thesis using v
        by (auto simp: body_def show_ch_def moves_to_def kop_simps tab_stop [simplified] vga_inv_def)
    qed
  qed
  then obtain x t where t: "body s = Ok () t" "show_ch c (scr s) = fit x" "scr t = x" "\<forall>x. set_scr x t = set_scr x s" "py t \<le> 24 \<or> py t = 25 \<and> px t < 80"
    by (auto simp: moves_to_def)
  have "putch c s = kthen body (kthen (kbind (kget px) (\<lambda>x. kwhen (x \<ge> 80) (kmod (\<lambda>s. set_py (py s + 1) (set_px 0 s))))) (kthen scroll flush_csr)) s"
    by (simp add: putch_def body_def)
  then show ?thesis using t(1-4) fit_shown [OF t(5)] by (simp add: kthen_def [of body] kbind_def)
qed

section \<open>Writing to the terminal\<close>

text \<open>\<open>only_scr s t\<close>: the states differ at most in the screen, the cursor and its registers.\<close>

definition only_scr :: "kernel \<Rightarrow> kernel \<Rightarrow> bool" where
  "only_scr s t \<longleftrightarrow> (\<forall>x. set_scr x t = set_scr x s)"

lemma only_scr_refl: "only_scr s s"
  by (simp add: only_scr_def)

lemma only_scr_trans: "only_scr s t \<Longrightarrow> only_scr t u \<Longrightarrow> only_scr s u"
  by (simp add: only_scr_def)

lemma only_scr_tty: "only_scr s t \<Longrightarrow> t_outq (k_tty t i) = t_outq (k_tty s i)" "only_scr s t \<Longrightarrow> t_putc (k_tty t i) = t_putc (k_tty s i)"
  by (drule only_scr_def [THEN iffD1, THEN spec [of _ "scr s"]], drule arg_cong [of _ _ "\<lambda>s. k_tty s i"],
      cases "i = 0"; auto simp: set_scr_def dest: arg_cong [of _ _ t_outq] arg_cong [of _ _ t_putc])+

lemma only_scr_fields:
  assumes "only_scr s t"
  shows "k_proc t = k_proc s" "k_cu t = k_cu s" "k_inode t = k_inode s" "k_file t = k_file s" "k_buf t = k_buf s" "k_disk t = k_disk s"
    "k_nblkdev t = k_nblkdev s" "k_cr3 t = k_cr3 s" "k_pgd t = k_pgd s" "k_pt t = k_pt s" "k_mem t = k_mem s" "k_mnt t = k_mnt s"
proof -
  have e: "set_scr x t = set_scr x s" for x using assms by (simp add: only_scr_def)
  show "k_proc t = k_proc s" "k_cu t = k_cu s" "k_inode t = k_inode s" "k_file t = k_file s" "k_buf t = k_buf s" "k_disk t = k_disk s"
    "k_nblkdev t = k_nblkdev s" "k_cr3 t = k_cr3 s" "k_pgd t = k_pgd s" "k_pt t = k_pt s" "k_mem t = k_mem s" "k_mnt t = k_mnt s"
    using arg_cong [OF e, of k_proc] arg_cong [OF e, of k_cu] arg_cong [OF e, of k_inode] arg_cong [OF e, of k_file] arg_cong [OF e, of k_buf]
      arg_cong [OF e, of k_disk] arg_cong [OF e, of k_nblkdev] arg_cong [OF e, of k_cr3] arg_cong [OF e, of k_pgd] arg_cong [OF e, of k_pt]
      arg_cong [OF e, of k_mem] arg_cong [OF e, of k_mnt] by (simp_all add: set_scr_def)
qed

abbreviation with_outq :: "qbuf \<Rightarrow> kernel \<Rightarrow> kernel" where
  "with_outq q \<equiv> tty_mod 0 (\<lambda>tp. tp\<lparr>t_outq := q\<rparr>)"

lemma set_scr_outq: "set_scr x (with_outq q s) = with_outq q (set_scr x s)" "scr (with_outq q s) = scr s"
  "with_outq q (with_outq q' s) = with_outq q s"
proof -
  show "set_scr x (with_outq q s) = with_outq q (set_scr x s)"
  proof (rule kernel.equality)
    show "k_tty (set_scr x (with_outq q s)) = k_tty (with_outq q (set_scr x s))"
      by (rule ext, rule tty.equality) (simp_all add: set_scr_def)
  qed (simp_all add: set_scr_def tty_mod_def)
qed (simp_all add: tty_mod_def scr_def px_def py_def)

lemma only_scr_outq: "only_scr s t \<Longrightarrow> only_scr (with_outq q s) (with_outq q t)"
  by (simp add: only_scr_def set_scr_outq)

lemma putch_only:
  assumes "vga_inv s"
  shows "\<exists>t. putch c s = Ok () t \<and> vga_inv t \<and> scr t = show_ch c (scr s) \<and> only_scr s t"
  using putch_shows [OF assms, of c] putch_Ok [OF assms, of c] by (auto simp: only_scr_def)

lemma tty_drain_shows:
  "vga_inv s \<Longrightarrow> q_inv (t_outq (k_tty s 0)) \<Longrightarrow> \<forall>c \<in> set (q_list (t_outq (k_tty s 0))). 0 \<le> schar c \<Longrightarrow>
    length (q_list (t_outq (k_tty s 0))) < k \<Longrightarrow>
    \<exists>t q. tty_drain k Putch 0 s = Ok () t \<and> vga_inv t \<and> q_inv q \<and> q_list q = [] \<and>
      scr t = fold show_ch (q_list (t_outq (k_tty s 0))) (scr s) \<and> only_scr (with_outq q s) t"
proof (induction k arbitrary: s)
  case 0
  then show ?case by simp
next
  case (Suc k)
  let ?q = "t_outq (k_tty s 0)"
  show ?case
  proof (cases "q_list ?q")
    case Nil
    then show ?thesis
      using Suc.prems getq_empty [of ?q]
      by (intro exI [of _ "with_outq ?q s"] exI [of _ ?q])
        (simp add: tty_drain.simps kop_simps split_beta only_scr_refl vga_inv_tty_mod set_scr_outq)
  next
    case (Cons c cs)
    then have g: "fst (getq ?q) = c" "q_inv (snd (getq ?q))" "q_list (snd (getq ?q)) = cs"
      using lq.get_some [OF Suc.prems(2)] by auto
    let ?s = "with_outq (snd (getq ?q)) s"
    have "vga_inv ?s" using Suc.prems(1) by (simp add: vga_inv_tty_mod)
    then obtain u where u: "putch c ?s = Ok () u" "vga_inv u" "scr u = show_ch c (scr s)" "only_scr ?s u"
      using putch_only [of ?s c] by (auto simp: set_scr_outq)
    have out: "t_outq (k_tty u 0) = snd (getq ?q)" using only_scr_tty(1) [OF u(4), of 0] by simp
    with Suc.IH [OF u(2)] Suc.prems(3,4) Cons g obtain t q where
      t: "tty_drain k Putch 0 u = Ok () t" "vga_inv t" "q_inv q" "q_list q = []" "scr t = fold show_ch cs (scr u)" "only_scr (with_outq q u) t"
      by auto
    have "only_scr (with_outq q s) (with_outq q u)" using only_scr_outq [OF u(4), of q] by (simp add: set_scr_outq)
    with t(6) have "only_scr (with_outq q s) t" using only_scr_trans by blast
    moreover have "tty_drain (Suc k) Putch 0 s = Ok () t"
      using Suc.prems(3) Cons g(1) u(1) t(1) by (simp add: tty_drain.simps kop_simps split_beta)
    ultimately show ?thesis using t(2-5) u(3) Cons by auto
  qed
qed

text \<open>
  At most 1024 characters without tabs and without the top bit, written to the console while nothing waits to be
  shown: each is shown, in the order of the bytes, and the rest of the state is as before.
\<close>

lemma tty_write_shows:
  assumes v: "vga_inv s" and q: "q_inv (t_outq (k_tty s 0))" "q_list (t_outq (k_tty s 0)) = []" "t_putc (k_tty s 0) = Putch"
    and cs: "\<forall>c\<in>set cs. 0 \<le> schar c \<and> c \<noteq> 9" "length cs \<le> 1024" and d: "MINOR dev = 0"
  shows "\<exists>t q. tty_write dev cs s = Ok 0 t \<and> vga_inv t \<and> q_inv q \<and> q_list q = [] \<and> scr t = fold show_ch cs (scr s) \<and> only_scr (with_outq q s) t"
proof -
  have out: "kfor cs (\<lambda>c. kthen (tty_output 0 c) (kret ())) u = Ok () (with_outq (foldl (\<lambda>q c. snd (putq q c)) (t_outq (k_tty u 0)) cs) u)" for u
    using cs(1)
  proof (induction cs arbitrary: u)
    case Nil
    have "(k_tty u)(0 := k_tty u 0) = k_tty u" by simp
    then show ?case by (simp add: kop_simps tty_mod_def)
  next
    case (Cons c cs)
    let ?u = "with_outq (snd (putq (t_outq (k_tty u 0)) c)) u"
    have "kthen (tty_output 0 c) (kret ()) u = Ok () ?u" using Cons.prems by (simp add: tty_output_def kop_simps tty_mod_def)
    then show ?case using Cons.IH [of ?u] Cons.prems by (simp add: kthen_def [of "kthen (tty_output 0 c) (kret ())"] kbind_def set_scr_outq)
  qed
  let ?q1 = "foldl (\<lambda>q c. snd (putq q c)) (t_outq (k_tty s 0)) cs"
  have q1: "q_inv ?q1" "q_list ?q1 = cs" using lq.puts_inv_list [OF q(1), of cs] lq.fifo [OF q(1,2) cs(2)] by simp_all
  let ?u = "with_outq ?q1 s"
  obtain t q2 where t: "tty_drain (Suc (unat (q_count ?q1))) Putch 0 ?u = Ok () t" "vga_inv t" "q_inv q2" "q_list q2 = []"
    "scr t = fold show_ch cs (scr s)" "only_scr (with_outq q2 ?u) t"
    using tty_drain_shows [of ?u "Suc (unat (q_count ?q1))"] v q1 cs(1) length_q_list [of ?q1] by (auto simp: vga_inv_tty_mod set_scr_outq)
  have "tty_start 0 ?u = Ok 0 t" using t(1) q(3) by (simp add: tty_start_def kop_simps)
  then have "tty_write dev cs s = Ok 0 t" using out [of s] d by (simp add: tty_write_def kop_simps Let_def)
  then show ?thesis using t(2-6) by (auto simp: set_scr_outq)
qed

end
