(* ===== verification/Ucall.thy ===== *)
theory Ucall
  imports Sys
begin

text \<open>
  System calls from the side of a program: the macros \<^verbatim>\<open>_SYS0\<close> to \<^verbatim>\<open>_SYS3\<close> of \<^verbatim>\<open>src/inc/unistd.h\<close>, which load the number and
  the arguments into registers, enter the kernel, and split the register that comes back, and the numbers of the calls. What happens on the way back to the program (signals, another
  process) is in \<^verbatim>\<open>hwint_common\<close> and is left out here.
\<close>

section \<open>The stubs\<close>

text \<open>The registers that a stub does not set are those of \<open>tf\<close>. The result is the new value of \<^verbatim>\<open>errno\<close>, if there is one, and the value returned.\<close>

definition SYS0 :: "machine \<Rightarrow> trap \<Rightarrow> uint \<Rightarrow> (int option \<times> int) kop" where
  "SYS0 m tf nr = kbind (do_syscall m (tf\<lparr>tf_eax := nr\<rparr>)) (\<lambda>tf'. kret (sys_stub (tf_eax tf')))"

definition SYS1 :: "machine \<Rightarrow> trap \<Rightarrow> uint \<Rightarrow> uint \<Rightarrow> (int option \<times> int) kop" where
  "SYS1 m tf nr p1 = kbind (do_syscall m (tf\<lparr>tf_eax := nr, tf_ebx := p1\<rparr>)) (\<lambda>tf'. kret (sys_stub (tf_eax tf')))"

definition SYS2 :: "machine \<Rightarrow> trap \<Rightarrow> uint \<Rightarrow> uint \<Rightarrow> uint \<Rightarrow> (int option \<times> int) kop" where
  "SYS2 m tf nr p1 p2 = kbind (do_syscall m (tf\<lparr>tf_eax := nr, tf_ebx := p1, tf_ecx := p2\<rparr>)) (\<lambda>tf'. kret (sys_stub (tf_eax tf')))"

definition SYS3 :: "machine \<Rightarrow> trap \<Rightarrow> uint \<Rightarrow> uint \<Rightarrow> uint \<Rightarrow> uint \<Rightarrow> (int option \<times> int) kop" where
  "SYS3 m tf nr p1 p2 p3 =
     kbind (do_syscall m (tf\<lparr>tf_eax := nr, tf_ebx := p1, tf_ecx := p2, tf_edx := p3\<rparr>)) (\<lambda>tf'. kret (sys_stub (tf_eax tf')))"

text \<open>The calls in the order of the enumeration; the number of a call is its place.\<close>

definition sys_names :: "string list" where
  "sys_names = [''fork'', ''exec'', ''_exit'', ''pause'', ''wait'', ''waitpid'', ''chdir'', ''chroot'',
     ''nice'', ''getpid'', ''getppid'', ''getuid'', ''getgid'', ''geteuid'', ''getegid'', ''getpgrp'', ''setpgrp'', ''setreuid'', ''setregid'',
     ''kill'', ''signal'', ''sigaction'', ''sigreturn'',
     ''access'', ''chown'', ''open'', ''close'', ''creat'', ''lseek'', ''link'', ''unlink'', ''mknod'', ''read'', ''write'', ''truncate'', ''fcntl'',
     ''mount'', ''umount'', ''stat'', ''fstat'', ''dup'', ''dup2'', ''debug'']"

fun place :: "string \<Rightarrow> string list \<Rightarrow> nat" where
  "place n [] = 0"
| "place n (x # xs) = (if n = x then 0 else Suc (place n xs))"

definition NR :: "string \<Rightarrow> uint" where
  "NR name = of_nat (place name sys_names)"

definition usr_open :: "machine \<Rightarrow> trap \<Rightarrow> uint \<Rightarrow> uint \<Rightarrow> uint \<Rightarrow> (int option \<times> int) kop" where
  "usr_open m tf = SYS3 m tf (NR ''open'')"

definition usr_close :: "machine \<Rightarrow> trap \<Rightarrow> uint \<Rightarrow> (int option \<times> int) kop" where
  "usr_close m tf = SYS1 m tf (NR ''close'')"

definition usr_read :: "machine \<Rightarrow> trap \<Rightarrow> uint \<Rightarrow> uint \<Rightarrow> uint \<Rightarrow> (int option \<times> int) kop" where
  "usr_read m tf = SYS3 m tf (NR ''read'')"

definition usr_write :: "machine \<Rightarrow> trap \<Rightarrow> uint \<Rightarrow> uint \<Rightarrow> uint \<Rightarrow> (int option \<times> int) kop" where
  "usr_write m tf = SYS3 m tf (NR ''write'')"

section \<open>Numbers and handlers\<close>

text \<open>The calls that have a number and a stub but no handler in the table of the kernel; \<^verbatim>\<open>access\<close> has the one for missing calls.\<close>

lemma calls_without_handler:
  "filter (\<lambda>name. sys_routines m (unat (NR name)) = None) sys_names = [''chown'', ''lseek'', ''mknod'', ''truncate'', ''mount'', ''umount'']"
  "sys_routines m (unat (NR ''access'')) = Some (keep_frame nosys)"
  by (simp_all add: sys_names_def NR_def sys_routines_def)

lemma NR_calls: "NR ''open'' = 25" "NR ''close'' = 26" "NR ''read'' = 32" "NR ''write'' = 33"
  by (simp_all add: NR_def sys_names_def)

section \<open>A call\<close>

text \<open>The state in which a handler runs: the error code is reset.\<close>

definition entered :: "proc \<Rightarrow> kernel \<Rightarrow> kernel" where
  "entered c s = s\<lparr>k_proc := (k_proc s)(k_cu s \<mapsto> c\<lparr>p_error := 0\<rparr>)\<rparr>"

lemma small_nr:
  fixes nr :: uint
  assumes "nr < 64"
  shows "0 \<le> sint nr" "sint nr < 64" "nat (sint nr) = unat nr"
proof -
  have u: "uint nr < 64" using assms by (simp add: word_less_def)
  have "signed_take_bit 31 (uint nr) = uint nr"
  proof (rule signed_take_bit_int_eq_self)
    show "- (2 ^ 31) \<le> uint nr" by (rule order_trans [OF _ uint_ge_0]) simp
    show "uint nr < 2 ^ 31" using u by simp
  qed
  then have "sint nr = uint nr" by (simp add: sint_uint)
  then show "0 \<le> sint nr" "sint nr < 64" "nat (sint nr) = unat nr" using u by simp_all
qed

lemma stub_Ok:
  assumes cu: "k_proc s (k_cu s) = Some c" and nr: "tf_eax tf = nr" "sys_routines m (unat nr) = Some (keep_frame f)" "nr < 64"
    and run: "f tf (entered c s) = Ok ret s1" "0 \<le> ret" "ret < 2 ^ 31" "k_proc s1 (k_cu s1) \<noteq> None"
  shows "kbind (do_syscall m tf) (\<lambda>tf'. kret (sys_stub (tf_eax tf'))) s = Ok (None, ret) s1"
proof -
  note n = small_nr [OF nr(3)]
  have "sint (word_of_int ret :: uint) = ret" using run(2,3) by (simp add: sint_sbintrunc' signed_take_bit_int_eq_self)
  then have "sys_stub (word_of_int ret) = (None, ret)" using run(2) by (simp add: sys_stub_def)
  then show ?thesis
    using cu nr(1,2) n run(1,2,4) by (auto simp: do_syscall_def Let_def kop_simps keep_frame_def entered_def [symmetric])
qed

lemma stub_fails:
  assumes cu: "k_proc s (k_cu s) = Some c" and nr: "tf_eax tf = nr" "sys_routines m (unat nr) = Some (keep_frame f)" "nr < 64"
    and run: "f tf (entered c s) = Ok ret s1" "ret < 0" "k_proc s1 (k_cu s1) = Some c1" "p_error c1 \<noteq> 0" "p_error c1 < 0x80000000"
  shows "kbind (do_syscall m tf) (\<lambda>tf'. kret (sys_stub (tf_eax tf'))) s = Ok (Some (uint (p_error c1)), -1) s1"
proof -
  note n = small_nr [OF nr(3)]
  have "keep_frame f tf (entered c s) = Ok (ret, tf) s1" using run(1) by (simp add: keep_frame_def kop_simps)
  then obtain eax where "do_syscall m tf s = Ok (tf\<lparr>tf_eax := eax\<rparr>) s1" "sys_stub eax = (Some (uint (p_error c1)), -1)"
    using do_syscall_stub [OF cu, of tf m ret tf s1 c1] nr(1,2) n run(2-5) by (auto simp: entered_def)
  then show ?thesis by (simp add: kop_simps)
qed

section \<open>Checked buffers and paths\<close>

lemma vm_verify_range_Ok:
  assumes "k_proc s (k_cu s) = Some c" "KMEM_END \<le> va" "PG_ADDR va \<le> PG_ADDR (va + n - 1)" "PG_ADDR (va + n - 1) \<noteq> 0xFFFFF000"
    and "\<And>v. PG_ADDR va \<le> v \<Longrightarrow> v \<le> PG_ADDR (va + n - 1) \<Longrightarrow> \<exists>f. walk s (vm_pgd (p_vm c)) v = Some (f, True)"
  shows "vm_verify va n s = Ok 0 s"
  using verify_pages_Ok [OF assms(1) PG_ADDR_user [OF assms(2)] assms(3,5)] assms(2,4)
  by (simp add: vm_verify_def kop_simps not_less [symmetric])

lemma strnlen_cstr: "cstr m p xs \<Longrightarrow> length xs \<le> n \<Longrightarrow> strnlen m p n = length xs"
proof -
  have "cstr m p xs \<Longrightarrow> p + length xs \<le> e \<Longrightarrow> strnlen_loop m p e = p + length xs" for e
  proof (induction xs arbitrary: p)
    case Nil
    then show ?case by (simp add: strnlen_loop.simps)
  next
    case (Cons x xs)
    then show ?case by (subst strnlen_loop.simps) auto
  qed
  then show "cstr m p xs \<Longrightarrow> length xs \<le> n \<Longrightarrow> strnlen m p n = length xs" by (simp add: strnlen_def)
qed

text \<open>
  A path that a handler accepts: a string in one page at \<open>va\<close>, and all pages that the check looks at, which is
  always a whole page of bytes, are there and can be written.
\<close>

definition path_at :: "kernel \<Rightarrow> uint \<Rightarrow> uchar list \<Rightarrow> bool" where
  "path_at s va xs \<longleftrightarrow> KMEM_END \<le> va \<and> cstr (umem s va) 0 xs \<and> POFF va + length xs < 4096 \<and>
     PG_ADDR va \<le> PG_ADDR (va + PAGE - 1) \<and> PG_ADDR (va + PAGE - 1) \<noteq> 0xFFFFF000 \<and>
     (\<forall>v. PG_ADDR va \<le> v \<longrightarrow> v \<le> PG_ADDR (va + PAGE - 1) \<longrightarrow> (\<exists>f. walk s (k_cr3 s) v = Some (f, True)))"

lemma user_path_Ok:
  assumes cu: "k_proc s (k_cu s) = Some c" "vm_pgd (p_vm c) = k_cr3 s" and p: "path_at s va xs"
  shows "user_path va f s = f (umem s va) s"
proof -
  have v: "vm_verify va PAGE s = Ok 0 s" using p cu by (intro vm_verify_range_Ok [OF cu(1)]) (auto simp: path_at_def)
  have "\<exists>g. walk s (k_cr3 s) (PG_ADDR va) = Some (g, True)" using p by (simp add: path_at_def)
  moreover have "PG_ADDR (PG_ADDR va) = PG_ADDR va" using unat_PG_ADDR [of "PG_ADDR va"] by (simp add: word_unat_eq_iff unat_PG_ADDR)
  ultimately obtain g where "walk s (k_cr3 s) va = Some (g, True)" using view_same_page(1) [of "PG_ADDR va" va] by metis
  then have "get_user s (va + of_nat (length xs)) = Some (k_mem s g (POFF va + length xs))"
    using p by (intro get_user_page) (auto simp: path_at_def)
  moreover have "strnlen (umem s va) 0 4096 = length xs" "strlen (umem s va) 0 = Some (length xs)" "length xs < 4096"
    using p strnlen_cstr [of "umem s va" 0 xs 4096] strlen_cstr [of "umem s va" 0 xs] by (simp_all add: path_at_def)
  ultimately show ?thesis using v by (simp add: user_path_def with_path_def kop_simps)
qed

end
