(* ===== verification/Cat.thy ===== *)
theory Cat
  imports Fileio Screen Ucall
begin

text \<open>
  The program \<^verbatim>\<open>usr/cat.c\<close> on the kernel: it calls the stubs of the library, which reach the handlers of the kernel through the table of
  system calls. What it shows is the whole file, although \<^verbatim>\<open>do_read\<close> moves the position too far at the end.
\<close>

section \<open>The program\<close>

text \<open>
  The loop may run for ever, so it has fuel. The result of \<^verbatim>\<open>write\<close> is not looked at, and \<^verbatim>\<open>cat\<close> returns a result only when the file cannot
  be opened. \<open>tf\<close> has the registers of the program that the stubs do not set.
\<close>

primrec cat_loop :: "nat \<Rightarrow> machine \<Rightarrow> trap \<Rightarrow> uint \<Rightarrow> uint \<Rightarrow> unit kop" where
  "cat_loop 0 m tf fd buf = kstop Spin"
| "cat_loop (Suc k) m tf fd buf = kbind (usr_read m tf fd buf 32) (\<lambda>(_, n).
     if n > 0 then kthen (usr_write m tf 0 buf (word_of_int n)) (cat_loop k m tf fd buf) else kret ())"

definition cat :: "nat \<Rightarrow> machine \<Rightarrow> trap \<Rightarrow> uint \<Rightarrow> uint \<Rightarrow> int option kop" where
  "cat k m tf pathp buf = kbind (usr_open m tf pathp 0 0) (\<lambda>(_, fd).
     if fd < 0 then kret (Some (-1))
     else kthen (cat_loop k m tf (word_of_int fd) buf) (kthen (usr_close m tf (word_of_int fd)) (kret None)))"

section \<open>What the calls leave alone\<close>

text \<open>The console can take output: its cursor is on the screen, and nothing waits to be shown.\<close>

definition console :: "kernel \<Rightarrow> bool" where
  "console s \<longleftrightarrow> vga_inv s \<and> t_putc (k_tty s 0) = Putch \<and> q_inv (t_outq (k_tty s 0)) \<and> q_list (t_outq (k_tty s 0)) = []"

definition stays :: "kernel \<Rightarrow> kernel \<Rightarrow> bool" where
  "stays s t \<longleftrightarrow> bio_inv t {} \<and> disk_blk t = disk_blk s \<and> k_inode t = k_inode s \<and> k_cu t = k_cu s \<and>
     map_option (\<lambda>p. (p_ofile p, vm_pgd (p_vm p))) (k_proc t (k_cu s)) = map_option (\<lambda>p. (p_ofile p, vm_pgd (p_vm p))) (k_proc s (k_cu s)) \<and>
     (\<forall>i. f_ino (k_file t i) = f_ino (k_file s i) \<and> f_oflag (k_file t i) = f_oflag (k_file s i)) \<and> k_cr3 t = k_cr3 s \<and> walk t = walk s \<and> k_mnt t = k_mnt s"

lemma stays_trans: "stays s t \<Longrightarrow> stays t u \<Longrightarrow> stays s u"
  by (simp add: stays_def)

lemma stays_ofile:
  assumes "stays s t" "k_proc s (k_cu s) = Some c"
  shows "\<exists>c'. k_proc t (k_cu t) = Some c' \<and> p_ofile c' = p_ofile c \<and> vm_pgd (p_vm c') = vm_pgd (p_vm c)"
  using assms by (auto simp: stays_def)

text \<open>An open regular file: descriptor, file structure, unlocked inode, and a present block for every byte.\<close>

definition reads_from :: "kernel \<Rightarrow> nat \<Rightarrow> nat \<Rightarrow> nat \<Rightarrow> bool" where
  "reads_from s fd fp ip \<longleftrightarrow> (\<exists>c. k_proc s (k_cu s) = Some c \<and> p_ofile c fd = Some fp) \<and> fd < NOFILE \<and>
     f_oflag (k_file s fp) AND 1 = 0 \<and> f_ino (k_file s fp) = Some ip \<and>
     i_mode (k_inode s ip) AND S_IFMT = S_IFREG \<and> i_flag (k_inode s ip) AND 3 = 0 \<and>
     bio_inv s {} \<and> file_ok s ip \<and> mapped s ip 0 (unat (i_size (k_inode s ip)))"

text \<open>A descriptor of the console.\<close>

definition writes_to :: "kernel \<Rightarrow> nat \<Rightarrow> nat \<Rightarrow> nat \<Rightarrow> bool" where
  "writes_to s fd fp ip \<longleftrightarrow> (\<exists>c. k_proc s (k_cu s) = Some c \<and> p_ofile c fd = Some fp) \<and> fd < NOFILE \<and> f_ino (k_file s fp) = Some ip \<and>
     i_mode (k_inode s ip) AND S_IFMT = S_IFCHR \<and> MAJOR (i_zone (k_inode s ip) 0) = 1 \<and> MINOR (i_zone (k_inode s ip) 0) = 0 \<and>
     i_flag (k_inode s ip) AND 3 = 0"

lemma stays_keeps:
  assumes s: "stays s t"
  shows "reads_from s fd fp ip \<Longrightarrow> reads_from t fd fp ip" "writes_to s fd fp ip \<Longrightarrow> writes_to t fd fp ip" "file_byte t ip = file_byte s ip"
proof -
  note v = view_cong [of t ip s]
  have f: "k_inode t = k_inode s" "disk_blk t = disk_blk s" using s by (simp_all add: stays_def)
  show "file_byte t ip = file_byte s ip" using v f by simp
  show "reads_from t fd fp ip" if "reads_from s fd fp ip"
    using that stays_ofile [OF s] s v f by (auto simp: reads_from_def stays_def)
  show "writes_to t fd fp ip" if "writes_to s fd fp ip"
    using that stays_ofile [OF s] s f by (auto simp: writes_to_def stays_def)
qed

section \<open>Reading and writing\<close>

lemma those_map_Some: "those (map Some xs) = Some xs"
  by (induction xs) simp_all

lemma read_step:
  assumes r: "reads_from s fd fp ip" and off: "off = unat (f_offset (k_file s fp))" "off \<le> unat (i_size (k_inode s ip))"
    and n: "n = min 32 (unat (i_size (k_inode s ip)) - off)"
    and buf: "KMEM_END \<le> buf" "walk s (k_cr3 s) buf = Some (g, w)" "POFF buf + 32 \<le> 4096"
  shows "\<exists>t. do_read usigret (int fd) buf 32 s = Ok (int n) t \<and> stays s t \<and>
    user_bytes t buf n = Some (map (file_byte s ip) [off..<off + n]) \<and>
    f_offset (k_file t fp) = f_offset (k_file s fp) + 32 \<and> k_tty t = k_tty s \<and> k_vga t = k_vga s"
proof -
  obtain c where c: "k_proc s (k_cu s) = Some c" "p_ofile c fd = Some fp" using r by (auto simp: reads_from_def)
  have sz: "unat (i_size (k_inode s ip)) \<le> 0x4000000" using r by (simp add: reads_from_def file_ok_def word_le_nat_alt)
  have m: "mapped s ip off (off + n)" using r off(2) n by (auto simp: reads_from_def mapped_def)
  have p: "0 \<le> int fd" "int fd < int NOFILE" "p_ofile c (nat (int fd)) = Some fp" "0 \<le> (32 :: int)" "int off + 32 < 2 ^ 31"
    "n = min (nat 32) (unat (i_size (k_inode s ip)) - off)" "POFF buf + n \<le> 4096"
    using r c(2) off(2) n sz buf(3) by (simp_all add: reads_from_def)
  have i: "f_oflag (k_file s fp) AND 1 = 0" "f_ino (k_file s fp) = Some ip" "i_mode (k_inode s ip) AND S_IFMT = S_IFREG"
    "i_flag (k_inode s ip) AND 3 = 0" "bio_inv s {}" "file_ok s ip"
    using r by (simp_all add: reads_from_def)
  obtain t where t: "do_read usigret (int fd) buf 32 s = Ok (int n) t" "\<forall>j<n. get_user t (buf + of_nat j) = Some (file_byte s ip (off + j))"
    "bio_inv t {}" "disk_blk t = disk_blk s" "k_file t = (k_file s)(fp := (k_file s fp)\<lparr>f_offset := f_offset (k_file s fp) + 32\<rparr>)"
    "bio_frame (s\<lparr>k_file := k_file t, k_mem := k_mem t\<rparr>) t"
    using do_read_file [OF c(1) p(1-3) i off p(4,5) p(6) m buf(1,2) p(7), of usigret] by auto
  note fr = bio_frame_fields [OF t(6), simplified] and sp = bio_frame_space [OF t(6), simplified]
  have vg: "k_vga t = k_vga s" using arg_cong [OF t(6) [unfolded bio_frame_def], of k_vga] by (simp add: non_bio_def)
  have "map_option (\<lambda>p. (p_ofile p, vm_pgd (p_vm p))) (k_proc t (k_cu s)) = map_option (\<lambda>p. (p_ofile p, vm_pgd (p_vm p))) (k_proc s (k_cu s))"
    using strip_ofile [of "k_proc t (k_cu s)" c] bio_frame_proc [OF t(6), of "k_cu s"] c(1) by auto
  moreover have "walk t = walk s" using sp(1-3) by (simp add: walk_def fun_eq_iff)
  ultimately have "stays s t" using t(3,4,5) fr sp by (simp add: stays_def)
  moreover have "user_bytes t buf n = Some (map (file_byte s ip) [off..<off + n])"
  proof -
    have "map (\<lambda>j. get_user t (buf + of_nat j)) [0..<n] = map Some (map (file_byte s ip) [off..<off + n])"
      using t(2) by (intro nth_equalityI) auto
    then show ?thesis by (simp only: user_bytes_def those_map_Some)
  qed
  ultimately show ?thesis using t(1,5) fr vg by auto
qed

lemma write_step:
  assumes w: "writes_to s 0 fp ip" and k: "console s" "bio_inv s {}"
    and b: "0 < n" "n \<le> 32" "user_bytes s buf n = Some bs" "\<forall>c\<in>set bs. 0 \<le> schar c \<and> c \<noteq> 9" "length bs = n"
  shows "\<exists>t. do_write 0 buf (int n) s = Ok 0 t \<and> stays s t \<and> console t \<and> scr t = fold show_ch bs (scr s) \<and>
    (\<forall>i. i \<noteq> fp \<longrightarrow> k_file t i = k_file s i)"
proof -
  obtain c where c: "k_proc s (k_cu s) = Some c" "p_ofile c 0 = Some fp" using w by (auto simp: writes_to_def)
  let ?i = "k_inode s ip" and ?f = "k_file s fp"
  have fl: "i_flag ?i AND 2 = 0" "i_flag ?i AND NOT 3 = i_flag ?i" using low_flags [of "i_flag ?i"] w by (simp_all add: writes_to_def)
  obtain t q where t: "tty_write (i_zone ?i 0) bs s = Ok 0 t" "vga_inv t" "q_inv q" "q_list q = []" "scr t = fold show_ch bs (scr s)"
    "only_scr (with_outq q s) t"
    using tty_write_shows [of s bs "i_zone ?i 0"] w k(1) b by (auto simp: console_def writes_to_def)
  note f = only_scr_fields [OF t(6), unfolded tty_mod_def, simplified]
  define u where "u = file_mod fp (\<lambda>f. f\<lparr>f_offset := (if f_oflag ?f AND 0x40 \<noteq> 0 then i_size ?i else f_offset ?f) + word_of_int (int n)\<rparr>) t"
  have un: "unlk_ino ip u = Ok () u"
  proof -
    have "ino_mod ip (\<lambda>i. i\<lparr>i_flag := i_flag i AND NOT (I_LOCK OR I_WANTED)\<rparr>) u = u"
      using fl(2) f(3) by (simp add: u_def ino_mod_def file_mod_def)
    then show ?thesis using fl(1) f(3) by (simp add: unlk_ino_def kop_simps u_def file_mod_def)
  qed
  have un2: "unat (word_of_int (int n) :: uint) = n" using b(2) by (simp add: unsigned_of_nat take_bit_nat_eq_self)
  have nb: "i_mode ?i AND S_IFMT = S_IFCHR" "i_mode ?i AND S_IFMT \<noteq> S_IFBLK" "MAJOR (i_zone ?i 0) = 1" "f_ino ?f = Some ip" using w by (simp_all add: writes_to_def)
  have "do_write 0 buf (int n) s = Ok 0 u"
    using c nb t(1) b(3) un un2 unfolding do_write_def fd_file_def u_def Let_def by (simp add: kop_simps)
  moreover have "bio_inv u {}" using k(2) by (subst bio_inv_cong [of _ s]) (simp_all add: u_def file_mod_def f)
  moreover have "disk_blk u = disk_blk s" by (rule disk_blk_cong) (simp add: u_def file_mod_def f)
  moreover have "walk u = walk s" by (simp add: walk_def fun_eq_iff u_def file_mod_def f)
  moreover have "console u" using t(2,3,4) only_scr_tty [OF t(6), of 0] k(1) by (simp add: console_def u_def file_mod_def vga_inv_def px_def py_def)
  moreover have "scr u = fold show_ch bs (scr s)" using t(5) by (simp add: u_def file_mod_def scr_def px_def py_def)
  ultimately show ?thesis by (intro exI [of _ u]) (auto simp: stays_def u_def file_mod_def f)
qed

section \<open>The calls of the program\<close>

text \<open>A buffer of 32 bytes in a page of the process that can be written, below the last page.\<close>

definition user_page :: "kernel \<Rightarrow> uint \<Rightarrow> bool" where
  "user_page s buf \<longleftrightarrow> KMEM_END \<le> buf \<and> POFF buf + 32 \<le> 4096 \<and> PG_ADDR buf \<noteq> 0xFFFFF000 \<and> (\<exists>g. walk s (k_cr3 s) buf = Some (g, True)) \<and>
     (\<exists>c. k_proc s (k_cu s) = Some c \<and> vm_pgd (p_vm c) = k_cr3 s)"

lemma stays_page: "stays s t \<Longrightarrow> user_page s buf \<Longrightarrow> user_page t buf"
  using stays_ofile [of s t] by (auto simp: user_page_def stays_def)

lemma entered_stays:
  assumes "k_proc s (k_cu s) = Some c" "bio_inv s {}"
  shows "stays s (entered c s)" "k_file (entered c s) = k_file s" "k_tty (entered c s) = k_tty s" "k_vga (entered c s) = k_vga s"
    "bio_inv (entered c s) {}" "k_proc (entered c s) (k_cu (entered c s)) = Some (c\<lparr>p_error := 0\<rparr>)"
proof -
  have "disk_blk (entered c s) = disk_blk s" by (rule disk_blk_cong) (simp add: entered_def)
  moreover show b: "bio_inv (entered c s) {}"
    using bio_inv_k_proc [OF assms(2), of "(k_proc s)(k_cu s \<mapsto> c\<lparr>p_error := 0\<rparr>)" "k_cu s"] by (simp add: entered_def)
  ultimately show "stays s (entered c s)" using assms(1) by (simp add: stays_def entered_def walk_def fun_eq_iff)
qed (simp_all add: entered_def)

lemma verify_buf:
  assumes "user_page s buf" "0 < n" "n \<le> 32"
  shows "vm_verify buf (of_nat n) s = Ok 0 s"
proof -
  obtain g c where "walk s (k_cr3 s) buf = Some (g, True)" "k_proc s (k_cu s) = Some c" "vm_pgd (p_vm c) = k_cr3 s"
    using assms(1) by (auto simp: user_page_def)
  then show ?thesis using vm_verify_page_Ok [of s c buf n g] assms by (simp add: user_page_def)
qed

lemma small_int: "n < 64 \<Longrightarrow> sint (of_nat n :: uint) = int n"
  by (simp add: signed_of_nat signed_take_bit_int_eq_self)

lemma routines_cat: "sys_routines m (unat (NR ''open'')) = Some (keep_frame sys_open)" "sys_routines m (unat (NR ''close'')) = Some (keep_frame sys_close)"
  "sys_routines m (unat (NR ''read'')) = Some (keep_frame (sys_read m))" "sys_routines m (unat (NR ''write'')) = Some (keep_frame sys_write)"
  "NR ''open'' < 64" "NR ''close'' < 64" "NR ''read'' < 64" "NR ''write'' < 64"
  by (simp_all add: NR_calls sys_routines_def)

lemma read_call:
  assumes r: "reads_from s fd fp ip" and off: "off = unat (f_offset (k_file s fp))" "off \<le> unat (i_size (k_inode s ip))"
    and n: "n = min 32 (unat (i_size (k_inode s ip)) - off)" and buf: "user_page s buf"
  shows "\<exists>t. usr_read m tf (of_nat fd) buf 32 s = Ok (None, int n) t \<and> stays s t \<and>
    user_bytes t buf n = Some (map (file_byte s ip) [off..<off + n]) \<and>
    f_offset (k_file t fp) = f_offset (k_file s fp) + 32 \<and> k_tty t = k_tty s \<and> k_vga t = k_vga s"
proof -
  obtain c where c: "k_proc s (k_cu s) = Some c" "bio_inv s {}" "fd < NOFILE" using r by (auto simp: reads_from_def)
  let ?e = "entered c s"
  note e = entered_stays [OF c(1,2)]
  have i: "k_inode ?e = k_inode s" by (simp add: entered_def)
  have be: "user_page ?e buf" by (rule stays_page [OF e(1) buf])
  then obtain g where g: "walk ?e (k_cr3 ?e) buf = Some (g, True)" "KMEM_END \<le> buf" "POFF buf + 32 \<le> 4096" by (auto simp: user_page_def)
  obtain t where t: "do_read (m_usigret m) (int fd) buf 32 ?e = Ok (int n) t" "stays ?e t" "user_bytes t buf n = Some (map (file_byte s ip) [off..<off + n])"
    "f_offset (k_file t fp) = f_offset (k_file s fp) + 32" "k_tty t = k_tty s" "k_vga t = k_vga s"
    using read_step [OF stays_keeps(1) [OF e(1) r], of off n buf g True "m_usigret m"] off n g e(2,3,4) i stays_keeps(3) [OF e(1), of ip] by auto
  have "sys_read m (tf\<lparr>tf_eax := NR ''read'', tf_ebx := of_nat fd, tf_ecx := buf, tf_edx := 32\<rparr>) ?e = Ok (int n) t"
    using verify_buf [OF be, of 32] t(1) small_int [of fd] c(3) by (simp add: sys_read_def kop_simps)
  moreover have "k_proc t (k_cu t) \<noteq> None" using stays_ofile [OF t(2) e(6)] by auto
  ultimately have "usr_read m tf (of_nat fd) buf 32 s = Ok (None, int n) t"
    unfolding usr_read_def SYS3_def using n by (intro stub_Ok [OF c(1) _ routines_cat(3,7)]) simp_all
  then show ?thesis using t(3-6) stays_trans [OF e(1) t(2)] by blast
qed

lemma read_call_past_end:
  assumes r: "reads_from s fd fp ip" and off: "i_size (k_inode s ip) < f_offset (k_file s fp)" and buf: "user_page s buf"
  shows "\<exists>t. usr_read m tf (of_nat fd) buf 32 s = Ok (Some 7, -1) t \<and> stays s t \<and> k_tty t = k_tty s \<and> k_vga t = k_vga s"
proof -
  obtain c where c: "k_proc s (k_cu s) = Some c" "bio_inv s {}" "fd < NOFILE" "p_ofile c fd = Some fp" using r by (auto simp: reads_from_def)
  let ?e = "entered c s" and ?c = "c\<lparr>p_error := 0\<rparr>"
  note e = entered_stays [OF c(1,2)]
  let ?t = "?e\<lparr>k_proc := (k_proc ?e)(k_cu ?e \<mapsto> ?c\<lparr>p_error := E2BIG\<rparr>)\<rparr>"
  have re: "reads_from ?e fd fp ip" by (rule stays_keeps(1) [OF e(1) r])
  have "do_read (m_usigret m) (int fd) buf 32 ?e = Ok (-1) ?t"
    using do_read_past_end [OF e(6), of "int fd" fp ip "m_usigret m" buf 32] re c(4) off e(2) by (simp add: reads_from_def entered_def)
  then have "sys_read m (tf\<lparr>tf_eax := NR ''read'', tf_ebx := of_nat fd, tf_ecx := buf, tf_edx := 32\<rparr>) ?e = Ok (-1) ?t"
    using verify_buf [OF stays_page [OF e(1) buf], of 32] small_int [of fd] c(3) by (simp add: sys_read_def kop_simps)
  then have "usr_read m tf (of_nat fd) buf 32 s = Ok (Some (uint (p_error (?c\<lparr>p_error := E2BIG\<rparr>))), -1) ?t"
    unfolding usr_read_def SYS3_def by (intro stub_fails [OF c(1) _ routines_cat(3,7), where ret = "-1"]) simp_all
  moreover have "bio_inv ?t {}" using bio_inv_k_proc [OF e(5), of "(k_proc ?e)(k_cu ?e \<mapsto> ?c\<lparr>p_error := E2BIG\<rparr>)" "k_cu ?e"] by simp
  moreover have "disk_blk ?t = disk_blk s" by (rule disk_blk_cong) (simp add: entered_def)
  ultimately show ?thesis using c(1) by (intro exI [of _ ?t]) (simp add: stays_def entered_def walk_def fun_eq_iff)
qed

lemma write_call:
  assumes w: "writes_to s 0 fp ip" and k: "console s" "bio_inv s {}" and buf: "user_page s buf"
    and b: "0 < n" "n \<le> 32" "user_bytes s buf n = Some bs" "\<forall>c\<in>set bs. 0 \<le> schar c \<and> c \<noteq> 9" "length bs = n"
  shows "\<exists>t. usr_write m tf 0 buf (of_nat n) s = Ok (None, 0) t \<and> stays s t \<and> console t \<and> scr t = fold show_ch bs (scr s) \<and>
    (\<forall>i. i \<noteq> fp \<longrightarrow> k_file t i = k_file s i)"
proof -
  obtain c where c: "k_proc s (k_cu s) = Some c" using w by (auto simp: writes_to_def)
  let ?e = "entered c s"
  note e = entered_stays [OF c k(2)]
  have ub: "user_bytes ?e buf n = Some bs"
  proof -
    have "walk ?e = walk s" "k_cr3 ?e = k_cr3 s" "k_mem ?e = k_mem s" using e(1) by (simp_all add: stays_def) (simp add: entered_def)
    then show ?thesis using b(3) by (simp add: user_bytes_def get_user_def mmu_def cong: if_cong)
  qed
  have sc: "console ?e" "scr ?e = scr s" using k(1) e(3,4) by (simp_all add: console_def vga_inv_def px_def py_def scr_def)
  obtain t where t: "do_write 0 buf (int n) ?e = Ok 0 t" "stays ?e t" "console t" "scr t = fold show_ch bs (scr s)" "\<forall>i. i \<noteq> fp \<longrightarrow> k_file t i = k_file s i"
    using write_step [OF stays_keeps(2) [OF e(1) w] sc(1) e(5) b(1,2) ub b(4,5)] sc(2) e(2) by auto
  have "sys_write (tf\<lparr>tf_eax := NR ''write'', tf_ebx := 0, tf_ecx := buf, tf_edx := of_nat n\<rparr>) ?e = Ok 0 t"
    using verify_buf [OF stays_page [OF e(1) buf] b(1,2)] t(1) small_int [of n] b(2) by (simp add: sys_write_def kop_simps)
  moreover have "k_proc t (k_cu t) \<noteq> None" using stays_ofile [OF t(2) e(6)] by auto
  ultimately have "usr_write m tf 0 buf (of_nat n) s = Ok (None, 0) t"
    unfolding usr_write_def SYS3_def by (intro stub_Ok [OF c _ routines_cat(4,8)]) simp_all
  then show ?thesis using t(3-5) stays_trans [OF e(1) t(2)] by blast
qed

section \<open>The loop\<close>

text \<open>From a position in the file on, the loop shows the rest of the file.\<close>

lemma loop_shows:
  "reads_from s fd fp ip \<Longrightarrow> writes_to s 0 fp0 ip0 \<Longrightarrow> fp0 \<noteq> fp \<Longrightarrow> console s \<Longrightarrow> user_page s buf \<Longrightarrow>
    off = unat (f_offset (k_file s fp)) \<Longrightarrow> off \<le> sz \<Longrightarrow> sz = unat (i_size (k_inode s ip)) \<Longrightarrow> (sz - off) div 32 + 2 \<le> k \<Longrightarrow>
    \<forall>j < sz. 0 \<le> schar (file_byte s ip j) \<and> file_byte s ip j \<noteq> 9 \<Longrightarrow>
    \<exists>t. cat_loop k m tf (of_nat fd) buf s = Ok () t \<and> stays s t \<and> console t \<and> scr t = fold show_ch (map (file_byte s ip) [off..<sz]) (scr s)"
proof (induction k arbitrary: s off)
  case 0
  then show ?case by simp
next
  case (Suc k)
  note r = Suc.prems(1) and wr = Suc.prems(2) and cs = Suc.prems(4)
  define n where "n = min 32 (sz - off)"
  obtain t where t: "usr_read m tf (of_nat fd) buf 32 s = Ok (None, int n) t" "stays s t" "user_bytes t buf n = Some (map (file_byte s ip) [off..<off + n])"
    "f_offset (k_file t fp) = f_offset (k_file s fp) + 32" "k_tty t = k_tty s" "k_vga t = k_vga s"
    using read_call [OF r Suc.prems(6) _ _ Suc.prems(5), of n m tf] Suc.prems(7,8) n_def by auto
  have ct: "console t" "scr t = scr s" using cs t(5,6) by (simp_all add: console_def vga_inv_def px_def py_def scr_def)
  show ?case
  proof (cases "n = 0")
    case True
    then show ?thesis using t ct Suc.prems(7) by (auto simp: kop_simps n_def)
  next
    case False
    let ?bs = "map (file_byte s ip) [off..<off + n]"
    have "\<forall>c\<in>set ?bs. 0 \<le> schar c \<and> c \<noteq> 9" using Suc.prems(10) by (auto simp: n_def)
    then obtain u where u: "usr_write m tf 0 buf (of_nat n) t = Ok (None, 0) u" "stays t u" "console u" "scr u = fold show_ch ?bs (scr s)"
      "\<forall>i. i \<noteq> fp0 \<longrightarrow> k_file u i = k_file t i"
      using write_call [OF stays_keeps(2) [OF t(2) wr] ct(1) _ stays_page [OF t(2) Suc.prems(5)] _ _ t(3), of m tf] t(2) False ct(2) by (auto simp: n_def stays_def)
    have su: "stays s u" using t(2) u(2) by (rule stays_trans)
    have step: "cat_loop (Suc k) m tf (of_nat fd) buf s = cat_loop k m tf (of_nat fd) buf u"
      using t(1) u(1) False by (simp add: kop_simps)
    have ru: "reads_from u fd fp ip" by (rule stays_keeps(1) [OF su r])
    have fu: "f_offset (k_file u fp) = f_offset (k_file s fp) + 32" using u(5) t(4) Suc.prems(3) by auto
    have sz: "sz \<le> 0x4000000" "sz = unat (i_size (k_inode u ip))"
      using r su Suc.prems(8) by (auto simp: reads_from_def file_ok_def stays_def word_le_nat_alt)
    have o: "unat (f_offset (k_file u fp)) = off + 32" using fu Suc.prems(6,7) sz(1) by (simp add: unat_word_ariths)
    have bytes: "file_byte u ip = file_byte s ip" by (rule stays_keeps(3) [OF su])
    show ?thesis
    proof (cases "off + 32 \<le> sz")
      case True
      have "\<exists>v. cat_loop k m tf (of_nat fd) buf u = Ok () v \<and> stays u v \<and> console v \<and>
          scr v = fold show_ch (map (file_byte u ip) [off + 32..<sz]) (scr u)"
        using Suc.IH [OF ru stays_keeps(2) [OF su wr] Suc.prems(3) u(3) stays_page [OF su Suc.prems(5)] o [symmetric] True sz(2)] Suc.prems(9,10) True bytes by auto
      moreover have "[off..<sz] = [off..<off + 32] @ [off + 32..<sz]" using True by (metis le_add1 le_add_diff_inverse upt_add_eq_append)
      moreover have "n = 32" using True by (simp add: n_def)
      ultimately show ?thesis using step stays_trans [OF su] u(4) bytes by auto
    next
      case False
      then have "n = sz - off" by (auto simp: n_def)
      obtain j where j: "k = Suc j" using Suc.prems(9) by (cases k) auto
      have "i_size (k_inode u ip) < f_offset (k_file u fp)" using False o sz(2) by (simp add: word_less_nat_alt)
      then obtain v where "usr_read m tf (of_nat fd) buf 32 u = Ok (Some 7, -1) v" and v: "stays u v" "k_tty v = k_tty u" "k_vga v = k_vga u"
        using read_call_past_end [OF ru _ stays_page [OF su Suc.prems(5)], of m tf] by blast
      then have "cat_loop k m tf (of_nat fd) buf u = Ok () v" using j by (simp add: kop_simps)
      have "console v" "scr v = scr u" using u(3) v(2,3) by (simp_all add: console_def vga_inv_def px_def py_def scr_def)
      then show ?thesis using step stays_trans [OF su v(1)] u(4) \<open>cat_loop k m tf (of_nat fd) buf u = Ok () v\<close> \<open>n = sz - off\<close> Suc.prems(7) by auto
    qed
  qed
qed

section \<open>Closing\<close>

lemma iput_returns:
  assumes inv: "bio_inv s {}" and i: "ino_at s ip n" "i_flag (k_inode s ip) AND 3 = 0" "i_count (k_inode s ip) \<noteq> 0"
    "i_nlink (k_inode s ip) \<noteq> 0" "i_mode (k_inode s ip) AND S_IFMT = S_IFREG"
  shows "\<exists>t. iput (Some ip) s = Ok () t \<and> k_tty t = k_tty s \<and> k_vga t = k_vga s \<and> k_proc t (k_cu t) \<noteq> None"
proof (cases "i_count (k_inode s ip) = 1")
  case True
  define u where "u = ino_mod ip (\<lambda>i. i\<lparr>i_flag := i_flag i OR I_LOCK, i_count := 0\<rparr>) s"
  have m: "ino_mod ip (\<lambda>i. if i_count i > 0 then i\<lparr>i_count := i_count i - 1\<rparr> else i)
      (ino_mod ip (\<lambda>i. i\<lparr>i_flag := i_flag i OR I_LOCK\<rparr>) s) = u"
    unfolding ino_mod_comp u_def by (rule ino_mod_eq, rule inode.equality) (simp_all add: True)
  have "bio_inv u {}" using inv by (simp add: u_def)
  moreover have "ino_at u ip n" using i(1) by (auto simp: ino_at_def u_def mounted_def)
  ultimately obtain v where v: "iupdate ip u = Ok () v" "bio_frame (ino_mod ip (\<lambda>i. i\<lparr>i_flag := i_flag i AND NOT I_DIRTY\<rparr>) u) v"
    using iupdate_Ok [OF _ held_empty(2)] held_empty(1) by fastforce
  have f: "k_tty v = k_tty s" "k_vga v = k_vga s"
    using bio_frame_fields [OF v(2)] arg_cong [OF v(2) [unfolded bio_frame_def], of k_vga] by (simp_all add: u_def ino_mod_def non_bio_def)
  have "map_option strip (k_proc v (k_cu v)) = map_option strip (k_proc s (k_cu s))"
    using bio_frame_proc [OF v(2), of "k_cu v"] bio_frame_fields(5) [OF v(2)] by (simp add: u_def ino_mod_def)
  then have p: "k_proc v (k_cu v) \<noteq> None" using inv by (auto simp: bio_inv_def)
  have k: "k_inode u ip = (k_inode s ip)\<lparr>i_flag := i_flag (k_inode s ip) OR I_LOCK, i_count := 0\<rparr>" by (simp add: u_def)
  have "iput (Some ip) s = Ok () (ino_mod ip (\<lambda>i. i\<lparr>i_flag := i_flag i AND NOT (I_LOCK OR I_WANTED)\<rparr>) (ino_mod ip (\<lambda>i. i\<lparr>i_flag := 0, i_num := 0\<rparr>) v))"
    using m v(1) k i(4,5) by (simp add: iput_def unlk_ino_def kop_simps)
  then show ?thesis using f p by (simp add: ino_mod_def)
next
  case False
  then have "1 < i_count (k_inode s ip)" using i(3) by (metis word_le_less_eq word_less_1 linorder_not_le)
  then show ?thesis using iput_shared [of s ip] low_flags [OF i(2)] inv by (simp add: ino_mod_def bio_inv_def)
qed

lemma close_returns:
  assumes r: "reads_from s fd fp ip" and i: "ino_at s ip n" "i_count (k_inode s ip) \<noteq> 0" "i_nlink (k_inode s ip) \<noteq> 0"
  shows "\<exists>t. do_close (int fd) s = Ok 0 t \<and> scr t = scr s \<and> k_proc t (k_cu t) \<noteq> None"
proof -
  obtain c where c: "k_proc s (k_cu s) = Some c" "p_ofile c fd = Some fp" using r by (auto simp: reads_from_def)
  define u where "u = s\<lparr>k_proc := (k_proc s)(k_cu s \<mapsto> c\<lparr>p_ofile := (p_ofile c)(fd := None)\<rparr>)\<rparr>"
  have "bio_inv u {}" using r bio_inv_k_proc [of s "{}" "(k_proc s)(k_cu s \<mapsto> c\<lparr>p_ofile := (p_ofile c)(fd := None)\<rparr>)" "k_cu s"]
    by (simp add: u_def reads_from_def)
  moreover have "ino_at u ip n" using i(1) by (auto simp: ino_at_def u_def mounted_def)
  ultimately obtain v where v: "iput (Some ip) u = Ok () v" "k_tty v = k_tty u" "k_vga v = k_vga u" "k_proc v (k_cu v) \<noteq> None"
    using iput_returns [of u ip n] r i(2,3) by (auto simp: reads_from_def u_def)
  have "cu_mod (\<lambda>p. p\<lparr>p_ofile := (p_ofile p)(fd := None)\<rparr>) s = Ok () u" using c(1) by (simp add: u_def cu_mod_def kop_simps)
  moreover have "f_ino (k_file u fp) = Some ip" using r by (simp add: reads_from_def u_def)
  ultimately show ?thesis using r c v by (auto simp: do_close_def kop_simps reads_from_def u_def scr_def px_def py_def file_mod_def)
qed

lemma close_call:
  assumes r: "reads_from s fd fp ip" and i: "ino_at s ip n" "i_count (k_inode s ip) \<noteq> 0" "i_nlink (k_inode s ip) \<noteq> 0"
  shows "\<exists>t. usr_close m tf (of_nat fd) s = Ok (None, 0) t \<and> scr t = scr s"
proof -
  obtain c where c: "k_proc s (k_cu s) = Some c" "bio_inv s {}" "fd < NOFILE" using r by (auto simp: reads_from_def)
  let ?e = "entered c s"
  note e = entered_stays [OF c(1,2)]
  have "ino_at ?e ip n" using i(1) by (auto simp: ino_at_def entered_def mounted_def)
  then obtain t where t: "do_close (int fd) ?e = Ok 0 t" "scr t = scr ?e" "k_proc t (k_cu t) \<noteq> None"
    using close_returns [OF stays_keeps(1) [OF e(1) r], of n] i(2,3) by (auto simp: entered_def)
  have "sys_close (tf\<lparr>tf_eax := NR ''close'', tf_ebx := of_nat fd\<rparr>) ?e = Ok 0 t"
    using t(1) small_int [of fd] c(3) by (simp add: sys_close_def)
  then have "usr_close m tf (of_nat fd) s = Ok (None, 0) t"
    unfolding usr_close_def SYS1_def using t(3) by (intro stub_Ok [OF c(1) _ routines_cat(2,6)]) simp_all
  moreover have "scr t = scr s" using t(2) e(3,4) by (simp add: scr_def px_def py_def)
  ultimately show ?thesis by blast
qed

section \<open>Opening\<close>

lemma path_to_num: "path_to s sp a cs d \<Longrightarrow> num_ok s sp a \<Longrightarrow> num_ok s sp d"
  by (induction rule: path_to.induct) (auto simp: dentry_def)

text \<open>The file system of the state in which the handler runs is the one of the state before.\<close>

lemma entered_fs:
  assumes c: "k_proc s (k_cu s) = Some c"
  shows "node (entered c s) sp n = node s sp n" "num_ok (entered c s) sp n = num_ok s sp n" "disk_blk (entered c s) = disk_blk s"
    "itab_ok s sp \<Longrightarrow> itab_ok (entered c s) sp" "start_of (entered c s) pm p a = start_of s pm p a" "umem (entered c s) = umem s"
    "path_to s sp a cs d \<Longrightarrow> path_to (entered c s) sp a cs d"
proof -
  have k: "k_inode (entered c s) = k_inode s" "k_mnt (entered c s) = k_mnt s" by (simp_all add: entered_def)
  show d: "disk_blk (entered c s) = disk_blk s" by (rule disk_blk_cong) (simp add: entered_def)
  show n: "node (entered c s) sp n = node s sp n" for n by (simp add: node_def in_core_def on_disk_def k d split: option.split)
  show o: "num_ok (entered c s) sp n = num_ok s sp n" for n by (simp add: num_ok_def k)
  show "itab_ok (entered c s) sp" if "itab_ok s sp"
    using that entered_stays(5) [OF c] by (auto simp: itab_ok_def k mounted_def)
  show "start_of (entered c s) pm p a = start_of s pm p a" using c by (simp add: start_of_def entered_def)
  have "walk (entered c s) = walk s" "k_cr3 (entered c s) = k_cr3 s" "k_mem (entered c s) = k_mem s"
    by (simp_all add: entered_def walk_def fun_eq_iff)
  then show "umem (entered c s) = umem s" by (simp add: umem_def get_user_def mmu_def fun_eq_iff cong: if_cong)
  show "path_to (entered c s) sp a cs d" if "path_to s sp a cs d"
    using that
  proof (induction rule: path_to.induct)
    case (here a)
    show ?case by (rule path_to.here)
  next
    case (down a c b cs d)
    then show ?case using n o d by (intro path_to.down [of _ _ a c b]) (simp_all add: dentry_def)
  qed
qed

lemma open_call:
  assumes ok: "itab_ok s sp" and path: "path_at s pathp xs" "path_to s sp a (split_at 0x2F xs) d" "start_of s (umem s pathp) 0 a" "num_ok s sp a"
    and c: "k_proc s (k_cu s) = Some c" "vm_pgd (p_vm c) = k_cr3 s" "scan (\<lambda>i. p_ofile c i = None) 0 NOFILE = Some fd" "scan (\<lambda>i. f_count (k_file s i) = 0) 0 NFILE = Some fp"
    and f: "i_mode (node s sp d) AND S_IFMT = S_IFREG" "i_size (node s sp d) \<le> 0x4000000" "zmaps_ok (as_file s sp d) 0"
  shows "\<exists>t ip. usr_open m tf pathp 0 0 s = Ok (None, int fd) t \<and> file_ready s sp d c fd fp 0 t ip"
proof -
  let ?e = "entered c s" and ?c = "c\<lparr>p_error := 0\<rparr>"
  have inv: "bio_inv s {}" using ok by (simp add: itab_ok_def)
  note e = entered_stays [OF c(1) inv] and n = entered_fs [OF c(1)]
  have k: "k_inode ?e = k_inode s" "k_mnt ?e = k_mnt s" "walk ?e = walk s" "k_cr3 ?e = k_cr3 s"
    by (simp_all add: entered_def walk_def fun_eq_iff)
  have af: "k_inode (as_file ?e sp d) 0 = k_inode (as_file s sp d) 0" "disk_blk (as_file ?e sp d) = disk_blk (as_file s sp d)"
    "same_disk (as_file ?e sp d) t = same_disk (as_file s sp d) t" for t
    by (simp_all add: as_file_fields n same_disk_def)
  have pa: "path_at ?e pathp xs" using path(1) by (simp add: path_at_def n(6) k)
  obtain t ip where t: "do_open (umem s pathp) 0 0 0 ?e = Ok (int fd) t" "file_ready ?e sp d ?c fd fp 0 t ip"
    using do_open_ready [OF n(4) [OF ok] _ n(7) [OF path(2)], of "umem s pathp" 0 0 ?c fd fp 0] path(1,3,4) e(2,6) c(3,4) f n view_cong(3) [OF af(1,2)]
    by (auto simp: path_at_def)
  have "sys_open (tf\<lparr>tf_eax := NR ''open'', tf_ebx := pathp, tf_ecx := 0, tf_edx := 0\<rparr>) ?e = Ok (int fd) t"
    using t(1) user_path_Ok [OF e(6) _ pa] c(2) k(4) n(6) by (simp add: sys_open_def)
  moreover have "k_proc t (k_cu t) \<noteq> None" using t(2) by (auto simp: file_ready_def)
  moreover have "int fd < 2 ^ 31" using c(3) by (simp add: scan_Some_iff)
  ultimately have "usr_open m tf pathp 0 0 s = Ok (None, int fd) t"
    unfolding usr_open_def SYS3_def by (intro stub_Ok [OF c(1) _ routines_cat(1,5)]) simp_all
  moreover have "file_ready s sp d c fd fp 0 t ip" using t(2) e(2,3,4) k af n(1) by (simp add: file_ready_def)
  ultimately show ?thesis by blast
qed

section \<open>The program shows the file\<close>

text \<open>
  C1: \<^verbatim>\<open>cat\<close> shows a file. Let a path in the memory of the process lead to a regular file, in core or on the disk, all of whose bytes have blocks and are characters below 128 other than tabs.
  Let descriptor 0 of the process be the console, with nothing left to show, and the buffer of \<^verbatim>\<open>cat\<close> be in a page that can be written. Then \<^verbatim>\<open>cat\<close>, which enters the kernel by the stubs of its calls, ends, after
  at most two calls of \<^verbatim>\<open>read\<close> more than the file has complete pieces of 32 bytes, and the screen is the one before with the bytes of the file shown on it
  one after the other, each of them once.
\<close>

theorem cat_shows_file:
  assumes ok: "itab_ok s sp" and path: "path_at s pathp xs" "path_to s sp a (split_at 0x2F xs) d" "start_of s (umem s pathp) 0 a" "num_ok s sp a"
    and c: "k_proc s (k_cu s) = Some c" "vm_pgd (p_vm c) = k_cr3 s" "scan (\<lambda>i. p_ofile c i = None) 0 NOFILE = Some fd" "scan (\<lambda>i. f_count (k_file s i) = 0) 0 NFILE = Some fp"
    and f: "i_mode (node s sp d) AND S_IFMT = S_IFREG" "i_size (node s sp d) \<le> 0x4000000" "zmaps_ok (as_file s sp d) 0" "i_nlink (node s sp d) \<noteq> 0"
    and n: "n = unat (i_size (node s sp d))" "mapped (as_file s sp d) 0 0 n" "bs = map (file_byte (as_file s sp d) 0) [0..<n]"
      "\<forall>b\<in>set bs. 0 \<le> schar b \<and> b \<noteq> 9"
    and con: "console s" "writes_to s 0 fp0 ip0" "f_count (k_file s fp0) \<noteq> 0" "i_count (k_inode s ip0) \<noteq> 0"
    and buf: "user_page s buf" and k: "n div 32 + 2 \<le> k"
  shows "\<exists>t. cat k m tf pathp buf s = Ok None t \<and> scr t = fold show_ch bs (scr s)"
proof -
  obtain t ip where o: "usr_open m tf pathp 0 0 s = Ok (None, int fd) t" "bio_inv t {}" "same_disk (as_file s sp d) t" "file_ok t ip"
    and ti: "same_file (k_inode t ip) (k_inode (as_file s sp d) 0)" "i_num (k_inode t ip) = d" "i_flag (k_inode t ip) AND 3 = 0"
      "i_count (k_inode t ip) \<noteq> 0" "k_mnt t = k_mnt s"
    and tf: "k_file t = (k_file s)(fp := (k_file s fp)\<lparr>f_count := 1, f_offset := 0, f_oflag := 0, f_ino := Some ip\<rparr>)"
    and tc: "k_cr3 t = k_cr3 s" "walk t = walk s" "k_tty t = k_tty s" "k_vga t = k_vga s"
    and tq: "\<exists>q. k_proc t (k_cu t) = Some q \<and> p_ofile q = (p_ofile c)(fd \<mapsto> fp) \<and> p_vm q = p_vm c"
    and to: "\<forall>i. i_count (k_inode s i) \<noteq> 0 \<longrightarrow> k_inode s i \<noteq> node s sp d \<longrightarrow> k_inode t i = k_inode s i"
    using open_call [OF ok path c f(1-3), of m tf] unfolding file_ready_def by blast
  obtain q where tp: "k_proc t (k_cu t) = Some q" "p_ofile q = (p_ofile c)(fd \<mapsto> fp)" "p_vm q = p_vm c" using tq by blast
  let ?A = "as_file s sp d"
  have m: "i_mode (k_inode t ip) = i_mode (node s sp d)" "i_size (k_inode t ip) = i_size (node s sp d)" "i_nlink (k_inode t ip) = i_nlink (node s sp d)"
    using ti(1) by (simp_all add: same_file_def as_file_fields)
  have hi: "n \<le> 0x4000000" using f(2) n(1) by (simp add: word_le_nat_alt)
  note view = same_view_bytes [OF o(3) ti(1) f(3) hi n(2)]
  have fd: "fd < NOFILE" "p_ofile c fd = None" using c(3) by (simp_all add: scan_Some_iff)
  have fp: "fp0 \<noteq> fp" using c(4) con(3) by (auto simp: scan_Some_iff)
  have r: "reads_from t fd fp ip" using tp fd(1) tf m f(1) ti(3) o(2,4) view(1) n(1) by (simp add: reads_from_def)
  have "k_inode t ip0 = k_inode s ip0" using to con(2,4) f(1) by (auto simp: writes_to_def)
  moreover have "p_ofile q 0 = Some fp0" using con(2) c(1) tp(2) fd(2) by (auto simp: writes_to_def)
  ultimately have wr: "writes_to t 0 fp0 ip0" using con(2) tf fp tp(1) by (simp add: writes_to_def)
  have ct: "console t" "scr t = scr s" using con(1) tc(3,4) by (simp_all add: console_def vga_inv_def px_def py_def scr_def)
  have pg: "user_page t buf" using buf tp tc(1,2) c(1) by (auto simp: user_page_def)
  have bytes: "file_byte t ip j = file_byte ?A 0 j" if "j < n" for j using view(2) that by simp
  then have bs: "map (file_byte t ip) [0..<n] = bs" by (simp add: n(3))
  have "\<forall>j < n. 0 \<le> schar (file_byte t ip j) \<and> file_byte t ip j \<noteq> 9"
    using n(3,4) bytes by simp
  then obtain u where u: "cat_loop k m tf (of_nat fd) buf t = Ok () u" "stays t u" "scr u = fold show_ch bs (scr s)"
    using loop_shows [OF r wr fp ct(1) pg, of 0 n k m tf] tf m(2) n(1) k ct(2) bs by auto
  have "ino_at t ip (IBLK (k_mnt s sp) d)"
    using ok path_to_num [OF path(2,4)] ti(2,5) o(4) by (auto simp: ino_at_def itab_ok_def mounted_def num_ok_def file_ok_def)
  then have "ino_at u ip (IBLK (k_mnt s sp) d)" using u(2) by (auto simp: stays_def ino_at_def mounted_def)
  moreover have "k_inode u = k_inode t" using u(2) by (simp add: stays_def)
  then have "i_count (k_inode u ip) \<noteq> 0" "i_nlink (k_inode u ip) \<noteq> 0" using ti(4) m(3) f(4) by simp_all
  ultimately obtain v where "usr_close m tf (of_nat fd) u = Ok (None, 0) v" "scr v = scr u"
    using close_call [OF stays_keeps(1) [OF u(2) r]] by blast
  then show ?thesis using o(1) u(1,3) by (simp add: cat_def kop_simps)
qed

section \<open>Witness\<close>

lemma cat_page:
  defines "s \<equiv> root_fs cat_base"
  shows "path_at s KMEM_END [0x2F, 97]" "user_page s (KMEM_END + 64)"
proof -
  have w: "walk s (k_cr3 s) KMEM_END = Some (2, True)" using cat_fs_fields(1) by (simp add: s_def)
  have g: "get_user s (KMEM_END + of_nat k) = Some (((\<lambda>_. 0)(0 := 0x2F, 1 := 97)) k)" if "k < 4096" for k
    using get_user_page [OF order_refl w, of k] that cat_fs_fields(5) by (simp add: POFF_def s_def)
  have "umem s KMEM_END k = ((\<lambda>_. 0)(0 := 0x2F, 1 := 97)) k" if "k < 4096" for k
    using g [OF that] by (simp add: umem_def)
  from this [of 0] this [of 1] this [of "Suc 1"] have "cstr (umem s KMEM_END) 0 [0x2F, 97]" by simp
  moreover have "v = KMEM_END" if "KMEM_END \<le> v" "v \<le> KMEM_END" for v using that by (rule order_antisym [symmetric])
  ultimately show "path_at s KMEM_END [0x2F, 97]" using w by (auto simp: path_at_def POFF_def PG_ADDR_def)
  have "walk s (k_cr3 s) (KMEM_END + 64) = Some (2, True)"
    using w view_same_page(1) [of "KMEM_END + 64" KMEM_END s "k_cr3 s"] by (simp add: PG_ADDR_def)
  then show "user_page s (KMEM_END + 64)"
    using cat_fs_fields(2,6) by (auto simp: user_page_def POFF_def PG_ADDR_def s_def)
qed

theorem cat_shows_file_witness:
  "\<exists>t. cat 2 quiet_machine (call_frame 0 0 0) KMEM_END (KMEM_END + 64) (root_fs cat_base) = Ok None t \<and> px t = 3 \<and> vc_char (k_vga t 0 2) = 65"
proof -
  let ?s = "root_fs cat_base"
  note r = root_fs_Ok [OF cat_base_idle] and rn = root_fs_num [OF cat_base_idle]
  obtain c where c: "k_proc ?s (k_cu ?s) = Some c" "p_ofile c = [0 \<mapsto> 0]" "vm_pgd (p_vm c) = k_cr3 ?s" using cat_fs_fields(2,6) by auto
  have bs: "[65, 65, 65] = map (file_byte (as_file ?s 0 7) 0) [0..<3]" using cat_file(6) by (simp add: numeral_3_eq_3)
  have sc: "px ?s = 0" "py ?s = 0" using cat_fs_fields(4) by (simp_all add: px_def py_def zero_tty_def)
  have con: "console ?s"
    using sc cat_fs_fields(4) by (simp add: console_def vga_inv_def zero_tty_def zero_qbuf_def q_inv_def q_list_def)
  have wr: "writes_to ?s 0 0 5"
    using c r(8) cat_fs_fields(3) by (simp add: writes_to_def tty_inode_def zero_inode_def MAJOR_def MINOR_def)
  have st: "start_of ?s (umem ?s KMEM_END) 0 1" using cat_page(1) by (simp add: start_of_def path_at_def)
  obtain t where t: "cat 2 quiet_machine (call_frame 0 0 0) KMEM_END (KMEM_END + 64) ?s = Ok None t" "scr t = fold show_ch [65, 65, 65] (scr ?s)"
    using cat_shows_file [OF r(1) cat_page(1) cat_path(2) st rn(1) c(1,3) cat_path(4) [OF c(2)] cat_path(5) _ _ _ _ _ _ bs _ con wr _ _ cat_page(2), of 2 quiet_machine "call_frame 0 0 0"]
      cat_file cat_fs_fields(3) r(8) by (auto simp: schar_def tty_inode_def)
  have "px t = sc_col (scr t)" "k_vga t = sc_cell (scr t)" by simp_all
  then have "px t = 3 \<and> vc_char (k_vga t 0 2) = 65"
    unfolding t(2) by (simp add: show_ch_def fit_def at_cursor_def schar_def sc Let_def)
  then show ?thesis using t(1) by blast
qed

end
