(* ===== verification/Blocks.thy ===== *)
theory Blocks
  imports Super
begin

text \<open>
  The block layer as an abstract store. The clients of \<^verbatim>\<open>src/blk/buf.c\<close> read a block into a buffer, change bytes of it, write it and
  release it, with any number of blocks held at a time. The store below has only the contents of the disk and of the held blocks,
  and says which operations a client may ask for: it reads no block that it holds, and releases a block
  only as it is on the disk. The lemmas show that every sequence of operations that the store allows
  runs in the kernel without sleeping or stopping, with the same contents, and keeps the invariant of the cache.
\<close>

section \<open>The store\<close>

record store =
  st_disk :: "uint \<Rightarrow> uchar list"
  st_held :: "uint \<Rightarrow> uchar list option"

datatype bop = B_read uint | B_poke uint nat uchar | B_write uint | B_release uint

fun store_op :: "bop \<Rightarrow> store \<Rightarrow> store option" where
  "store_op (B_read n) \<sigma> = (if blk_ok n \<and> st_held \<sigma> n = None \<and> card (dom (st_held \<sigma>)) < NBUF
     then Some (\<sigma>\<lparr>st_held := (st_held \<sigma>)(n \<mapsto> st_disk \<sigma> n)\<rparr>) else None)"
| "store_op (B_poke n j b) \<sigma> = (case st_held \<sigma> n of
     Some d \<Rightarrow> if j < BLK then Some (\<sigma>\<lparr>st_held := (st_held \<sigma>)(n \<mapsto> d[j := b])\<rparr>) else None | None \<Rightarrow> None)"
| "store_op (B_write n) \<sigma> = (case st_held \<sigma> n of
     Some d \<Rightarrow> Some (\<sigma>\<lparr>st_disk := (st_disk \<sigma>)(n := d)\<rparr>) | None \<Rightarrow> None)"
| "store_op (B_release n) \<sigma> =
     (if st_held \<sigma> n = Some (st_disk \<sigma> n) then Some (\<sigma>\<lparr>st_held := (st_held \<sigma>)(n := None)\<rparr>) else None)"

primrec store_ops :: "bop list \<Rightarrow> store \<Rightarrow> store option" where
  "store_ops [] \<sigma> = Some \<sigma>"
| "store_ops (x # xs) \<sigma> = Option.bind (store_op x \<sigma>) (store_ops xs)"

section \<open>The client\<close>

text \<open>The client keeps the buffer pointer of each block it holds.\<close>

type_synonym handles = "uint \<Rightarrow> bnode option"

fun client_op :: "bop \<Rightarrow> handles \<Rightarrow> handles kop" where
  "client_op (B_read n) h = kbind (bread 0x100 n) (\<lambda>bp. kret (h(n \<mapsto> bp)))"
| "client_op (B_poke n j b) h = kderef ''bp'' (h n) (\<lambda>bp. kthen (kmod (set_data bp (\<lambda>d. d(j := b)))) (kret h))"
| "client_op (B_write n) h = kderef ''bp'' (h n) (\<lambda>bp. kthen (bwrite bp) (kret h))"
| "client_op (B_release n) h = kderef ''bp'' (h n) (\<lambda>bp. kthen (brelse bp) (kret (h(n := None))))"

primrec client_ops :: "bop list \<Rightarrow> handles \<Rightarrow> handles kop" where
  "client_ops [] h = kret h"
| "client_ops (x # xs) h = kbind (client_op x h) (client_ops xs)"

section \<open>Refinement\<close>

definition blk :: "block \<Rightarrow> uchar list" where
  "blk d = map d [0..<BLK]"

lemma length_blk: "length (blk d) = BLK"
  unfolding blk_def length_map by simp

lemma nth_blk: "j < BLK \<Longrightarrow> blk d ! j = d j"
  unfolding blk_def by (subst nth_map) (simp_all del: upt.simps)

lemma blk_eq_iff: "blk d = blk d' \<longleftrightarrow> same_blk d d'"
  by (auto simp: list_eq_iff_nth_eq length_blk nth_blk same_blk_def)

lemma blk_upd: "j < BLK \<Longrightarrow> blk (d(j := b)) = (blk d)[j := b]"
  by (rule nth_equalityI) (simp_all add: length_blk nth_blk nth_list_update)

definition holds :: "kernel \<Rightarrow> handles \<Rightarrow> store \<Rightarrow> bool" where
  "holds s h \<sigma> \<longleftrightarrow> held_inv s (ran h) \<and> finite (dom h) \<and>
     (\<forall>n bp. h n = Some bp \<longrightarrow> blk_ok n \<and> blkno_of s bp = n) \<and>
     (\<forall>n. st_held \<sigma> n = map_option (\<lambda>bp. blk (data_of s bp)) (h n)) \<and>
     (\<forall>n. blk_ok n \<longrightarrow> st_disk \<sigma> n = blk (disk_blk s n))"

lemma holdsD:
  assumes "holds s h \<sigma>"
  shows "held_inv s (ran h)" "finite (dom h)" "h n = Some bp \<Longrightarrow> blk_ok n" "h n = Some bp \<Longrightarrow> blkno_of s bp = n"
    "st_held \<sigma> n = map_option (\<lambda>bp. blk (data_of s bp)) (h n)" "blk_ok n \<Longrightarrow> st_disk \<sigma> n = blk (disk_blk s n)"
    "dom (st_held \<sigma>) = dom h"
  using assms by (auto simp: holds_def dom_def)

text \<open>A block has one handle, since the buffer tells its number.\<close>

lemma holds_unique: "holds s h \<sigma> \<Longrightarrow> h m = Some bp \<Longrightarrow> h n = Some bp \<Longrightarrow> m = n"
  using holdsD(4) by metis

text \<open>A step concerns one block: what it has to show of that block, and that the others stay as they are.\<close>

lemma holds_step:
  assumes h: "holds s h \<sigma>" and i: "held_inv s' (ran h')" and f: "\<And>m. m \<noteq> n \<Longrightarrow> h' m = h m"
    and k: "\<And>m q. m \<noteq> n \<Longrightarrow> h m = Some q \<Longrightarrow> blkno_of s' q = blkno_of s q \<and> data_of s' q = data_of s q"
    and n: "\<And>q. h' n = Some q \<Longrightarrow> blk_ok n \<and> blkno_of s' q = n"
    and st: "\<And>m. m \<noteq> n \<Longrightarrow> st_held \<sigma>' m = st_held \<sigma> m" "st_held \<sigma>' n = map_option (\<lambda>bp. blk (data_of s' bp)) (h' n)"
    and d: "\<And>m. blk_ok m \<Longrightarrow> st_disk \<sigma>' m = blk (disk_blk s' m)"
  shows "holds s' h' \<sigma>'"
proof -
  have "dom h' \<subseteq> insert n (dom h)" using f by (auto simp: dom_def)
  then have "finite (dom h')" using holdsD(2) [OF h] finite_subset by blast
  moreover have "blk_ok m \<and> blkno_of s' q = m" if "h' m = Some q" for m q
    using n [of q] k [of m q] f [of m] holdsD(3,4) [OF h, of m q] that by (cases "m = n") auto
  moreover have "st_held \<sigma>' m = map_option (\<lambda>bp. blk (data_of s' bp)) (h' m)" for m
    using st k [of m] f [of m] holdsD(5) [OF h, of m] by (cases "m = n"; cases "h m") auto
  ultimately show ?thesis using i d by (simp add: holds_def)
qed

lemma room_handles:
  assumes "finite (dom h)" "card (dom h) < NBUF"
  shows "b_room (ran h)"
proof (rule ccontr)
  assume "\<not> b_room (ran h)"
  then have sub: "Buff ` {..<NBUF} \<subseteq> ran h" by (auto simp: b_room_def)
  have r: "ran h = (\<lambda>n. the (h n)) ` dom h" by (force simp: ran_def dom_def)
  have "card (Buff ` {..<NBUF}) = NBUF" by (subst card_image) (auto simp: inj_on_def)
  moreover have "card (Buff ` {..<NBUF}) \<le> card (ran h)" using sub assms(1) by (intro card_mono) (auto simp: r)
  moreover have "card (ran h) \<le> card (dom h)" unfolding r using assms(1) by (rule card_image_le)
  ultimately show False using assms(2) by simp
qed

lemma ran_remove:
  assumes h: "holds s h \<sigma>" "h n = Some bp"
  shows "ran (h(n := None)) = ran h - {bp}"
proof -
  have "ran (h(n := None)) = {q. \<exists>m. m \<noteq> n \<and> h m = Some q}" unfolding ran_def by (auto split: if_splits)
  moreover have "(\<exists>m. m \<noteq> n \<and> h m = Some q) \<longleftrightarrow> (\<exists>m. h m = Some q) \<and> q \<noteq> bp" for q
    using holds_unique [OF h(1) _ h(2)] h(2) by (metis option.inject)
  ultimately show ?thesis unfolding ran_def by blast
qed

lemma read_refines:
  assumes h: "holds s h \<sigma>" and a: "store_op (B_read n) \<sigma> = Some \<sigma>'"
  shows "\<exists>h' s'. client_op (B_read n) h s = Ok h' s' \<and> holds s' h' \<sigma>' \<and> bio_frame s s'"
proof -
  have g: "blk_ok n" "h n = None" "card (dom h) < NBUF" "\<sigma>' = \<sigma>\<lparr>st_held := (st_held \<sigma>)(n \<mapsto> st_disk \<sigma> n)\<rparr>"
    using a holdsD(5,7) [OF h] by (auto split: if_splits)
  have "\<And>b. b \<in> ran h \<Longrightarrow> blkno_of s b \<noteq> n" using holdsD(4) [OF h] g(2) by (fastforce simp: ran_def)
  then obtain bp s' where b: "bread 0x100 n s = Ok bp s'" "held_inv s' (insert bp (ran h))" "bio_frame s s'"
    "disk_blk s' = disk_blk s" "blkno_of s' bp = n" "same_blk (data_of s' bp) (disk_blk s n)"
    "\<forall>j\<in>ran h. blkno_of s' j = blkno_of s j \<and> data_of s' j = data_of s j"
    using bc.rd [OF holdsD(1) [OF h] g(1) room_handles [OF holdsD(2) [OF h] g(3)]] by blast
  have "holds s' (h(n \<mapsto> bp)) \<sigma>'"
  proof (rule holds_step [OF h, where n = n])
    show "held_inv s' (ran (h(n \<mapsto> bp)))" using b(2) ran_map_upd [where m = h and a = n and b = bp, OF g(2)] by simp
    show "st_held \<sigma>' n = map_option (\<lambda>bp. blk (data_of s' bp)) ((h(n \<mapsto> bp)) n)"
      using g(4) b(6) holdsD(6) [OF h g(1)] by (simp add: blk_eq_iff [symmetric])
  qed (use b(4,5,7) g(1,4) holdsD(6) [OF h] in \<open>auto simp: ran_def\<close>)
  then show ?thesis using b(1,3) by (auto simp: kop_simps)
qed

lemma poke_refines:
  assumes h: "holds s h \<sigma>" and a: "store_op (B_poke n j b) \<sigma> = Some \<sigma>'"
  shows "\<exists>h' s'. client_op (B_poke n j b) h s = Ok h' s' \<and> holds s' h' \<sigma>' \<and> bio_frame s s'"
proof -
  obtain bp where g: "h n = Some bp" "j < BLK" "\<sigma>' = \<sigma>\<lparr>st_held := (st_held \<sigma>)(n \<mapsto> (blk (data_of s bp))[j := b])\<rparr>"
    using a holdsD(5) [OF h, of n] by (auto split: option.splits if_splits)
  let ?s = "set_data bp (\<lambda>d. d(j := b)) s"
  have bp: "bp \<in> ran h" using g(1) by (auto simp: ran_def)
  have u: "held_inv ?s (ran h)" "bio_frame s ?s" "disk_blk ?s = disk_blk s" "data_of ?s bp = (data_of s bp)(j := b)"
    "\<forall>q\<in>ran h. blkno_of ?s q = blkno_of s q" "\<forall>q\<in>ran h - {bp}. data_of ?s q = data_of s q"
    using bc.upd [OF holdsD(1) [OF h] bp, of "\<lambda>d. d(j := b)"] by auto
  have "holds ?s h \<sigma>'"
  proof (rule holds_step [OF h u(1), where n = n])
    show "blkno_of ?s q = blkno_of s q \<and> data_of ?s q = data_of s q" if "m \<noteq> n" "h m = Some q" for m q
      using u(5,6) ranI [of h m q] that holds_unique [OF h that(2), of n] g(1) by blast
    show "blk_ok n \<and> blkno_of ?s q = n" if "h n = Some q" for q
      using holdsD(3,4) [OF h that] u(5) that by (auto simp: ran_def)
  qed (use u(3,4) g holdsD(6) [OF h] in \<open>auto simp: blk_upd\<close>)
  then show ?thesis using u(2) g(1) by (auto simp: kop_simps)
qed

lemma write_refines:
  assumes h: "holds s h \<sigma>" and a: "store_op (B_write n) \<sigma> = Some \<sigma>'"
  shows "\<exists>h' s'. client_op (B_write n) h s = Ok h' s' \<and> holds s' h' \<sigma>' \<and> bio_frame s s'"
proof -
  obtain bp where g: "h n = Some bp" "\<sigma>' = \<sigma>\<lparr>st_disk := (st_disk \<sigma>)(n := blk (data_of s bp))\<rparr>"
    using a holdsD(5) [OF h, of n] by (auto split: option.splits)
  have bp: "bp \<in> ran h" "blkno_of s bp = n" using g(1) holdsD(4) [OF h] by (auto simp: ran_def)
  obtain s' where w: "bwrite bp s = Ok () s'" "held_inv s' (ran h)" "bio_frame s s'" "disk_blk s' n = data_of s bp"
    "\<forall>m. blk_ok m \<longrightarrow> m \<noteq> n \<longrightarrow> disk_blk s' m = disk_blk s m" "\<forall>q\<in>ran h. blkno_of s' q = blkno_of s q \<and> data_of s' q = data_of s q"
    using bc.wr [OF holdsD(1) [OF h] bp(1)] bp(2) by auto
  have k: "blkno_of s' q = blkno_of s q \<and> data_of s' q = data_of s q" if "h m = Some q" for m q
    using w(6) that by (auto simp: ran_def)
  have "holds s' h \<sigma>'"
    by (rule holds_step [OF h w(2), where n = n]) (use k w(4,5) g bp(2) holdsD(3,5,6) [OF h] in auto)
  then show ?thesis using w(1,3) g(1) by (auto simp: kop_simps)
qed

lemma release_refines:
  assumes h: "holds s h \<sigma>" and a: "store_op (B_release n) \<sigma> = Some \<sigma>'"
  shows "\<exists>h' s'. client_op (B_release n) h s = Ok h' s' \<and> holds s' h' \<sigma>' \<and> bio_frame s s'"
proof -
  obtain bp where g: "h n = Some bp" "blk (data_of s bp) = st_disk \<sigma> n" "\<sigma>' = \<sigma>\<lparr>st_held := (st_held \<sigma>)(n := None)\<rparr>"
    using a holdsD(5) [OF h, of n] by (auto split: if_splits)
  have bp: "bp \<in> ran h" "same_blk (data_of s bp) (disk_blk s (blkno_of s bp))"
    using g(1,2) holdsD(3,4,6) [OF h] by (auto simp: ran_def blk_eq_iff)
  obtain s' where r: "brelse bp s = Ok () s'" "held_inv s' (ran h - {bp})" "bio_frame s s'" "disk_blk s' = disk_blk s"
    "\<forall>q\<in>ran h - {bp}. blkno_of s' q = blkno_of s q \<and> data_of s' q = data_of s q"
    using bc.rl [OF holdsD(1) [OF h] bp] by blast
  have "holds s' (h(n := None)) \<sigma>'"
  proof (rule holds_step [OF h, where n = n])
    show "held_inv s' (ran (h(n := None)))" using r(2) ran_remove [OF h g(1)] by simp
    show "blkno_of s' q = blkno_of s q \<and> data_of s' q = data_of s q" if "m \<noteq> n" "h m = Some q" for m q
      using r(5) ranI [of h m q] that holds_unique [OF h that(2), of n] g(1) by blast
  qed (use r(4) g holdsD(6) [OF h] in auto)
  then show ?thesis using r(1,3) g(1) by (auto simp: kop_simps)
qed

lemma client_op_refines:
  assumes "holds s h \<sigma>" "store_op x \<sigma> = Some \<sigma>'"
  shows "\<exists>h' s'. client_op x h s = Ok h' s' \<and> holds s' h' \<sigma>' \<and> bio_frame s s'"
  using assms read_refines poke_refines write_refines release_refines by (cases x) simp_all

lemma client_ops_refine:
  "holds s h \<sigma> \<Longrightarrow> store_ops xs \<sigma> = Some \<sigma>' \<Longrightarrow> \<exists>h' s'. client_ops xs h s = Ok h' s' \<and> holds s' h' \<sigma>' \<and> bio_frame s s'"
proof (induction xs arbitrary: s h \<sigma>)
  case Nil
  then show ?case by (auto simp: kop_simps)
next
  case (Cons x xs)
  obtain \<sigma>1 where a: "store_op x \<sigma> = Some \<sigma>1" "store_ops xs \<sigma>1 = Some \<sigma>'"
    using Cons.prems(2) by (auto simp: bind_eq_Some_conv)
  obtain h1 s1 where s1: "client_op x h s = Ok h1 s1" "holds s1 h1 \<sigma>1" "bio_frame s s1"
    using client_op_refines [OF Cons.prems(1) a(1)] by blast
  obtain h' s' where "client_ops xs h1 s1 = Ok h' s'" "holds s' h' \<sigma>'" "bio_frame s1 s'"
    using Cons.IH [OF s1(2) a(2)] by blast
  then show ?case using s1(1) bio_frame_trans [OF s1(3)] by (auto simp: kop_simps)
qed

definition store_of :: "kernel \<Rightarrow> store" where
  "store_of s = \<lparr>st_disk = (\<lambda>n. blk (disk_blk s n)), st_held = Map.empty\<rparr>"

lemma holds_init: "bio_inv s {} \<Longrightarrow> holds s Map.empty (store_of s)"
  by (auto simp: holds_def store_of_def held_inv_def)



end
