(* ===== verification/Dump.thy ===== *)
theory Dump
  imports Boot
begin

text \<open>
  The routines that print structures of the kernel for debugging, each from the file of its component: \<^verbatim>\<open>dump_buf\<close> (\<^verbatim>\<open>src/blk/buf.c\<close>),
  \<^verbatim>\<open>dump_inode\<close> and \<^verbatim>\<open>dump_super\<close> (\<^verbatim>\<open>src/fs/\<close>), \<^verbatim>\<open>dump_vm\<close> (\<^verbatim>\<open>src/mm/vm.c\<close>), \<^verbatim>\<open>dump_proc\<close>, \<^verbatim>\<open>dump_procs\<close>, \<^verbatim>\<open>dump_ahead\<close> and \<^verbatim>\<open>dump_tf\<close>
  (\<^verbatim>\<open>src/kern/\<close>). They return with the cursor on the screen and change nothing else, with two exceptions:
  \<^verbatim>\<open>dump_vm\<close> of an address space without a program file follows a null pointer, and \<^verbatim>\<open>dump_tf\<close> reads behind the table of the names
  of the exceptions for a device interrupt or a system call.
\<close>

section \<open>The routines\<close>

text \<open>A call of \<^verbatim>\<open>printk\<close> with arguments read from the state, for a format without strings.\<close>

definition pk :: "string \<Rightarrow> (kernel \<Rightarrow> uint list) \<Rightarrow> unit kop" where
  "pk fmt args s = printk (\<lambda>_. []) (ascii fmt) (args s) s"

text \<open>The bytes are signed: those from 128 on are printed as negative numbers in eight digits.\<close>

definition dump_byte :: "bnode \<Rightarrow> nat \<Rightarrow> unit kop" where
  "dump_byte bp i s = (let c = b_data (k_buf s bp) i in
     (if 31 < sint c \<and> sint c < 127 then pk ''%c'' (\<lambda>_. [scast c]) else pk ''%x'' (\<lambda>_. [scast c])) s)"

definition dump_buf :: "bnode \<Rightarrow> unit kop" where
  "dump_buf bp = kthen (kfor [0..<255] (dump_byte bp)) (pk [CHR 0x0A] (\<lambda>_. []))"

definition dump_inode :: "nat \<Rightarrow> unit kop" where
  "dump_inode ip =
     kthen (pk (''i_mode:%x'' @ [CHR 0x0A]) (\<lambda>s. [ucast (i_mode (k_inode s ip))]))
    (kthen (pk (''i_uid:%x'' @ [CHR 0x0A]) (\<lambda>s. [ucast (i_uid (k_inode s ip))]))
    (kthen (pk (''i_size:%x'' @ [CHR 0x0A]) (\<lambda>s. [i_size (k_inode s ip)]))
    (kthen (pk (''i_mtime:%x'' @ [CHR 0x0A]) (\<lambda>s. [i_mtime (k_inode s ip)]))
    (kthen (pk (''i_gid:%x'' @ [CHR 0x0A]) (\<lambda>s. [ucast (i_gid (k_inode s ip))]))
    (kthen (pk (''i_nlink:%x'' @ [CHR 0x0A]) (\<lambda>s. [ucast (i_nlink (k_inode s ip))]))
    (kthen (pk (''i_count:%x'' @ [CHR 0x0A]) (\<lambda>s. [ucast (i_count (k_inode s ip))]))
    (kthen (pk (''i_dev:%x'' @ [CHR 0x0A]) (\<lambda>s. [ucast (i_dev (k_inode s ip))]))
    (kthen (pk (''i_num:%x'' @ [CHR 0x0A]) (\<lambda>s. [i_num (k_inode s ip)]))
    (kthen (pk (''i_flag:%x'' @ [CHR 0x0A]) (\<lambda>s. [i_flag (k_inode s ip)]))
    (kfor [0..<9] (\<lambda>i. pk (''i_zone[%d]: %x'' @ [CHR 0x0A]) (\<lambda>s. [of_nat i, ucast (i_zone (k_inode s ip) i)]))))))))))))"

definition dump_super :: "nat \<Rightarrow> unit kop" where
  "dump_super sp =
     kthen (pk (''s_max_inode:%d'' @ [CHR 0x0A]) (\<lambda>s. [ucast (s_max_inode (k_mnt s sp))]))
    (kthen (pk (''s_max_zone:%d'' @ [CHR 0x0A]) (\<lambda>s. [ucast (s_max_zone (k_mnt s sp))]))
    (kthen (pk (''s_nimap_blk:%d'' @ [CHR 0x0A]) (\<lambda>s. [ucast (s_nimap_blk (k_mnt s sp))]))
    (kthen (pk (''s_nzmap_blk:%d'' @ [CHR 0x0A]) (\<lambda>s. [ucast (s_nzmap_blk (k_mnt s sp))]))
    (kthen (pk (''s_zone0:%d'' @ [CHR 0x0A]) (\<lambda>s. [ucast (s_data_zone0 (k_mnt s sp))]))
    (kthen (pk (''s_log_bz:%d'' @ [CHR 0x0A]) (\<lambda>s. [ucast (s_log_bz (k_mnt s sp))]))
    (kthen (pk (''s_max_size:%d'' @ [CHR 0x0A]) (\<lambda>s. [s_max_size (k_mnt s sp)]))
    (pk (''s_magic:%x'' @ [CHR 0x0A]) (\<lambda>s. [ucast (s_magic (k_mnt s sp))]))))))))"

text \<open>The result of \<^verbatim>\<open>dump_ahead\<close> is not set; no caller uses it.\<close>

definition dump_ahead :: "ahead \<Rightarrow> unit kop" where
  "dump_ahead ah =
     kthen (pk (''sizeof(struct ahead): %x'' @ [CHR 0x0A]) (\<lambda>_. [32]))
    (kthen (pk (''a_magic: %x'' @ [CHR 0x0A]) (\<lambda>_. [a_magic ah]))
    (kthen (pk (''a_tsize: %x'' @ [CHR 0x0A]) (\<lambda>_. [a_tsize ah]))
    (kthen (pk (''a_dsize: %x'' @ [CHR 0x0A]) (\<lambda>_. [a_dsize ah]))
    (kthen (pk (''a_bsize: %x'' @ [CHR 0x0A]) (\<lambda>_. [a_bsize ah]))
    (kthen (pk (''a_syms: %x'' @ [CHR 0x0A]) (\<lambda>_. [a_syms ah]))
    (kthen (pk (''a_entry: %x'' @ [CHR 0x0A]) (\<lambda>_. [a_entry ah]))
    (kthen (pk (''a_trsize: %x'' @ [CHR 0x0A]) (\<lambda>_. [a_trsize ah]))
    (pk (''a_drsize: %x'' @ [CHR 0x0A]) (\<lambda>_. [a_drsize ah])))))))))"

text \<open>The numbers of the process states, in the order of \<^verbatim>\<open>inc/proc.h\<close>.\<close>

fun stat_code :: "pstat \<Rightarrow> uint" where
  "stat_code SNONE = 0"
| "stat_code SSLEEP = 1"
| "stat_code SWAIT = 2"
| "stat_code SRUN = 3"
| "stat_code SZOMB = 4"
| "stat_code SSTOP = 5"

text \<open>The only string that \<^verbatim>\<open>printk\<close> gets is the mark of the current process.\<close>

definition dump_proc :: "nat \<Rightarrow> proc \<Rightarrow> unit kop" where
  "dump_proc i p =
     kthen (\<lambda>s. printk (\<lambda>_. ascii (if i = k_cu s then ''-'' else '' '')) (ascii ''%s '') [0] s)
     (pk (''pid:%d pri:%d cpu:%d nice:%d stat:%d esp0:%x eip:%x '' @ [CHR 0x0A])
       (\<lambda>_. [p_pid p, word_of_int (p_pri p), word_of_int (p_cpu p), word_of_int (p_nice p), stat_code (p_stat p),
             jb_esp (p_contxt p), jb_eip (p_contxt p)]))"

definition dump_procs :: "unit kop" where
  "dump_procs = kfor [0..<NPROC] (\<lambda>i s. case k_proc s i of Some p \<Rightarrow> dump_proc i p s | None \<Rightarrow> Ok () s)"

text \<open>The addresses of the structures are arguments, since the linker chooses them.\<close>

definition dump_vm :: "uint \<Rightarrow> (nat option \<Rightarrow> uint) \<Rightarrow> vm \<Rightarrow> unit kop" where
  "dump_vm vp ino_addr v =
     kthen (pk (''vm: %x'' @ [CHR 0x0A]) (\<lambda>_. [vp]))
    (kthen (pk (''vm: ino: %x'' @ [CHR 0x0A]) (\<lambda>_. [ino_addr (v_ino (vm_area v vm_text))]))
    (kderef ''ip'' (v_ino (vm_area v vm_text)) dump_inode))"

definition trap_str :: "string list" where
  "trap_str = [''Division By Zero'', ''Debug'', ''Non Maskable Interrupt'', ''Breakpoint'', ''Into Detected Overflow'',
     ''Out of Bounds'', ''Invalid Opcode'', ''No Coprocessor'', ''Double Fault'', ''Coprocessor Segment Overrun'', ''Bad TSS'',
     ''Segment Not Present'', ''Stack Fault'', ''General Protection Fault'', ''Page Fault'', ''Unknown Interrupt'',
     ''Coprocessor Fault'', ''Alignment Check'', ''Machine Check''] @ replicate 13 ''Reserved''"

definition dump_tf :: "uint \<Rightarrow> uint \<Rightarrow> trap \<Rightarrow> unit kop" where
  "dump_tf cr2 kern_ss tf =
     kthen (pk (''gs = %x, fs = %x, es = %x, ds = %x'' @ [CHR 0x0A]) (\<lambda>_. [tf_gs tf, tf_fs tf, tf_es tf, tf_ds tf]))
    (kthen (pk (''edi = %x, esi = %x, ebp = %x '' @ [CHR 0x0A]) (\<lambda>_. [tf_edi tf, tf_esi tf, tf_ebp tf]))
    (kthen (pk (''ebx = %x, edx = %x, ecx = %x, eax = %x '' @ [CHR 0x0A]) (\<lambda>_. [tf_ebx tf, tf_edx tf, tf_ecx tf, tf_eax tf]))
    (kthen (pk (''int_no = %x, err_code = %x'' @ [CHR 0x0A]) (\<lambda>_. [tf_int_no tf, tf_err_code tf]))
    (kthen (pk (''eip = %x, cs = %x, eflags = %x'' @ [CHR 0x0A]) (\<lambda>_. [tf_eip tf, tf_cs tf, tf_eflags tf]))
    (kthen (pk (''esp = %x, ss = %x '' @ [CHR 0x0A]) (\<lambda>_. [tf_esp tf, tf_ss tf]))
    (kthen (pk ''cr2 = %x, '' (\<lambda>_. [cr2]))
    (kthen (pk (''kern_ss = %x'' @ [CHR 0x0A]) (\<lambda>_. [kern_ss]))
    (if unat (tf_int_no tf) < length trap_str
     then printk (\<lambda>_. ascii (trap_str ! unat (tf_int_no tf))) (ascii ''trap_str: %s'') [0]
     else kstop (Fault ''trap_str'')))))))))"

section \<open>They only print\<close>

definition prints :: "unit kop \<Rightarrow> bool" where
  "prints m \<longleftrightarrow> (\<forall>s. vga_inv s \<longrightarrow> (\<exists>t. m s = Ok () t \<and> vga_inv t \<and> screen_only s t))"

lemma prints_kthen: "prints m \<Longrightarrow> prints m' \<Longrightarrow> prints (kthen m m')"
  unfolding prints_def screen_only_def by (fastforce simp: kop_simps)

lemma prints_kfor: "(\<And>x. x \<in> set xs \<Longrightarrow> prints (f x)) \<Longrightarrow> prints (kfor xs f)"
proof (induction xs)
  case Nil
  then show ?case by (simp add: prints_def kop_simps screen_only_refl)
next
  case (Cons x xs)
  then show ?case by (simp add: prints_kthen)
qed

lemma screen_only_printk: "preserves (screen_only s) (printk strs fmt adx)"
proof (induction strs fmt adx rule: printk.induct)
  case (1 strs adx)
  then show ?case by (simp add: preserves_def kop_simps)
next
  case (2 strs c fmt adx)
  have n: "preserves (screen_only s) (printn n b)" for n b
  proof (induction n b rule: printn.induct)
    case (1 n b)
    moreover have "preserves (screen_only s) (ntab_at m)" for m by (simp add: ntab_at_def preserves_def)
    ultimately show ?case by (subst printn.simps) (auto intro!: preserves_intros screen_only_putch)
  qed
  have p: "preserves (screen_only s) (puts str)" for str
    unfolding puts_def by (rule preserves_kfor) (rule screen_only_putch)
  show ?case
  proof (cases "c = 0x25")
    case False
    then show ?thesis using "2.IH"(1) screen_only_putch by (simp add: preserves_kthen)
  next
    case c: True
    show ?thesis
    proof (cases "fmt = [] \<or> adx = []")
      case True
      then show ?thesis using "2.IH"(2) c by (cases fmt; cases adx) (simp_all add: preserves_basic)
    next
      case False
      then obtain d fmt' a adx' where *: "fmt = d # fmt'" "adx = a # adx'" by (auto simp: neq_Nil_conv)
      have i: "preserves (screen_only s) (printk strs fmt' adx')" using "2.IH"(3) * c by simp
      show ?thesis unfolding * c
        by (simp del: printk.simps(1)) (intro conjI impI preserves_kthen preserves_basic n p i screen_only_putch)
    qed
  qed
qed

lemma prints_printk: "fmt_ok fmt (length adx) \<Longrightarrow> prints (printk strs fmt adx)"
  using runs_printk [of fmt adx strs] preserves_Ok [OF screen_only_printk screen_only_refl] unfolding runs_def prints_def by (metis (full_types) old.unit.exhaust)

lemma prints_pk: "(\<And>s. fmt_ok (ascii fmt) (length (args s))) \<Longrightarrow> prints (pk fmt args)"
  using prints_printk [of "ascii fmt"] unfolding prints_def pk_def by blast

lemmas prints_intros = prints_kthen prints_kfor prints_pk

lemma dump_buf_prints: "prints (dump_buf bp)"
proof -
  have "prints (dump_byte bp i)" for i
    using prints_pk [of "''%c''"] prints_pk [of "''%x''"]
    unfolding prints_def dump_byte_def by (auto simp: ascii_def Let_def)
  then show ?thesis unfolding dump_buf_def by (intro prints_intros) (auto simp: ascii_def)
qed

lemma dump_inode_prints: "prints (dump_inode ip)"
  unfolding dump_inode_def by (intro prints_intros) (simp_all add: ascii_def)

lemma dump_super_prints: "prints (dump_super sp)"
  unfolding dump_super_def by (intro prints_intros) (simp_all add: ascii_def)

lemma dump_ahead_prints: "prints (dump_ahead ah)"
  unfolding dump_ahead_def by (intro prints_intros) (simp_all add: ascii_def)

lemma dump_procs_prints: "prints dump_procs"
proof -
  have "prints (\<lambda>s. printk (f s) (ascii ''%s '') [0] s)" for f
    using prints_printk [of "ascii ''%s ''" "[0]"] unfolding prints_def by (auto simp: ascii_def)
  then have "prints (dump_proc i p)" for i p
    unfolding dump_proc_def by (intro prints_intros) (simp_all add: ascii_def)
  then show ?thesis unfolding dump_procs_def by (intro prints_kfor) (auto simp: prints_def screen_only_refl split: option.split)
qed

lemma dump_vm_prints: "v_ino (vm_area v vm_text) = Some ip \<Longrightarrow> prints (dump_vm vp ino_addr v)"
  unfolding dump_vm_def by (intro prints_intros) (simp_all add: ascii_def kderef_def dump_inode_prints)

lemma dump_tf_prints:
  assumes "tf_int_no tf < 32"
  shows "prints (dump_tf cr2 kern_ss tf)"
proof -
  have "length trap_str = 32" by (simp add: trap_str_def)
  moreover have "prints (printk strs (ascii ''trap_str: %s'') [0])" for strs by (rule prints_printk) (simp add: ascii_def)
  ultimately show ?thesis
    using assms unfolding dump_tf_def by (intro prints_intros) (simp_all add: ascii_def word_less_nat_alt)
qed

text \<open>For an interrupt from 32 on, the text before the name is printed and the read of the name is out of bounds.\<close>

lemma dump_tf_faults:
  assumes "vga_inv s" "32 \<le> tf_int_no tf"
  shows "\<exists>t. dump_tf cr2 kern_ss tf s = Stop (Fault ''trap_str'') t \<and> vga_inv t \<and> screen_only s t"
proof -
  have then_Stop: "\<exists>t. kthen m m' s = Stop e t \<and> vga_inv t \<and> screen_only s t"
    if "vga_inv s" "prints m" "\<And>s. vga_inv s \<Longrightarrow> \<exists>t. m' s = Stop e t \<and> vga_inv t \<and> screen_only s t" for m m' e s
    using that unfolding prints_def screen_only_def by (fastforce simp: kop_simps)
  have l: "length trap_str = 32" by (simp add: trap_str_def)
  show ?thesis unfolding dump_tf_def using assms
    by (intro then_Stop prints_pk) (simp_all add: ascii_def l word_le_nat_alt kop_simps screen_only_refl)
qed

end
