(* ===== verification/Spec2Isabelle.thy ===== *)
theory Spec2Isabelle
  imports Fork Argv Shell Cat Blocks Dump
begin

text \<open>
  A verification library for the fleurix kernel, a small Unix-like system for the i386 written in C.

  \<^bold>\<open>The program.\<close> The sources under \<^verbatim>\<open>src/src/\<close> are a monolithic, non-preemptive kernel. Interrupts and system
  calls enter through one handler (\<^verbatim>\<open>kern/trap.c\<close>) that calls a registered routine, delivers signals and
  reschedules (\<^verbatim>\<open>kern/sched.c\<close>). System calls (\<^verbatim>\<open>kern/sysent.c\<close>, \<^verbatim>\<open>kern/sys1.c\<close> to \<^verbatim>\<open>sys4.c\<close>) reach processes and
  signals (\<^verbatim>\<open>kern/fork.c\<close>, \<^verbatim>\<open>exit.c\<close>, \<^verbatim>\<open>wait.c\<close>, \<^verbatim>\<open>exec.c\<close>, \<^verbatim>\<open>signal.c\<close>) and a Minix file system, which is layered:
  descriptors (\<^verbatim>\<open>fs/open.c\<close>, \<^verbatim>\<open>fcntl.c\<close>, \<^verbatim>\<open>rdwr.c\<close>, \<^verbatim>\<open>link.c\<close>, \<^verbatim>\<open>mount.c\<close>), path names (\<^verbatim>\<open>fs/namei.c\<close>), inodes and zone maps
  (\<^verbatim>\<open>fs/inode.c\<close>, \<^verbatim>\<open>bmap.c\<close>, \<^verbatim>\<open>rdwri.c\<close>), bit maps and super blocks (\<^verbatim>\<open>fs/alloc.c\<close>, \<^verbatim>\<open>super.c\<close>), the buffer cache
  (\<^verbatim>\<open>blk/buf.c\<close>), the disk driver (\<^verbatim>\<open>blk/hd.c\<close>). Memory is reference counted page frames (\<^verbatim>\<open>mm/pm.c\<close>), a
  bucket allocator (\<^verbatim>\<open>mm/malloc.c\<close>), page tables (\<^verbatim>\<open>mm/pte.c\<close>), and address spaces with demand paging and
  copy-on-write (\<^verbatim>\<open>mm/vm.c\<close>, \<^verbatim>\<open>mm/pgfault.c\<close>). The character devices are the screen, the keyboard and the
  terminal (\<^verbatim>\<open>chr/\<close>).

  \<^bold>\<open>The model.\<close> The global variables of the kernel are the fields of one record \<open>kernel\<close> (theory \<open>Kernel\<close>), the structures
  of the headers are records, pointers to table entries are indices, and integers are words of their width
  wherever they can wrap. An operation of the code is a definition of type \<open>'a kop\<close>, that is
  \<open>kernel \<Rightarrow> 'a res\<close>: it returns (\<open>Ok a s\<close>) or stops in a state (\<open>Stop why s\<close>). The reasons to stop are
  \<open>Panic\<close> (a call of \<^verbatim>\<open>panic\<close>), \<open>Fault\<close> (an access outside of an object, through a null or an uninitialised pointer, or to an
  absent user page from inside the kernel), \<open>Slept\<close> (the calling kernel thread gave up the processor; the
  state is the one in which the next process goes on), \<open>Spin\<close> (a loop that only an interrupt or another
  process can end) and \<open>Ret_user\<close> (control passes to the user program). Handlers are composed by \<open>kbind\<close>,
  \<open>kthen\<close> and \<open>kfor\<close> in the order of the code.

  \<^bold>\<open>The theories\<close>, from the bottom up.
  \<^item> \<open>Prelude\<close>: byte and word operations, bounded scans (\<open>scan\<close>), singly linked chains. \<open>Dlist_Ring\<close>: doubly
    linked rings, as the buffer lists are. \<open>Kernel\<close>: data model, monad, and the calculus of \<open>preserves\<close> (an invariant is kept
    on every outcome) and \<open>runs\<close> (an operation returns, and its result satisfies a condition).
  \<^item> \<open>Vga\<close> (\<^verbatim>\<open>chr/vga.c\<close>), \<open>Qbuf\<close> and \<open>Tty\<close> (\<^verbatim>\<open>chr/tty.c\<close>), \<open>Keybd\<close> (\<^verbatim>\<open>chr/keybd.c\<close>): the screen never writes outside of its
    memory; the character queue refines a bounded list; the line discipline refines an editing function on lists;
    a typed line arrives at the reader.
  \<^item> \<open>Sched\<close>, \<open>Signal\<close>, \<open>Timer\<close> (\<^verbatim>\<open>kern/sched.c\<close>, \<^verbatim>\<open>signal.c\<close>, \<^verbatim>\<open>timer.c\<close>): the choice of the best process, the well-formedness of
    the process table as an invariant, permissions of \<^verbatim>\<open>kill\<close>, the clock against the civil calendar.
  \<^item> \<open>Pm\<close>, \<open>Malloc\<close>, \<open>Pte\<close>, \<open>Vm\<close> (\<^verbatim>\<open>mm/\<close>): the free list holds exactly the frames without references; page directories are copied
    with every mapping counted and write-protected; a store after a fork stays in the storing process;
    bounds of the check of user ranges.
  \<^item> \<open>Hd\<close>, \<open>Bio\<close> (\<^verbatim>\<open>blk/\<close>): the buffer cache keeps its rings, its free list and the agreement of clean buffers with
    the disk; reading and writing of blocks in terms of the disk alone. \<open>Blocks\<close>: the block layer refines an abstract store of
    blocks, and its invariant holds after every sequence of operations of its clients.
  \<^item> \<open>Super\<close>, \<open>Inode\<close>, \<open>Namei\<close>, \<open>Path\<close>, \<open>File\<close>, \<open>Rdwr\<close> (\<^verbatim>\<open>fs/\<close>): allocation in bit maps, the inode table, the zone maps as a
    function on block numbers, files as byte sequences, directories, path names as walks through a tree, descriptors.
    \<open>Fileio\<close>: from a path through all these layers to the bytes that a program reads.
  \<^item> \<open>Screen\<close>, \<open>Ucall\<close> (\<^verbatim>\<open>inc/unistd.h\<close>), \<open>Cat\<close> (\<^verbatim>\<open>usr/cat.c\<close>): the screen driver refines an abstract screen; what is written to the terminal
    appears there; the stubs through which programs enter the kernel, and the calls without a handler; and the program \<^verbatim>\<open>cat\<close>, run
    through its stubs and the table of system calls, shows the file of a path.
  \<^item> \<open>Strings\<close> (\<^verbatim>\<open>lib/string.c\<close>, \<^verbatim>\<open>usr/libsys/string.c\<close>): the string routines over byte memories.
  \<^item> \<open>Proc\<close>, \<open>Fork\<close>, \<open>Exec\<close>, \<open>Argv\<close>, \<open>Sys\<close>, \<open>Sigret\<close> (\<^verbatim>\<open>kern/\<close>): exit and wait; what a forked child shares with its parent;
    the arguments of a program in the kernel and on its stack; system calls with their error convention and the identity calls;
    the frame of a signal handler and the way back.
  \<^item> \<open>Seg\<close>, \<open>Boot\<close>, \<open>Init\<close> (\<^verbatim>\<open>kern/seg.c\<close>, \<^verbatim>\<open>trap.c\<close>, \<^verbatim>\<open>main.c\<close>): descriptors, interrupt vectors and controllers, the boot
    sequence with the state it establishes, and process 1. \<open>Dump\<close>: the routines that print structures of all parts, which change
    nothing but the screen.
  \<^item> \<open>Shell\<close> (\<^verbatim>\<open>usr/sh.c\<close>, \<^verbatim>\<open>usr/libsys/printf.c\<close>): the system calls that the shell makes for a line, and formatted output of programs
    against the one of the kernel.

  \<^bold>\<open>Interfaces.\<close> What a client relies on is stated as a locale and interpreted on the definitions of the
  providing theory: the page allocator (\<open>Pm\<close>), the rings of the buffer lists (\<open>Dlist_Ring\<close>), the bounded queue of characters
  (\<open>Qbuf\<close>) and the block layer (\<open>Bio\<close>). The clients use the lemmas of the locales through these interpretations.

  \<^bold>\<open>Bounds and fuel.\<close> Functions over lists of chain length recurse on the list; a loop over a table is
  \<open>kfor\<close> or \<open>scan\<close> over its index range. The search of \<^verbatim>\<open>kmalloc\<close> over buckets takes fuel; a request of a page, the only
  kind the kernel makes, never enters it, so its callers pass 0. The walk of \<^verbatim>\<open>namei\<close> takes as many steps as
  the path has bytes, since each step consumes at least one. An argument vector has at most 1023 pointers,
  which is what its page holds. The loop of \<^verbatim>\<open>cat\<close> takes fuel; two rounds more than the file has pieces of 32 bytes are enough. The wait
  for the disk takes fuel, since a drive may stay busy. The retry loops of \<^verbatim>\<open>getblk\<close>, \<^verbatim>\<open>iget\<close> and \<^verbatim>\<open>getsp\<close> repeat only after a sleep, where the model
  stops with \<open>Slept\<close> (or \<open>Spin\<close> if nothing else can run).

  \<^bold>\<open>Parameters.\<close> Code and data from outside of the C sources are arguments: the machine code of \<^verbatim>\<open>_usigret\<close>, the
  interrupt entry points and return path, the clock chip, keyboard ports, disk status and fault address, the addresses that the linker
  assigns, and the former contents of memory and variables that the code does not initialise.

  \<^bold>\<open>Not modelled.\<close> The assembly files and inline assembly (context switch, entry and return, port access), the programming of the interval timer, the time that the driver waits
  for the disk before a command, and the user programs under \<^verbatim>\<open>usr/\<close> besides the shell, \<^verbatim>\<open>cat\<close> and their library.
  A call that a program makes through its stub returns to it at once: signals and another process on the way back are in \<open>hwint_common\<close>. Kernel code runs without interruption in the model, except
  where it waits: a disk transfer completes when the kernel waits for it.
\<close>

text \<open>
  C15: the system comes up. From the state in which the boot loader leaves the kernel's variables, with a kernel image that ends
  below 128 MB and a clock chip that shows a month, the initialisation of \<^verbatim>\<open>kmain\<close> returns with the cursor on
  the screen and a consistent buffer cache, whose buffers are all free. \<^verbatim>\<open>kspawn(&init)\<close> then makes process 1, a runnable
  child of process 0 that will start at \<^verbatim>\<open>init\<close> on a kernel stack and with a page directory in two pages of their own;
  the page allocator and the process table are well-formed. The idle loop goes on in process 0, whose priority
  is better; the clock interrupt, found through the vectors the boot sequence has set up, returns and
  sets that priority to the one of an ordinary process, and the next call of \<^verbatim>\<open>swtch\<close> runs process 1 in its address space.
\<close>

theorem kmain_starts_init:
  assumes "PPN kend < 0x8000" "0 < cmos_read rtc RTC_MONTH" "cmos_read rtc RTC_MONTH \<le> 12"
    and tf: "tf_int_no tf = 32" "tf_cs tf = 8"
  shows "\<exists>s t p u. kmain_init rtc kend boot_kernel = Ok () s \<and> vga_inv s \<and> bio_inv s {} \<and>
    kspawn junk init_addr s = Ok 1 t \<and> pm_inv t \<and> proc_wf t \<and> k_proc t = [0 \<mapsto> proc0 0, 1 \<mapsto> p] \<and>
    spawned t (proc0 0) 1 init_addr p \<and>
    swtch t = Ok () (t\<lparr>k_runrun := 0\<rparr>) \<and>
    hwint_common m (t_routine (kmain_tables tss gdt idt h tb)) tf (t\<lparr>k_runrun := 0\<rparr>) = Ok tf u \<and>
    swtch u = Stop Slept (u\<lparr>k_runrun := 0, k_cu := 1, k_cr3 := vm_pgd (p_vm p)\<rparr>)"
proof -
  obtain s where s: "kmain_init rtc kend boot_kernel = Ok () s" "vga_inv s" "mm_ready kend s" "bio_inv s {}" "proc0_ready s"
    using kmain_init_runs [OF assms(1-3)] unfolding runs_def by auto
  then obtain t p cm fl d g where t: "kspawn junk init_addr s = Ok 1 t" "spawned t (proc0 0) 1 init_addr p" "pm_inv t"
    "t = s\<lparr>k_coremap := cm, k_pgfree := fl, k_pgd := (k_pgd s)(d := g), k_proc := [0 \<mapsto> proc0 0, 1 \<mapsto> p]\<rparr>"
    using kspawn_boot by blast
  have c: "k_proc t = [0 \<mapsto> proc0 0, 1 \<mapsto> p]" "k_cu t = 0" "k_tick t = 0"
    using t(4) s(5) by (simp_all add: proc0_ready_def)
  have p0: "p_pid (proc0 0) = 0" "p_pri (proc0 0) = 0" "p_cpu (proc0 0) = 0" "p_sig (proc0 0) = 0" "p_nice (proc0 0) = 20"
    by (simp_all add: proc0_def zero_proc_def)
  have p1: "p_pid p = 1" "p_stat p = SRUN" "p_pri p = PUSER" using t(2) by (simp_all add: spawned_def)
  have sw: "proc_wf t" "swtch t = Ok () (t\<lparr>k_runrun := 0\<rparr>)"
    using swtch_two [OF c(1,2) p0(1) p1(1,2)] p0(2) p1(3) by simp_all
  define u where "u = t\<lparr>k_runrun := 0, k_tick := 1, k_proc := [0 \<mapsto> (proc0 0)\<lparr>p_cpu := 1, p_pri := 120\<rparr>, 1 \<mapsto> p]\<rparr>"
  have "hwint_common m (t_routine (kmain_tables tss gdt idt h tb)) tf (t\<lparr>k_runrun := 0\<rparr>) = Ok tf u"
    using timer_interrupt [of "t_routine (kmain_tables tss gdt idt h tb)" tf "t\<lparr>k_runrun := 0\<rparr>" "proc0 0" m] tf c p0
    by (simp add: kmain_tables_fields u_def fun_upd_twist)
  moreover have "swtch u = Stop Slept (u\<lparr>k_runrun := 0, k_cu := 1, k_cr3 := vm_pgd (p_vm p)\<rparr>)"
    using swtch_two(2) [of u "(proc0 0)\<lparr>p_cpu := 1, p_pri := 120\<rparr>" p] c(2) p0(1) p1 by (simp add: u_def)
  ultimately show ?thesis using s(1,2,4) t(1-3) c(1) sw by blast
qed

text \<open>A kernel of one megabyte that is loaded at 1 MB, a clock that shows the third month, and \<^verbatim>\<open>init\<close> at \<^verbatim>\<open>0x101000\<close>.\<close>

theorem kmain_starts_init_witness:
  "\<exists>s t p u v. kmain_init (\<lambda>_. 3) 0x200000 boot_kernel = Ok () s \<and> bio_inv s {} \<and> kspawn zero_proc 0x101000 s = Ok 1 t \<and>
    k_proc t 1 = Some p \<and> jb_eip (p_contxt p) = 0x101000 \<and>
    hwint_common quiet_machine (t_routine (kmain_tables 0x5000 0x6000 0x7000 (\<lambda>n. 0x100000 + 16 * of_nat n) reset_tables))
      ((call_frame 0 0 0)\<lparr>tf_int_no := 32, tf_cs := 8\<rparr>) (t\<lparr>k_runrun := 0\<rparr>) = Ok ((call_frame 0 0 0)\<lparr>tf_int_no := 32, tf_cs := 8\<rparr>) u \<and>
    swtch u = Stop Slept v \<and> k_cu v = 1"
proof -
  have k: "PPN 0x200000 < 0x8000" by (simp add: PPN_def)
  have m: "cmos_read (\<lambda>_. 3) RTC_MONTH = 3" by (simp add: cmos_read_def BCD_TO_BIN_def to_char_def)
  from kmain_starts_init [OF k, of "\<lambda>_. 3" "(call_frame 0 0 0)\<lparr>tf_int_no := 32, tf_cs := 8\<rparr>" zero_proc "0x101000" quiet_machine
      "0x5000" "0x6000" "0x7000" "\<lambda>n. 0x100000 + 16 * of_nat n" reset_tables, unfolded m]
  show ?thesis by (fastforce simp: spawned_def)
qed

end
